(* ===== verification/Prelude.thy ===== *)
theory Prelude
  imports Main "HOL-Library.Word"
begin

text \<open>
  Shared vocabulary of the development: machine integers at the widths of the Rust code,
  byte strings, the writes into a byte buffer that the packet builders use, and the generic
  lemmas on words, lists and association tables that the components share.

  Integers: \<open>u8\<close>, \<open>u16\<close>, \<open>u32\<close>, \<open>u64\<close> are words, so \<open>+\<close> and \<open>-\<close> wrap as
  \<open>wrapping_add\<close>/\<open>wrapping_sub\<close> do; \<open>usize\<close> lengths are \<open>nat\<close>.
\<close>

unbundle bit_operations_syntax

type_synonym u8 = "8 word"
type_synonym u16 = "16 word"
type_synonym u32 = "32 word"
type_synonym u64 = "64 word"
type_synonym bytes = "u8 list"

named_theorems byte_simps "big-endian encodings as natural numbers"
named_theorems fold_simps "one's complement folding"

section \<open>Byte buffers\<close>

text \<open>\<open>put_slice out off xs\<close> is \<open>out[off..off+n].copy_from_slice(xs)\<close>; a single-byte store
  \<open>out[i] = v\<close> is \<open>put_slice out i [v]\<close>. Both are used in range only.\<close>

definition put_slice :: "'a list \<Rightarrow> nat \<Rightarrow> 'a list \<Rightarrow> 'a list" where
  "put_slice out off xs = take off out @ xs @ drop (off + length xs) out"

text \<open>\<open>slice xs a b\<close> is \<open>&xs[a..b]\<close>.\<close>

definition slice :: "'a list \<Rightarrow> nat \<Rightarrow> nat \<Rightarrow> 'a list" where
  "slice xs a b = take (b - a) (drop a xs)"

lemma length_put_slice [simp]:
  "off + length xs \<le> length out \<Longrightarrow> length (put_slice out off xs) = length out"
  by (simp add: put_slice_def)

lemma put_slice_adjacent:
  assumes "off + length xs \<le> length out" and "off' = off + length xs"
  shows "put_slice (put_slice out off xs) off' ys = put_slice out off (xs @ ys)"
  using assms by (simp add: put_slice_def ac_simps)

lemma put_slice_nil [simp]: "put_slice out off [] = out"
  by (simp add: put_slice_def)

lemma put_slice_inside:
  assumes "off + length xs \<le> length out" and "off \<le> k" and "k + length ys \<le> off + length xs"
  shows "put_slice (put_slice out off xs) k ys = put_slice out off (put_slice xs (k - off) ys)"
  using assms by (simp add: put_slice_def)

lemma take_put_slice_0 [simp]:
  "take (length xs) (put_slice out 0 xs) = xs"
  by (simp add: put_slice_def)

lemma put_slice_app_left:
  "k + length ys \<le> length xs \<Longrightarrow> put_slice (xs @ zs) k ys = put_slice xs k ys @ zs"
  by (simp add: put_slice_def)

lemma put_slice_app_right:
  "length xs \<le> k \<Longrightarrow> put_slice (xs @ zs) k ys = xs @ put_slice zs (k - length xs) ys"
  by (simp add: put_slice_def)

lemma length_slice [simp]: "length (slice xs a b) = min (b - a) (length xs - a)"
  by (simp add: slice_def)

lemma nth_slice: "i < b - a \<Longrightarrow> a + i < length xs \<Longrightarrow> slice xs a b ! i = xs ! (a + i)"
  by (simp add: slice_def)

lemma slice_append: "a \<le> b \<Longrightarrow> b \<le> c \<Longrightarrow> slice xs a b @ slice xs b c = slice xs a c"
proof -
  assume ab: "a \<le> b" and bc: "b \<le> c"
  have "take (c - a) (drop a xs) = take (b - a) (drop a xs) @ take (c - b) (drop (b - a) (drop a xs))"
    using ab bc by (metis add.commute le_add_diff_inverse2 Nat.add_diff_assoc2 take_add)
  then show ?thesis using ab by (simp add: slice_def)
qed

section \<open>Big-endian encodings\<close>

text \<open>\<open>be16\<close>, \<open>be32\<close> read a big-endian integer from the front of a slice; \<open>be16_bytes\<close>
  and \<open>be32_bytes\<close> are the bytes that \<open>put_be16\<close>, \<open>put_be32\<close> and \<open>to_be_bytes\<close> store.\<close>

definition be16 :: "bytes \<Rightarrow> u16" where
  "be16 b = push_bit 8 (ucast (b ! 0)) OR ucast (b ! 1)"

definition be32 :: "bytes \<Rightarrow> u32" where
  "be32 b = ((push_bit 24 (ucast (b ! 0)) OR push_bit 16 (ucast (b ! 1))) OR push_bit 8 (ucast (b ! 2)))
            OR ucast (b ! 3)"

definition be16_bytes :: "u16 \<Rightarrow> bytes" where
  "be16_bytes v = [ucast (drop_bit 8 v), ucast v]"

definition be32_bytes :: "u32 \<Rightarrow> bytes" where
  "be32_bytes v = [ucast (drop_bit 24 v), ucast (drop_bit 16 v), ucast (drop_bit 8 v), ucast v]"

definition put_be16 :: "bytes \<Rightarrow> nat \<Rightarrow> u16 \<Rightarrow> bytes" where
  "put_be16 p off v = put_slice p off [ucast (drop_bit 8 v), ucast v]"

definition put_be32 :: "bytes \<Rightarrow> nat \<Rightarrow> u32 \<Rightarrow> bytes" where
  "put_be32 p off v =
     put_slice p off [ucast (drop_bit 24 v), ucast (drop_bit 16 v), ucast (drop_bit 8 v), ucast v]"

lemma put_be16_slice: "put_be16 p off v = put_slice p off (be16_bytes v)"
  by (simp add: put_be16_def be16_bytes_def)

lemma put_be32_slice: "put_be32 p off v = put_slice p off (be32_bytes v)"
  by (simp add: put_be32_def be32_bytes_def)

lemma length_be16_bytes [simp]: "length (be16_bytes v) = 2"
  by (simp add: be16_bytes_def)

lemma length_be32_bytes [simp]: "length (be32_bytes v) = 4"
  by (simp add: be32_bytes_def)

lemma be16_be16_bytes [simp]: "be16 (be16_bytes v @ r) = v"
  unfolding be16_def be16_bytes_def
  by (rule bit_word_eqI) (auto simp: bit_simps not_less)

lemma be16_be16_bytes0 [simp]: "be16 (be16_bytes v) = v"
  using be16_be16_bytes [of v "[]"] by simp

lemma be32_be32_bytes [simp]: "be32 (be32_bytes v @ r) = v"
proof (rule bit_word_eqI)
  fix n :: nat
  assume "n < LENGTH(32)"
  then have "n < 8 \<or> (8 \<le> n \<and> n < 16) \<or> (16 \<le> n \<and> n < 24) \<or> (24 \<le> n \<and> n < 32)"
    by auto
  then show "bit (be32 (be32_bytes v @ r)) n \<longleftrightarrow> bit v n"
    by (elim disjE) (auto simp: be32_def be32_bytes_def bit_simps)
qed

lemma be32_be32_bytes0 [simp]: "be32 (be32_bytes v) = v"
  using be32_be32_bytes [of v "[]"] by simp

lemma be16_bytes_be16 [simp]: "be16_bytes (be16 [a, b]) = [a, b]"
proof -
  have "(ucast (drop_bit 8 (be16 [a, b])) :: u8) = a"
    unfolding be16_def
    by (rule bit_word_eqI) (auto simp: bit_simps not_less dest: bit_imp_le_length)
  moreover have "(ucast (be16 [a, b]) :: u8) = b"
    unfolding be16_def
    by (rule bit_word_eqI) (auto simp: bit_simps not_less dest: bit_imp_le_length)
  ultimately show ?thesis by (simp add: be16_bytes_def)
qed

lemma unat_u8_less: "unat (x :: u8) < 256"
  using unsigned_less [of x, where ?'a = nat] by simp

lemma unat_u16_less: "unat (x :: u16) < 65536"
  using unsigned_less [of x, where ?'a = nat] by simp

lemma unat_u32_less: "unat (x :: u32) < 4294967296"
  using unsigned_less [of x, where ?'a = nat] by simp

lemma unat_u8_le: "unat (x :: u8) \<le> 255"
  using unat_u8_less [of x] by simp

lemma unat_u16_le: "unat (x :: u16) \<le> 65535"
  using unat_u16_less [of x] by simp

lemma unat_ucast_8_16 [simp]: "unat (ucast (x :: u8) :: u16) = unat x"
  using unat_u8_less [of x] by (simp add: unsigned_ucast_eq take_bit_nat_eq_self)

lemma unat_ucast_8_32 [simp]: "unat (ucast (x :: u8) :: u32) = unat x"
  using unat_u8_less [of x] by (simp add: unsigned_ucast_eq take_bit_nat_eq_self)

lemma unat_ucast_16_32 [simp]: "unat (ucast (x :: u16) :: u32) = unat x"
  using unat_u16_less [of x] by (simp add: unsigned_ucast_eq take_bit_nat_eq_self)

lemma unat_be16 [byte_simps]: "unat (be16 b) = 256 * unat (b ! 0) + unat (b ! 1)"
proof -
  have "be16 b = push_bit 8 (ucast (b ! 0)) + ucast (b ! 1)"
    unfolding be16_def
    by (rule disjunctive_add_eq_or [symmetric], rule bit_word_eqI)
       (auto simp: bit_simps not_less dest: bit_imp_le_length)
  then have eq: "be16 b = 256 * ucast (b ! 0) + ucast (b ! 1)"
    by (simp add: push_bit_eq_mult)
  have "256 * unat (b ! 0) + unat (b ! 1) < 65536"
    using unat_u8_less [of "b ! 0"] unat_u8_less [of "b ! 1"] by linarith
  then show ?thesis
    by (simp add: eq unat_word_ariths)
qed

lemma unat_of_nat_u16: "n < 65536 \<Longrightarrow> unat (of_nat n :: u16) = n"
  by (simp add: unat_of_nat)

lemma unat_of_nat_u32: "n < 4294967296 \<Longrightarrow> unat (of_nat n :: u32) = n"
  by (simp add: unat_of_nat)

section \<open>Bit masks\<close>

lemma and_field:
  "x AND push_bit n (mask m) = push_bit n (take_bit m (drop_bit n (x :: 'a :: len word)))"
  by (rule bit_word_eqI) (auto simp: bit_simps)

lemma unat_drop_bit: "unat (drop_bit n (x :: 'a :: len word)) = unat x div 2 ^ n"
  by (subst unsigned_drop_bit_eq) (simp add: drop_bit_eq_div take_bit_nat_eq_self)

end
