(* ===== verification/Ip_Addr.thy ===== *)
theory Ip_Addr
  imports Prelude
begin

text \<open>
  Addresses and flow identities of the userspace NAT: \<open>nat/ip_addr.rs\<close> and
  \<open>nat/flow_key.rs\<close>. An address is a family tag and sixteen bytes, of which a v4 address
  uses the first four; the code's equality compares the used bytes only.
\<close>

datatype family = V4 | V6

record ip_addr =
  family :: family
  addr_bytes :: bytes

definition v4_from_u32_be :: "u32 \<Rightarrow> ip_addr" where
  "v4_from_u32_be be_addr =
     \<lparr>family = V4, addr_bytes = put_slice (replicate 16 0) 0 (be32_bytes be_addr)\<rparr>"

definition v4_from_bytes :: "bytes \<Rightarrow> ip_addr" where
  "v4_from_bytes b = \<lparr>family = V4, addr_bytes = put_slice (replicate 16 0) 0 (take 4 b)\<rparr>"

definition v6_from_bytes :: "bytes \<Rightarrow> ip_addr" where
  "v6_from_bytes b = \<lparr>family = V6, addr_bytes = put_slice (replicate 16 0) 0 (take 16 b)\<rparr>"

definition is_v4 :: "ip_addr \<Rightarrow> bool" where
  "is_v4 a \<longleftrightarrow> family a = V4"

definition is_v6 :: "ip_addr \<Rightarrow> bool" where
  "is_v6 a \<longleftrightarrow> family a = V6"

definition v4_be :: "ip_addr \<Rightarrow> u32" where
  "v4_be a = be32 [addr_bytes a ! 0, addr_bytes a ! 1, addr_bytes a ! 2, addr_bytes a ! 3]"

text \<open>\<open>PartialEq for IpAddr\<close>.\<close>

definition ip_addr_eq :: "ip_addr \<Rightarrow> ip_addr \<Rightarrow> bool" where
  "ip_addr_eq a o' \<longleftrightarrow>
     (if family a \<noteq> family o' then False
      else let n = (if family a = V4 then 4 else 16)
           in take n (addr_bytes a) = take n (addr_bytes o'))"

datatype l4 = Tcp | Udp

text \<open>The discriminants of \<open>enum L4\<close>, as \<open>L4::Tcp as u8\<close> reads them.\<close>

fun l4_u8 :: "l4 \<Rightarrow> u8" where
  "l4_u8 Tcp = 6"
| "l4_u8 Udp = 17"

record flow_key =
  src :: ip_addr
  dst :: ip_addr
  src_port :: u16
  dst_port :: u16
  proto :: l4

section \<open>Well-formed addresses\<close>

text \<open>Sixteen bytes, and the unused tail of a v4 address is zero: the shape that every
  constructor above gives, on which the code's equality is equality of the stored value.\<close>

definition wf_addr :: "ip_addr \<Rightarrow> bool" where
  "wf_addr a \<longleftrightarrow> length (addr_bytes a) = 16 \<and> (family a = V4 \<longrightarrow> drop 4 (addr_bytes a) = replicate 12 0)"

definition v4_octets :: "ip_addr \<Rightarrow> bytes" where
  "v4_octets a = take 4 (addr_bytes a)"

lemma v4_from_bytes_eq:
  "length b \<ge> 4 \<Longrightarrow> v4_from_bytes b = \<lparr>family = V4, addr_bytes = take 4 b @ replicate 12 0\<rparr>"
  by (simp add: v4_from_bytes_def put_slice_def min_def)

lemma wf_v4_from_bytes [simp]: "length b \<ge> 4 \<Longrightarrow> wf_addr (v4_from_bytes b)"
  by (simp add: v4_from_bytes_eq wf_addr_def)

lemma v4_octets_from_bytes [simp]: "length b \<ge> 4 \<Longrightarrow> v4_octets (v4_from_bytes b) = take 4 b"
  by (simp add: v4_from_bytes_eq v4_octets_def)

lemma is_v4_from_bytes [simp]: "is_v4 (v4_from_bytes b)"
  by (simp add: v4_from_bytes_def is_v4_def)

lemma family_v4_from_bytes [simp]: "family (v4_from_bytes b) = V4"
  by (simp add: v4_from_bytes_def)

lemma wf_v6_from_bytes: "length b \<ge> 16 \<Longrightarrow> wf_addr (v6_from_bytes b)"
  by (simp add: v6_from_bytes_def wf_addr_def put_slice_def)

lemma v4_from_bytes_octets:
  assumes "wf_addr a" and "is_v4 a"
  shows "v4_from_bytes (v4_octets a) = a"
proof -
  have "take 4 (addr_bytes a) @ replicate 12 0 = addr_bytes a"
    using assms append_take_drop_id [of 4 "addr_bytes a"] by (simp add: wf_addr_def is_v4_def)
  then show ?thesis
    using assms by (simp add: v4_from_bytes_def v4_octets_def wf_addr_def is_v4_def put_slice_def)
qed

lemma length_v4_octets: "wf_addr a \<Longrightarrow> length (v4_octets a) = 4"
  by (simp add: wf_addr_def v4_octets_def)

lemma ip_addr_eq_wf: "wf_addr a \<Longrightarrow> wf_addr b \<Longrightarrow> ip_addr_eq a b \<longleftrightarrow> a = b"
proof (cases "family a")
  case V4
  assume wf: "wf_addr a" "wf_addr b"
  show ?thesis
  proof
    assume "ip_addr_eq a b"
    with V4 have "family b = V4" "take 4 (addr_bytes a) = take 4 (addr_bytes b)"
      by (auto simp: ip_addr_eq_def split: if_splits)
    with V4 wf have "addr_bytes a = addr_bytes b"
      by (metis append_take_drop_id wf_addr_def)
    with V4 \<open>family b = V4\<close> show "a = b" by simp
  qed (simp add: ip_addr_eq_def)
next
  case V6
  assume wf: "wf_addr a" "wf_addr b"
  with V6 show ?thesis by (auto simp: ip_addr_eq_def wf_addr_def split: if_splits)
qed

lemma four_bytes_cases:
  assumes "length (b :: bytes) = 4"
  obtains p q r s where "b = [p, q, r, s]"
  using assms by (auto simp: numeral_eq_Suc length_Suc_conv)

lemma be32_bytes_v4_be:
  assumes "wf_addr a"
  shows "be32_bytes (v4_be a) = v4_octets a"
proof -
  have "length (take 4 (addr_bytes a)) = 4" using assms by (simp add: wf_addr_def)
  then obtain p q r s where b: "take 4 (addr_bytes a) = [p, q, r, s]"
    by (rule four_bytes_cases)
  have nth: "addr_bytes a ! i = [p, q, r, s] ! i" if "i < 4" for i
    using b that by (metis nth_take)
  have "(ucast (drop_bit 24 (be32 [p, q, r, s])) :: u8) = p"
    unfolding be32_def by (rule bit_word_eqI) (auto simp: bit_simps dest: bit_imp_le_length)
  moreover have "(ucast (drop_bit 16 (be32 [p, q, r, s])) :: u8) = q"
    unfolding be32_def by (rule bit_word_eqI) (auto simp: bit_simps dest: bit_imp_le_length)
  moreover have "(ucast (drop_bit 8 (be32 [p, q, r, s])) :: u8) = r"
    unfolding be32_def by (rule bit_word_eqI) (auto simp: bit_simps dest: bit_imp_le_length)
  moreover have "(ucast (be32 [p, q, r, s]) :: u8) = s"
    unfolding be32_def by (rule bit_word_eqI) (auto simp: bit_simps dest: bit_imp_le_length)
  ultimately show ?thesis
    using b nth [of 0] nth [of 1] nth [of 2] nth [of 3]
    by (simp add: be32_bytes_def v4_be_def v4_octets_def numeral_2_eq_2 numeral_3_eq_3)
qed

end
