(* ===== verification/Checksum.thy ===== *)
theory Checksum
  imports Ip_Addr
begin

text \<open>
  The internet checksum of \<open>nat/ip_packet.rs\<close> (RFC 1071) and its incremental update
  (RFC 1624). The loops are the code's, on 32-bit words with wrapping addition; the lemmas
  relate them to one's complement arithmetic on natural numbers.
\<close>

text \<open>The summation loop of \<open>checksum_partial\<close>: big-endian 16-bit words, an odd last byte
  is the high byte of a word.\<close>

fun csum_words :: "bytes \<Rightarrow> u32 \<Rightarrow> u32" where
  "csum_words (a # b # r) acc = csum_words r (acc + ucast (be16 [a, b]))"
| "csum_words [a] acc = acc + push_bit 8 (ucast a)"
| "csum_words [] acc = acc"

lemma csum_fold_decreases:
  assumes "drop_bit 16 acc \<noteq> (0 :: u32)"
  shows "unat ((acc AND 0xffff) + drop_bit 16 acc) < unat acc"
    and "unat ((acc AND 0xffff) + drop_bit 16 acc) = unat acc mod 65536 + unat acc div 65536"
proof -
  have m: "unat (acc AND 0xffff) = unat acc mod 65536"
  proof -
    have "acc AND 0xffff = take_bit 16 acc"
      by (simp add: take_bit_eq_mask mask_eq_exp_minus_1)
    then have "unat (acc AND 0xffff) = take_bit 16 (unat acc)"
      by (metis unsigned_take_bit_eq)
    then show ?thesis by (simp add: take_bit_eq_mod)
  qed
  have d: "unat (drop_bit 16 acc) = unat acc div 65536"
    by (simp add: unat_drop_bit)
  have nz: "unat acc div 65536 \<noteq> 0"
    using assms d by (metis unat_eq_zero)
  have "unat acc mod 65536 + unat acc div 65536 < 4294967296"
    using unat_u32_less [of acc] by linarith
  then show eq: "unat ((acc AND 0xffff) + drop_bit 16 acc) = unat acc mod 65536 + unat acc div 65536"
    by (simp add: unat_word_ariths m d)
  have "unat acc = unat acc div 65536 * 65536 + unat acc mod 65536" by simp
  then show "unat ((acc AND 0xffff) + drop_bit 16 acc) < unat acc"
    using nz unfolding eq by linarith
qed

text \<open>The carry-folding loop \<open>while sum >> 16 != 0\<close>.\<close>

function csum_fold :: "u32 \<Rightarrow> u32" where
  "csum_fold acc =
     (if drop_bit 16 acc \<noteq> 0 then csum_fold ((acc AND 0xffff) + drop_bit 16 acc) else acc)"
  by pat_completeness auto
termination
  by (relation "measure unat") (auto intro: csum_fold_decreases)

declare csum_fold.simps [simp del]

definition checksum_partial :: "bytes \<Rightarrow> u32 \<Rightarrow> u32" where
  "checksum_partial data seed = csum_fold (csum_words data seed)"

definition checksum_final :: "u32 \<Rightarrow> u16" where
  "checksum_final partial = (NOT (ucast (csum_fold partial))) AND 0xffff"

definition internet_checksum :: "bytes \<Rightarrow> u16" where
  "internet_checksum data = checksum_final (checksum_partial data 0)"

definition l4_checksum :: "ip_addr \<Rightarrow> ip_addr \<Rightarrow> u8 \<Rightarrow> bytes \<Rightarrow> u16" where
  "l4_checksum s d pr l4 =
     (let acc =
        (if is_v4 s then
           let acc = checksum_partial (take 4 (addr_bytes s)) 0;
               acc = checksum_partial (take 4 (addr_bytes d)) acc;
               hdr = [0, pr, of_nat (length l4 div 256), of_nat (length l4)]
           in checksum_partial hdr acc
         else
           let acc = checksum_partial (addr_bytes s) 0;
               acc = checksum_partial (addr_bytes d) acc;
               l4_len = (of_nat (length l4) :: u32);
               tail = [ucast (drop_bit 24 l4_len), ucast (drop_bit 16 l4_len),
                       ucast (drop_bit 8 l4_len), ucast l4_len, 0, 0, 0, pr]
           in checksum_partial tail acc);
        acc = checksum_partial l4 acc
      in checksum_final acc)"

definition csum_update16 :: "u16 \<Rightarrow> u16 \<Rightarrow> u16 \<Rightarrow> u16" where
  "csum_update16 cksum old new =
     NOT (ucast (csum_fold (ucast (NOT cksum) + ucast (NOT old) + ucast new)))"

definition csum_update_addr :: "u16 \<Rightarrow> bytes \<Rightarrow> bytes \<Rightarrow> u16" where
  "csum_update_addr cksum old new =
     (let cksum = csum_update16 cksum (be16 (slice old 0 2)) (be16 (slice new 0 2))
      in csum_update16 cksum (be16 (slice old 2 4)) (be16 (slice new 2 4)))"

section \<open>One's complement sums on natural numbers\<close>

text \<open>\<open>fold16 n\<close> is the representative of \<open>n\<close> modulo 65535 that folding reaches: 0 for
  0, and a value in 1..65535 otherwise.\<close>

definition fold16 :: "nat \<Rightarrow> nat" where
  "fold16 n = (if n = 0 then 0 else (n - 1) mod 65535 + 1)"

fun word_sum :: "bytes \<Rightarrow> nat" where
  "word_sum (a # b # r) = 256 * unat a + unat b + word_sum r"
| "word_sum [a] = 256 * unat a"
| "word_sum [] = 0"

lemma fold16_small [simp]: "n < 65536 \<Longrightarrow> fold16 n = n"
  by (auto simp: fold16_def)

lemma fold16_le: "fold16 n \<le> 65535"
proof -
  have "(n - 1) mod 65535 < 65535" by simp
  then show ?thesis unfolding fold16_def by (simp add: Suc_le_eq)
qed

lemma fold16_eq_0 [simp]: "fold16 n = 0 \<longleftrightarrow> n = 0"
  by (simp add: fold16_def)

lemma fold16_mod: "fold16 n mod 65535 = n mod 65535"
proof (cases n)
  case (Suc m)
  have "(m mod 65535 + 1) mod 65535 = (m + 1) mod 65535" by (rule mod_add_left_eq)
  with Suc show ?thesis by (simp add: fold16_def)
qed simp

text \<open>Two sums fold alike when they are congruent and both zero or both not.\<close>

lemma fold16_unique:
  assumes "m mod 65535 = n mod 65535" and "m = 0 \<longleftrightarrow> n = 0"
  shows "fold16 m = fold16 n"
proof (cases "m = 0")
  case False
  then have mn: "0 < m" "0 < n" using assms(2) by auto
  have "fold16 m mod 65535 = fold16 n mod 65535" using assms(1) by (simp add: fold16_mod)
  moreover have "1 \<le> fold16 m" "fold16 m \<le> 65535" "1 \<le> fold16 n" "fold16 n \<le> 65535"
    using mn fold16_le by (auto simp: fold16_def)
  ultimately show ?thesis
    by (cases "fold16 m = 65535"; cases "fold16 n = 65535") auto
qed (use assms(2) in simp)

lemma fold16_step: "65536 \<le> n \<Longrightarrow> fold16 (n mod 65536 + n div 65536) = fold16 n"
proof (rule fold16_unique)
  assume "65536 \<le> n"
  have "n = n div 65536 * 65536 + n mod 65536" by simp
  then have n: "n = (n mod 65536 + n div 65536) + n div 65536 * 65535" by linarith
  have "((n mod 65536 + n div 65536) + n div 65536 * 65535) mod 65535
      = (n mod 65536 + n div 65536) mod 65535" by (rule mod_mult_self1)
  then show "(n mod 65536 + n div 65536) mod 65535 = n mod 65535"
    using n by simp
  have "1 \<le> n div 65536" using \<open>65536 \<le> n\<close> by linarith
  then show "(n mod 65536 + n div 65536 = 0) = (n = 0)" by auto
qed

lemma drop16_zero: "drop_bit 16 (s :: u32) = 0 \<longleftrightarrow> unat s < 65536"
proof -
  have "drop_bit 16 s = 0 \<longleftrightarrow> unat (drop_bit 16 s) = 0" by (simp add: unat_eq_zero)
  also have "\<dots> \<longleftrightarrow> unat s div 65536 = 0" by (simp add: unat_drop_bit)
  finally show ?thesis by (simp add: div_eq_0_iff)
qed

lemma unat_csum_fold: "unat (csum_fold s) = fold16 (unat s)"
proof (induction s rule: csum_fold.induct)
  case (1 s)
  show ?case
  proof (cases "drop_bit 16 s = 0")
    case True
    then show ?thesis by (simp add: csum_fold.simps [of s] drop16_zero)
  next
    case False
    then have "65536 \<le> unat s" by (simp add: drop16_zero)
    with False 1 show ?thesis
      by (simp add: csum_fold.simps [of s] csum_fold_decreases(2) fold16_step)
  qed
qed

section \<open>The checksum as a folded sum\<close>

lemma word_sum_bound: "word_sum d \<le> 65535 * ((length d + 1) div 2)"
proof (induction d rule: word_sum.induct)
  case (1 a b r)
  have "256 * unat a + unat b \<le> 65535"
    using unat_u8_less [of a] unat_u8_less [of b] by linarith
  with 1 show ?case by simp
next
  case (2 a)
  show ?case using unat_u8_le [of a] by simp
qed simp

lemma word_sum_append: "even (length xs) \<Longrightarrow> word_sum (xs @ ys) = word_sum xs + word_sum ys"
  by (induction xs rule: word_sum.induct) auto

lemma word_sum_replicate_0 [simp]: "word_sum (replicate n 0) = 0"
  by (induction n rule: nat_less_induct) (case_tac n; simp; case_tac nat; simp)

lemma unat_high_byte: "unat (push_bit 8 (ucast (a :: u8)) :: u32) = 256 * unat a"
proof -
  have "256 * unat a < 4294967296" using unat_u8_less [of a] by linarith
  then show ?thesis
    by (simp add: push_bit_eq_mult unat_word_ariths)
qed

lemma unat_csum_words:
  "unat s + word_sum d < 4294967296 \<Longrightarrow> unat (csum_words d s) = unat s + word_sum d"
proof (induction d s rule: csum_words.induct)
  case (1 a b r s)
  have w: "unat (be16 [a, b]) = 256 * unat a + unat b" by (simp add: unat_be16)
  have "unat (s + ucast (be16 [a, b])) = unat s + (256 * unat a + unat b)"
    using "1.prems" by (simp add: unat_word_ariths w)
  with 1 show ?case by simp
next
  case (2 a s)
  then show ?case by (simp add: unat_word_ariths unat_high_byte)
qed simp

lemma unat_checksum_partial:
  assumes "length d \<le> 65536" and "unat s \<le> 65535"
  shows "unat (checksum_partial d s) = fold16 (unat s + word_sum d)"
proof -
  have "65535 * ((length d + 1) div 2) \<le> 65535 * 32768" using assms(1) by simp
  then have "unat s + word_sum d < 4294967296"
    using word_sum_bound [of d] assms(2) by linarith
  then show ?thesis by (simp add: checksum_partial_def unat_csum_fold unat_csum_words)
qed

lemma unat_not16: "unat (NOT (w :: u16)) = 65535 - unat w"
proof -
  have "NOT w = 65535 - w" by (simp add: not_eq_complement)
  moreover have "w \<le> 65535" using unat_u16_le [of w] by (simp add: word_le_nat_alt)
  ultimately show ?thesis by (simp add: unat_sub)
qed

lemma and_ffff16 [simp]: "(w :: u16) AND 0xffff = w"
proof -
  have "(0xffff :: u16) = - 1" by simp
  then show ?thesis by (simp only: and.right_neutral)
qed

lemma unat_ucast_small: "unat (x :: u32) < 65536 \<Longrightarrow> unat (ucast x :: u16) = unat x"
  by (simp add: unsigned_ucast_eq take_bit_nat_eq_self)

lemma unat_ucast_fold: "unat (ucast (csum_fold x) :: u16) = fold16 (unat x)"
  using fold16_le [of "unat x"] by (simp add: unat_ucast_small unat_csum_fold)

lemma unat_checksum_final: "unat (checksum_final p) = 65535 - fold16 (unat p)"
  by (simp add: checksum_final_def unat_not16 unat_ucast_fold)

lemma fold16_idem [simp]: "fold16 (fold16 n) = fold16 n"
  using fold16_le [of n] by simp

lemma fold16_add_left: "fold16 (fold16 m + n) = fold16 (m + n)"
proof (rule fold16_unique)
  show "(fold16 m + n) mod 65535 = (m + n) mod 65535"
    by (metis fold16_mod mod_add_left_eq)
qed simp

lemma unat_internet_checksum:
  "length d \<le> 65536 \<Longrightarrow> unat (internet_checksum d) = 65535 - fold16 (word_sum d)"
  by (simp add: internet_checksum_def unat_checksum_final unat_checksum_partial)

lemma internet_checksum_0_iff:
  "length d \<le> 65536 \<Longrightarrow> internet_checksum d = 0 \<longleftrightarrow> fold16 (word_sum d) = 65535"
  using fold16_le [of "word_sum d"]
  by (simp add: unat_internet_checksum flip: unat_eq_zero)

lemma unat_csum_update16:
  "unat (csum_update16 c m m') = 65535 - fold16 ((65535 - unat c) + (65535 - unat m) + unat m')"
proof -
  have "(65535 - unat c) + (65535 - unat m) + unat m' < 4294967296"
    using unat_u16_less [of m'] by linarith
  then have "unat (ucast (NOT c) + ucast (NOT m) + ucast m' :: u32)
      = (65535 - unat c) + (65535 - unat m) + unat m'"
    by (simp add: unat_word_ariths unat_not16)
  then show ?thesis
    by (simp add: csum_update16_def unat_not16 unat_ucast_fold)
qed

end
