(* ===== verification/Ip_Packet.thy ===== *)
theory Ip_Packet
  imports Checksum
begin

text \<open>
  Raw packet views and builders of \<open>nat/ip_packet.rs\<close>: the IPv4 parser, the TCP and UDP
  header views, \<open>build_tcp\<close> and \<open>build_udp\<close>, and the in-place address rewriting with
  incremental checksum fixup that the kernel-TUN gateway uses. A builder writes into the
  caller's buffer and returns the packet length, 0 for a packet it will not build; the model
  returns the length and the buffer.
\<close>

section \<open>The packet view\<close>

record ip_packet =
  p_data :: bytes
  p_total_len :: nat
  p_l3_hdr_len :: nat
  p_family :: family
  p_proto :: u8
  p_ttl_hops :: u8
  p_ip_id :: u16
  p_frag_off_units :: u16
  p_more_frags :: bool
  p_src :: ip_addr
  p_dst :: ip_addr

definition parse :: "bytes \<Rightarrow> ip_packet option" where
  "parse data =
     (if data = [] then None
      else let v = drop_bit 4 (data ! 0) in
        if v = 4 then
          if length data < 20 then None
          else let ihl = unat ((data ! 0) AND 0x0f);
                   hdr = ihl * 4;
                   total = unat (be16 (slice data 2 4)) in
            if ihl < 5 \<or> hdr > length data \<or> total > length data \<or> total < hdr then None
            else if internet_checksum (take hdr data) \<noteq> 0 then None
            else let flags_off = be16 (slice data 6 8) in
              Some \<lparr>p_data = data,
                    p_total_len = total,
                    p_l3_hdr_len = hdr,
                    p_family = V4,
                    p_proto = data ! 9,
                    p_ttl_hops = data ! 8,
                    p_ip_id = be16 (slice data 4 6),
                    p_frag_off_units = flags_off AND 0x1FFF,
                    p_more_frags = (flags_off AND 0x2000 \<noteq> 0),
                    p_src = v4_from_bytes (slice data 12 16),
                    p_dst = v4_from_bytes (slice data 16 20)\<rparr>
        else None)"

definition l4 :: "ip_packet \<Rightarrow> bytes" where
  "l4 p = slice (p_data p) (p_l3_hdr_len p) (p_total_len p)"

definition l4_len :: "ip_packet \<Rightarrow> nat" where
  "l4_len p = p_total_len p - p_l3_hdr_len p"

text \<open>\<open>u16 * 8\<close>: the units are at most 0x1FFF in a parsed packet, so it does not wrap.\<close>

definition frag_offset_bytes :: "ip_packet \<Rightarrow> u16" where
  "frag_offset_bytes p = p_frag_off_units p * 8"

definition is_fragment :: "ip_packet \<Rightarrow> bool" where
  "is_fragment p \<longleftrightarrow> p_more_frags p \<or> p_frag_off_units p \<noteq> 0"

section \<open>Header views\<close>

definition tcp_src_port :: "bytes \<Rightarrow> u16" where "tcp_src_port p = be16 (slice p 0 2)"
definition tcp_dst_port :: "bytes \<Rightarrow> u16" where "tcp_dst_port p = be16 (slice p 2 4)"
definition tcp_seq :: "bytes \<Rightarrow> u32" where "tcp_seq p = be32 (slice p 4 8)"
definition tcp_ack :: "bytes \<Rightarrow> u32" where "tcp_ack p = be32 (slice p 8 12)"
definition tcp_data_off :: "bytes \<Rightarrow> nat" where "tcp_data_off p = unat (drop_bit 4 (p ! 12)) * 4"
definition tcp_flags :: "bytes \<Rightarrow> u8" where "tcp_flags p = p ! 13"
definition tcp_window :: "bytes \<Rightarrow> u16" where "tcp_window p = be16 (slice p 14 16)"
definition tcp_checksum :: "bytes \<Rightarrow> u16" where "tcp_checksum p = be16 (slice p 16 18)"

definition udp_src_port :: "bytes \<Rightarrow> u16" where "udp_src_port p = be16 (slice p 0 2)"
definition udp_dst_port :: "bytes \<Rightarrow> u16" where "udp_dst_port p = be16 (slice p 2 4)"
definition udp_len :: "bytes \<Rightarrow> u16" where "udp_len p = be16 (slice p 4 6)"
definition udp_payload :: "bytes \<Rightarrow> bytes" where "udp_payload p = drop 8 p"
definition udp_payload_len :: "bytes \<Rightarrow> nat" where
  "udp_payload_len p = (let l = unat (udp_len p) in if l \<ge> 8 then l - 8 else 0)"

definition TCP_FIN :: u8 where "TCP_FIN = 0x01"
definition TCP_SYN :: u8 where "TCP_SYN = 0x02"
definition TCP_RST :: u8 where "TCP_RST = 0x04"
definition TCP_PSH :: u8 where "TCP_PSH = 0x08"
definition TCP_ACK :: u8 where "TCP_ACK = 0x10"

lemmas tcp_flag_defs = TCP_FIN_def TCP_SYN_def TCP_RST_def TCP_PSH_def TCP_ACK_def

lemmas tcp_view_defs = tcp_src_port_def tcp_dst_port_def tcp_seq_def tcp_ack_def
  tcp_data_off_def tcp_flags_def tcp_window_def tcp_checksum_def

lemmas udp_view_defs = udp_src_port_def udp_dst_port_def udp_len_def udp_payload_def
  udp_payload_len_def

section \<open>Builders\<close>

record tcp_build =
  tb_src :: ip_addr
  tb_dst :: ip_addr
  tb_src_port :: u16
  tb_dst_port :: u16
  tb_seq :: u32
  tb_ack :: u32
  tb_flags :: u8
  tb_window :: u16
  tb_options :: bytes
  tb_payload :: bytes

record udp_build =
  ub_src :: ip_addr
  ub_dst :: ip_addr
  ub_src_port :: u16
  ub_dst_port :: u16
  ub_payload :: bytes

definition write_ipv4_header :: "bytes \<Rightarrow> u16 \<Rightarrow> u8 \<Rightarrow> ip_addr \<Rightarrow> ip_addr \<Rightarrow> bytes" where
  "write_ipv4_header out total_len pr s d =
     (let out = put_slice out 0 [0x45];
          out = put_slice out 1 [0];
          out = put_be16 out 2 total_len;
          out = put_slice (put_slice out 4 [0]) 5 [0];
          out = put_slice out 6 [0x40];
          out = put_slice out 7 [0];
          out = put_slice out 8 [64];
          out = put_slice out 9 [pr];
          out = put_slice (put_slice out 10 [0]) 11 [0];
          out = put_slice out 12 (take 4 (addr_bytes s));
          out = put_slice out 16 (take 4 (addr_bytes d));
          cs = internet_checksum (take 20 out)
      in put_be16 out 10 cs)"

definition write_ipv4_header_frag ::
  "bytes \<Rightarrow> u16 \<Rightarrow> u8 \<Rightarrow> ip_addr \<Rightarrow> ip_addr \<Rightarrow> u16 \<Rightarrow> u16 \<Rightarrow> bool \<Rightarrow> bytes" where
  "write_ipv4_header_frag out total_len pr s d ip_id frag_off_units more_fragments =
     (let out = put_slice out 0 [0x45];
          out = put_slice out 1 [0];
          out = put_be16 out 2 total_len;
          out = put_be16 out 4 ip_id;
          flags_off = frag_off_units AND 0x1FFF;
          flags_off = (if more_fragments then flags_off OR 0x2000 else flags_off);
          out = put_be16 out 6 flags_off;
          out = put_slice (put_slice out 8 [64]) 9 [pr];
          out = put_slice (put_slice out 10 [0]) 11 [0];
          out = put_slice out 12 (take 4 (addr_bytes s));
          out = put_slice out 16 (take 4 (addr_bytes d));
          cs = internet_checksum (take 20 out)
      in put_be16 out 10 cs)"

definition build_tcp :: "bytes \<Rightarrow> tcp_build \<Rightarrow> nat \<times> bytes" where
  "build_tcp out b =
     (if \<not> is_v4 (tb_src b) \<or> \<not> is_v4 (tb_dst b) then (0, out)
      else if length (tb_options b) mod 4 \<noteq> 0 then (0, out)
      else let tcp_hdr = 20 + length (tb_options b);
               tcp_seg = tcp_hdr + length (tb_payload b);
               total = 20 + tcp_seg in
        if length out < total then (0, out)
        else if tcp_seg > 0xffff \<or> total > 0xffff then (0, out)
        else
          let tcp = slice out 20 (20 + tcp_seg);
              tcp = put_be16 tcp 0 (tb_src_port b);
              tcp = put_be16 tcp 2 (tb_dst_port b);
              tcp = put_be32 tcp 4 (tb_seq b);
              tcp = put_be32 tcp 8 (tb_ack b);
              tcp = put_slice tcp 12 [of_nat ((tcp_hdr div 4) * 16)];
              tcp = put_slice tcp 13 [tb_flags b];
              tcp = put_be16 tcp 14 (tb_window b);
              tcp = put_slice (put_slice tcp 16 [0]) 17 [0];
              tcp = put_be16 tcp 18 0;
              tcp = (if tb_options b \<noteq> [] then put_slice tcp 20 (tb_options b) else tcp);
              tcp = (if tb_payload b \<noteq> [] then put_slice tcp tcp_hdr (tb_payload b) else tcp);
              cs = l4_checksum (tb_src b) (tb_dst b) (l4_u8 Tcp) tcp;
              tcp = put_be16 tcp 16 cs;
              out = put_slice out 20 tcp;
              out = write_ipv4_header out (of_nat total) (l4_u8 Tcp) (tb_src b) (tb_dst b)
          in (total, out))"

definition build_udp :: "bytes \<Rightarrow> udp_build \<Rightarrow> nat \<times> bytes" where
  "build_udp out b =
     (if \<not> is_v4 (ub_src b) \<or> \<not> is_v4 (ub_dst b) then (0, out)
      else let udp_seg = 8 + length (ub_payload b);
               total = 20 + udp_seg in
        if length out < total then (0, out)
        else if udp_seg > 0xffff \<or> total > 0xffff then (0, out)
        else
          let udp = slice out 20 (20 + udp_seg);
              udp = put_be16 udp 0 (ub_src_port b);
              udp = put_be16 udp 2 (ub_dst_port b);
              udp = put_be16 udp 4 (of_nat udp_seg);
              udp = put_slice (put_slice udp 6 [0]) 7 [0];
              udp = (if ub_payload b \<noteq> [] then put_slice udp 8 (ub_payload b) else udp);
              cs = l4_checksum (ub_src b) (ub_dst b) (l4_u8 Udp) udp;
              cs = (if cs = 0 then 0xffff else cs);
              udp = put_be16 udp 6 cs;
              out = put_slice out 20 udp;
              out = write_ipv4_header out (of_nat total) (l4_u8 Udp) (ub_src b) (ub_dst b)
          in (total, out))"

section \<open>Address rewriting\<close>

text \<open>The packet is mutated in place: on the paths that return \<open>false\<close> after step 2 the
  address and the header checksum have already been rewritten.\<close>

definition rewrite_v4_addr :: "bytes \<Rightarrow> bytes \<Rightarrow> bool \<Rightarrow> bool \<times> bytes" where
  "rewrite_v4_addr pkt new_addr is_src =
     (if length pkt < 20 then (False, pkt)
      else if drop_bit 4 (pkt ! 0) \<noteq> 4 then (False, pkt)
      else let ihl = unat ((pkt ! 0) AND 0x0f) * 4;
               pr = pkt ! 9 in
        if length pkt < ihl then (False, pkt)
        else let addr_off = (if is_src then 12 else 16);
                 old_addr = [pkt ! addr_off, pkt ! (addr_off + 1), pkt ! (addr_off + 2), pkt ! (addr_off + 3)] in
          if old_addr = new_addr then (True, pkt)
          else
            let ip_cksum = be16 (slice pkt 10 12);
                ip_cksum = csum_update_addr ip_cksum old_addr new_addr;
                pkt = put_be16 pkt 10 ip_cksum;
                pkt = put_slice pkt addr_off new_addr;
                l4 = drop ihl pkt in
            if pr = 6 then
              if length l4 < 18 then (False, pkt)
              else let cs = be16 (slice l4 16 18);
                       cs = csum_update_addr cs old_addr new_addr
                   in (True, put_be16 pkt (ihl + 16) cs)
            else if pr = 17 then
              if length l4 < 8 then (False, pkt)
              else let cs = be16 (slice l4 6 8) in
                if cs \<noteq> 0 then
                  let new_cs = csum_update_addr cs old_addr new_addr;
                      new_cs = (if new_cs = 0 then 0xffff else new_cs)
                  in (True, put_be16 pkt (ihl + 6) new_cs)
                else (True, pkt)
            else (True, pkt))"

definition rewrite_v4_src :: "bytes \<Rightarrow> bytes \<Rightarrow> bool \<times> bytes" where
  "rewrite_v4_src pkt new_src = rewrite_v4_addr pkt new_src True"

definition rewrite_v4_dst :: "bytes \<Rightarrow> bytes \<Rightarrow> bool \<times> bytes" where
  "rewrite_v4_dst pkt new_dst = rewrite_v4_addr pkt new_dst False"

end
