(* ===== verification/Dst_Filter.thy ===== *)
theory Dst_Filter
  imports Ip_Addr
begin

text \<open>
  The destination policy of \<open>nat/filter.rs\<close>. The standard library's \<open>Ipv4Addr\<close> and
  \<open>Ipv6Addr\<close> are four octets and eight 16-bit segments; the range tests the code calls on
  them are written out as the standard library documents them.
\<close>

datatype ipv4 = Ipv4 u8 u8 u8 u8

datatype std_ip = StdV4 ipv4 | StdV6 "u16 list"

fun octets :: "ipv4 \<Rightarrow> bytes" where
  "octets (Ipv4 a b c d) = [a, b, c, d]"

text \<open>\<open>Ipv4Addr::from(u32)\<close>: the first octet is the high byte.\<close>

definition ipv4_from_u32 :: "u32 \<Rightarrow> ipv4" where
  "ipv4_from_u32 v = Ipv4 (ucast (drop_bit 24 v)) (ucast (drop_bit 16 v)) (ucast (drop_bit 8 v)) (ucast v)"

fun is_loopback :: "ipv4 \<Rightarrow> bool" where
  "is_loopback (Ipv4 a b c d) \<longleftrightarrow> a = 127"

fun is_private :: "ipv4 \<Rightarrow> bool" where
  "is_private (Ipv4 a b c d) \<longleftrightarrow>
     a = 10 \<or> (a = 172 \<and> b \<ge> 16 \<and> b \<le> 31) \<or> (a = 192 \<and> b = 168)"

fun is_link_local :: "ipv4 \<Rightarrow> bool" where
  "is_link_local (Ipv4 a b c d) \<longleftrightarrow> a = 169 \<and> b = 254"

fun is_broadcast :: "ipv4 \<Rightarrow> bool" where
  "is_broadcast (Ipv4 a b c d) \<longleftrightarrow> a = 255 \<and> b = 255 \<and> c = 255 \<and> d = 255"

fun is_multicast :: "ipv4 \<Rightarrow> bool" where
  "is_multicast (Ipv4 a b c d) \<longleftrightarrow> a \<ge> 224 \<and> a \<le> 239"

fun is_documentation :: "ipv4 \<Rightarrow> bool" where
  "is_documentation (Ipv4 a b c d) \<longleftrightarrow>
     (a = 192 \<and> b = 0 \<and> c = 2) \<or> (a = 198 \<and> b = 51 \<and> c = 100) \<or> (a = 203 \<and> b = 0 \<and> c = 113)"

fun is_cgnat :: "ipv4 \<Rightarrow> bool" where
  "is_cgnat (Ipv4 a b c d) \<longleftrightarrow> a = 100 \<and> (b AND 0xC0) = 64"

definition is_oracle_metadata :: "ipv4 \<Rightarrow> bool" where
  "is_oracle_metadata ip \<longleftrightarrow> octets ip = [192, 0, 0, 192]"

definition is_blocked_v4 :: "ipv4 \<Rightarrow> bool" where
  "is_blocked_v4 ip \<longleftrightarrow>
     octets ip ! 0 = 0
     \<or> is_loopback ip
     \<or> is_private ip
     \<or> is_cgnat ip
     \<or> is_link_local ip
     \<or> is_broadcast ip
     \<or> is_multicast ip
     \<or> is_documentation ip
     \<or> is_oracle_metadata ip"

definition v6_is_unspecified :: "u16 list \<Rightarrow> bool" where
  "v6_is_unspecified s \<longleftrightarrow> s = [0, 0, 0, 0, 0, 0, 0, 0]"

definition v6_is_loopback :: "u16 list \<Rightarrow> bool" where
  "v6_is_loopback s \<longleftrightarrow> s = [0, 0, 0, 0, 0, 0, 0, 1]"

definition v6_is_multicast :: "u16 list \<Rightarrow> bool" where
  "v6_is_multicast s \<longleftrightarrow> (s ! 0) AND 0xff00 = 0xff00"

definition is_link_local_v6 :: "u16 list \<Rightarrow> bool" where
  "is_link_local_v6 s \<longleftrightarrow> (s ! 0) AND 0xffc0 = 0xfe80"

definition is_unique_local_v6 :: "u16 list \<Rightarrow> bool" where
  "is_unique_local_v6 s \<longleftrightarrow> (s ! 0) AND 0xfe00 = 0xfc00"

definition is_blocked_v6 :: "u16 list \<Rightarrow> bool" where
  "is_blocked_v6 s \<longleftrightarrow>
     v6_is_unspecified s
     \<or> v6_is_loopback s
     \<or> v6_is_multicast s
     \<or> is_link_local_v6 s
     \<or> is_unique_local_v6 s"

fun is_blocked_dst :: "std_ip \<Rightarrow> bool" where
  "is_blocked_dst (StdV4 v4) = is_blocked_v4 v4"
| "is_blocked_dst (StdV6 v6) = is_blocked_v6 v6"

text \<open>The SOCKS5-over-QUIC server's guard (\<open>socks5_quic.rs\<close>); the process-global toggle is an
  argument.\<close>

definition ssrf_blocked :: "bool \<Rightarrow> std_ip \<Rightarrow> bool" where
  "ssrf_blocked ssrf_filter_enabled ip \<longleftrightarrow> ssrf_filter_enabled \<and> is_blocked_dst ip"

section \<open>The policy as a list of prefixes\<close>

text \<open>A prefix \<open>(net, len)\<close> covers the addresses that agree with \<open>net\<close> in the first
  \<open>len\<close> bits.\<close>

fun ip_nat :: "ipv4 \<Rightarrow> nat" where
  "ip_nat (Ipv4 a b c d) = ((unat a * 256 + unat b) * 256 + unat c) * 256 + unat d"

definition in_cidr :: "ipv4 \<Rightarrow> ipv4 \<times> nat \<Rightarrow> bool" where
  "in_cidr ip p = (ip_nat ip div 2 ^ (32 - snd p) = ip_nat (fst p) div 2 ^ (32 - snd p))"

definition blocked_prefixes :: "(ipv4 \<times> nat) list" where
  "blocked_prefixes =
    [(Ipv4 0 0 0 0, 8), (Ipv4 127 0 0 0, 8),
     (Ipv4 10 0 0 0, 8), (Ipv4 172 16 0 0, 12), (Ipv4 192 168 0 0, 16),
     (Ipv4 100 64 0 0, 10), (Ipv4 169 254 0 0, 16), (Ipv4 255 255 255 255, 32),
     (Ipv4 224 0 0 0, 4),
     (Ipv4 192 0 2 0, 24), (Ipv4 198 51 100 0, 24), (Ipv4 203 0 113 0, 24),
     (Ipv4 192 0 0 192, 32)]"

lemma u8_eq_unat: "(a = (b :: u8)) = (unat a = unat b)"
  by (simp add: word_unat_eq_iff)

lemma div_steps: "n div 65536 = n div 256 div 256" "n div 16777216 = n div 256 div 256 div 256"
  "n div 1048576 = n div 256 div 256 div 16" "n div 4194304 = n div 256 div 256 div 64"
  "n div 268435456 = n div 256 div 256 div 256 div 16" for n :: nat
  by (simp_all add: div_mult2_eq [symmetric])

lemma div_octets:
  assumes "b < 256" "c < 256" "(d::nat) < 256"
  shows "(((a * 256 + b) * 256 + c) * 256 + d) div 16777216 = a"
    and "(((a * 256 + b) * 256 + c) * 256 + d) div 65536 = a * 256 + b"
    and "(((a * 256 + b) * 256 + c) * 256 + d) div 256 = (a * 256 + b) * 256 + c"
    and "(((a * 256 + b) * 256 + c) * 256 + d) div 268435456 = a div 16"
    and "(((a * 256 + b) * 256 + c) * 256 + d) div 1048576 = (a * 256 + b) div 16"
    and "(((a * 256 + b) * 256 + c) * 256 + d) div 4194304 = (a * 256 + b) div 64"
  using assms by (simp_all add: div_steps)

lemma cgnat_mask: "((b :: u8) AND 0xC0 = 64) = (unat b div 64 = 1)"
proof -
  have c0: "(0xC0 :: u8) = push_bit 6 (mask 2)"
    by (simp add: mask_eq_exp_minus_1 push_bit_eq_mult)
  have "take_bit 2 (drop_bit 6 b) = drop_bit 6 b"
    by (rule bit_word_eqI) (auto simp: bit_simps dest: bit_imp_le_length)
  then have "b AND 0xC0 = push_bit 6 (drop_bit 6 b)"
    by (simp only: c0 and_field)
  moreover have "(push_bit 6 (drop_bit 6 b) = 64) = (drop_bit 6 b = 1)"
  proof
    assume "push_bit 6 (drop_bit 6 b) = 64"
    then have "drop_bit 6 (push_bit 6 (drop_bit 6 b)) = drop_bit 6 (64 :: u8)" by simp
    moreover have "drop_bit 6 (push_bit 6 (drop_bit 6 b)) = drop_bit 6 b"
      by (rule bit_word_eqI) (auto simp: bit_simps dest: bit_imp_le_length)
    ultimately show "drop_bit 6 b = 1" by simp
  qed simp
  moreover have "(drop_bit 6 b = 1) = (unat (drop_bit 6 b) = 1)"
    by (metis unat_1 word_unat_eq_iff)
  ultimately show ?thesis by (simp add: unat_drop_bit)
qed

lemma digit_eq: "(d::nat) < n \<Longrightarrow> (x * n + d = k) = (x = k div n \<and> d = k mod n)"
  by (metis div_less div_mult_self3 add.commute add.right_neutral mod_less mod_mult_self3
      mult_div_mod_eq mult.commute not_less0 gr_implies_not_zero)

lemma div_subnet:
  "(a * 256 + b) div 16 = a * 16 + b div 16" "(a * 256 + b) div 64 = a * 4 + b div 64" for a b :: nat
  by linarith+

lemma cidr_blocked:
  "is_blocked_v4 ip \<longleftrightarrow> list_ex (in_cidr ip) blocked_prefixes"
proof (cases ip)
  case (Ipv4 a b c d)
  note bounds = unat_u8_less [of a] unat_u8_less [of b] unat_u8_less [of c] unat_u8_less [of d]
  have small: "unat b div 16 < 16" "unat b div 64 < 4" using bounds by linarith+
  note div = div_octets [OF bounds(2-4), of "unat a"]
  note digits = bounds(2-4) [THEN digit_eq] small [THEN digit_eq] div_subnet
  have c1: "in_cidr (Ipv4 a b c d) (Ipv4 0 0 0 0, 8) = (unat a = 0)"
    "in_cidr (Ipv4 a b c d) (Ipv4 127 0 0 0, 8) = (unat a = 127)"
    "in_cidr (Ipv4 a b c d) (Ipv4 10 0 0 0, 8) = (unat a = 10)"
    by (simp_all add: in_cidr_def div del: distrib_right_numeral)
  have c2: "in_cidr (Ipv4 a b c d) (Ipv4 172 16 0 0, 12) = (unat a = 172 \<and> unat b div 16 = 1)"
    "in_cidr (Ipv4 a b c d) (Ipv4 192 168 0 0, 16) = (unat a = 192 \<and> unat b = 168)"
    "in_cidr (Ipv4 a b c d) (Ipv4 169 254 0 0, 16) = (unat a = 169 \<and> unat b = 254)"
    "in_cidr (Ipv4 a b c d) (Ipv4 100 64 0 0, 10) = (unat a = 100 \<and> unat b div 64 = 1)"
    by (simp_all add: in_cidr_def div digits del: distrib_right_numeral)
  have c3: "in_cidr (Ipv4 a b c d) (Ipv4 255 255 255 255, 32) =
      (unat a = 255 \<and> unat b = 255 \<and> unat c = 255 \<and> unat d = 255)"
    "in_cidr (Ipv4 a b c d) (Ipv4 192 0 0 192, 32) = (unat a = 192 \<and> unat b = 0 \<and> unat c = 0 \<and> unat d = 192)"
    by (simp_all add: in_cidr_def digits del: distrib_right_numeral)
  have c4: "in_cidr (Ipv4 a b c d) (Ipv4 224 0 0 0, 4) = (unat a div 16 = 14)"
    by (simp add: in_cidr_def div del: distrib_right_numeral)
  have c5: "in_cidr (Ipv4 a b c d) (Ipv4 192 0 2 0, 24) = (unat a = 192 \<and> unat b = 0 \<and> unat c = 2)"
    "in_cidr (Ipv4 a b c d) (Ipv4 198 51 100 0, 24) = (unat a = 198 \<and> unat b = 51 \<and> unat c = 100)"
    "in_cidr (Ipv4 a b c d) (Ipv4 203 0 113 0, 24) = (unat a = 203 \<and> unat b = 0 \<and> unat c = 113)"
    by (simp_all add: in_cidr_def div digits del: distrib_right_numeral)
  have r: "unat b div 16 = 1 \<longleftrightarrow> 16 \<le> unat b \<and> unat b \<le> 31"
    "unat a div 16 = 14 \<longleftrightarrow> 224 \<le> unat a \<and> unat a \<le> 239" by linarith+
  have "is_blocked_v4 ip = (unat a = 0 \<or> unat a = 127 \<or> unat a = 10
      \<or> unat a = 172 \<and> unat b div 16 = 1 \<or> unat a = 192 \<and> unat b = 168
      \<or> unat a = 100 \<and> unat b div 64 = 1 \<or> unat a = 169 \<and> unat b = 254
      \<or> unat a = 255 \<and> unat b = 255 \<and> unat c = 255 \<and> unat d = 255 \<or> unat a div 16 = 14
      \<or> unat a = 192 \<and> unat b = 0 \<and> unat c = 2 \<or> unat a = 198 \<and> unat b = 51 \<and> unat c = 100
      \<or> unat a = 203 \<and> unat b = 0 \<and> unat c = 113
      \<or> unat a = 192 \<and> unat b = 0 \<and> unat c = 0 \<and> unat d = 192)"
    unfolding is_blocked_v4_def Ipv4 r
    by (simp add: is_oracle_metadata_def cgnat_mask [unfolded u8_eq_unat, simplified]
        u8_eq_unat word_le_nat_alt)
  then show ?thesis
    by (simp only: Ipv4 blocked_prefixes_def list_ex_Cons_iff list_ex_Nil_iff c1 c2 c3 c4 c5 simp_thms)
qed

section \<open>Properties\<close>

text \<open>C33. The v4 destination test blocks exactly the union of the documented prefixes: this
  network, loopback, the three private ranges, CGNAT, link-local with cloud metadata,
  broadcast, multicast, the three documentation ranges and Oracle's metadata address.\<close>

theorem is_blocked_v4_prefixes:
  "is_blocked_v4 ip \<longleftrightarrow> list_ex (in_cidr ip) blocked_prefixes"
  by (rule cidr_blocked)

text \<open>An IPv4-mapped IPv6 address \<open>::ffff:a.b.c.d\<close>.\<close>

fun v4_mapped :: "ipv4 \<Rightarrow> u16 list" where
  "v4_mapped (Ipv4 a b c d) = [0, 0, 0, 0, 0, 0xffff, be16 [a, b], be16 [c, d]]"

text \<open>The v6 test does not look inside IPv4-mapped addresses: whatever the embedded v4
  address, the mapped form passes the SSRF guard, although the v4 form of loopback and of the
  cloud metadata address is refused.\<close>

theorem v4_mapped_passes_ssrf_guard:
  "\<not> ssrf_blocked True (StdV6 (v4_mapped ip))
   \<and> ssrf_blocked True (StdV4 (Ipv4 127 0 0 1)) \<and> ssrf_blocked True (StdV4 (Ipv4 169 254 169 254))"
  by (cases ip)
     (simp add: ssrf_blocked_def is_blocked_v6_def v6_is_unspecified_def v6_is_loopback_def
       v6_is_multicast_def is_link_local_v6_def is_unique_local_v6_def is_blocked_v4_def)

end
