(* ===== verification/Nat_Env.thy ===== *)
theory Nat_Env
  imports Ip_Packet Dst_Filter
begin

text \<open>
  What the NAT code sees of the outside: the millisecond clock, the outbound packet callback,
  and the host sockets behind mio. Each is an oracle in the record \<open>world\<close>: the clock's
  reading at its k-th call, the callback's answer for the k-th packet, and for every socket a
  script of answers to its \<open>read\<close>, \<open>write\<close>, \<open>send\<close> and \<open>recv\<close> calls. A socket whose
  script is used up answers \<open>WouldBlock\<close>. The record also logs what the code did: the packets
  it handed to the callback and the system calls it made, oldest first.

  The packet counters are those the per-flow callback of \<open>NatDispatcher::make_flow_emit\<close>
  bumps, and \<open>w_rwnd_scale\<close> is the atomic that the dispatcher shares with its sessions.
\<close>

type_synonym sock = nat

datatype rd_result = ROk bytes | RWouldBlock | RInterrupted | RErr
datatype wr_result = WOk nat | WWouldBlock | WInterrupted | WErr
datatype so_error = SoNone | SoSome | SoErr
datatype interest = Readable | Writable | ReadWrite

datatype syscall =
    SysTcpConnect ipv4 u16
  | SysUdpBind
  | SysUdpConnect ipv4 u16
  | SysRegister sock interest
  | SysReregister sock interest
  | SysDeregister sock
  | SysTakeError sock
  | SysRead sock
  | SysWrite sock bytes
  | SysShutdownWrite sock

record world =
  w_clock :: "nat \<Rightarrow> u32"
  w_ticks :: nat
  w_accept :: "nat \<Rightarrow> bool"
  w_sent :: "bytes list"
  w_tx_pkts :: u64
  w_tx_bytes :: u64
  w_udp_tx_pkts :: u64
  w_rwnd_scale :: u16
  w_debug :: bool
  w_calls :: "syscall list"
  w_connect_ok :: "nat \<Rightarrow> bool"
  w_udp_connect :: "nat \<Rightarrow> wr_result"
  w_so_error :: "nat \<Rightarrow> so_error"
  w_next_sock :: sock
  w_reads :: "sock \<Rightarrow> rd_result list"
  w_writes :: "sock \<Rightarrow> wr_result list"
  w_ip_id :: u16

text \<open>\<open>now_ms\<close> (\<open>nat/mod.rs\<close>): the next reading of the clock.\<close>

definition w_now :: "world \<Rightarrow> u32 \<times> world" where
  "w_now w = (w_clock w (w_ticks w), w\<lparr>w_ticks := Suc (w_ticks w)\<rparr>)"

definition w_call :: "syscall \<Rightarrow> world \<Rightarrow> world" where
  "w_call c w = w\<lparr>w_calls := w_calls w @ [c]\<rparr>"

text \<open>The per-flow emit closure (\<open>NatDispatcher::make_flow_emit\<close>): count the packet, count
  it again as UDP when it is an IPv4 packet with protocol 17, then hand it to the outer
  callback and return its answer.\<close>

definition flow_emit :: "bytes \<Rightarrow> world \<Rightarrow> bool \<times> world" where
  "flow_emit pkt w =
     (let w = w\<lparr>w_tx_pkts := w_tx_pkts w + 1, w_tx_bytes := w_tx_bytes w + of_nat (length pkt)\<rparr>;
          w = (if length pkt \<ge> 10 \<and> drop_bit 4 (pkt ! 0) = 4 \<and> pkt ! 9 = l4_u8 Udp
               then w\<lparr>w_udp_tx_pkts := w_udp_tx_pkts w + 1\<rparr> else w)
      in (w_accept w (length (w_sent w)), w\<lparr>w_sent := w_sent w @ [pkt]\<rparr>))"

text \<open>The destinations of the connections in a call log.\<close>

fun connect_dst :: "syscall \<Rightarrow> ipv4 option" where
  "connect_dst (SysTcpConnect ip port) = Some ip"
| "connect_dst (SysUdpConnect ip port) = Some ip"
| "connect_dst _ = None"

definition dials_allowed :: "syscall list \<Rightarrow> bool" where
  "dials_allowed cs \<longleftrightarrow> (\<forall>c \<in> set cs. \<forall>ip. connect_dst c = Some ip \<longrightarrow> \<not> is_blocked_v4 ip)"

lemma dials_allowed_Nil [simp]: "dials_allowed []"
  by (simp add: dials_allowed_def)

lemma dials_allowed_append [simp]: "dials_allowed (xs @ ys) \<longleftrightarrow> dials_allowed xs \<and> dials_allowed ys"
  by (auto simp: dials_allowed_def)

lemma dials_allowed_Cons [simp]:
  "dials_allowed (c # cs) \<longleftrightarrow> (\<forall>ip. connect_dst c = Some ip \<longrightarrow> \<not> is_blocked_v4 ip) \<and> dials_allowed cs"
  by (auto simp: dials_allowed_def)

lemma w_now_simps [simp]:
  "fst (w_now w) = w_clock w (w_ticks w)" "snd (w_now w) = w\<lparr>w_ticks := Suc (w_ticks w)\<rparr>"
  by (simp_all add: w_now_def)

text \<open>A quiet world for concrete runs: the clock stands at 1000 ms, the callback accepts
  everything, connects succeed and the sockets have nothing to say.\<close>

definition sample_world :: world where
  "sample_world = \<lparr>w_clock = (\<lambda>_. 1000), w_ticks = 0, w_accept = (\<lambda>_. True), w_sent = [],
     w_tx_pkts = 0, w_tx_bytes = 0, w_udp_tx_pkts = 0, w_rwnd_scale = 1000, w_debug = False, w_calls = [],
     w_connect_ok = (\<lambda>_. True), w_udp_connect = (\<lambda>_. WOk 0), w_so_error = (\<lambda>_. SoNone),
     w_next_sock = 7, w_reads = (\<lambda>_. []), w_writes = (\<lambda>_. []), w_ip_id = 0\<rparr>"

end
