(* ===== verification/Tcp_Types.thy ===== *)
theory Tcp_Types
  imports Nat_Env
begin

text \<open>
  Data of the per-flow TCP state machine (\<open>nat/tcp_session.rs\<close>): constants, states,
  sequence arithmetic, the option parser, and the session record with the fields of
  \<open>struct TcpSession\<close> in their order. The \<open>emit\<close> closure and the shared window scale are
  reached through the \<open>io\<close> field, which the dispatcher lends to the session for a call.
\<close>

definition OWN_MSS :: u16 where "OWN_MSS = 960"
definition TO_CLIENT_HIGH_WATER :: nat where "TO_CLIENT_HIGH_WATER = 256 * 1024"
definition TO_CLIENT_LOW_WATER :: nat where "TO_CLIENT_LOW_WATER = 128 * 1024"
definition MAX_OOO_BYTES :: nat where "MAX_OOO_BYTES = 256 * 1024"
definition GLOBAL_RWND_SCALE_FULL :: u16 where "GLOBAL_RWND_SCALE_FULL = 1000"

datatype tcp_state =
  Closed | Listen | SynSent | SynRcvd | Established
  | FinWait1 | FinWait2 | CloseWait | Closing | LastAck | TimeWait

section \<open>Sequence numbers and timers\<close>

definition seq_lt :: "u32 \<Rightarrow> u32 \<Rightarrow> bool" where
  "seq_lt a b \<longleftrightarrow> sint (a - b) < 0"

definition seq_le :: "u32 \<Rightarrow> u32 \<Rightarrow> bool" where
  "seq_le a b \<longleftrightarrow> sint (a - b) \<le> 0"

definition time_after :: "u32 \<Rightarrow> u32 \<Rightarrow> bool" where
  "time_after now deadline \<longleftrightarrow> sint (now - deadline) \<ge> 0"

section \<open>Options\<close>

record parsed_opts =
  o_mss :: u16
  o_sack_ok :: bool
  o_ws_ok :: bool
  o_wscale :: u8
  o_ts_present :: bool
  o_ts_val :: u32
  o_ts_ecr :: u32

definition no_opts :: parsed_opts where
  "no_opts = \<lparr>o_mss = 0, o_sack_ok = False, o_ws_ok = False, o_wscale = 0,
              o_ts_present = False, o_ts_val = 0, o_ts_ecr = 0\<rparr>"

text \<open>The \<open>match kind\<close> of \<open>parse_options\<close> on one option \<open>opt\<close>, the bytes
  \<open>opts[i..i+olen]\<close>.\<close>

definition parse_option :: "bytes \<Rightarrow> parsed_opts \<Rightarrow> parsed_opts" where
  "parse_option opt r =
     (let kind = opt ! 0; olen = length opt in
      if kind = 2 \<and> olen = 4 then r\<lparr>o_mss := be16 (slice opt 2 4)\<rparr>
      else if kind = 3 \<and> olen = 3 then r\<lparr>o_ws_ok := True, o_wscale := min (opt ! 2) 14\<rparr>
      else if kind = 4 \<and> olen = 2 then r\<lparr>o_sack_ok := True\<rparr>
      else if kind = 8 \<and> olen = 10
        then r\<lparr>o_ts_present := True, o_ts_val := be32 (slice opt 2 6), o_ts_ecr := be32 (slice opt 6 10)\<rparr>
      else r)"

text \<open>The option walk shared by \<open>parse_options\<close> and \<open>parse_sack_blocks\<close>: the loop over the
  index \<open>i\<close> with its breaks, as a recursion on the remaining bytes; \<open>f\<close> is the loop body on
  one option.\<close>

function walk_opts :: "(bytes \<Rightarrow> 'a \<Rightarrow> 'a) \<Rightarrow> bytes \<Rightarrow> 'a \<Rightarrow> 'a" where
  "walk_opts f opts acc =
     (if opts = [] then acc
      else if opts ! 0 = 0 then acc
      else if opts ! 0 = 1 then walk_opts f (drop 1 opts) acc
      else if length opts \<le> 1 then acc
      else let olen = unat (opts ! 1) in
        if olen < 2 \<or> olen > length opts then acc
        else walk_opts f (drop olen opts) (f (take olen opts) acc))"
  by pat_completeness auto
termination
  by (relation "measure (\<lambda>(f, opts, acc). length opts)") auto

declare walk_opts.simps [simp del]

definition parse_options :: "bytes \<Rightarrow> parsed_opts" where
  "parse_options opts = walk_opts parse_option opts no_opts"

section \<open>The session\<close>

record out_seg =
  g_seq :: u32
  g_flags :: u8
  g_sent_ms :: u32
  g_retransmitted :: bool
  g_sacked :: bool
  g_data :: bytes
  g_options :: bytes

record ooo_seg =
  q_seq :: u32
  q_data :: bytes

record tcp_session =
  key :: flow_key
  io :: world
  state :: tcp_state
  snd_una :: u32
  snd_nxt :: u32
  snd_wnd :: u32
  rcv_nxt :: u32
  rcv_wnd :: u32
  adv_wnd :: u32
  peer_mss :: u16
  peer_sack_ok :: bool
  peer_ws_ok :: bool
  peer_wscale :: u8
  own_wscale :: u8
  peer_ts_ok :: bool
  ts_recent :: u32
  ts_clock_base :: u32
  tsval_at_rto :: u32
  cwnd_pre_rto :: u32
  ssthresh_pre_rto :: u32
  cur_tsecr_present :: bool
  cur_tsecr :: u32
  host :: "sock option"
  host_token :: "sock option"
  host_read_eof :: bool
  host_writable :: bool
  host_wr_shut :: bool
  host_pollin_paused :: bool
  sent_fin :: bool
  to_host :: bytes
  to_host_off :: nat
  to_client :: bytes
  to_client_off :: nat
  retx :: "out_seg list"
  sacked_bytes :: u32
  ooo :: "ooo_seg list"
  ooo_bytes :: nat
  rto_ms :: u32
  rto_deadline_ms :: u32
  rto_retries :: u8
  srtt :: u32
  rttvar :: u32
  rtt_init :: bool
  cwnd :: u32
  ssthresh :: u32
  last_ack_seen :: u32
  dup_ack_count :: u8
  in_recovery :: bool
  recovery_point :: u32
  last_head_retx_ms :: u32
  prr_delivered :: u32
  prr_out :: u32
  recover_fs :: u32
  sacked_at_segment_start :: u32
  rack_xmit_ts :: u32
  rack_end_seq :: u32
  rack_rtt :: u32
  rack_reo_wnd :: u32
  rack_dsack_seen :: bool
  rack_inited :: bool
  rack_deadline_ms :: u32
  zwp_deadline_ms :: u32
  zwp_interval_ms :: u32
  tlp_deadline_ms :: u32
  time_wait_deadline_ms :: u32
  last_stall_log_ms :: u32

definition tcp_new :: "flow_key \<Rightarrow> world \<Rightarrow> tcp_session" where
  "tcp_new k w = \<lparr>
     key = k, io = w, state = Closed,
     snd_una = 0, snd_nxt = 0, snd_wnd = 0,
     rcv_nxt = 0, rcv_wnd = 1024 * 1024, adv_wnd = 0,
     peer_mss = 536, peer_sack_ok = False, peer_ws_ok = False,
     peer_wscale = 0, own_wscale = 0,
     peer_ts_ok = False, ts_recent = 0, ts_clock_base = 0,
     tsval_at_rto = 0, cwnd_pre_rto = 0, ssthresh_pre_rto = 0,
     cur_tsecr_present = False, cur_tsecr = 0,
     host = None, host_token = None,
     host_read_eof = False, host_writable = False,
     host_wr_shut = False, host_pollin_paused = False,
     sent_fin = False,
     to_host = [], to_host_off = 0,
     to_client = [], to_client_off = 0,
     retx = [], sacked_bytes = 0,
     ooo = [], ooo_bytes = 0,
     rto_ms = 250, rto_deadline_ms = 0, rto_retries = 0,
     srtt = 0, rttvar = 0, rtt_init = False,
     cwnd = 0, ssthresh = 0xFFFFFFFF,
     last_ack_seen = 0, dup_ack_count = 0,
     in_recovery = False, recovery_point = 0,
     last_head_retx_ms = 0,
     prr_delivered = 0, prr_out = 0, recover_fs = 0,
     sacked_at_segment_start = 0,
     rack_xmit_ts = 0, rack_end_seq = 0, rack_rtt = 0, rack_reo_wnd = 0,
     rack_dsack_seen = False, rack_inited = False, rack_deadline_ms = 0,
     zwp_deadline_ms = 0, zwp_interval_ms = 200,
     tlp_deadline_ms = 0,
     time_wait_deadline_ms = 0,
     last_stall_log_ms = 0\<rparr>"

section \<open>Getters\<close>

definition is_terminal :: "tcp_session \<Rightarrow> bool" where
  "is_terminal s \<longleftrightarrow> state s = Closed"

definition srtt_ms :: "tcp_session \<Rightarrow> u32" where
  "srtt_ms s = (if rtt_init s then srtt s div 8 else 0)"

definition rttvar_ms :: "tcp_session \<Rightarrow> u32" where
  "rttvar_ms s = (if rtt_init s then rttvar s div 4 else 0)"

definition flight_bytes :: "tcp_session \<Rightarrow> u32" where
  "flight_bytes s = snd_nxt s - snd_una s"

text \<open>\<open>now_ms()\<close> and \<open>current_tsval()\<close>: both read the clock.\<close>

definition now_ms :: "tcp_session \<Rightarrow> u32 \<times> tcp_session" where
  "now_ms s = (let (n, w) = w_now (io s) in (n, s\<lparr>io := w\<rparr>))"

definition current_tsval :: "tcp_session \<Rightarrow> u32 \<times> tcp_session" where
  "current_tsval s = (let (n, s) = now_ms s in (n - ts_clock_base s, s))"

definition sys :: "syscall \<Rightarrow> tcp_session \<Rightarrow> tcp_session" where
  "sys c s = s\<lparr>io := w_call c (io s)\<rparr>"

end
