(* ===== verification/Tcp_Output.thy ===== *)
theory Tcp_Output
  imports Tcp_Types
begin

text \<open>
  Sending half of \<open>nat/tcp_session.rs\<close>: timers and RTT estimation, segment emission with the
  advertised window, SACK option generation, loss detection (RACK, TLP, PRR) and ACK
  accounting. Every operation is a function on the session; those that can refuse return a
  Boolean first. Arithmetic that the code leaves to the release profile's wrapping \<open>+\<close> and
  \<open>*\<close> wraps here.
\<close>

section \<open>RTT, RTO and probe timers\<close>

definition update_rtt :: "u32 \<Rightarrow> tcp_session \<Rightarrow> tcp_session" where
  "update_rtt sample_ms s =
     (let s = (if \<not> rtt_init s then
                 s\<lparr>srtt := sample_ms * 8, rttvar := (sample_ms div 2) * 4, rtt_init := True\<rparr>
               else
                 let err = uint sample_ms - uint (srtt s) div 8;
                     s = s\<lparr>rttvar := rttvar s - rttvar s div 4 + of_int \<bar>err\<bar>\<rparr>
                 in s\<lparr>srtt := srtt s - srtt s div 8 + sample_ms\<rparr>)
      in s\<lparr>rto_ms := min (max (srtt s div 8 + max (rttvar s) 1) 200) 60000\<rparr>)"

definition schedule_rto :: "u32 \<Rightarrow> tcp_session \<Rightarrow> tcp_session" where
  "schedule_rto now s = s\<lparr>rto_deadline_ms := now + rto_ms s\<rparr>"

definition update_zwp :: "u32 \<Rightarrow> tcp_session \<Rightarrow> tcp_session" where
  "update_zwp now s =
     (let have_data = retx s \<noteq> [] \<or> to_client_off s < length (to_client s) in
      if snd_wnd s = 0 \<and> have_data then
        (if zwp_deadline_ms s = 0 then
           let s = s\<lparr>zwp_interval_ms := max (rto_ms s) 200\<rparr>
           in s\<lparr>zwp_deadline_ms := now + zwp_interval_ms s\<rparr>
         else s)
      else s\<lparr>zwp_deadline_ms := 0, zwp_interval_ms := 200\<rparr>)"

definition schedule_tlp :: "u32 \<Rightarrow> tcp_session \<Rightarrow> tcp_session" where
  "schedule_tlp now s =
     (if in_recovery s \<or> retx s = [] then s\<lparr>tlp_deadline_ms := 0\<rparr>
      else let pto = (if rtt_init s then srtt s div 4 else 200);
               pto = min (max pto 10) (rto_ms s)
           in s\<lparr>tlp_deadline_ms := now + pto\<rparr>)"

section \<open>Closing\<close>

definition close_host_socket :: "tcp_session \<Rightarrow> tcp_session" where
  "close_host_socket s =
     (let h = host s; t = host_token s; s = s\<lparr>host := None, host_token := None\<rparr> in
      case (h, t) of (Some sk, Some tok) \<Rightarrow> sys (SysDeregister tok) s | _ \<Rightarrow> s)"

definition mark_closed :: "tcp_session \<Rightarrow> tcp_session" where
  "mark_closed s = close_host_socket (s\<lparr>state := Closed\<rparr>)"

definition enter_time_wait :: "u32 \<Rightarrow> tcp_session \<Rightarrow> tcp_session" where
  "enter_time_wait now s =
     close_host_socket (s\<lparr>state := TimeWait, time_wait_deadline_ms := now + 30000,
       rto_deadline_ms := 0, rack_deadline_ms := 0, tlp_deadline_ms := 0, zwp_deadline_ms := 0\<rparr>)"

section \<open>Segment emission\<close>

text \<open>The call \<open>(self.emit)(pkt)\<close>.\<close>

definition emit_pkt :: "bytes \<Rightarrow> tcp_session \<Rightarrow> bool \<times> tcp_session" where
  "emit_pkt pkt s = (let (ok, w) = flow_emit pkt (io s) in (ok, s\<lparr>io := w\<rparr>))"

definition ts_option :: "u32 \<Rightarrow> u32 \<Rightarrow> bytes" where
  "ts_option tsval tsecr = [1, 1, 8, 10] @ be32_bytes tsval @ be32_bytes tsecr"

text \<open>The wire window: free receive space, scaled except on a SYN, throttled by the
  dispatcher's global scale except on a SYN, clipped to 16 bits.\<close>

definition wire_window :: "u8 \<Rightarrow> tcp_session \<Rightarrow> u32" where
  "wire_window flags s =
     (let pending = length (to_host s) - to_host_off s + ooo_bytes s;
          avail = (if (of_nat pending :: u32) \<ge> rcv_wnd s then 0 else rcv_wnd s - of_nat pending);
          is_syn = (flags AND TCP_SYN \<noteq> 0);
          scaled = (if is_syn then avail else drop_bit (unat (own_wscale s)) avail);
          scale = (ucast (w_rwnd_scale (io s)) :: u32);
          throttled = (if is_syn \<or> scale \<ge> ucast GLOBAL_RWND_SCALE_FULL then scaled
                       else of_nat (unat scaled * unat scale div unat GLOBAL_RWND_SCALE_FULL))
      in min throttled 0xFFFF)"

definition update_adv_wnd :: "u8 \<Rightarrow> tcp_session \<Rightarrow> tcp_session" where
  "update_adv_wnd flags s =
     (let w_wire = wire_window flags s in
      if w_wire = 0 \<or> w_wire < adv_wnd s \<or> w_wire \<ge> adv_wnd s + ucast (peer_mss s)
      then s\<lparr>adv_wnd := w_wire\<rparr> else s)"

definition segment_build :: "u8 \<Rightarrow> u32 \<Rightarrow> bytes \<Rightarrow> bytes \<Rightarrow> tcp_session \<Rightarrow> tcp_build" where
  "segment_build flags seq payload combined s =
     \<lparr>tb_src = dst (key s), tb_dst = src (key s),
      tb_src_port = dst_port (key s), tb_dst_port = src_port (key s),
      tb_seq = seq, tb_ack = rcv_nxt s, tb_flags = flags,
      tb_window = ucast (adv_wnd s), tb_options = combined, tb_payload = payload\<rparr>"

definition emit_segment :: "u8 \<Rightarrow> u32 \<Rightarrow> bytes \<Rightarrow> bool \<Rightarrow> bytes \<Rightarrow> tcp_session \<Rightarrow> bool \<times> tcp_session" where
  "emit_segment flags seq payload record_for_retx options s =
     (let (combined, s) =
            (if peer_ts_ok s \<and> flags AND TCP_SYN = 0 then
               let (tsval, s) = current_tsval s in (options @ ts_option tsval (ts_recent s), s)
             else (options, s));
          s = update_adv_wnd flags s;
          (n, out) = build_tcp (replicate 1564 0) (segment_build flags seq payload combined s)
      in if n = 0 then (False, s)
         else let (ok, s) = emit_pkt (take n out) s in
           if \<not> ok then (False, s)
           else
             let s = (if in_recovery s \<and> payload \<noteq> []
                      then s\<lparr>prr_out := prr_out s + of_nat (length payload)\<rparr> else s);
                 s = (if record_for_retx then
                        let (sent, s) = now_ms s;
                            g = \<lparr>g_seq = seq, g_flags = flags, g_sent_ms = sent,
                                 g_retransmitted = False, g_sacked = False,
                                 g_data = payload, g_options = options\<rparr>;
                            s = s\<lparr>retx := retx s @ [g]\<rparr>;
                            (now, s) = now_ms s;
                            s = (if rto_deadline_ms s = 0 then schedule_rto now s else s)
                        in if \<not> in_recovery s \<and> flags AND TCP_SYN = 0 then schedule_tlp now s else s
                      else s)
             in (True, s))"

text \<open>\<open>build_sack_option\<close> into a buffer of 36 bytes: at most four blocks.\<close>

definition sack_block :: "ooo_seg \<Rightarrow> bytes" where
  "sack_block q = be32_bytes (q_seq q) @ be32_bytes (q_seq q + of_nat (length (q_data q)))"

definition build_sack_option :: "tcp_session \<Rightarrow> bytes" where
  "build_sack_option s =
     (if \<not> peer_sack_ok s \<or> ooo s = [] then []
      else let n_blocks = min (length (ooo s)) 4
           in [1, 1, 5, of_nat (2 + 8 * n_blocks)] @ concat (map sack_block (take n_blocks (ooo s))))"

definition emit_ack :: "tcp_session \<Rightarrow> tcp_session" where
  "emit_ack s = snd (emit_segment TCP_ACK (snd_nxt s) [] False (build_sack_option s) s)"

definition emit_rst :: "u32 \<Rightarrow> u32 \<Rightarrow> tcp_session \<Rightarrow> tcp_session" where
  "emit_rst seq ack s =
     (let (n, out) = build_tcp (replicate 64 0)
            \<lparr>tb_src = dst (key s), tb_dst = src (key s),
             tb_src_port = dst_port (key s), tb_dst_port = src_port (key s),
             tb_seq = seq, tb_ack = ack, tb_flags = TCP_RST OR TCP_ACK,
             tb_window = 0, tb_options = [], tb_payload = []\<rparr>
      in if n > 0 then snd (emit_pkt (take n out) s) else s)"

text \<open>The emission of a FIN that three places share: note the FIN sent and advance, whatever
  the emit callback answered.\<close>

definition send_fin :: "tcp_session \<Rightarrow> tcp_session" where
  "send_fin s =
     (let s = s\<lparr>sent_fin := True\<rparr>;
          s = snd (emit_segment (TCP_FIN OR TCP_ACK) (snd_nxt s) [] True [] s);
          s = s\<lparr>snd_nxt := snd_nxt s + 1\<rparr>
      in s\<lparr>state := (if state s = CloseWait then LastAck else FinWait1)\<rparr>)"

section \<open>Loss detection\<close>

text \<open>Mark the queued segment \<open>i\<close> retransmitted and emit it again: the block that fast
  retransmit, partial ACK, RACK, TLP and RTO share.\<close>

definition retransmit_at :: "nat \<Rightarrow> u32 \<Rightarrow> tcp_session \<Rightarrow> bool \<times> tcp_session" where
  "retransmit_at i now s =
     (let h = (retx s ! i)\<lparr>g_retransmitted := True, g_sent_ms := now\<rparr>;
          s = s\<lparr>retx := (retx s)[i := h]\<rparr>
      in emit_segment (g_flags h) (g_seq h) (g_data h) False (g_options h) s)"

definition pipe_of :: "tcp_session \<Rightarrow> u32" where
  "pipe_of s = (let in_flight = snd_nxt s - snd_una s
                in if in_flight > sacked_bytes s then in_flight - sacked_bytes s else 0)"

definition loss_ssthresh :: "tcp_session \<Rightarrow> u32" where
  "loss_ssthresh s = max (of_nat (unat (cwnd s) * 17 div 20)) (2 * ucast (peer_mss s))"

definition enter_fast_recovery :: "tcp_session \<Rightarrow> tcp_session" where
  "enter_fast_recovery s =
     (let in_flight = snd_nxt s - snd_una s; pipe = pipe_of s in
      s\<lparr>ssthresh := loss_ssthresh s, recover_fs := max in_flight 1,
        prr_delivered := 0, prr_out := 0, cwnd := pipe,
        in_recovery := True, recovery_point := snd_nxt s\<rparr>)"

definition update_prr_after_ack :: "u32 \<Rightarrow> u32 \<Rightarrow> tcp_session \<Rightarrow> tcp_session" where
  "update_prr_after_ack prev_sacked acked s =
     (if \<not> in_recovery s then s
      else
        let delta_sacked = uint (sacked_bytes s) - uint prev_sacked;
            delivered_signed = uint acked + delta_sacked;
            delivered = (if delivered_signed > 0 then of_int delivered_signed else 0 :: u32);
            s = s\<lparr>prr_delivered := prr_delivered s + delivered\<rparr>;
            pipe = pipe_of s;
            sndcnt =
              (if pipe > ssthresh s then
                 let rfs = unat (max (recover_fs s) 1);
                     num = unat (prr_delivered s) * unat (ssthresh s);
                     intended = (of_nat ((num + rfs - 1) div rfs) :: u32)
                 in if intended > prr_out s then intended - prr_out s else 0
               else
                 let diff = uint (prr_delivered s) - uint (prr_out s);
                     limit_signed = max diff (uint delivered);
                     ss_limit = of_int (max limit_signed 0) + ucast (peer_mss s);
                     headroom = (if ssthresh s > pipe then ssthresh s - pipe else 0)
                 in min headroom ss_limit)
        in s\<lparr>cwnd := pipe + sndcnt\<rparr>)"

definition rack_update_from_delivered :: "u32 \<Rightarrow> u32 \<Rightarrow> u32 \<Rightarrow> tcp_session \<Rightarrow> tcp_session" where
  "rack_update_from_delivered sent_ms end_seq now s =
     (if \<not> rack_inited s then
        s\<lparr>rack_inited := True, rack_xmit_ts := sent_ms, rack_end_seq := end_seq, rack_rtt := now - sent_ms\<rparr>
      else
        let newer_ts = sint (sent_ms - rack_xmit_ts s) > 0;
            same_ts = (sent_ms = rack_xmit_ts s);
            later_seq = seq_lt (rack_end_seq s) end_seq in
        if newer_ts \<or> (same_ts \<and> later_seq)
        then s\<lparr>rack_xmit_ts := sent_ms, rack_end_seq := end_seq, rack_rtt := now - sent_ms\<rparr>
        else s)"

definition rack_compute_reo_wnd :: "tcp_session \<Rightarrow> u32" where
  "rack_compute_reo_wnd s =
     (if \<not> rtt_init s then 50
      else let srtt_ms = max (srtt s div 8) 1
           in if rack_dsack_seen s then max (srtt_ms div 2) 1 else max (srtt_ms div 4) 1)"

text \<open>The sequence number after a segment: data, and one each for SYN and FIN.\<close>

definition seg_span :: "u8 \<Rightarrow> bytes \<Rightarrow> u32" where
  "seg_span flags data = of_nat (length data)
     + (if flags AND TCP_SYN \<noteq> 0 then 1 else 0) + (if flags AND TCP_FIN \<noteq> 0 then 1 else 0)"

definition seg_end :: "out_seg \<Rightarrow> u32" where
  "seg_end g = g_seq g + seg_span (g_flags g) (g_data g)"

text \<open>The first pass of \<open>rack_detect_loss_and_arm_timer\<close>: indices past their deadline, and
  the earliest deadline still ahead.\<close>

fun rack_scan :: "u32 \<Rightarrow> tcp_session \<Rightarrow> nat \<Rightarrow> out_seg list \<Rightarrow> nat list \<times> u32 \<Rightarrow> nat list \<times> u32" where
  "rack_scan now s i [] acc = acc"
| "rack_scan now s i (g # gs) (to_emit, next_deadline) =
     rack_scan now s (Suc i) gs
       (if g_sacked g then (to_emit, next_deadline)
        else if sint (g_sent_ms g - rack_xmit_ts s) > 0 then (to_emit, next_deadline)
        else if \<not> seq_lt (seg_end g) (rack_end_seq s) then (to_emit, next_deadline)
        else let expiry = g_sent_ms g + rack_rtt s + rack_reo_wnd s in
          if sint (now - expiry) \<ge> 0 then (to_emit @ [i], next_deadline)
          else if next_deadline = 0 \<or> sint (expiry - next_deadline) < 0 then (to_emit, expiry)
          else (to_emit, next_deadline))"

text \<open>The second pass: retransmit the indices until the callback refuses one.\<close>

fun rack_emit :: "u32 \<Rightarrow> nat list \<Rightarrow> bool \<Rightarrow> tcp_session \<Rightarrow> bool \<times> tcp_session" where
  "rack_emit now [] emitted s = (emitted, s)"
| "rack_emit now (i # is) emitted s =
     (let s = (if \<not> in_recovery s then enter_fast_recovery s else s);
          (ok, s) = retransmit_at i now s
      in if \<not> ok then (emitted, s) else rack_emit now is True s)"

definition rack_detect_loss_and_arm_timer :: "u32 \<Rightarrow> tcp_session \<Rightarrow> tcp_session" where
  "rack_detect_loss_and_arm_timer now s =
     (if \<not> rack_inited s \<or> retx s = [] then s\<lparr>rack_deadline_ms := 0\<rparr>
      else
        let s = s\<lparr>rack_reo_wnd := rack_compute_reo_wnd s\<rparr>;
            (to_emit, next_deadline) = rack_scan now s 0 (retx s) ([], 0);
            (emitted, s) = rack_emit now to_emit False s;
            s = s\<lparr>rack_deadline_ms := next_deadline\<rparr>
        in if emitted then schedule_rto now (s\<lparr>last_head_retx_ms := now\<rparr>) else s)"

section \<open>SACK\<close>

text \<open>\<open>on_sack_block\<close>: mark the covered segments, then feed each to RACK.\<close>

definition sack_covers :: "u32 \<Rightarrow> u32 \<Rightarrow> out_seg \<Rightarrow> bool" where
  "sack_covers left right g \<longleftrightarrow> \<not> g_sacked g \<and> \<not> seq_lt (g_seq g) left
     \<and> \<not> seq_lt right (g_seq g + of_nat (length (g_data g)))"

definition on_sack_block :: "u32 \<Rightarrow> u32 \<Rightarrow> tcp_session \<Rightarrow> tcp_session" where
  "on_sack_block left right s =
     (let (now, s) = now_ms s;
          hit = filter (sack_covers left right) (retx s);
          s = s\<lparr>retx := map (\<lambda>g. if sack_covers left right g then g\<lparr>g_sacked := True\<rparr> else g) (retx s),
                sacked_bytes := sacked_bytes s + sum_list (map (\<lambda>g. of_nat (length (g_data g))) hit)\<rparr>
      in fold (\<lambda>g. rack_update_from_delivered (g_sent_ms g) (g_seq g + of_nat (length (g_data g))) now) hit s)"

fun sack_blocks :: "bytes \<Rightarrow> bool \<Rightarrow> tcp_session \<Rightarrow> tcp_session" where
  "sack_blocks (a # b # c # d # e # f # g # h # r) first_block s =
     (let left = be32 [a, b, c, d]; right = be32 [e, f, g, h];
          s = (if seq_lt left right then
                 on_sack_block left right
                   (if first_block \<and> seq_lt left (snd_una s) then s\<lparr>rack_dsack_seen := True\<rparr> else s)
               else s)
      in sack_blocks r False s)"
| "sack_blocks _ first_block s = s"

definition sack_option :: "bytes \<Rightarrow> tcp_session \<Rightarrow> tcp_session" where
  "sack_option opt s =
     (if opt ! 0 = 5 \<and> length opt \<ge> 10 \<and> (length opt - 2) mod 8 = 0
      then sack_blocks (drop 2 opt) True s else s)"

definition parse_sack_blocks :: "bytes \<Rightarrow> tcp_session \<Rightarrow> tcp_session" where
  "parse_sack_blocks opts s = (if \<not> peer_sack_ok s then s else walk_opts sack_option opts s)"

end
