(* ===== verification/Tcp_Ack.thy ===== *)
theory Tcp_Ack
  imports Tcp_Output
begin

text \<open>
  ACK accounting and timers of \<open>nat/tcp_session.rs\<close>: \<open>on_ack\<close> with its duplicate-ACK branch
  (limited transmit, fast retransmit, lost retransmission in recovery) and its new-ACK branch
  (Eifel undo, congestion window, RTT sampling, the walk over the retransmission queue,
  partial-ACK retransmit), and the timer handlers \<open>fire_tlp\<close>, \<open>rto_fire\<close> and \<open>tick\<close>.
\<close>

section \<open>Duplicate ACKs\<close>

text \<open>In recovery: retransmit the head again when it is not SACKed, three segments were SACKed
  beyond it, and the last retransmission is old enough.\<close>

definition dup_ack_in_recovery :: "u32 \<Rightarrow> tcp_session \<Rightarrow> tcp_session" where
  "dup_ack_in_recovery now s =
     (let head_sacked = (case retx s of [] \<Rightarrow> True | h # _ \<Rightarrow> g_sacked h);
          s = (if \<not> head_sacked \<and> sacked_bytes s \<ge> 3 * ucast (peer_mss s) then
                 let min_gap = (if rtt_init s then max (srtt s div 16) 50 else 50) in
                 if sint (now - last_head_retx_ms s) \<ge> sint min_gap
                 then snd (retransmit_at 0 now (s\<lparr>last_head_retx_ms := now\<rparr>))
                 else s
               else s);
          s = update_prr_after_ack (sacked_at_segment_start s) 0 s
      in rack_detect_loss_and_arm_timer now s)"

text \<open>RFC 3042 limited transmit: one new segment on the first two duplicates, inside the peer's
  window.\<close>

definition limited_transmit :: "tcp_session \<Rightarrow> tcp_session" where
  "limited_transmit s =
     (if dup_ack_count s \<le> 2 \<and> to_client_off s < length (to_client s) then
        let flight = snd_nxt s - snd_una s in
        if flight < snd_wnd s then
          let pending = length (to_client s) - to_client_off s;
              avail = unat (snd_wnd s - flight);
              chunk = min (min (unat (peer_mss s)) pending) avail in
          if chunk > 0 then
            let data = slice (to_client s) (to_client_off s) (to_client_off s + chunk);
                (ok, s) = emit_segment (TCP_ACK OR TCP_PSH) (snd_nxt s) data True [] s
            in if ok then s\<lparr>snd_nxt := snd_nxt s + of_nat chunk, to_client_off := to_client_off s + chunk\<rparr>
               else s
          else s
        else s
      else s)"

definition fast_retransmit :: "u32 \<Rightarrow> tcp_session \<Rightarrow> tcp_session" where
  "fast_retransmit now s =
     (if dup_ack_count s = 3 \<and> retx s \<noteq> [] then
        let s = enter_fast_recovery s;
            s = snd (retransmit_at 0 now s)
        in schedule_rto now (s\<lparr>dup_ack_count := 0, last_head_retx_ms := now\<rparr>)
      else s)"

definition on_dup_ack :: "u32 \<Rightarrow> u32 \<Rightarrow> tcp_session \<Rightarrow> tcp_session" where
  "on_dup_ack ack_no now s =
     (if ack_no = last_ack_seen s \<and> retx s \<noteq> [] then
        if in_recovery s then dup_ack_in_recovery now s
        else
          let s = s\<lparr>dup_ack_count := (if dup_ack_count s = 255 then 255 else dup_ack_count s + 1)\<rparr>;
              s = limited_transmit s;
              s = fast_retransmit now s
          in rack_detect_loss_and_arm_timer now s
      else rack_detect_loss_and_arm_timer now s)"

section \<open>New ACKs\<close>

definition eifel_undo :: "tcp_session \<Rightarrow> tcp_session" where
  "eifel_undo s =
     (if tsval_at_rto s \<noteq> 0 \<and> cur_tsecr_present s then
        (if sint (cur_tsecr s - tsval_at_rto s) < 0
         then s\<lparr>cwnd := max (cwnd s) (cwnd_pre_rto s), ssthresh := max (ssthresh s) (ssthresh_pre_rto s),
                tsval_at_rto := 0\<rparr>
         else s\<lparr>tsval_at_rto := 0\<rparr>)
      else s)"

definition grow_cwnd :: "u32 \<Rightarrow> u32 \<Rightarrow> tcp_session \<Rightarrow> tcp_session" where
  "grow_cwnd ack_no acked s =
     (let s = (if in_recovery s then
                 (if \<not> seq_lt ack_no (recovery_point s)
                  then s\<lparr>cwnd := ssthresh s, in_recovery := False, recovery_point := 0\<rparr> else s)
               else if cwnd s < ssthresh s then s\<lparr>cwnd := cwnd s + min acked (ucast (peer_mss s))\<rparr>
               else
                 let mss = (ucast (peer_mss s) :: u32);
                     step = (mss * 2 * mss) div max (cwnd s) mss
                 in s\<lparr>cwnd := cwnd s + max step 1\<rparr>)
      in s\<lparr>cwnd := min (cwnd s) (4 * 1024 * 1024)\<rparr>)"

text \<open>The timestamp RTT sample; the flag tells the queue walk that a sample was taken.\<close>

definition ts_sample :: "tcp_session \<Rightarrow> bool \<times> tcp_session" where
  "ts_sample s =
     (if peer_ts_ok s \<and> cur_tsecr_present s then
        let (tsval, s) = current_tsval s; rtt = tsval - cur_tsecr s
        in if 0 < rtt \<and> rtt < 60000 then (True, update_rtt rtt s) else (False, s)
      else (False, s))"

text \<open>The walk that pops every fully acknowledged segment: the recursion is on the queue, which
  the body only shortens.\<close>

fun ack_pop :: "u32 \<Rightarrow> u32 \<Rightarrow> bool \<Rightarrow> out_seg list \<Rightarrow> tcp_session \<Rightarrow> tcp_session" where
  "ack_pop ack_no now sampled [] s = s\<lparr>retx := []\<rparr>"
| "ack_pop ack_no now sampled (h # q) s =
     (let e = seg_end h in
      if seq_le e ack_no then
        let take_sample = \<not> g_retransmitted h \<and> \<not> sampled;
            s = (if take_sample then update_rtt (now - g_sent_ms h) s else s);
            s = (if \<not> g_sacked h then rack_update_from_delivered (g_sent_ms h) e now s else s);
            n = of_nat (length (g_data h));
            s = (if g_sacked h then s\<lparr>sacked_bytes := (if sacked_bytes s \<ge> n then sacked_bytes s - n else 0)\<rparr>
                 else s)
        in ack_pop ack_no now (sampled \<or> take_sample) q s
      else s\<lparr>retx := h # q\<rparr>)"

definition on_new_ack :: "u32 \<Rightarrow> u32 \<Rightarrow> tcp_session \<Rightarrow> tcp_session" where
  "on_new_ack ack_no now s =
     (let acked = ack_no - snd_una s;
          s = eifel_undo s;
          s = grow_cwnd ack_no acked s;
          s = s\<lparr>last_ack_seen := ack_no, dup_ack_count := 0\<rparr>;
          (ts_sampled, s) = ts_sample s;
          s = ack_pop ack_no now ts_sampled (retx s) s;
          s = s\<lparr>snd_una := ack_no, rto_retries := 0\<rparr>;
          s = (if in_recovery s then update_prr_after_ack (sacked_at_segment_start s) acked s else s);
          s = rack_detect_loss_and_arm_timer now s;
          s = (if rtt_init s then s\<lparr>rto_ms := min (max (srtt s div 8 + max (rttvar s) 1) 200) 60000\<rparr> else s);
          s = s\<lparr>tlp_deadline_ms := 0\<rparr>;
          s = (if in_recovery s \<and> retx s \<noteq> []
               then snd (retransmit_at 0 now (s\<lparr>last_head_retx_ms := now\<rparr>)) else s)
      in if retx s \<noteq> [] then schedule_rto now s else s\<lparr>rto_deadline_ms := 0\<rparr>)"

definition on_ack :: "u32 \<Rightarrow> u32 \<Rightarrow> tcp_session \<Rightarrow> tcp_session" where
  "on_ack ack_no now s =
     (if seq_lt (snd_nxt s) ack_no then s
      else if seq_le ack_no (snd_una s) then on_dup_ack ack_no now s
      else on_new_ack ack_no now s)"

section \<open>Timers\<close>

text \<open>The last segment that is not SACKed, if any: the backward scan of \<open>fire_tlp\<close>.\<close>

fun last_unsacked :: "out_seg list \<Rightarrow> nat option" where
  "last_unsacked [] = None"
| "last_unsacked (g # gs) =
     (case last_unsacked gs of Some i \<Rightarrow> Some (Suc i) | None \<Rightarrow> if g_sacked g then None else Some 0)"

definition fire_tlp :: "u32 \<Rightarrow> tcp_session \<Rightarrow> tcp_session" where
  "fire_tlp now s =
     (let s = s\<lparr>tlp_deadline_ms := 0\<rparr> in
      if retx s = [] \<or> in_recovery s then s
      else case last_unsacked (retx s) of None \<Rightarrow> s | Some idx \<Rightarrow> snd (retransmit_at idx now s))"

text \<open>The congestion response to a timeout and the retransmission of the head.\<close>

definition rto_collapse :: "u32 \<Rightarrow> tcp_session \<Rightarrow> tcp_session" where
  "rto_collapse now s =
     (let s = s\<lparr>cwnd_pre_rto := cwnd s, ssthresh_pre_rto := ssthresh s\<rparr>;
          (tsval, s) = current_tsval s;
          s = s\<lparr>tsval_at_rto := tsval\<rparr>;
          s = s\<lparr>ssthresh := loss_ssthresh s\<rparr>;
          s = s\<lparr>cwnd := ucast (peer_mss s), in_recovery := False, recovery_point := 0,
                dup_ack_count := 0, tlp_deadline_ms := 0, last_head_retx_ms := now\<rparr>;
          s = snd (retransmit_at 0 now s)
      in s\<lparr>rto_retries := rto_retries s + 1\<rparr>)"

definition rto_fire :: "u32 \<Rightarrow> tcp_session \<Rightarrow> tcp_session" where
  "rto_fire now s =
     (if retx s = [] then s
      else
        let s = rto_collapse now s in
        if rto_retries s \<ge> 9 then mark_closed (emit_rst (snd_nxt s) (rcv_nxt s) s)
        else
          let s = s\<lparr>rto_ms := of_nat (min (2 * unat (rto_ms s)) 60000)\<rparr>
          in schedule_rto now s)"

definition zwp_fire :: "u32 \<Rightarrow> tcp_session \<Rightarrow> tcp_session" where
  "zwp_fire now s =
     (let s = emit_ack s;
          s = s\<lparr>zwp_interval_ms := of_nat (min (2 * unat (zwp_interval_ms s)) 60000)\<rparr>
      in s\<lparr>zwp_deadline_ms := now + zwp_interval_ms s\<rparr>)"

text \<open>The four timers of \<open>tick\<close>, each fired when armed and due.\<close>

definition rto_timer :: "u32 \<Rightarrow> tcp_session \<Rightarrow> tcp_session" where
  "rto_timer now s =
     (if rto_deadline_ms s \<noteq> 0 \<and> time_after now (rto_deadline_ms s) then rto_fire now s else s)"

definition rack_timer :: "u32 \<Rightarrow> tcp_session \<Rightarrow> tcp_session" where
  "rack_timer now s =
     (if rack_deadline_ms s \<noteq> 0 \<and> time_after now (rack_deadline_ms s)
      then rack_detect_loss_and_arm_timer now s else s)"

definition tlp_timer :: "u32 \<Rightarrow> tcp_session \<Rightarrow> tcp_session" where
  "tlp_timer now s =
     (if tlp_deadline_ms s \<noteq> 0 \<and> time_after now (tlp_deadline_ms s) then fire_tlp now s else s)"

definition zwp_timer :: "u32 \<Rightarrow> tcp_session \<Rightarrow> tcp_session" where
  "zwp_timer now s =
     (if zwp_deadline_ms s \<noteq> 0 \<and> time_after now (zwp_deadline_ms s) then zwp_fire now s else s)"

definition tick :: "u32 \<Rightarrow> tcp_session \<Rightarrow> bool \<times> tcp_session" where
  "tick now s =
     (if state s = Closed then (False, s)
      else let s = rto_timer now s in
      if state s = Closed then (False, s)
      else let s = rack_timer now s in
      if state s = Closed then (False, s)
      else let s = zwp_timer now (tlp_timer now s) in
      if state s = TimeWait \<and> time_after now (time_wait_deadline_ms s) then (False, mark_closed s)
      else (True, s))"

end
