(* ===== verification/Tcp_Frame.thy ===== *)
theory Tcp_Frame
  imports Tcp_Ack
begin

text \<open>
  What the sending half leaves alone. \<open>recv_view\<close> collects the receiving half of a session,
  its host socket and its negotiated parameters; \<open>send_view\<close> collects the send sequence space.
  Emission keeps both, ACK processing keeps the first.
\<close>

definition io_view :: "world \<Rightarrow> _" where
  "io_view w = (w_calls w, w_reads w, w_writes w, w_next_sock w, w_rwnd_scale w, w_connect_ok w)"

definition recv_view :: "tcp_session \<Rightarrow> _" where
  "recv_view s =
     (io_view (io s), key s, rcv_nxt s, rcv_wnd s, host s, host_token s, host_read_eof s, host_writable s,
      host_wr_shut s, host_pollin_paused s, sent_fin s, to_host s, to_host_off s, to_client s,
      ooo s, ooo_bytes s, peer_mss s, peer_wscale s, own_wscale s)"

definition send_view :: "tcp_session \<Rightarrow> _" where
  "send_view s =
     (snd_una s, snd_nxt s, snd_wnd s, to_client_off s, rto_ms s, rto_retries s, cwnd s, sacked_bytes s,
      rtt_init s, srtt s, rttvar s, zwp_deadline_ms s, time_wait_deadline_ms s)"

lemma recv_viewD:
  assumes "recv_view s = recv_view t"
  shows "io_view (io s) = io_view (io t)" "key s = key t" "rcv_nxt s = rcv_nxt t" "rcv_wnd s = rcv_wnd t"
    "host s = host t" "host_token s = host_token t" "host_read_eof s = host_read_eof t"
    "host_writable s = host_writable t" "host_wr_shut s = host_wr_shut t"
    "host_pollin_paused s = host_pollin_paused t" "sent_fin s = sent_fin t"
    "to_host s = to_host t" "to_host_off s = to_host_off t" "to_client s = to_client t"
    "ooo s = ooo t" "ooo_bytes s = ooo_bytes t" "peer_mss s = peer_mss t"
    "peer_wscale s = peer_wscale t" "own_wscale s = own_wscale t"
  using assms by (simp_all add: recv_view_def)

lemma send_viewD:
  assumes "send_view s = send_view t"
  shows "snd_una s = snd_una t" "snd_nxt s = snd_nxt t" "snd_wnd s = snd_wnd t"
    "to_client_off s = to_client_off t" "rto_ms s = rto_ms t" "rto_retries s = rto_retries t"
    "cwnd s = cwnd t" "sacked_bytes s = sacked_bytes t" "rtt_init s = rtt_init t"
    "srtt s = srtt t" "rttvar s = rttvar t" "zwp_deadline_ms s = zwp_deadline_ms t"
    "time_wait_deadline_ms s = time_wait_deadline_ms t"
  using assms by (simp_all add: send_view_def)

lemma io_viewD:
  assumes "io_view w = io_view v"
  shows "w_calls w = w_calls v" "w_reads w = w_reads v" "w_writes w = w_writes v"
    "w_next_sock w = w_next_sock v" "w_rwnd_scale w = w_rwnd_scale v" "w_connect_ok w = w_connect_ok v"
  using assms by (simp_all add: io_view_def)

section \<open>Emission\<close>

lemmas views = recv_view_def send_view_def

lemma flow_emit_frame: "flow_emit p w = (ok, w') \<Longrightarrow> io_view w' = io_view w"
  by (auto simp: flow_emit_def Let_def io_view_def split: if_splits)

lemma emit_pkt_frame:
  "emit_pkt p s = (ok, t) \<Longrightarrow> \<exists>w. t = s\<lparr>io := w\<rparr> \<and> io_view w = io_view (io s)"
  by (auto simp: emit_pkt_def split: prod.splits dest: flow_emit_frame)

lemma now_ms_frame: "now_ms s = (n, t) \<Longrightarrow> \<exists>w. t = s\<lparr>io := w\<rparr> \<and> io_view w = io_view (io s)"
  by (auto simp: now_ms_def w_now_def io_view_def)

lemma current_tsval_frame:
  "current_tsval s = (n, t) \<Longrightarrow> \<exists>w. t = s\<lparr>io := w\<rparr> \<and> io_view w = io_view (io s)"
  by (auto simp: current_tsval_def split: prod.splits dest: now_ms_frame)

definition out_view :: "tcp_session \<Rightarrow> _" where
  "out_view s = (state s, recv_view s, send_view s)"

lemma out_view_io: "io_view w = io_view (io s) \<Longrightarrow> out_view (s\<lparr>io := w\<rparr>) = out_view s"
  by (simp add: out_view_def views)

lemma out_view_upd [simp]:
  "out_view (s\<lparr>adv_wnd := a\<rparr>) = out_view s" "out_view (s\<lparr>prr_out := b\<rparr>) = out_view s"
  "out_view (s\<lparr>retx := r\<rparr>) = out_view s" "out_view (s\<lparr>rto_deadline_ms := c\<rparr>) = out_view s"
  "out_view (s\<lparr>tlp_deadline_ms := d\<rparr>) = out_view s" "out_view (s\<lparr>last_head_retx_ms := e\<rparr>) = out_view s"
  "out_view (s\<lparr>rack_deadline_ms := f\<rparr>) = out_view s" "out_view (s\<lparr>rack_reo_wnd := g\<rparr>) = out_view s"
  by (simp_all add: out_view_def views)

lemma out_view_emit_pkt: "emit_pkt p s = (ok, t) \<Longrightarrow> out_view t = out_view s"
  by (auto dest!: emit_pkt_frame simp: out_view_io)

lemma out_view_now_ms: "now_ms s = (n, t) \<Longrightarrow> out_view t = out_view s"
  by (auto dest!: now_ms_frame simp: out_view_io)

lemma out_view_current_tsval: "current_tsval s = (n, t) \<Longrightarrow> out_view t = out_view s"
  by (auto dest!: current_tsval_frame simp: out_view_io)

lemma out_view_timers [simp]:
  "out_view (schedule_rto n s) = out_view s" "out_view (schedule_tlp n s) = out_view s"
  "out_view (update_adv_wnd fl s) = out_view s"
  by (simp_all add: schedule_rto_def schedule_tlp_def update_adv_wnd_def Let_def)

lemma emit_segment_out_view:
  assumes "emit_segment flags seq payload rec opts s = (ok, t)"
  shows "out_view t = out_view s"
  using assms unfolding emit_segment_def Let_def
  by (auto split: prod.splits if_splits
    dest!: out_view_emit_pkt out_view_now_ms out_view_current_tsval)

lemma out_view_snd [simp]:
  "out_view (snd (emit_segment flags seq payload rec opts s)) = out_view s"
  "out_view (snd (emit_pkt p s)) = out_view s"
  "out_view (snd (now_ms s)) = out_view s"
  "out_view (snd (current_tsval s)) = out_view s"
  by (metis emit_segment_out_view prod.collapse, metis out_view_emit_pkt prod.collapse,
      metis out_view_now_ms prod.collapse, metis out_view_current_tsval prod.collapse)

lemma out_view_emit [simp]:
  "out_view (emit_ack s) = out_view s" "out_view (emit_rst q a s) = out_view s"
  "out_view (snd (retransmit_at i now s)) = out_view s"
  by (simp_all add: emit_ack_def emit_rst_def retransmit_at_def Let_def split: prod.split)

lemma out_viewD:
  assumes "out_view s = out_view t"
  shows "state s = state t" "recv_view s = recv_view t" "send_view s = send_view t"
  using assms by (simp_all add: out_view_def)

lemmas emit_segment_keeps [simp] =
  out_viewD(1) [OF out_view_snd(1)]
  recv_viewD [OF out_viewD(2) [OF out_view_snd(1)]]
  send_viewD [OF out_viewD(3) [OF out_view_snd(1)]]

section \<open>ACK processing\<close>

definition keep_view :: "tcp_session \<Rightarrow> _" where
  "keep_view s = (state s, recv_view s, snd_wnd s)"

lemma keep_viewD:
  assumes "keep_view s = keep_view t"
  shows "state s = state t" "recv_view s = recv_view t" "snd_wnd s = snd_wnd t"
  using assms by (simp_all add: keep_view_def)

lemma keep_of_out: "out_view s = out_view t \<Longrightarrow> keep_view s = keep_view t"
  by (simp add: out_view_def keep_view_def send_view_def)

lemma keep_view_upd [simp]:
  "keep_view (s\<lparr>retx := a1\<rparr>) = keep_view s" "keep_view (s\<lparr>cwnd := a2\<rparr>) = keep_view s"
  "keep_view (s\<lparr>ssthresh := a2\<rparr>) = keep_view s" "keep_view (s\<lparr>snd_una := a2\<rparr>) = keep_view s"
  "keep_view (s\<lparr>snd_nxt := a2\<rparr>) = keep_view s" "keep_view (s\<lparr>to_client_off := a3\<rparr>) = keep_view s"
  "keep_view (s\<lparr>in_recovery := b\<rparr>) = keep_view s" "keep_view (s\<lparr>recovery_point := a2\<rparr>) = keep_view s"
  "keep_view (s\<lparr>recover_fs := a2\<rparr>) = keep_view s" "keep_view (s\<lparr>prr_delivered := a2\<rparr>) = keep_view s"
  "keep_view (s\<lparr>prr_out := a2\<rparr>) = keep_view s" "keep_view (s\<lparr>sacked_bytes := a2\<rparr>) = keep_view s"
  "keep_view (s\<lparr>dup_ack_count := a4\<rparr>) = keep_view s" "keep_view (s\<lparr>last_ack_seen := a2\<rparr>) = keep_view s"
  "keep_view (s\<lparr>last_head_retx_ms := a2\<rparr>) = keep_view s" "keep_view (s\<lparr>rto_retries := a4\<rparr>) = keep_view s"
  "keep_view (s\<lparr>rto_ms := a2\<rparr>) = keep_view s" "keep_view (s\<lparr>rto_deadline_ms := a2\<rparr>) = keep_view s"
  "keep_view (s\<lparr>tlp_deadline_ms := a2\<rparr>) = keep_view s" "keep_view (s\<lparr>rack_deadline_ms := a2\<rparr>) = keep_view s"
  "keep_view (s\<lparr>rack_reo_wnd := a2\<rparr>) = keep_view s" "keep_view (s\<lparr>rack_xmit_ts := a2\<rparr>) = keep_view s"
  "keep_view (s\<lparr>rack_end_seq := a2\<rparr>) = keep_view s" "keep_view (s\<lparr>rack_rtt := a2\<rparr>) = keep_view s"
  "keep_view (s\<lparr>rack_inited := b\<rparr>) = keep_view s" "keep_view (s\<lparr>rack_dsack_seen := b\<rparr>) = keep_view s"
  "keep_view (s\<lparr>srtt := a2\<rparr>) = keep_view s" "keep_view (s\<lparr>rttvar := a2\<rparr>) = keep_view s"
  "keep_view (s\<lparr>rtt_init := b\<rparr>) = keep_view s" "keep_view (s\<lparr>tsval_at_rto := a2\<rparr>) = keep_view s"
  "keep_view (s\<lparr>cwnd_pre_rto := a2\<rparr>) = keep_view s" "keep_view (s\<lparr>ssthresh_pre_rto := a2\<rparr>) = keep_view s"
  "keep_view (s\<lparr>zwp_deadline_ms := a2\<rparr>) = keep_view s" "keep_view (s\<lparr>zwp_interval_ms := a2\<rparr>) = keep_view s"
  "keep_view (s\<lparr>sacked_at_segment_start := a2\<rparr>) = keep_view s" "keep_view (s\<lparr>ts_recent := a2\<rparr>) = keep_view s"
  "keep_view (s\<lparr>cur_tsecr := a2\<rparr>) = keep_view s" "keep_view (s\<lparr>cur_tsecr_present := b\<rparr>) = keep_view s"
  "keep_view (s\<lparr>time_wait_deadline_ms := a2\<rparr>) = keep_view s" "keep_view (s\<lparr>last_stall_log_ms := a2\<rparr>) = keep_view s"
  by (simp_all add: keep_view_def recv_view_def)

lemma keep_view_emit [simp]:
  "keep_view (snd (emit_segment flags seq payload rec opts s)) = keep_view s"
  "keep_view (snd (now_ms s)) = keep_view s"
  "keep_view (snd (current_tsval s)) = keep_view s"
  "keep_view (emit_ack s) = keep_view s" "keep_view (emit_rst q a s) = keep_view s"
  "keep_view (snd (retransmit_at i now s)) = keep_view s"
  "keep_view (schedule_rto now s) = keep_view s" "keep_view (schedule_tlp now s) = keep_view s"
  by (rule keep_of_out, simp)+

lemma keep_view_pair:
  "emit_segment flags seq payload rec opts s = (ok, t) \<Longrightarrow> keep_view t = keep_view s"
  "now_ms s = (n, t) \<Longrightarrow> keep_view t = keep_view s"
  "current_tsval s = (n, t) \<Longrightarrow> keep_view t = keep_view s"
  "retransmit_at i n s = (ok, t) \<Longrightarrow> keep_view t = keep_view s"
  by (metis keep_view_emit(1) snd_conv, metis keep_view_emit(2) snd_conv, metis keep_view_emit(3) snd_conv,
      metis keep_view_emit(6) snd_conv)

lemma keep_view_rtt [simp]:
  "keep_view (update_rtt x s) = keep_view s" "keep_view (update_zwp n s) = keep_view s"
  "keep_view (enter_fast_recovery s) = keep_view s" "keep_view (update_prr_after_ack p a s) = keep_view s"
  "keep_view (rack_update_from_delivered x e n s) = keep_view s"
  "keep_view (eifel_undo s) = keep_view s" "keep_view (grow_cwnd k a s) = keep_view s"
  by (simp_all add: update_rtt_def update_zwp_def enter_fast_recovery_def update_prr_after_ack_def
      rack_update_from_delivered_def eifel_undo_def grow_cwnd_def Let_def)

lemma keep_view_rack_emit: "rack_emit now is e s = (e', t) \<Longrightarrow> keep_view t = keep_view s"
  by (induction "is" arbitrary: e s) (auto simp: Let_def split: prod.splits if_splits dest!: keep_view_pair)

lemma keep_view_rack [simp]: "keep_view (rack_detect_loss_and_arm_timer now s) = keep_view s"
  by (auto simp: rack_detect_loss_and_arm_timer_def Let_def split: prod.split dest!: keep_view_rack_emit)

lemma keep_view_ack_pop [simp]: "keep_view (ack_pop k n b q s) = keep_view s"
  by (induction q arbitrary: b s) (simp_all add: Let_def)

lemma keep_view_ts_sample: "ts_sample s = (b, t) \<Longrightarrow> keep_view t = keep_view s"
  by (auto simp: ts_sample_def Let_def split: prod.splits if_splits dest!: keep_view_pair)

lemma keep_view_limited_transmit [simp]: "keep_view (limited_transmit s) = keep_view s"
  by (auto simp: limited_transmit_def Let_def split: prod.split dest!: keep_view_pair)

lemma keep_view_dup_parts [simp]:
  "keep_view (dup_ack_in_recovery n s) = keep_view s" "keep_view (fast_retransmit n s) = keep_view s"
  by (simp_all add: dup_ack_in_recovery_def fast_retransmit_def Let_def)

lemma keep_view_on_dup_ack [simp]: "keep_view (on_dup_ack k n s) = keep_view s"
  by (simp add: on_dup_ack_def Let_def)

lemma keep_view_ts_sample_snd [simp]: "keep_view (snd (ts_sample s)) = keep_view s"
  by (metis keep_view_ts_sample prod.collapse)

lemma keep_view_on_new_ack [simp]: "keep_view (on_new_ack k n s) = keep_view s"
  by (simp add: on_new_ack_def Let_def case_prod_unfold)

lemma keep_view_on_ack [simp]: "keep_view (on_ack k n s) = keep_view s"
  by (simp add: on_ack_def)

lemma keep_view_fire_tlp [simp]: "keep_view (fire_tlp n s) = keep_view s"
  by (simp add: fire_tlp_def Let_def split: option.split)

lemma keep_view_rto_collapse [simp]: "keep_view (rto_collapse n s) = keep_view s"
  by (simp add: rto_collapse_def Let_def case_prod_unfold)

lemma keep_view_zwp_fire [simp]: "keep_view (zwp_fire n s) = keep_view s"
  by (simp add: zwp_fire_def Let_def)

lemma keep_view_fold_rack [simp]:
  "keep_view (fold (\<lambda>g. rack_update_from_delivered (f g) (h g) now) gs s) = keep_view s"
  by (induction gs arbitrary: s) simp_all

lemma keep_view_on_sack_block [simp]: "keep_view (on_sack_block l r s) = keep_view s"
  by (simp add: on_sack_block_def Let_def case_prod_unfold)

lemma keep_view_sack_blocks [simp]: "keep_view (sack_blocks bs b s) = keep_view s"
  by (induction bs b s rule: sack_blocks.induct) (simp_all add: Let_def)

lemma walk_opts_preserves:
  assumes "\<And>o' a. v (f o' a) = v a"
  shows "v (walk_opts f bs a) = v a"
  using assms by (induction f bs a rule: walk_opts.induct) (subst walk_opts.simps, simp add: Let_def)

lemma keep_view_parse_sack_blocks [simp]: "keep_view (parse_sack_blocks bs s) = keep_view s"
  by (simp add: parse_sack_blocks_def sack_option_def walk_opts_preserves)

end
