(* ===== verification/Tcp_Session.thy ===== *)
theory Tcp_Session
  imports Tcp_Frame
begin

text \<open>
  The host side and the state machine of \<open>nat/tcp_session.rs\<close>: the socket towards the
  destination, delivery of in-order and out-of-order client data, segmentation of host data,
  the handler of each TCP state, and the entry points the dispatcher and the reactor call
  (\<open>on_segment\<close>, \<open>on_host_event\<close>, \<open>tick\<close>, \<open>fan_out_window_update\<close>, \<open>drop\<close>).

  A \<open>read\<close> or \<open>write\<close> on the host socket takes the next answer of the socket's script. A
  \<open>write\<close> accepts at most the bytes it was given and a \<open>read\<close> fills at most its 16 KiB
  buffer, so the answers are clipped to that.
\<close>

section \<open>The host socket\<close>

definition open_host_socket :: "tcp_session \<Rightarrow> bool \<times> tcp_session" where
  "open_host_socket s =
     (if \<not> is_v4 (dst (key s)) then (False, s)
      else
        let dst_ip = ipv4_from_u32 (v4_be (dst (key s))) in
        if is_blocked_dst (StdV4 dst_ip) then (False, s)
        else
          let ok = w_connect_ok (io s) (length (w_calls (io s)));
              s = sys (SysTcpConnect dst_ip (dst_port (key s))) s in
          if \<not> ok then (False, s)
          else
            let sk = w_next_sock (io s);
                s = s\<lparr>io := (io s)\<lparr>w_next_sock := Suc sk\<rparr>, host_writable := False\<rparr>;
                s = sys (SysRegister sk ReadWrite) s
            in (True, s\<lparr>host := Some sk, host_token := Some sk\<rparr>))"

definition refresh_host_interest :: "tcp_session \<Rightarrow> tcp_session" where
  "refresh_host_interest s =
     (case (host s, host_token s) of
        (Some sk, Some tok) \<Rightarrow>
          let want_read = \<not> host_pollin_paused s; want_write = \<not> host_writable s;
              interest = (if want_read \<and> want_write then ReadWrite
                          else if want_read then Readable
                          else if want_write then Writable
                          else Readable)
          in sys (SysReregister tok interest) s
      | _ \<Rightarrow> s)"

definition shutdown_write :: "tcp_session \<Rightarrow> tcp_session" where
  "shutdown_write s =
     (let s = (case host s of Some sk \<Rightarrow> sys (SysShutdownWrite sk) s | None \<Rightarrow> s)
      in s\<lparr>host_wr_shut := True\<rparr>)"

definition take_error :: "sock \<Rightarrow> tcp_session \<Rightarrow> so_error \<times> tcp_session" where
  "take_error sk s = (w_so_error (io s) (length (w_calls (io s))), sys (SysTakeError sk) s)"

definition reset_and_close :: "tcp_session \<Rightarrow> tcp_session" where
  "reset_and_close s = mark_closed (emit_rst (snd_nxt s) (rcv_nxt s) s)"

section \<open>Client data to the host\<close>

text \<open>The write loop of \<open>try_drain_to_host\<close>. The recursion is on the socket's remaining
  answers; \<open>set_writes\<close> stores what is left of them.\<close>

definition set_writes :: "sock \<Rightarrow> wr_result list \<Rightarrow> tcp_session \<Rightarrow> tcp_session" where
  "set_writes sk ws s = s\<lparr>io := (io s)\<lparr>w_writes := (w_writes (io s))(sk := ws)\<rparr>\<rparr>"

definition drained :: "tcp_session \<Rightarrow> tcp_session" where
  "drained s = s\<lparr>to_host := [], to_host_off := 0\<rparr>"

definition drain_blocked :: "tcp_session \<Rightarrow> tcp_session" where
  "drain_blocked s = refresh_host_interest (s\<lparr>host_writable := False\<rparr>)"

fun drain_writes :: "sock \<Rightarrow> wr_result list \<Rightarrow> tcp_session \<Rightarrow> tcp_session" where
  "drain_writes sk [] s =
     (if to_host_off s < length (to_host s)
      then drain_blocked (sys (SysWrite sk []) (set_writes sk [] s))
      else drained (set_writes sk [] s))"
| "drain_writes sk (r # ws) s =
     (if to_host_off s < length (to_host s) then
        let rest = drop (to_host_off s) (to_host s) in
        case r of
          WOk n \<Rightarrow>
            let n = min n (length rest); s = sys (SysWrite sk (take n rest)) s in
            if n = 0 then drained (set_writes sk ws s)
            else drain_writes sk ws (s\<lparr>to_host_off := to_host_off s + n\<rparr>)
        | WWouldBlock \<Rightarrow> drain_blocked (sys (SysWrite sk []) (set_writes sk ws s))
        | WInterrupted \<Rightarrow> drain_writes sk ws (sys (SysWrite sk []) s)
        | WErr \<Rightarrow> reset_and_close (sys (SysWrite sk []) (set_writes sk ws s))
      else drained (set_writes sk (r # ws) s))"

definition try_drain_to_host :: "tcp_session \<Rightarrow> tcp_session" where
  "try_drain_to_host s =
     (case host s of
        None \<Rightarrow> s
      | Some sk \<Rightarrow> if \<not> host_writable s then s else drain_writes sk (w_writes (io s) sk) s)"

definition enqueue_to_host :: "bytes \<Rightarrow> tcp_session \<Rightarrow> tcp_session" where
  "enqueue_to_host data s =
     (let s = (if to_host_off s > 0 \<and> to_host_off s \<ge> length (to_host s) div 2
               then s\<lparr>to_host := drop (to_host_off s) (to_host s), to_host_off := 0\<rparr> else s);
          s = s\<lparr>to_host := to_host s @ data\<rparr>
      in if host_writable s then try_drain_to_host s
         else if host s \<noteq> None then refresh_host_interest s else s)"

text \<open>\<open>deliver_ooo\<close>: the recursion is on the queue, which the body only shortens.\<close>

fun deliver_queue :: "ooo_seg list \<Rightarrow> tcp_session \<Rightarrow> tcp_session" where
  "deliver_queue [] s = s\<lparr>ooo := []\<rparr>"
| "deliver_queue (h # q) s =
     (let e = q_seq h + of_nat (length (q_data h)) in
      if \<not> seq_lt (rcv_nxt s) e then deliver_queue q (s\<lparr>ooo_bytes := ooo_bytes s - length (q_data h)\<rparr>)
      else if seq_lt (rcv_nxt s) (q_seq h) then s\<lparr>ooo := h # q\<rparr>
      else
        let skip = unat (rcv_nxt s - q_seq h); data = drop skip (q_data h);
            s = s\<lparr>ooo_bytes := ooo_bytes s - length (q_data h), ooo := q\<rparr>;
            s = enqueue_to_host data s
        in deliver_queue q (s\<lparr>rcv_nxt := e\<rparr>))"

definition deliver_ooo :: "tcp_session \<Rightarrow> tcp_session" where
  "deliver_ooo s = deliver_queue (ooo s) s"

text \<open>The insertion point: the first queued segment that does not start before \<open>seq\<close>.\<close>

fun ooo_pos :: "u32 \<Rightarrow> ooo_seg list \<Rightarrow> nat" where
  "ooo_pos seq [] = 0"
| "ooo_pos seq (q # qs) = (if \<not> seq_lt (q_seq q) seq then 0 else Suc (ooo_pos seq qs))"

definition ooo_end :: "ooo_seg \<Rightarrow> u32" where
  "ooo_end q = q_seq q + of_nat (length (q_data q))"

definition store_ooo :: "u32 \<Rightarrow> bytes \<Rightarrow> tcp_session \<Rightarrow> tcp_session" where
  "store_ooo seq data s =
     (if data = [] then s
      else if ooo_bytes s + length data > MAX_OOO_BYTES then s
      else let pos = ooo_pos seq (ooo s) in
        if pos > 0 \<and> seq_lt seq (ooo_end (ooo s ! (pos - 1))) then s
        else if pos < length (ooo s) \<and> seq_lt (q_seq (ooo s ! pos)) (seq + of_nat (length data)) then s
        else s\<lparr>ooo := take pos (ooo s) @ \<lparr>q_seq = seq, q_data = data\<rparr> # drop pos (ooo s),
               ooo_bytes := ooo_bytes s + length data\<rparr>)"

definition handle_data_in :: "u32 \<Rightarrow> bytes \<Rightarrow> tcp_session \<Rightarrow> bool \<times> tcp_session" where
  "handle_data_in seq data s =
     (if data = [] then (False, s)
      else if \<not> seq_lt (rcv_nxt s) (seq + of_nat (length data)) then (False, s)
      else
        let skip = (if seq_lt seq (rcv_nxt s) then unat (rcv_nxt s - seq) else 0) in
        if seq_lt seq (rcv_nxt s) \<and> skip \<ge> length data then (False, s)
        else
          let seq = seq + of_nat skip; data = drop skip data in
          if seq = rcv_nxt s then
            let s = enqueue_to_host data s;
                s = s\<lparr>rcv_nxt := rcv_nxt s + of_nat (length data)\<rparr>
            in (True, deliver_ooo s)
          else (False, store_ooo seq data s))"

section \<open>Host data to the client\<close>

text \<open>The send loop of \<open>try_segment_and_emit\<close>; the result tells whether the window stopped it.\<close>

function segment_loop :: "tcp_session \<Rightarrow> bool \<times> tcp_session" where
  "segment_loop s =
     (if to_client_off s < length (to_client s) then
        let pipe = pipe_of s; eff_wnd = min (snd_wnd s) (cwnd s) in
        if pipe \<ge> eff_wnd then (True, s)
        else
          let avail = unat (eff_wnd - pipe);
              pending = length (to_client s) - to_client_off s;
              chunk = min (min (unat (peer_mss s)) pending) avail in
          if chunk = 0 then (False, s)
          else
            let data = slice (to_client s) (to_client_off s) (to_client_off s + chunk);
                r = emit_segment (TCP_ACK OR TCP_PSH) (snd_nxt s) data True [] s in
            if \<not> fst r then (False, snd r)
            else segment_loop ((snd r)\<lparr>snd_nxt := snd_nxt (snd r) + of_nat chunk,
                                       to_client_off := to_client_off (snd r) + chunk\<rparr>)
      else (False, s))"
  by pat_completeness auto

termination segment_loop
  by (relation "measure (\<lambda>s. length (to_client s) - to_client_off s)") auto

declare segment_loop.simps [simp del]

definition resume_reads :: "tcp_session \<Rightarrow> tcp_session" where
  "resume_reads s =
     (if host_pollin_paused s \<and> host s \<noteq> None
         \<and> length (to_client s) - to_client_off s < TO_CLIENT_LOW_WATER
      then refresh_host_interest (s\<lparr>host_pollin_paused := False\<rparr>) else s)"

definition try_segment_and_emit :: "tcp_session \<Rightarrow> tcp_session" where
  "try_segment_and_emit s =
     (let (window_limited, s) = segment_loop s;
          s = resume_reads s
      in if to_client_off s \<ge> length (to_client s) then
           let s = s\<lparr>to_client := [], to_client_off := 0\<rparr>
           in if host_read_eof s \<and> \<not> sent_fin s \<and> state s \<in> {Established, CloseWait}
              then send_fin s else s
         else if window_limited \<and> w_debug (io s) then
           let (now, s) = now_ms s
           in if now - last_stall_log_ms s > 250 then s\<lparr>last_stall_log_ms := now\<rparr> else s
         else s)"

section \<open>Segments from the client\<close>

definition scaled_window :: "u16 \<Rightarrow> tcp_session \<Rightarrow> u32" where
  "scaled_window wnd s = push_bit (unat (peer_wscale s)) (ucast wnd)"

definition zwp_now :: "tcp_session \<Rightarrow> tcp_session" where
  "zwp_now s = (let (n, s) = now_ms s in update_zwp n s)"

text \<open>The data part that the four data-bearing states share.\<close>

definition data_and_ack :: "u32 \<Rightarrow> bytes \<Rightarrow> tcp_session \<Rightarrow> tcp_session" where
  "data_and_ack seq payload s =
     (if payload \<noteq> [] then emit_ack (snd (handle_data_in seq payload s)) else s)"

definition fin_in_order :: "bool \<Rightarrow> u32 \<Rightarrow> bytes \<Rightarrow> tcp_session \<Rightarrow> bool" where
  "fin_in_order in_order_at_entry seq payload s \<longleftrightarrow>
     in_order_at_entry \<and> seq + of_nat (length payload) = rcv_nxt s"

definition ack_if_flagged :: "u8 \<Rightarrow> u32 \<Rightarrow> tcp_session \<Rightarrow> tcp_session" where
  "ack_if_flagged flags ack s =
     (let (n, s) = now_ms s in if flags AND TCP_ACK \<noteq> 0 then on_ack ack n s else s)"

definition apply_syn_options :: "bytes \<Rightarrow> tcp_session \<Rightarrow> tcp_session" where
  "apply_syn_options opts s =
     (let r = parse_options opts;
          s = (if o_mss r \<noteq> 0 then s\<lparr>peer_mss := o_mss r\<rparr> else s);
          s = (if o_sack_ok r then s\<lparr>peer_sack_ok := True\<rparr> else s);
          s = (if o_ws_ok r then s\<lparr>peer_ws_ok := True, peer_wscale := min (o_wscale r) 14\<rparr> else s)
      in if o_ts_present r then
           let s = s\<lparr>peer_ts_ok := True, ts_recent := o_ts_val r\<rparr>; (n, s) = now_ms s
           in s\<lparr>ts_clock_base := n\<rparr>
         else s)"

definition syn_ack_options :: "tcp_session \<Rightarrow> bytes \<times> tcp_session" where
  "syn_ack_options s =
     (let mss = [2, 4, ucast (drop_bit 8 OWN_MSS), ucast OWN_MSS];
          sack = (if peer_sack_ok s then [1, 1, 4, 2] else []);
          ws = (if peer_ws_ok s then [1, 3, 3, own_wscale s] else [])
      in if peer_ts_ok s then
           let (tsval, s) = current_tsval s in (mss @ sack @ ws @ ts_option tsval (ts_recent s), s)
         else (mss @ sack @ ws, s))"

text \<open>Everything \<open>accept_initial_syn\<close> records before it answers.\<close>

definition syn_negotiate :: "bytes \<Rightarrow> tcp_session \<Rightarrow> tcp_session" where
  "syn_negotiate tcp_seg s =
     (let s = s\<lparr>rcv_nxt := tcp_seq tcp_seg + 1\<rparr>;
          (isn, s) = now_ms s;
          s = s\<lparr>snd_una := isn, snd_nxt := isn\<rparr>;
          hdr = tcp_data_off tcp_seg;
          s = (if hdr > 20 then apply_syn_options (slice tcp_seg 20 hdr) s else s);
          s = s\<lparr>peer_mss := min (peer_mss s) OWN_MSS\<rparr>;
          s = (if peer_ws_ok s then s\<lparr>own_wscale := 4\<rparr> else s)
      in s\<lparr>cwnd := 10 * ucast (peer_mss s), snd_wnd := ucast (tcp_window tcp_seg), state := SynRcvd\<rparr>)"

definition accept_initial_syn :: "bytes \<Rightarrow> tcp_session \<Rightarrow> bool \<times> tcp_session" where
  "accept_initial_syn tcp_seg s =
     (let f = tcp_flags tcp_seg in
      if f AND TCP_SYN = 0 \<or> f AND TCP_ACK \<noteq> 0 then (False, s)
      else
        let s = syn_negotiate tcp_seg s;
            (opts, s) = syn_ack_options s;
            s = snd (emit_segment (TCP_SYN OR TCP_ACK) (snd_una s) [] True opts s);
            s = s\<lparr>snd_nxt := snd_una s + 1\<rparr>;
            (n, s) = now_ms s
        in (True, schedule_rto n s))"

definition process_syn_rcvd :: "u8 \<Rightarrow> u32 \<Rightarrow> u32 \<Rightarrow> u16 \<Rightarrow> bytes \<Rightarrow> tcp_session \<Rightarrow> tcp_session" where
  "process_syn_rcvd flags seq ack wnd payload s =
     (if flags AND TCP_ACK = 0 then s
      else if ack \<noteq> snd_nxt s then s
      else
        let (n, s) = now_ms s;
            s = on_ack ack n s;
            s = s\<lparr>snd_wnd := scaled_window wnd s, state := Established\<rparr>;
            (opened, s) = open_host_socket s in
        if \<not> opened then reset_and_close s
        else
          let in_order_at_entry = (seq = rcv_nxt s);
              s = data_and_ack seq payload s;
              s = (if flags AND TCP_FIN \<noteq> 0 then
                     if fin_in_order in_order_at_entry seq payload s
                     then emit_ack (s\<lparr>rcv_nxt := rcv_nxt s + 1, state := CloseWait\<rparr>)
                     else emit_ack s
                   else s)
          in zwp_now s)"

definition process_established :: "u8 \<Rightarrow> u32 \<Rightarrow> u32 \<Rightarrow> u16 \<Rightarrow> bytes \<Rightarrow> tcp_session \<Rightarrow> tcp_session" where
  "process_established flags seq ack wnd payload s =
     (let s = ack_if_flagged flags ack s;
          s = s\<lparr>snd_wnd := scaled_window wnd s\<rparr>;
          in_order_at_entry = (seq = rcv_nxt s);
          s = data_and_ack seq payload s;
          s = (if flags AND TCP_FIN \<noteq> 0 then
                 if fin_in_order in_order_at_entry seq payload s then
                   let s = emit_ack (s\<lparr>rcv_nxt := rcv_nxt s + 1, state := CloseWait\<rparr>);
                       s = try_drain_to_host s
                   in if host s \<noteq> None \<and> \<not> host_wr_shut s \<and> to_host_off s \<ge> length (to_host s)
                      then shutdown_write s else s
                 else emit_ack s
               else s);
          s = try_segment_and_emit s
      in zwp_now s)"

definition process_close_wait :: "u8 \<Rightarrow> u32 \<Rightarrow> u16 \<Rightarrow> tcp_session \<Rightarrow> tcp_session" where
  "process_close_wait flags ack wnd s =
     (let s = ack_if_flagged flags ack s;
          s = s\<lparr>snd_wnd := scaled_window wnd s\<rparr>;
          s = (if flags AND TCP_FIN \<noteq> 0 then emit_ack s else s);
          s = try_segment_and_emit s
      in zwp_now s)"

definition time_wait_now :: "tcp_session \<Rightarrow> tcp_session" where
  "time_wait_now s = (let (n, s) = now_ms s in enter_time_wait n s)"

definition process_fin_wait_1 :: "u8 \<Rightarrow> u32 \<Rightarrow> u32 \<Rightarrow> u16 \<Rightarrow> bytes \<Rightarrow> tcp_session \<Rightarrow> tcp_session" where
  "process_fin_wait_1 flags seq ack wnd payload s =
     (let s = ack_if_flagged flags ack s;
          s = s\<lparr>snd_wnd := scaled_window wnd s\<rparr>;
          in_order_at_entry = (seq = rcv_nxt s);
          s = data_and_ack seq payload s;
          our_fin_acked = (\<not> seq_lt (snd_una s) (snd_nxt s));
          s = (if flags AND TCP_FIN \<noteq> 0 then
                 if fin_in_order in_order_at_entry seq payload s then
                   let s = emit_ack (s\<lparr>rcv_nxt := rcv_nxt s + 1\<rparr>)
                   in if our_fin_acked then time_wait_now (s\<lparr>state := TimeWait\<rparr>)
                      else s\<lparr>state := Closing\<rparr>
                 else s
               else if our_fin_acked then s\<lparr>state := FinWait2\<rparr>
               else s)
      in zwp_now s)"

definition process_fin_wait_2 :: "u8 \<Rightarrow> u32 \<Rightarrow> u16 \<Rightarrow> bytes \<Rightarrow> tcp_session \<Rightarrow> tcp_session" where
  "process_fin_wait_2 flags seq wnd payload s =
     (let s = s\<lparr>snd_wnd := scaled_window wnd s\<rparr>;
          in_order_at_entry = (seq = rcv_nxt s);
          s = data_and_ack seq payload s;
          s = (if flags AND TCP_FIN \<noteq> 0 \<and> fin_in_order in_order_at_entry seq payload s then
                 let s = emit_ack (s\<lparr>rcv_nxt := rcv_nxt s + 1\<rparr>)
                 in time_wait_now (s\<lparr>state := TimeWait\<rparr>)
               else s)
      in zwp_now s)"

definition process_closing :: "u8 \<Rightarrow> u32 \<Rightarrow> tcp_session \<Rightarrow> tcp_session" where
  "process_closing flags ack s =
     (let s = ack_if_flagged flags ack s
      in if \<not> seq_lt (snd_una s) (snd_nxt s) then time_wait_now (s\<lparr>state := TimeWait\<rparr>) else s)"

definition process_last_ack :: "u8 \<Rightarrow> u32 \<Rightarrow> tcp_session \<Rightarrow> tcp_session" where
  "process_last_ack flags ack s =
     (if flags AND TCP_ACK \<noteq> 0 then
        let (n, s) = now_ms s; s = on_ack ack n s
        in if \<not> seq_lt (snd_una s) (snd_nxt s) then mark_closed s else s
      else s)"

definition process_time_wait :: "u8 \<Rightarrow> tcp_session \<Rightarrow> tcp_session" where
  "process_time_wait flags s =
     (if flags AND TCP_FIN \<noteq> 0 then
        let s = emit_ack s; (n, s) = now_ms s in s\<lparr>time_wait_deadline_ms := n + 30000\<rparr>
      else s)"

text \<open>The option work at the head of \<open>on_segment\<close>: SACK blocks, then the timestamp echo.\<close>

definition note_sack :: "bytes \<Rightarrow> tcp_session \<Rightarrow> tcp_session" where
  "note_sack opts s =
     (let s = s\<lparr>sacked_at_segment_start := sacked_bytes s\<rparr>
      in if peer_sack_ok s \<and> opts \<noteq> [] then parse_sack_blocks opts s else s)"

definition note_timestamp :: "bytes \<Rightarrow> u32 \<Rightarrow> tcp_session \<Rightarrow> tcp_session" where
  "note_timestamp opts seq s =
     (let s = s\<lparr>cur_tsecr_present := False, cur_tsecr := 0\<rparr>
      in if peer_ts_ok s \<and> opts \<noteq> [] then
           let r = parse_options opts in
           if o_ts_present r then
             let s = s\<lparr>cur_tsecr_present := True, cur_tsecr := o_ts_ecr r\<rparr>
             in if seq = rcv_nxt s then s\<lparr>ts_recent := o_ts_val r\<rparr> else s
           else s
         else s)"

definition note_options :: "bytes \<Rightarrow> u32 \<Rightarrow> tcp_session \<Rightarrow> tcp_session" where
  "note_options opts seq s = note_timestamp opts seq (note_sack opts s)"

definition dispatch_state :: "u8 \<Rightarrow> u32 \<Rightarrow> u32 \<Rightarrow> u16 \<Rightarrow> bytes \<Rightarrow> tcp_session \<Rightarrow> tcp_session" where
  "dispatch_state flags seq ack wnd payload s =
     (case state s of
        SynRcvd \<Rightarrow> process_syn_rcvd flags seq ack wnd payload s
      | Established \<Rightarrow> process_established flags seq ack wnd payload s
      | CloseWait \<Rightarrow> process_close_wait flags ack wnd s
      | FinWait1 \<Rightarrow> process_fin_wait_1 flags seq ack wnd payload s
      | FinWait2 \<Rightarrow> process_fin_wait_2 flags seq wnd payload s
      | Closing \<Rightarrow> process_closing flags ack s
      | LastAck \<Rightarrow> process_last_ack flags ack s
      | TimeWait \<Rightarrow> process_time_wait flags s
      | _ \<Rightarrow> s)"

definition on_segment :: "bytes \<Rightarrow> tcp_session \<Rightarrow> bool \<times> tcp_session" where
  "on_segment tcp_seg s =
     (if length tcp_seg < 20 then (False, s)
      else let hdr = tcp_data_off tcp_seg in
      if hdr < 20 \<or> hdr > length tcp_seg then (False, s)
      else
        let flags = tcp_flags tcp_seg; seq = tcp_seq tcp_seg; ack = tcp_ack tcp_seg;
            wnd = tcp_window tcp_seg; payload = drop hdr tcp_seg;
            s = note_options (slice tcp_seg 20 hdr) seq s in
        if flags AND TCP_RST \<noteq> 0 then
          let in_window = (state s \<in> {SynRcvd, Closed} \<or> seq - rcv_nxt s < rcv_wnd s)
          in (True, if in_window then mark_closed s else s)
        else if state s = Closed then accept_initial_syn tcp_seg s
        else (True, dispatch_state flags seq ack wnd payload s))"

section \<open>Events of the host socket\<close>

record host_event =
  ev_error :: bool
  ev_readable :: bool
  ev_writable :: bool
  ev_read_closed :: bool
  ev_write_closed :: bool

definition after_connect :: "tcp_session \<Rightarrow> tcp_session" where
  "after_connect s =
     (let s = try_drain_to_host (s\<lparr>host_writable := True\<rparr>) in
      if to_host_off s \<ge> length (to_host s) then
        let s = refresh_host_interest s
        in if host s \<noteq> None \<and> \<not> host_wr_shut s \<and> state s \<in> {CloseWait, LastAck}
           then shutdown_write s else s
      else s)"

definition on_host_writable :: "tcp_session \<Rightarrow> tcp_session" where
  "on_host_writable s =
     (if \<not> host_writable s then
        case host s of
          None \<Rightarrow> after_connect s
        | Some sk \<Rightarrow>
            (case take_error sk s of
               (SoNone, s) \<Rightarrow> after_connect s
             | (_, s) \<Rightarrow> reset_and_close s)
      else after_connect s)"

definition host_eof :: "tcp_session \<Rightarrow> tcp_session" where
  "host_eof s =
     (let s = s\<lparr>host_read_eof := True\<rparr>
      in if to_client_off s \<ge> length (to_client s) \<and> \<not> sent_fin s then send_fin s else s)"

definition buffer_to_client :: "bytes \<Rightarrow> tcp_session \<Rightarrow> tcp_session" where
  "buffer_to_client data s =
     (let s = (if to_client_off s > 0 \<and> to_client_off s \<ge> length (to_client s) div 2
               then s\<lparr>to_client := drop (to_client_off s) (to_client s), to_client_off := 0\<rparr> else s)
      in s\<lparr>to_client := to_client s @ data\<rparr>)"

definition set_reads :: "sock \<Rightarrow> rd_result list \<Rightarrow> tcp_session \<Rightarrow> tcp_session" where
  "set_reads sk rs s = s\<lparr>io := (io s)\<lparr>w_reads := (w_reads (io s))(sk := rs)\<rparr>\<rparr>"

text \<open>How the read loop of \<open>on_host_readable\<close> ends.\<close>

datatype read_end = ReadDone | ReadPause | ReadReset

fun read_loop :: "sock \<Rightarrow> rd_result list \<Rightarrow> tcp_session \<Rightarrow> read_end \<times> tcp_session" where
  "read_loop sk [] s = (ReadDone, sys (SysRead sk) (set_reads sk [] s))"
| "read_loop sk (r # rs) s =
     (let s = sys (SysRead sk) (set_reads sk rs s) in
      case r of
        ROk [] \<Rightarrow> (ReadDone, host_eof s)
      | ROk data \<Rightarrow>
          let s = buffer_to_client (take 16384 data) s in
          if length (to_client s) - to_client_off s \<ge> TO_CLIENT_HIGH_WATER
          then (ReadPause, s\<lparr>host_pollin_paused := True\<rparr>)
          else read_loop sk rs s
      | RWouldBlock \<Rightarrow> (ReadDone, s)
      | RInterrupted \<Rightarrow> read_loop sk rs s
      | RErr \<Rightarrow> (ReadReset, reset_and_close s))"

definition on_host_readable :: "tcp_session \<Rightarrow> tcp_session" where
  "on_host_readable s =
     (case host s of
        None \<Rightarrow> s
      | Some sk \<Rightarrow>
          if host_pollin_paused s then s
          else case read_loop sk (w_reads (io s) sk) s of
            (ReadReset, s) \<Rightarrow> s
          | (ReadPause, s) \<Rightarrow> zwp_now (try_segment_and_emit (refresh_host_interest s))
          | (ReadDone, s) \<Rightarrow> zwp_now (try_segment_and_emit s))"

definition host_closed :: "tcp_session \<Rightarrow> tcp_session" where
  "host_closed s =
     (let s = s\<lparr>host_read_eof := True\<rparr>
      in if \<not> sent_fin s \<and> to_client_off s \<ge> length (to_client s) \<and> state s \<in> {Established, CloseWait}
         then send_fin s else s)"

definition on_host_event :: "host_event \<Rightarrow> tcp_session \<Rightarrow> tcp_session" where
  "on_host_event ev s =
     (let (err, s) = (if ev_error ev then
                        case host s of
                          None \<Rightarrow> (SoNone, s)
                        | Some sk \<Rightarrow> take_error sk s
                      else (SoNone, s)) in
      if err = SoSome then reset_and_close s
      else
        let closed = (ev_read_closed ev \<or> ev_write_closed ev);
            s = (if ev_writable ev then on_host_writable s else s);
            s = (if ev_readable ev then on_host_readable s else s)
        in if closed then host_closed s else s)"

section \<open>Other entry points\<close>

definition fan_out_window_update :: "tcp_session \<Rightarrow> tcp_session" where
  "fan_out_window_update s =
     (if state s \<in> {Established, CloseWait, FinWait1, FinWait2} then emit_ack s else s)"

definition drop_session :: "tcp_session \<Rightarrow> tcp_session" where
  "drop_session s = close_host_socket s"

end
