(* ===== verification/Tcp_Inv.thy ===== *)
theory Tcp_Inv
  imports Tcp_Session
begin

text \<open>
  The session invariant \<open>tcp_inv\<close> and its preservation by every operation: buffer offsets stay
  inside their buffers, the out-of-order accounting is exact and bounded, the socket and its
  reactor token come and go together, no socket outlives the connection states that own it,
  the negotiated parameters and the retransmission timeout stay in range, and every
  destination dialled passed the destination filter.
\<close>

definition ooo_total :: "ooo_seg list \<Rightarrow> nat" where
  "ooo_total qs = sum_list (map (\<lambda>q. length (q_data q)) qs)"

definition recv_ok :: "tcp_session \<Rightarrow> bool" where
  "recv_ok s \<longleftrightarrow>
     to_host_off s \<le> length (to_host s)
     \<and> ooo_bytes s = ooo_total (ooo s) \<and> ooo_bytes s \<le> MAX_OOO_BYTES
     \<and> host_token s = host s
     \<and> 0 < peer_mss s \<and> peer_mss s \<le> OWN_MSS \<and> peer_wscale s \<le> 14 \<and> own_wscale s \<le> 4
     \<and> dials_allowed (w_calls (io s))"

definition snd_ok :: "tcp_session \<Rightarrow> bool" where
  "snd_ok s \<longleftrightarrow> to_client_off s \<le> length (to_client s) \<and> 200 \<le> rto_ms s \<and> rto_ms s \<le> 60000"

definition st_ok :: "tcp_session \<Rightarrow> bool" where
  "st_ok s \<longleftrightarrow> (state s \<in> {Closed, TimeWait} \<longrightarrow> host s = None) \<and> state s \<notin> {Listen, SynSent}"

definition tcp_inv :: "tcp_session \<Rightarrow> bool" where
  "tcp_inv s \<longleftrightarrow> recv_ok s \<and> snd_ok s \<and> st_ok s"

section \<open>Frames\<close>

lemma recv_ok_cong: "recv_view s = recv_view t \<Longrightarrow> recv_ok s = recv_ok t"
  using recv_viewD [of s t] io_viewD(1) [of "io s" "io t"] by (simp only: recv_ok_def)

lemma st_ok_cong: "state s = state t \<Longrightarrow> host s = host t \<Longrightarrow> st_ok s = st_ok t"
  by (simp only: st_ok_def)

lemma snd_ok_cong:
  "to_client_off s = to_client_off t \<Longrightarrow> to_client s = to_client t \<Longrightarrow> rto_ms s = rto_ms t \<Longrightarrow> snd_ok s = snd_ok t"
  by (simp only: snd_ok_def)

lemma keep_view_ok:
  assumes "keep_view s = keep_view t"
  shows "recv_ok s = recv_ok t" "st_ok s = st_ok t"
  using keep_viewD(1,2) [OF assms] recv_viewD(5) [OF keep_viewD(2) [OF assms]]
  by (metis recv_ok_cong, metis st_ok_cong)

lemma out_view_ok:
  assumes "out_view s = out_view t"
  shows "snd_ok s = snd_ok t"
  using send_viewD(4,5) [OF out_viewD(3) [OF assms]] recv_viewD(14) [OF out_viewD(2) [OF assms]]
  by (metis snd_ok_cong)

lemmas emit_ok [simp] =
  keep_view_ok [OF keep_view_emit(1)] keep_view_ok [OF keep_view_emit(2)] keep_view_ok [OF keep_view_emit(3)]
  keep_view_ok [OF keep_view_emit(4)] keep_view_ok [OF keep_view_emit(5)] keep_view_ok [OF keep_view_emit(6)]
  keep_view_ok [OF keep_view_emit(7)] keep_view_ok [OF keep_view_emit(8)]
  out_view_ok [OF out_view_snd(1)] out_view_ok [OF out_view_snd(2)] out_view_ok [OF out_view_snd(3)]
  out_view_ok [OF out_view_snd(4)] out_view_ok [OF out_view_emit(1)] out_view_ok [OF out_view_emit(2)]
  out_view_ok [OF out_view_emit(3)] out_view_ok [OF out_view_timers(1)] out_view_ok [OF out_view_timers(2)]

lemmas ack_ok [simp] =
  keep_view_ok [OF keep_view_on_ack] keep_view_ok [OF keep_view_fire_tlp] keep_view_ok [OF keep_view_rack]
  keep_view_ok [OF keep_view_zwp_fire] keep_view_ok [OF keep_view_parse_sack_blocks]
  keep_view_ok [OF keep_view_rtt(2)]

section \<open>The send side\<close>

text \<open>Updates of fields that \<open>snd_ok\<close> does not read.\<close>

lemma snd_ok_upd [simp]:
  "snd_ok (s\<lparr>retx := a1\<rparr>) = snd_ok s" "snd_ok (s\<lparr>cwnd := a2\<rparr>) = snd_ok s"
  "snd_ok (s\<lparr>ssthresh := a2\<rparr>) = snd_ok s" "snd_ok (s\<lparr>snd_una := a2\<rparr>) = snd_ok s"
  "snd_ok (s\<lparr>snd_nxt := a2\<rparr>) = snd_ok s" "snd_ok (s\<lparr>snd_wnd := a2\<rparr>) = snd_ok s"
  "snd_ok (s\<lparr>in_recovery := b\<rparr>) = snd_ok s" "snd_ok (s\<lparr>recovery_point := a2\<rparr>) = snd_ok s"
  "snd_ok (s\<lparr>recover_fs := a2\<rparr>) = snd_ok s" "snd_ok (s\<lparr>prr_delivered := a2\<rparr>) = snd_ok s"
  "snd_ok (s\<lparr>prr_out := a2\<rparr>) = snd_ok s" "snd_ok (s\<lparr>sacked_bytes := a2\<rparr>) = snd_ok s"
  "snd_ok (s\<lparr>dup_ack_count := a4\<rparr>) = snd_ok s" "snd_ok (s\<lparr>last_ack_seen := a2\<rparr>) = snd_ok s"
  "snd_ok (s\<lparr>last_head_retx_ms := a2\<rparr>) = snd_ok s" "snd_ok (s\<lparr>rto_retries := a4\<rparr>) = snd_ok s"
  "snd_ok (s\<lparr>rto_deadline_ms := a2\<rparr>) = snd_ok s" "snd_ok (s\<lparr>rack_dsack_seen := b\<rparr>) = snd_ok s"
  "snd_ok (s\<lparr>tlp_deadline_ms := a2\<rparr>) = snd_ok s" "snd_ok (s\<lparr>rack_deadline_ms := a2\<rparr>) = snd_ok s"
  "snd_ok (s\<lparr>rack_reo_wnd := a2\<rparr>) = snd_ok s" "snd_ok (s\<lparr>rack_xmit_ts := a2\<rparr>) = snd_ok s"
  "snd_ok (s\<lparr>rack_end_seq := a2\<rparr>) = snd_ok s" "snd_ok (s\<lparr>rack_rtt := a2\<rparr>) = snd_ok s"
  "snd_ok (s\<lparr>rack_inited := b\<rparr>) = snd_ok s" "snd_ok (s\<lparr>tsval_at_rto := a2\<rparr>) = snd_ok s"
  "snd_ok (s\<lparr>cwnd_pre_rto := a2\<rparr>) = snd_ok s" "snd_ok (s\<lparr>ssthresh_pre_rto := a2\<rparr>) = snd_ok s"
  "snd_ok (s\<lparr>zwp_deadline_ms := a2\<rparr>) = snd_ok s" "snd_ok (s\<lparr>zwp_interval_ms := a2\<rparr>) = snd_ok s"
  "snd_ok (s\<lparr>sacked_at_segment_start := a2\<rparr>) = snd_ok s" "snd_ok (s\<lparr>ts_recent := a2\<rparr>) = snd_ok s"
  "snd_ok (s\<lparr>cur_tsecr := a2\<rparr>) = snd_ok s" "snd_ok (s\<lparr>cur_tsecr_present := b\<rparr>) = snd_ok s"
  "snd_ok (s\<lparr>time_wait_deadline_ms := a2\<rparr>) = snd_ok s" "snd_ok (s\<lparr>last_stall_log_ms := a2\<rparr>) = snd_ok s"
  "snd_ok (s\<lparr>state := st\<rparr>) = snd_ok s" "snd_ok (s\<lparr>rcv_nxt := a2\<rparr>) = snd_ok s"
  "snd_ok (s\<lparr>host := h\<rparr>) = snd_ok s" "snd_ok (s\<lparr>host_token := h\<rparr>) = snd_ok s"
  "snd_ok (s\<lparr>io := w\<rparr>) = snd_ok s" "snd_ok (s\<lparr>to_host := d\<rparr>) = snd_ok s"
  "snd_ok (s\<lparr>to_host_off := k\<rparr>) = snd_ok s" "snd_ok (s\<lparr>ooo := q\<rparr>) = snd_ok s"
  "snd_ok (s\<lparr>ooo_bytes := k\<rparr>) = snd_ok s" "snd_ok (s\<lparr>host_writable := b\<rparr>) = snd_ok s"
  "snd_ok (s\<lparr>host_wr_shut := b\<rparr>) = snd_ok s" "snd_ok (s\<lparr>host_pollin_paused := b\<rparr>) = snd_ok s"
  "snd_ok (s\<lparr>host_read_eof := b\<rparr>) = snd_ok s" "snd_ok (s\<lparr>sent_fin := b\<rparr>) = snd_ok s"
  "snd_ok (s\<lparr>peer_mss := m\<rparr>) = snd_ok s" "snd_ok (s\<lparr>peer_wscale := a4\<rparr>) = snd_ok s"
  "snd_ok (s\<lparr>own_wscale := a4\<rparr>) = snd_ok s" "snd_ok (s\<lparr>peer_ws_ok := b\<rparr>) = snd_ok s"
  "snd_ok (s\<lparr>peer_sack_ok := b\<rparr>) = snd_ok s" "snd_ok (s\<lparr>peer_ts_ok := b\<rparr>) = snd_ok s"
  "snd_ok (s\<lparr>ts_clock_base := a2\<rparr>) = snd_ok s"
  by (simp_all add: snd_ok_def)

lemma clamp_rto [simp]:
  fixes x :: u32
  shows "200 \<le> min (max x 200) 60000" "min (max x 200) 60000 \<le> 60000"
  by (auto simp: min_def max_def not_le)

lemma snd_ok_rto [simp]:
  "snd_ok s \<Longrightarrow> snd_ok (s\<lparr>rto_ms := min (max x 200) 60000\<rparr>)"
  by (simp add: snd_ok_def)

lemma snd_ok_update_rtt [simp]: "snd_ok s \<Longrightarrow> snd_ok (update_rtt x s)"
  by (simp add: update_rtt_def Let_def snd_ok_def)

lemma snd_ok_bookkeeping [simp]:
  "snd_ok (update_zwp n s) = snd_ok s"
  "snd_ok (enter_fast_recovery s) = snd_ok s" "snd_ok (update_prr_after_ack p a s) = snd_ok s"
  "snd_ok (rack_update_from_delivered x e n s) = snd_ok s"
  "snd_ok (eifel_undo s) = snd_ok s" "snd_ok (grow_cwnd k a s) = snd_ok s"
  by (simp_all add: update_zwp_def enter_fast_recovery_def update_prr_after_ack_def
      rack_update_from_delivered_def eifel_undo_def grow_cwnd_def Let_def)

lemma snd_ok_rack_emit [simp]: "snd_ok (snd (rack_emit now is e s)) = snd_ok s"
  by (induction "is" arbitrary: e s) (simp_all add: Let_def case_prod_unfold)

lemma snd_ok_rack [simp]: "snd_ok (rack_detect_loss_and_arm_timer now s) = snd_ok s"
  by (simp add: rack_detect_loss_and_arm_timer_def Let_def case_prod_unfold)

lemma snd_ok_ack_pop [simp]: "snd_ok s \<Longrightarrow> snd_ok (ack_pop k n b q s)"
  by (induction q arbitrary: b s) (simp_all add: Let_def)

lemma snd_ok_ts_sample [simp]: "snd_ok s \<Longrightarrow> snd_ok (snd (ts_sample s))"
  by (simp add: ts_sample_def Let_def case_prod_unfold)

lemma snd_ok_limited_transmit [simp]: "snd_ok s \<Longrightarrow> snd_ok (limited_transmit s)"
  by (auto simp: limited_transmit_def Let_def case_prod_unfold snd_ok_def)

lemma snd_ok_on_ack [simp]: "snd_ok s \<Longrightarrow> snd_ok (on_ack k n s)"
  by (simp add: on_ack_def on_dup_ack_def dup_ack_in_recovery_def fast_retransmit_def on_new_ack_def
      Let_def case_prod_unfold)

lemma snd_ok_probes [simp]:
  "snd_ok (fire_tlp n s) = snd_ok s" "snd_ok (zwp_fire n s) = snd_ok s"
  by (simp_all add: fire_tlp_def zwp_fire_def Let_def split: option.split)

lemma snd_ok_fold_rack [simp]:
  "snd_ok (fold (\<lambda>g. rack_update_from_delivered (f g) (h g) now) gs s) = snd_ok s"
  by (induction gs arbitrary: s) simp_all

lemma snd_ok_on_sack_block [simp]: "snd_ok (on_sack_block l r s) = snd_ok s"
  by (simp add: on_sack_block_def Let_def case_prod_unfold)

lemma snd_ok_sack_blocks [simp]: "snd_ok (sack_blocks bs b s) = snd_ok s"
  by (induction bs b s rule: sack_blocks.induct) (simp_all add: Let_def)

lemma snd_ok_parse_sack_blocks [simp]: "snd_ok (parse_sack_blocks bs s) = snd_ok s"
  by (simp add: parse_sack_blocks_def sack_option_def walk_opts_preserves)

section \<open>Closing and timers\<close>

lemma sys_simps [simp]:
  "state (sys c s) = state s" "host (sys c s) = host s" "snd_ok (sys c s) = snd_ok s"
  "st_ok (sys c s) = st_ok s"
  "to_host (sys c s) = to_host s" "to_host_off (sys c s) = to_host_off s"
  "connect_dst c = None \<Longrightarrow> recv_ok (sys c s) = recv_ok s"
  by (simp_all add: sys_def st_ok_def recv_ok_def w_call_def)

lemma recv_ok_state [simp]: "recv_ok (s\<lparr>state := st\<rparr>) = recv_ok s"
  by (simp add: recv_ok_def)

lemma close_host_socket_ok [simp]:
  "recv_ok s \<Longrightarrow> recv_ok (close_host_socket s)" "snd_ok (close_host_socket s) = snd_ok s"
  "state (close_host_socket s) = state s" "recv_ok s \<Longrightarrow> host (close_host_socket s) = None"
  by (auto simp: close_host_socket_def Let_def recv_ok_def sys_def w_call_def snd_ok_def split: option.split)

lemma mark_closed_ok [simp]:
  "recv_ok s \<Longrightarrow> recv_ok (mark_closed s)" "snd_ok (mark_closed s) = snd_ok s"
  "recv_ok s \<Longrightarrow> st_ok (mark_closed s)" "state (mark_closed s) = Closed"
  by (simp_all add: mark_closed_def st_ok_def)

lemma reset_and_close_ok [simp]:
  "recv_ok s \<Longrightarrow> recv_ok (reset_and_close s)" "snd_ok (reset_and_close s) = snd_ok s"
  "recv_ok s \<Longrightarrow> st_ok (reset_and_close s)"
  by (simp_all add: reset_and_close_def)

lemma recv_ok_timers [simp]:
  "recv_ok (s\<lparr>time_wait_deadline_ms := a\<rparr>) = recv_ok s" "recv_ok (s\<lparr>rto_deadline_ms := a\<rparr>) = recv_ok s"
  "recv_ok (s\<lparr>rack_deadline_ms := a\<rparr>) = recv_ok s" "recv_ok (s\<lparr>tlp_deadline_ms := a\<rparr>) = recv_ok s"
  "recv_ok (s\<lparr>zwp_deadline_ms := a\<rparr>) = recv_ok s" "recv_ok (s\<lparr>rcv_nxt := a\<rparr>) = recv_ok s"
  "recv_ok (s\<lparr>snd_nxt := a\<rparr>) = recv_ok s" "recv_ok (s\<lparr>snd_una := a\<rparr>) = recv_ok s"
  "recv_ok (s\<lparr>snd_wnd := a\<rparr>) = recv_ok s" "recv_ok (s\<lparr>sent_fin := b\<rparr>) = recv_ok s"
  "recv_ok (s\<lparr>host_read_eof := b\<rparr>) = recv_ok s" "recv_ok (s\<lparr>host_wr_shut := b\<rparr>) = recv_ok s"
  "recv_ok (s\<lparr>host_writable := b\<rparr>) = recv_ok s" "recv_ok (s\<lparr>host_pollin_paused := b\<rparr>) = recv_ok s"
  "recv_ok (s\<lparr>to_client := d\<rparr>) = recv_ok s" "recv_ok (s\<lparr>to_client_off := k\<rparr>) = recv_ok s"
  "recv_ok (s\<lparr>last_stall_log_ms := a\<rparr>) = recv_ok s" "recv_ok (s\<lparr>cwnd := a\<rparr>) = recv_ok s"
  by (simp_all add: recv_ok_def)

lemma st_ok_upd [simp]:
  "st_ok (s\<lparr>rcv_nxt := a\<rparr>) = st_ok s" "st_ok (s\<lparr>snd_nxt := a\<rparr>) = st_ok s"
  "st_ok (s\<lparr>snd_wnd := a\<rparr>) = st_ok s" "st_ok (s\<lparr>sent_fin := b\<rparr>) = st_ok s"
  "st_ok (s\<lparr>host_read_eof := b\<rparr>) = st_ok s" "st_ok (s\<lparr>host_wr_shut := b\<rparr>) = st_ok s"
  "st_ok (s\<lparr>host_writable := b\<rparr>) = st_ok s" "st_ok (s\<lparr>host_pollin_paused := b\<rparr>) = st_ok s"
  "st_ok (s\<lparr>to_client := d\<rparr>) = st_ok s" "st_ok (s\<lparr>to_client_off := k\<rparr>) = st_ok s"
  "st_ok (s\<lparr>to_host := d\<rparr>) = st_ok s" "st_ok (s\<lparr>to_host_off := k\<rparr>) = st_ok s"
  "st_ok (s\<lparr>ooo := q\<rparr>) = st_ok s" "st_ok (s\<lparr>ooo_bytes := k\<rparr>) = st_ok s"
  "st_ok (s\<lparr>last_stall_log_ms := a\<rparr>) = st_ok s" "st_ok (s\<lparr>time_wait_deadline_ms := a\<rparr>) = st_ok s"
  "st_ok (s\<lparr>io := w\<rparr>) = st_ok s"
  by (simp_all add: st_ok_def)

lemma st_ok_set [simp]:
  "st \<notin> {Closed, TimeWait, Listen, SynSent} \<Longrightarrow> st_ok (s\<lparr>state := st\<rparr>)"
  by (simp add: st_ok_def)

lemma enter_time_wait_ok [simp]:
  "recv_ok s \<Longrightarrow> recv_ok (enter_time_wait n s)" "snd_ok (enter_time_wait n s) = snd_ok s"
  "recv_ok s \<Longrightarrow> st_ok (enter_time_wait n s)"
  by (simp_all add: enter_time_wait_def st_ok_def)

lemma time_wait_now_ok [simp]:
  "recv_ok s \<Longrightarrow> recv_ok (time_wait_now s)" "snd_ok (time_wait_now s) = snd_ok s"
  "recv_ok s \<Longrightarrow> st_ok (time_wait_now s)"
  by (simp_all add: time_wait_now_def Let_def case_prod_unfold)

lemma zwp_now_ok [simp]:
  "recv_ok (zwp_now s) = recv_ok s" "snd_ok (zwp_now s) = snd_ok s" "st_ok (zwp_now s) = st_ok s"
  by (simp_all add: zwp_now_def Let_def case_prod_unfold)

lemma send_fin_ok [simp]:
  "recv_ok (send_fin s) = recv_ok s" "snd_ok (send_fin s) = snd_ok s" "st_ok (send_fin s)"
  by (simp_all add: send_fin_def Let_def)

lemma rto_double:
  fixes x :: u32
  assumes "200 \<le> x" "x \<le> 60000"
  shows "200 \<le> (of_nat (min (2 * unat x) 60000) :: u32)" "(of_nat (min (2 * unat x) 60000) :: u32) \<le> 60000"
  using assms by (auto simp: word_le_nat_alt unat_of_nat_u32 min_def)

lemma rto_collapse_ok [simp]:
  "recv_ok (rto_collapse n s) = recv_ok s" "st_ok (rto_collapse n s) = st_ok s"
  "snd_ok (rto_collapse n s) = snd_ok s"
  by (simp_all only: keep_view_ok [OF keep_view_rto_collapse])
    (simp add: rto_collapse_def Let_def case_prod_unfold)

lemma rto_fire_ok [simp]:
  "recv_ok s \<Longrightarrow> recv_ok (rto_fire n s)" "snd_ok s \<Longrightarrow> snd_ok (rto_fire n s)"
  "recv_ok s \<Longrightarrow> st_ok s \<Longrightarrow> st_ok (rto_fire n s)"
proof -
  have rto: "keep_view (t\<lparr>rto_ms := x\<rparr>) = keep_view t" for t x
    by simp
  have dbl: "snd_ok (t\<lparr>rto_ms := of_nat (min (2 * unat (rto_ms t)) 60000)\<rparr>)" if "snd_ok t" for t
    using that rto_double unfolding snd_ok_def by simp
  show "recv_ok s \<Longrightarrow> recv_ok (rto_fire n s)"
    by (simp add: rto_fire_def Let_def keep_view_ok(1) [OF rto])
  show "snd_ok s \<Longrightarrow> snd_ok (rto_fire n s)"
    by (simp add: rto_fire_def Let_def dbl)
  show "recv_ok s \<Longrightarrow> st_ok s \<Longrightarrow> st_ok (rto_fire n s)"
    by (simp add: rto_fire_def Let_def keep_view_ok(2) [OF rto])
qed

section \<open>The host socket\<close>

lemma refresh_host_interest_ok [simp]:
  "recv_ok (refresh_host_interest s) = recv_ok s" "snd_ok (refresh_host_interest s) = snd_ok s"
  "st_ok (refresh_host_interest s) = st_ok s" "host (refresh_host_interest s) = host s"
  by (simp_all add: refresh_host_interest_def Let_def split: option.split)

lemma shutdown_write_ok [simp]:
  "recv_ok (shutdown_write s) = recv_ok s" "snd_ok (shutdown_write s) = snd_ok s"
  "st_ok (shutdown_write s) = st_ok s"
  by (simp_all add: shutdown_write_def Let_def split: option.split)

lemma take_error_ok [simp]:
  "recv_ok (snd (take_error sk s)) = recv_ok s" "snd_ok (snd (take_error sk s)) = snd_ok s"
  "st_ok (snd (take_error sk s)) = st_ok s"
  by (simp_all add: take_error_def)

lemma scripts_ok [simp]:
  "recv_ok (set_writes sk ws s) = recv_ok s" "snd_ok (set_writes sk ws s) = snd_ok s"
  "st_ok (set_writes sk ws s) = st_ok s"
  "recv_ok (set_reads sk rs s) = recv_ok s" "snd_ok (set_reads sk rs s) = snd_ok s"
  "st_ok (set_reads sk rs s) = st_ok s"
  by (simp_all add: set_writes_def set_reads_def recv_ok_def)

lemma drain_parts_ok [simp]:
  "recv_ok s \<Longrightarrow> recv_ok (drained s)" "snd_ok (drained s) = snd_ok s" "st_ok (drained s) = st_ok s"
  "recv_ok (drain_blocked s) = recv_ok s" "snd_ok (drain_blocked s) = snd_ok s"
  "st_ok (drain_blocked s) = st_ok s"
  by (simp_all add: drained_def drain_blocked_def) (simp add: recv_ok_def)

lemma drain_writes_ok [simp]:
  "recv_ok s \<Longrightarrow> recv_ok (drain_writes sk ws s)"
  "snd_ok (drain_writes sk ws s) = snd_ok s"
  "recv_ok s \<Longrightarrow> st_ok s \<Longrightarrow> st_ok (drain_writes sk ws s)"
proof -
  have adv: "recv_ok ((sys c t)\<lparr>to_host_off := to_host_off t + min m (length (to_host t) - to_host_off t)\<rparr>)"
    if "recv_ok t" "connect_dst c = None" for t m c
    using that by (auto simp: recv_ok_def sys_def w_call_def)
  show "recv_ok s \<Longrightarrow> recv_ok (drain_writes sk ws s)"
    by (induction ws arbitrary: s) (simp_all add: Let_def adv split: wr_result.split)
  show "snd_ok (drain_writes sk ws s) = snd_ok s"
    by (induction ws arbitrary: s) (simp_all add: Let_def split: wr_result.split)
  show "recv_ok s \<Longrightarrow> st_ok s \<Longrightarrow> st_ok (drain_writes sk ws s)"
    by (induction ws arbitrary: s) (simp_all add: Let_def adv split: wr_result.split)
qed

lemma try_drain_ok [simp]:
  "recv_ok s \<Longrightarrow> recv_ok (try_drain_to_host s)" "snd_ok (try_drain_to_host s) = snd_ok s"
  "recv_ok s \<Longrightarrow> st_ok s \<Longrightarrow> st_ok (try_drain_to_host s)"
  by (simp_all add: try_drain_to_host_def split: option.split)

lemma enqueue_ok [simp]:
  "recv_ok s \<Longrightarrow> recv_ok (enqueue_to_host d s)" "snd_ok (enqueue_to_host d s) = snd_ok s"
  "recv_ok s \<Longrightarrow> st_ok s \<Longrightarrow> st_ok (enqueue_to_host d s)"
proof -
  have compact: "recv_ok (t\<lparr>to_host_off := 0, to_host := drop (to_host_off t) (to_host t) @ d\<rparr>)"
    "recv_ok (t\<lparr>to_host := to_host t @ d\<rparr>)" if "recv_ok t" for t
    using that by (auto simp: recv_ok_def)
  show "recv_ok s \<Longrightarrow> recv_ok (enqueue_to_host d s)" "snd_ok (enqueue_to_host d s) = snd_ok s"
    "recv_ok s \<Longrightarrow> st_ok s \<Longrightarrow> st_ok (enqueue_to_host d s)"
    by (simp_all add: enqueue_to_host_def Let_def compact)
qed

section \<open>Client data\<close>

lemma ooo_total_simps [simp]:
  "ooo_total [] = 0" "ooo_total (q # qs) = length (q_data q) + ooo_total qs"
  "ooo_total (xs @ ys) = ooo_total xs + ooo_total ys"
  by (simp_all add: ooo_total_def)

lemma ooo_total_take_drop [simp]: "ooo_total (take k qs) + ooo_total (drop k qs) = ooo_total qs"
  using ooo_total_simps(3) [of "take k qs" "drop k qs"] by simp

text \<open>Delivery writes to the host without looking at the queue.\<close>

lemma close_ooo [simp]:
  "ooo (close_host_socket s) = ooo s" "ooo_bytes (close_host_socket s) = ooo_bytes s"
  "rcv_nxt (close_host_socket s) = rcv_nxt s"
  by (simp_all add: close_host_socket_def Let_def sys_def split: option.split)

lemmas emit_rst_keeps [simp] =
  recv_viewD [OF out_viewD(2) [OF out_view_emit(2)]] recv_viewD [OF out_viewD(2) [OF out_view_emit(1)]]

lemma host_io_ooo [simp]:
  "ooo (sys c s) = ooo s" "ooo_bytes (sys c s) = ooo_bytes s" "rcv_nxt (sys c s) = rcv_nxt s"
  "ooo (set_writes sk ws s) = ooo s" "ooo_bytes (set_writes sk ws s) = ooo_bytes s"
  "rcv_nxt (set_writes sk ws s) = rcv_nxt s"
  "ooo (drained s) = ooo s" "ooo_bytes (drained s) = ooo_bytes s" "rcv_nxt (drained s) = rcv_nxt s"
  "ooo (refresh_host_interest s) = ooo s" "ooo_bytes (refresh_host_interest s) = ooo_bytes s"
  "rcv_nxt (refresh_host_interest s) = rcv_nxt s"
  "ooo (reset_and_close s) = ooo s" "ooo_bytes (reset_and_close s) = ooo_bytes s"
  "rcv_nxt (reset_and_close s) = rcv_nxt s"
  by (simp_all add: sys_def set_writes_def drained_def refresh_host_interest_def reset_and_close_def
      mark_closed_def Let_def split: option.split)

lemma drain_writes_ooo [simp]:
  "ooo (drain_writes sk ws s) = ooo s" "ooo_bytes (drain_writes sk ws s) = ooo_bytes s"
  "rcv_nxt (drain_writes sk ws s) = rcv_nxt s"
  by (induction ws arbitrary: s) (simp_all add: Let_def drain_blocked_def split: wr_result.split)

lemma enqueue_ooo [simp]:
  "ooo (enqueue_to_host d s) = ooo s" "ooo_bytes (enqueue_to_host d s) = ooo_bytes s"
  "rcv_nxt (enqueue_to_host d s) = rcv_nxt s"
  by (simp_all add: enqueue_to_host_def try_drain_to_host_def Let_def split: option.split)

lemma deliver_queue_ok:
  assumes "recv_ok (s\<lparr>ooo := qs\<rparr>)"
  shows "recv_ok (deliver_queue qs s)"
  using assms
proof (induction qs arbitrary: s)
  case (Cons h q)
  have pop: "recv_ok (s\<lparr>ooo_bytes := ooo_bytes s - length (q_data h), ooo := q\<rparr>)"
    using Cons.prems by (simp add: recv_ok_def)
  have fwd: "recv_ok (t\<lparr>rcv_nxt := e, ooo := q\<rparr>)" if "recv_ok t" "ooo t = q" for t e
    using that by (simp add: recv_ok_def)
  show ?case
    using pop Cons.prems
    by (auto simp: Let_def intro!: Cons.IH fwd)
qed simp

lemma deliver_queue_snd [simp]: "snd_ok (deliver_queue qs s) = snd_ok s"
  by (induction qs arbitrary: s) (simp_all add: Let_def)

lemma deliver_queue_st: "recv_ok (s\<lparr>ooo := qs\<rparr>) \<Longrightarrow> st_ok s \<Longrightarrow> st_ok (deliver_queue qs s)"
proof (induction qs arbitrary: s)
  case (Cons h q)
  have pop: "recv_ok (s\<lparr>ooo_bytes := ooo_bytes s - length (q_data h), ooo := q\<rparr>)"
    using Cons.prems by (simp add: recv_ok_def)
  have fwd: "recv_ok (t\<lparr>rcv_nxt := e, ooo := q\<rparr>)" if "recv_ok t" "ooo t = q" for t e
    using that by (simp add: recv_ok_def)
  show ?case
    using pop Cons.prems(2)
    by (auto simp: Let_def intro!: Cons.IH fwd)
qed simp

lemma recv_ok_self: "recv_ok (s\<lparr>ooo := ooo s\<rparr>) = recv_ok s"
  by (simp add: recv_ok_def)

lemma deliver_ooo_ok [simp]:
  "recv_ok s \<Longrightarrow> recv_ok (deliver_ooo s)" "snd_ok (deliver_ooo s) = snd_ok s"
  "recv_ok s \<Longrightarrow> st_ok s \<Longrightarrow> st_ok (deliver_ooo s)"
  by (simp_all add: deliver_ooo_def deliver_queue_ok deliver_queue_st recv_ok_self)

lemma store_ooo_ok [simp]:
  "recv_ok s \<Longrightarrow> recv_ok (store_ooo q d s)" "snd_ok (store_ooo q d s) = snd_ok s"
  "st_ok (store_ooo q d s) = st_ok s"
  by (simp_all add: store_ooo_def Let_def) (simp add: recv_ok_def)

lemma data_ok [simp]:
  "recv_ok s \<Longrightarrow> recv_ok (data_and_ack q d s)" "snd_ok (data_and_ack q d s) = snd_ok s"
  "recv_ok s \<Longrightarrow> st_ok s \<Longrightarrow> st_ok (data_and_ack q d s)"
  by (simp_all add: data_and_ack_def handle_data_in_def Let_def)

section \<open>Host data\<close>

text \<open>Induction over the send loop: it stops, the callback refuses a segment, or a segment goes
  out and the loop goes on.\<close>

lemma segment_loop_induct [case_names stop refuse send]:
  assumes stop: "\<And>s b. P s (b, s)"
    and refuse: "\<And>s data. \<not> fst (emit_segment (TCP_ACK OR TCP_PSH) (snd_nxt s) data True [] s) \<Longrightarrow>
      P s (False, snd (emit_segment (TCP_ACK OR TCP_PSH) (snd_nxt s) data True [] s))"
    and send: "\<And>s n t res. 0 < n \<Longrightarrow> to_client_off s + n \<le> length (to_client s) \<Longrightarrow> n \<le> unat (peer_mss s) \<Longrightarrow>
      pipe_of s < min (snd_wnd s) (cwnd s) \<Longrightarrow> n \<le> unat (min (snd_wnd s) (cwnd s) - pipe_of s) \<Longrightarrow>
      emit_segment (TCP_ACK OR TCP_PSH) (snd_nxt s) (slice (to_client s) (to_client_off s) (to_client_off s + n))
        True [] s = (True, t) \<Longrightarrow>
      P (t\<lparr>snd_nxt := snd_nxt s + of_nat n, to_client_off := to_client_off s + n\<rparr>) res \<Longrightarrow> P s res"
  shows "P s (segment_loop s)"
proof (induction s rule: segment_loop.induct)
  case (1 s)
  define n where "n = min (min (unat (peer_mss s)) (length (to_client s) - to_client_off s))
    (unat (min (snd_wnd s) (cwnd s) - pipe_of s))"
  define r where "r = emit_segment (TCP_ACK OR TCP_PSH) (snd_nxt s)
    (slice (to_client s) (to_client_off s) (to_client_off s + n)) True [] s"
  define t where "t = (snd r)\<lparr>snd_nxt := snd_nxt (snd r) + of_nat n, to_client_off := to_client_off (snd r) + n\<rparr>"
  have unfold: "segment_loop s =
      (if to_client_off s < length (to_client s) then
         if pipe_of s \<ge> min (snd_wnd s) (cwnd s) then (True, s)
         else if n = 0 then (False, s)
         else if \<not> fst r then (False, snd r) else segment_loop t
       else (False, s))"
    unfolding segment_loop.simps [of s] Let_def n_def [symmetric] r_def [symmetric] t_def [symmetric]
    by (rule refl)
  have go: "P s (segment_loop t)"
    if c: "to_client_off s < length (to_client s)" "\<not> pipe_of s \<ge> min (snd_wnd s) (cwnd s)" "n \<noteq> 0" "fst r"
  proof (rule send [of n s "snd r"])
    show "P ((snd r)\<lparr>snd_nxt := snd_nxt s + of_nat n, to_client_off := to_client_off s + n\<rparr>) (segment_loop t)"
      using "1.IH" [OF c(1) refl refl c(2) refl refl n_def c(3) refl r_def] c(4) by (simp add: t_def r_def)
    show "emit_segment (TCP_ACK OR TCP_PSH) (snd_nxt s) (slice (to_client s) (to_client_off s) (to_client_off s + n))
        True [] s = (True, snd r)"
      using c(4) unfolding r_def by (metis prod.collapse)
  qed (use c in \<open>simp_all add: n_def not_le\<close>)
  have "P s (False, snd r)" if "\<not> fst r"
    using refuse that unfolding r_def by blast
  with go show ?case
    unfolding unfold by (simp add: stop)
qed

text \<open>What the send loop preserves: whatever emission of a segment and the advance past it do.\<close>

lemma segment_loop_preserves:
  assumes "P s"
    and emit: "\<And>t data. P t \<Longrightarrow> P (snd (emit_segment (TCP_ACK OR TCP_PSH) (snd_nxt t) data True [] t))"
    and adv: "\<And>t n k. P t \<Longrightarrow> to_client_off t + k \<le> length (to_client t) \<Longrightarrow>
      P (t\<lparr>snd_nxt := n, to_client_off := to_client_off t + k\<rparr>)"
  shows "P (snd (segment_loop s))"
proof -
  have "P s \<longrightarrow> P (snd (segment_loop s))"
  proof (induction rule: segment_loop_induct [where P = "\<lambda>s r. P s \<longrightarrow> P (snd r)"])
    case (send s n t res)
    have t: "t = snd (emit_segment (TCP_ACK OR TCP_PSH) (snd_nxt s)
        (slice (to_client s) (to_client_off s) (to_client_off s + n)) True [] s)"
      using send(6) by simp
    have off: "to_client_off t = to_client_off s" "to_client t = to_client s"
      unfolding t by simp_all
    have "P t" if "P s"
      unfolding t by (rule emit [OF that])
    then show ?case
      using send(2,7) adv [of t n "snd_nxt s + of_nat n"] by (simp add: off)
  qed (simp_all add: emit)
  with \<open>P s\<close> show ?thesis
    by blast
qed

lemma segment_loop_ok [simp]:
  "recv_ok s \<Longrightarrow> recv_ok (snd (segment_loop s))" "st_ok s \<Longrightarrow> st_ok (snd (segment_loop s))"
  "snd_ok s \<Longrightarrow> snd_ok (snd (segment_loop s))"
  by (erule segment_loop_preserves; simp add: snd_ok_def)+

lemma resume_reads_ok [simp]:
  "recv_ok (resume_reads s) = recv_ok s" "st_ok (resume_reads s) = st_ok s"
  "snd_ok (resume_reads s) = snd_ok s"
  by (simp_all add: resume_reads_def)

lemma snd_ok_clear [simp]: "snd_ok s \<Longrightarrow> snd_ok (s\<lparr>to_client := [], to_client_off := 0\<rparr>)"
  by (simp add: snd_ok_def)

lemma try_segment_ok [simp]:
  "recv_ok s \<Longrightarrow> recv_ok (try_segment_and_emit s)" "st_ok s \<Longrightarrow> st_ok (try_segment_and_emit s)"
  "snd_ok s \<Longrightarrow> snd_ok (try_segment_and_emit s)"
  by (simp_all add: try_segment_and_emit_def Let_def case_prod_unfold)

end
