(* ===== verification/Tcp_Reach.thy ===== *)
theory Tcp_Reach
  imports Tcp_Inv
begin

text \<open>
  The entry points of a session as steps, the sessions they can reach from \<open>TcpSession::new\<close>,
  and the invariant of those sessions.
\<close>

section \<open>The handlers keep the invariant\<close>

lemma ack_if_flagged_ok [simp]:
  "recv_ok (ack_if_flagged f a s) = recv_ok s" "st_ok (ack_if_flagged f a s) = st_ok s"
  "snd_ok s \<Longrightarrow> snd_ok (ack_if_flagged f a s)"
  by (simp_all add: ack_if_flagged_def Let_def case_prod_unfold)

lemma open_host_socket_ok [simp]:
  "recv_ok s \<Longrightarrow> recv_ok (snd (open_host_socket s))" "snd_ok (snd (open_host_socket s)) = snd_ok s"
  "state (snd (open_host_socket s)) = state s"
  "st_ok (s\<lparr>state := Established\<rparr>) \<Longrightarrow> st_ok (snd (open_host_socket (s\<lparr>state := Established\<rparr>)))"
  by (auto simp: open_host_socket_def Let_def recv_ok_def sys_def w_call_def st_ok_def)

lemma process_syn_rcvd_ok [simp]:
  "recv_ok s \<Longrightarrow> recv_ok (process_syn_rcvd f q a w d s)"
  "snd_ok s \<Longrightarrow> snd_ok (process_syn_rcvd f q a w d s)"
  "recv_ok s \<Longrightarrow> st_ok s \<Longrightarrow> st_ok (process_syn_rcvd f q a w d s)"
  by (simp_all add: process_syn_rcvd_def Let_def case_prod_unfold)

lemma process_established_ok [simp]:
  "recv_ok s \<Longrightarrow> recv_ok (process_established f q a w d s)"
  "snd_ok s \<Longrightarrow> snd_ok (process_established f q a w d s)"
  "recv_ok s \<Longrightarrow> st_ok s \<Longrightarrow> st_ok (process_established f q a w d s)"
  by (simp_all add: process_established_def Let_def)

lemma process_close_wait_ok [simp]:
  "recv_ok s \<Longrightarrow> recv_ok (process_close_wait f a w s)"
  "snd_ok s \<Longrightarrow> snd_ok (process_close_wait f a w s)"
  "recv_ok s \<Longrightarrow> st_ok s \<Longrightarrow> st_ok (process_close_wait f a w s)"
  by (simp_all add: process_close_wait_def Let_def)

lemma process_fin_wait_1_ok [simp]:
  "recv_ok s \<Longrightarrow> recv_ok (process_fin_wait_1 f q a w d s)"
  "snd_ok s \<Longrightarrow> snd_ok (process_fin_wait_1 f q a w d s)"
  "recv_ok s \<Longrightarrow> st_ok s \<Longrightarrow> st_ok (process_fin_wait_1 f q a w d s)"
  by (simp_all add: process_fin_wait_1_def Let_def)

lemma process_fin_wait_2_ok [simp]:
  "recv_ok s \<Longrightarrow> recv_ok (process_fin_wait_2 f q w d s)"
  "snd_ok s \<Longrightarrow> snd_ok (process_fin_wait_2 f q w d s)"
  "recv_ok s \<Longrightarrow> st_ok s \<Longrightarrow> st_ok (process_fin_wait_2 f q w d s)"
  by (simp_all add: process_fin_wait_2_def Let_def)

lemma process_closing_ok [simp]:
  "recv_ok s \<Longrightarrow> recv_ok (process_closing f a s)"
  "snd_ok s \<Longrightarrow> snd_ok (process_closing f a s)"
  "recv_ok s \<Longrightarrow> st_ok s \<Longrightarrow> st_ok (process_closing f a s)"
  by (simp_all add: process_closing_def Let_def)

lemma process_last_ack_ok [simp]:
  "recv_ok s \<Longrightarrow> recv_ok (process_last_ack f a s)"
  "snd_ok s \<Longrightarrow> snd_ok (process_last_ack f a s)"
  "recv_ok s \<Longrightarrow> st_ok s \<Longrightarrow> st_ok (process_last_ack f a s)"
  by (simp_all add: process_last_ack_def Let_def case_prod_unfold)

lemma process_time_wait_ok [simp]:
  "recv_ok s \<Longrightarrow> recv_ok (process_time_wait f s)"
  "snd_ok s \<Longrightarrow> snd_ok (process_time_wait f s)"
  "st_ok s \<Longrightarrow> st_ok (process_time_wait f s)"
  by (simp_all add: process_time_wait_def Let_def case_prod_unfold)

lemma dispatch_state_ok [simp]:
  "recv_ok s \<Longrightarrow> recv_ok (dispatch_state f q a w d s)"
  "snd_ok s \<Longrightarrow> snd_ok (dispatch_state f q a w d s)"
  "recv_ok s \<Longrightarrow> st_ok s \<Longrightarrow> st_ok (dispatch_state f q a w d s)"
  by (simp_all add: dispatch_state_def split: tcp_state.split)

lemma note_timestamp_ok [simp]:
  "keep_view (note_timestamp opts q s) = keep_view s" "snd_ok (note_timestamp opts q s) = snd_ok s"
  by (simp_all add: note_timestamp_def Let_def)

lemma note_sack_ok [simp]:
  "keep_view (note_sack opts s) = keep_view s" "snd_ok (note_sack opts s) = snd_ok s"
  by (simp_all add: note_sack_def Let_def)

lemma keep_view_note_options [simp]: "keep_view (note_options opts q s) = keep_view s"
  and snd_ok_note_options [simp]: "snd_ok (note_options opts q s) = snd_ok s"
  by (simp_all add: note_options_def)

lemmas note_options_ok [simp] = keep_view_ok [OF keep_view_note_options] keep_viewD(1) [OF keep_view_note_options]

lemma recv_ok_clock [simp]: "recv_ok (s\<lparr>io := (io s)\<lparr>w_ticks := n\<rparr>\<rparr>) = recv_ok s"
  by (simp add: recv_ok_def)

lemma recv_ok_mss: "recv_ok s \<Longrightarrow> recv_ok (s\<lparr>peer_mss := min (peer_mss s) OWN_MSS\<rparr>)"
  by (simp add: recv_ok_def min_def)

lemma apply_syn_options_ok:
  "recv_ok s \<Longrightarrow> recv_ok ((apply_syn_options opts s)\<lparr>peer_mss := min (peer_mss (apply_syn_options opts s)) OWN_MSS\<rparr>)"
  "snd_ok (apply_syn_options opts s) = snd_ok s"
  by (simp_all add: apply_syn_options_def now_ms_def w_now_def Let_def)
    (auto simp: recv_ok_def min_def word_gt_0 OWN_MSS_def)

lemma syn_negotiate_ok:
  "recv_ok s \<Longrightarrow> recv_ok (syn_negotiate seg s)" "snd_ok (syn_negotiate seg s) = snd_ok s"
  "st_ok (syn_negotiate seg s)"
proof -
  have ws: "recv_ok (t\<lparr>own_wscale := 4\<rparr>)" if "recv_ok t" for t
    using that by (simp add: recv_ok_def)
  have opts: "recv_ok ((if c then apply_syn_options os t else t)\<lparr>peer_mss :=
      min (peer_mss (if c then apply_syn_options os t else t)) OWN_MSS\<rparr>)" if "recv_ok t" for c os t
    using that by (simp add: apply_syn_options_ok recv_ok_mss)
  show "recv_ok s \<Longrightarrow> recv_ok (syn_negotiate seg s)"
    unfolding syn_negotiate_def Let_def case_prod_unfold recv_ok_state recv_ok_timers
    by (rule if_split [THEN iffD2]) (intro conjI impI ws opts; simp)
  show "snd_ok (syn_negotiate seg s) = snd_ok s"
    by (simp add: syn_negotiate_def Let_def case_prod_unfold apply_syn_options_ok)
  show "st_ok (syn_negotiate seg s)"
    by (simp add: syn_negotiate_def Let_def case_prod_unfold)
qed

lemma syn_ack_options_ok [simp]:
  "keep_view (snd (syn_ack_options s)) = keep_view s" "out_view (snd (syn_ack_options s)) = out_view s"
  by (simp_all add: syn_ack_options_def Let_def case_prod_unfold)

lemma accept_initial_syn_ok [simp]:
  "recv_ok s \<Longrightarrow> recv_ok (snd (accept_initial_syn seg s))"
  "snd_ok s \<Longrightarrow> snd_ok (snd (accept_initial_syn seg s))"
  "st_ok s \<Longrightarrow> st_ok (snd (accept_initial_syn seg s))"
  by (simp_all add: accept_initial_syn_def Let_def case_prod_unfold syn_negotiate_ok
      keep_view_ok [OF syn_ack_options_ok(1)] out_view_ok [OF syn_ack_options_ok(2)])

lemma on_segment_inv: "tcp_inv s \<Longrightarrow> tcp_inv (snd (on_segment seg s))"
  by (simp add: tcp_inv_def on_segment_def Let_def)

section \<open>Host events\<close>

lemma after_connect_ok [simp]:
  "recv_ok s \<Longrightarrow> recv_ok (after_connect s)" "snd_ok (after_connect s) = snd_ok s"
  "recv_ok s \<Longrightarrow> st_ok s \<Longrightarrow> st_ok (after_connect s)"
  by (simp_all add: after_connect_def Let_def)

lemma on_host_writable_ok [simp]:
  "recv_ok s \<Longrightarrow> recv_ok (on_host_writable s)" "snd_ok (on_host_writable s) = snd_ok s"
  "recv_ok s \<Longrightarrow> st_ok s \<Longrightarrow> st_ok (on_host_writable s)"
  by (simp_all add: on_host_writable_def take_error_def split: option.split so_error.split)

lemma host_eof_ok [simp]:
  "recv_ok (host_eof s) = recv_ok s" "snd_ok (host_eof s) = snd_ok s" "st_ok s \<Longrightarrow> st_ok (host_eof s)"
  by (simp_all add: host_eof_def Let_def)

lemma buffer_to_client_ok [simp]:
  "recv_ok (buffer_to_client d s) = recv_ok s" "snd_ok s \<Longrightarrow> snd_ok (buffer_to_client d s)"
  "st_ok (buffer_to_client d s) = st_ok s"
  by (simp_all add: buffer_to_client_def Let_def) (simp add: snd_ok_def)

lemma read_loop_ok [simp]:
  "recv_ok s \<Longrightarrow> recv_ok (snd (read_loop sk rs s))"
  "snd_ok s \<Longrightarrow> snd_ok (snd (read_loop sk rs s))"
  "recv_ok s \<Longrightarrow> st_ok s \<Longrightarrow> st_ok (snd (read_loop sk rs s))"
  by (induction rs arbitrary: s) (simp_all add: Let_def split: rd_result.split list.split)

lemma on_host_readable_ok [simp]:
  "recv_ok s \<Longrightarrow> recv_ok (on_host_readable s)"
  "snd_ok s \<Longrightarrow> snd_ok (on_host_readable s)"
  "recv_ok s \<Longrightarrow> st_ok s \<Longrightarrow> st_ok (on_host_readable s)"
proof -
  have eq: "on_host_readable s = (case host s of None \<Rightarrow> s | Some sk \<Rightarrow>
      if host_pollin_paused s then s
      else let r = read_loop sk (w_reads (io s) sk) s in
        case fst r of ReadReset \<Rightarrow> snd r
        | ReadPause \<Rightarrow> zwp_now (try_segment_and_emit (refresh_host_interest (snd r)))
        | ReadDone \<Rightarrow> zwp_now (try_segment_and_emit (snd r)))"
    by (simp add: on_host_readable_def Let_def split: option.split prod.split read_end.split)
  show "recv_ok s \<Longrightarrow> recv_ok (on_host_readable s)" "snd_ok s \<Longrightarrow> snd_ok (on_host_readable s)"
    "recv_ok s \<Longrightarrow> st_ok s \<Longrightarrow> st_ok (on_host_readable s)"
    by (simp_all add: eq Let_def split: option.split read_end.split)
qed

lemma host_closed_ok [simp]:
  "recv_ok (host_closed s) = recv_ok s" "snd_ok (host_closed s) = snd_ok s"
  "st_ok s \<Longrightarrow> st_ok (host_closed s)"
  by (simp_all add: host_closed_def Let_def)

lemma on_host_event_inv: "tcp_inv s \<Longrightarrow> tcp_inv (on_host_event ev s)"
  by (simp add: tcp_inv_def on_host_event_def Let_def case_prod_unfold split: option.split)

section \<open>Ticks and the rest\<close>

lemma timers_inv [simp]:
  "tcp_inv s \<Longrightarrow> tcp_inv (rto_timer now s)" "tcp_inv s \<Longrightarrow> tcp_inv (rack_timer now s)"
  "tcp_inv s \<Longrightarrow> tcp_inv (tlp_timer now s)" "tcp_inv s \<Longrightarrow> tcp_inv (zwp_timer now s)"
  by (simp_all add: tcp_inv_def rto_timer_def rack_timer_def tlp_timer_def zwp_timer_def)

lemma mark_closed_inv [simp]: "tcp_inv s \<Longrightarrow> tcp_inv (mark_closed s)"
  by (simp add: tcp_inv_def)

lemma tick_inv: "tcp_inv s \<Longrightarrow> tcp_inv (snd (tick now s))"
  unfolding tick_def Let_def by simp

lemma fan_out_inv: "tcp_inv s \<Longrightarrow> tcp_inv (fan_out_window_update s)"
  by (simp add: tcp_inv_def fan_out_window_update_def)

lemma drop_inv: "tcp_inv s \<Longrightarrow> tcp_inv (drop_session s)"
  by (simp add: tcp_inv_def drop_session_def st_ok_def)

lemma new_inv: "dials_allowed (w_calls w) \<Longrightarrow> tcp_inv (tcp_new k w)"
  by (simp add: tcp_inv_def tcp_new_def recv_ok_def snd_ok_def st_ok_def OWN_MSS_def)

lemma env_inv: "tcp_inv s \<Longrightarrow> dials_allowed (w_calls w) \<Longrightarrow> tcp_inv (s\<lparr>io := w\<rparr>)"
  by (simp add: tcp_inv_def recv_ok_def)

section \<open>Reachable sessions\<close>

text \<open>One step of a session: a segment from the client, an event of the host socket, a tick of
  the reactor, a window update fanned out by the dispatcher, \<open>Drop\<close>, or a change of the world
  between two calls. The last one is free, but for the call log: what other sessions dialled
  obeys the filter too.\<close>

inductive tcp_step :: "tcp_session \<Rightarrow> tcp_session \<Rightarrow> bool" where
  segment: "tcp_step s (snd (on_segment seg s))"
| event: "tcp_step s (on_host_event ev s)"
| tick: "tcp_step s (snd (tick now s))"
| fan_out: "tcp_step s (fan_out_window_update s)"
| drop: "tcp_step s (drop_session s)"
| env: "dials_allowed (w_calls w) \<Longrightarrow> tcp_step s (s\<lparr>io := w\<rparr>)"

inductive tcp_reach :: "flow_key \<Rightarrow> tcp_session \<Rightarrow> bool" for k where
  new: "dials_allowed (w_calls w) \<Longrightarrow> tcp_reach k (tcp_new k w)"
| step: "tcp_reach k s \<Longrightarrow> tcp_step s t \<Longrightarrow> tcp_reach k t"

inductive_cases tcp_stepE: "tcp_step s t"

lemma tcp_step_inv: "tcp_step s t \<Longrightarrow> tcp_inv s \<Longrightarrow> tcp_inv t"
  by (elim tcp_stepE) (simp_all add: on_segment_inv on_host_event_inv tick_inv fan_out_inv drop_inv env_inv)

text \<open>C1. Every session reachable from \<open>TcpSession::new\<close> by segments, host events, ticks, window
  updates and drops, in any order, satisfies the session invariant: the read offsets lie inside
  their buffers (so no slice panics and no length subtraction underflows), \<open>ooo_bytes\<close> is the
  exact size of the reassembly queue and at most 256 KiB, socket and token are present
  together, a closed or TIME-WAIT session holds no socket, the peer MSS is in 1..960 (so the
  congestion-avoidance division is safe) and the window scale at most 14 (so the shift is), the
  RTO is within 200 ms..60 s, and every destination dialled passed the destination filter.\<close>

theorem reachable_tcp_inv:
  assumes "tcp_reach k s"
  shows "tcp_inv s"
  using assms by induction (simp_all add: new_inv tcp_step_inv)

text \<open>A client at 10.0.0.2:4000 opening a flow to 1.1.1.1:443.\<close>

definition sample_key :: flow_key where
  "sample_key = \<lparr>src = v4_from_u32_be 0x0A000002, dst = v4_from_u32_be 0x01010101,
     src_port = 4000, dst_port = 443, proto = Tcp\<rparr>"

definition sample_syn :: bytes where
  "sample_syn = [0x0F, 0xA0, 1, 0xBB, 0, 0, 0, 100, 0, 0, 0, 0, 0x50, 2, 0xFF, 0xFF, 0, 0, 0, 0]"

lemma sample_syn_accepted:
  "state (snd (on_segment sample_syn (tcp_new sample_key sample_world))) = SynRcvd"
proof -
  have seg: "tcp_data_off sample_syn = 20" "tcp_flags sample_syn = TCP_SYN" "length sample_syn = 20"
    by (simp_all add: sample_syn_def tcp_data_off_def tcp_flags_def TCP_SYN_def)
  have neg: "state (snd (accept_initial_syn sample_syn s)) = SynRcvd" for s
    using out_viewD(1) [OF syn_ack_options_ok(2)] out_viewD(1) [OF out_view_snd(3)]
    by (simp add: accept_initial_syn_def syn_negotiate_def seg Let_def case_prod_unfold schedule_rto_def
        TCP_SYN_def TCP_ACK_def)
  show ?thesis
    by (simp add: on_segment_def seg Let_def neg) (simp add: tcp_new_def TCP_SYN_def TCP_RST_def)
qed

theorem reachable_tcp_inv_witness:
  "tcp_reach sample_key (snd (on_segment sample_syn (tcp_new sample_key sample_world)))
   \<and> state (snd (on_segment sample_syn (tcp_new sample_key sample_world))) = SynRcvd
   \<and> tcp_inv (snd (on_segment sample_syn (tcp_new sample_key sample_world)))"
proof -
  have "tcp_reach sample_key (snd (on_segment sample_syn (tcp_new sample_key sample_world)))"
    by (intro tcp_reach.step [OF tcp_reach.new tcp_step.segment]) (simp add: sample_world_def)
  thus ?thesis
    using reachable_tcp_inv sample_syn_accepted by blast
qed

end
