(* ===== verification/Tcp_Stream.thy ===== *)
theory Tcp_Stream
  imports Tcp_Reach
begin

text \<open>
  The client-to-host byte stream. \<open>host_stream\<close> is what the session has written to its host
  socket so far followed by what it still buffers; \<open>covers\<close> says that a run of bytes agrees
  with the client's stream, a function from sequence numbers to bytes. The theorems state
  that the stream grows exactly by the bytes from \<open>rcv_nxt\<close> on, whatever the order, overlap
  and duplication of the segments, across sequence-number wrap-around, and however the host
  socket splits, defers or fails the writes.
\<close>

section \<open>Sequence arithmetic\<close>

lemma sint_neg_iff: "sint (x :: u32) < 0 \<longleftrightarrow> 2 ^ 31 \<le> unat x"
proof -
  have "sint x < 0 \<longleftrightarrow> bit x 31"
    using bit_last_iff [of x] by simp
  also have "\<dots> \<longleftrightarrow> odd (unat x div 2 ^ 31)"
    using bit_unsigned_iff [where ?'a = nat, of x 31] by (simp add: bit_iff_odd)
  also have "\<dots> \<longleftrightarrow> 2 ^ 31 \<le> unat x"
  proof -
    have "unat x < 2 * 2 ^ 31"
      using unsigned_less [of x] by simp
    then have "unat x div 2 ^ 31 < 2"
      by (rule less_mult_imp_div_less)
    then have "unat x div 2 ^ 31 = 0 \<or> unat x div 2 ^ 31 = 1"
      by linarith
    moreover have "unat x div 2 ^ 31 = 0 \<longleftrightarrow> unat x < 2 ^ 31"
      by (rule div_eq_0_iff [THEN trans]) simp
    ultimately show ?thesis
      by (metis One_nat_def even_zero linorder_not_le odd_one)
  qed
  finally show ?thesis .
qed

lemma seq_lt_iff: "seq_lt a b \<longleftrightarrow> 2 ^ 31 \<le> unat (a - b)"
  by (simp add: seq_lt_def sint_neg_iff)

text \<open>The overlap arithmetic of \<open>handle_data_in\<close> and \<open>deliver_ooo\<close>: a run of fewer than
  \<open>2 ^ 31\<close> bytes that does not start after \<open>r\<close> and ends after it holds \<open>r\<close> inside.\<close>

lemma overlap_inside:
  assumes "\<not> seq_lt r q" "seq_lt r (q + of_nat n)" "n < 2 ^ 31"
  shows "unat (r - q) < n" "r + of_nat (n - unat (r - q)) = q + of_nat n"
proof -
  let ?k = "unat (r - q)"
  have k: "?k < 2 ^ 31"
    using assms(1) by (simp add: seq_lt_iff)
  show lt: "?k < n"
  proof (rule ccontr)
    assume "\<not> ?k < n"
    then have "r - (q + of_nat n) = of_nat (?k - n)"
      by (simp add: of_nat_diff)
    then have "unat (r - (q + of_nat n)) < 2 ^ 31"
      using k by (simp add: unat_of_nat_u32)
    then show False
      using assms(2) by (simp add: seq_lt_iff)
  qed
  show "r + of_nat (n - ?k) = q + of_nat n"
    using lt by (simp add: of_nat_diff)
qed

section \<open>The stream towards the host\<close>

fun written :: "sock \<Rightarrow> syscall list \<Rightarrow> bytes" where
  "written sk [] = []"
| "written sk (SysWrite k bs # cs) = (if k = sk then bs @ written sk cs else written sk cs)"
| "written sk (_ # cs) = written sk cs"

lemma written_append [simp]: "written sk (xs @ ys) = written sk xs @ written sk ys"
  by (induction sk xs rule: written.induct) simp_all

definition host_stream :: "sock \<Rightarrow> tcp_session \<Rightarrow> bytes" where
  "host_stream sk s = written sk (w_calls (io s)) @ drop (to_host_off s) (to_host s)"

definition covers :: "(u32 \<Rightarrow> u8) \<Rightarrow> u32 \<Rightarrow> bytes \<Rightarrow> bool" where
  "covers D q bs \<longleftrightarrow> (\<forall>i < length bs. bs ! i = D (q + of_nat i))"

text \<open>The socket never answers a non-empty write with \<open>Ok(0)\<close>.\<close>

definition no_zero_write :: "sock \<Rightarrow> tcp_session \<Rightarrow> bool" where
  "no_zero_write sk s \<longleftrightarrow> WOk 0 \<notin> set (w_writes (io s) sk)"

definition own_socket :: "sock \<Rightarrow> tcp_session \<Rightarrow> bool" where
  "own_socket sk s \<longleftrightarrow> host s = None \<or> host s = Some sk"

lemma covers_Nil [simp]: "covers D q []"
  by (simp add: covers_def)

lemma covers_append:
  "covers D q (xs @ ys) \<longleftrightarrow> covers D q xs \<and> covers D (q + of_nat (length xs)) ys"
proof
  assume a: "covers D q (xs @ ys)"
  have "xs ! i = D (q + of_nat i)" if "i < length xs" for i
    using a [unfolded covers_def, rule_format, of i] that by (simp add: nth_append)
  moreover have "ys ! i = D (q + of_nat (length xs) + of_nat i)" if "i < length ys" for i
    using a [unfolded covers_def, rule_format, of "length xs + i"] that by (simp add: add.assoc)
  ultimately show "covers D q xs \<and> covers D (q + of_nat (length xs)) ys"
    by (simp add: covers_def)
next
  assume a: "covers D q xs \<and> covers D (q + of_nat (length xs)) ys"
  have "(xs @ ys) ! i = D (q + of_nat i)" if "i < length (xs @ ys)" for i
  proof (cases "i < length xs")
    case True
    with a show ?thesis by (simp add: covers_def nth_append)
  next
    case False
    with a that have "ys ! (i - length xs) = D (q + of_nat (length xs) + of_nat (i - length xs))"
      by (simp add: covers_def)
    moreover have "(of_nat (length xs) :: u32) + of_nat (i - length xs) = of_nat i"
      using False by (simp flip: of_nat_add)
    ultimately show ?thesis
      using False by (simp add: nth_append add.assoc)
  qed
  then show "covers D q (xs @ ys)"
    by (simp add: covers_def)
qed

lemma covers_drop: "covers D q bs \<Longrightarrow> k \<le> length bs \<Longrightarrow> covers D (q + of_nat k) (drop k bs)"
  using covers_append [of D q "take k bs" "drop k bs"] by (simp add: min_absorb2)

section \<open>Writes to the host keep the stream\<close>

lemma host_stream_view:
  assumes "recv_view s = recv_view t"
  shows "host_stream sk s = host_stream sk t" "no_zero_write sk s = no_zero_write sk t"
    "own_socket sk s = own_socket sk t" "rcv_nxt s = rcv_nxt t" "ooo s = ooo t"
  unfolding host_stream_def no_zero_write_def own_socket_def
  using recv_viewD [OF assms] io_viewD(1,3) [OF recv_viewD(1) [OF assms]] by metis+

definition host_same :: "sock \<Rightarrow> tcp_session \<Rightarrow> tcp_session \<Rightarrow> bool" where
  "host_same sk s t \<longleftrightarrow> host_stream sk t = host_stream sk s \<and> rcv_nxt t = rcv_nxt s \<and> ooo t = ooo s
     \<and> (own_socket sk s \<longrightarrow> own_socket sk t) \<and> (no_zero_write sk s \<longrightarrow> no_zero_write sk t)"

lemma host_same_refl [simp]: "host_same sk s s"
  by (simp add: host_same_def)

lemma host_same_trans [trans]: "host_same sk s t \<Longrightarrow> host_same sk t u \<Longrightarrow> host_same sk s u"
  by (simp add: host_same_def)

lemma host_same_view: "recv_view t = recv_view s \<Longrightarrow> host_same sk s t"
  using host_stream_view(1-3) [of t s sk] host_stream_view(4,5) [of t s] by (simp add: host_same_def)

lemma host_same_keep: "keep_view t = keep_view s \<Longrightarrow> host_same sk s t"
  by (rule host_same_view) (rule keep_viewD(2))

lemma host_same_sys: "written sk [c] = [] \<Longrightarrow> host_same sk s (sys c s)"
  by (simp add: host_same_def host_stream_def sys_def w_call_def own_socket_def no_zero_write_def)

lemma host_same_close [simp]: "host_same sk s (close_host_socket s)"
  by (auto simp: close_host_socket_def Let_def host_same_def host_stream_def sys_def w_call_def own_socket_def
      no_zero_write_def split: option.split)

lemma host_same_refresh [simp]: "host_same sk s (refresh_host_interest s)"
  by (simp add: refresh_host_interest_def Let_def host_same_sys split: option.split)

lemma host_same_reset [simp]: "host_same sk s (reset_and_close s)"
proof -
  have "host_same sk s (emit_rst (snd_nxt s) (rcv_nxt s) s)"
    by (simp add: host_same_keep)
  also have "host_same sk \<dots> (\<dots>\<lparr>state := Closed\<rparr>)"
    by (rule host_same_view) (simp add: recv_view_def)
  also have "host_same sk \<dots> (close_host_socket \<dots>)"
    by simp
  finally show ?thesis
    by (simp add: reset_and_close_def mark_closed_def)
qed

lemma host_same_set_writes:
  "set ws \<subseteq> set (w_writes (io s) sk) \<Longrightarrow> host_same sk s (set_writes sk ws s)"
  by (auto simp: host_same_def host_stream_def set_writes_def own_socket_def no_zero_write_def)

lemma host_same_drained:
  "recv_ok s \<Longrightarrow> \<not> to_host_off s < length (to_host s) \<Longrightarrow> host_same sk s (drained s)"
  by (simp add: host_same_def host_stream_def drained_def own_socket_def no_zero_write_def)

lemma host_same_blocked [simp]: "host_same sk s (drain_blocked s)"
proof -
  have "host_same sk s (s\<lparr>host_writable := False\<rparr>)"
    by (simp add: host_same_def host_stream_def own_socket_def no_zero_write_def)
  also have "host_same sk \<dots> (refresh_host_interest \<dots>)"
    by simp
  finally show ?thesis
    by (simp add: drain_blocked_def)
qed

lemma host_same_advance:
  assumes "rest = drop (to_host_off s) (to_host s)" "n \<le> length rest"
  shows "host_same sk s ((sys (SysWrite sk (take n rest)) s)\<lparr>to_host_off := to_host_off s + n\<rparr>)"
  using assms append_take_drop_id [of n rest]
  by (simp add: host_same_def host_stream_def own_socket_def no_zero_write_def sys_def w_call_def ac_simps)

lemma drain_writes_stream:
  assumes "WOk 0 \<notin> set ws" "recv_ok s" "set ws \<subseteq> set (w_writes (io s) sk)"
  shows "host_same sk s (drain_writes sk ws s)"
  using assms
proof (induction ws arbitrary: s)
  case Nil
  let ?t = "set_writes sk [] s"
  have t: "host_same sk s ?t" "recv_ok ?t" "to_host_off ?t = to_host_off s" "to_host ?t = to_host s"
    using Nil by (simp_all add: host_same_set_writes) (simp_all add: set_writes_def)
  show ?case
    using t host_same_trans [OF t(1) host_same_drained [OF t(2), of sk]]
      host_same_trans [OF t(1) host_same_trans [OF host_same_sys host_same_blocked]]
    by simp
next
  case (Cons r ws)
  let ?t = "\<lambda>ws. set_writes sk ws s"
  let ?rest = "drop (to_host_off s) (to_host s)"
  have t: "host_same sk s (?t ws)" "host_same sk s (?t (r # ws))" "recv_ok (?t (r # ws))"
    "to_host_off (?t (r # ws)) = to_host_off s" "to_host (?t (r # ws)) = to_host s"
    using Cons.prems by (auto simp: host_same_set_writes) (simp_all add: set_writes_def)
  have writes [simp]: "w_writes (io (sys c s)) = w_writes (io s)" for c
    by (simp add: sys_def w_call_def)
  show ?case
  proof (cases "to_host_off s < length (to_host s)")
    case False
    then show ?thesis
      using t host_same_trans [OF t(2) host_same_drained [OF t(3), of sk]] by simp
  next
    case True
    show ?thesis
    proof (cases r)
      case (WOk n)
      let ?n = "min n (length ?rest)"
      let ?u = "(sys (SysWrite sk (take ?n ?rest)) s)\<lparr>to_host_off := to_host_off s + ?n\<rparr>"
      have n0: "?n \<noteq> 0"
        using WOk True Cons.prems(1) by auto
      have ok: "recv_ok ?u"
        using Cons.prems(2) True by (auto simp: recv_ok_def sys_def w_call_def)
      have eq: "drain_writes sk (r # ws) s = drain_writes sk ws ?u"
        using WOk True n0 by (simp add: Let_def)
      have "host_same sk s ?u"
        by (rule host_same_advance [OF refl]) simp
      also have "host_same sk ?u (drain_writes sk ws ?u)"
        by (rule Cons.IH) (use Cons.prems ok in auto)
      finally show ?thesis
        unfolding eq .
    next
      case WWouldBlock
      then show ?thesis
        using True host_same_trans [OF t(1) host_same_trans [OF host_same_sys host_same_blocked]] by simp
    next
      case WInterrupted
      have "host_same sk s (sys (SysWrite sk []) s)"
        by (rule host_same_sys) simp
      also have "host_same sk \<dots> (drain_writes sk ws \<dots>)"
        by (rule Cons.IH) (use Cons.prems in auto)
      finally show ?thesis
        using True WInterrupted by simp
    next
      case WErr
      then show ?thesis
        using True host_same_trans [OF t(1) host_same_trans [OF host_same_sys host_same_reset]] by simp
    qed
  qed
qed

lemma try_drain_stream:
  assumes "recv_ok s" "own_socket sk s" "no_zero_write sk s"
  shows "host_same sk s (try_drain_to_host s)"
  using assms
  by (auto simp: try_drain_to_host_def own_socket_def no_zero_write_def drain_writes_stream split: option.split)

lemma enqueue_stream:
  assumes "recv_ok s" "own_socket sk s" "no_zero_write sk s"
  shows "host_stream sk (enqueue_to_host d s) = host_stream sk s @ d"
    "own_socket sk (enqueue_to_host d s)" "no_zero_write sk (enqueue_to_host d s)"
proof -
  define t where "t = (if to_host_off s > 0 \<and> to_host_off s \<ge> length (to_host s) div 2
    then s\<lparr>to_host := drop (to_host_off s) (to_host s), to_host_off := 0\<rparr> else s)"
  define u where "u = t\<lparr>to_host := to_host t @ d\<rparr>"
  have u: "host_stream sk u = host_stream sk s @ d" "own_socket sk u" "no_zero_write sk u" "recv_ok u"
    using assms by (auto simp: u_def t_def host_stream_def own_socket_def no_zero_write_def recv_ok_def)
  have eq: "enqueue_to_host d s =
      (if host_writable u then try_drain_to_host u else if host u \<noteq> None then refresh_host_interest u else u)"
    by (simp add: enqueue_to_host_def u_def t_def Let_def)
  have "host_same sk u (enqueue_to_host d s)"
    unfolding eq using try_drain_stream [OF u(4,2,3)] by simp
  then show "host_stream sk (enqueue_to_host d s) = host_stream sk s @ d"
    "own_socket sk (enqueue_to_host d s)" "no_zero_write sk (enqueue_to_host d s)"
    using u by (simp_all add: host_same_def)
qed

section \<open>Reassembly\<close>

text \<open>The session after some input extends the host stream by the next bytes of \<open>D\<close> and moves
  \<open>rcv_nxt\<close> by their number.\<close>

definition delivers :: "(u32 \<Rightarrow> u8) \<Rightarrow> sock \<Rightarrow> tcp_session \<Rightarrow> bytes \<Rightarrow> tcp_session \<Rightarrow> bool" where
  "delivers D sk s d t \<longleftrightarrow> host_stream sk t = host_stream sk s @ d \<and> covers D (rcv_nxt s) d
     \<and> rcv_nxt t = rcv_nxt s + of_nat (length d) \<and> own_socket sk t \<and> no_zero_write sk t
     \<and> (\<forall>q \<in> set (ooo t). covers D (q_seq q) (q_data q))"

lemma delivers_trans: "delivers D sk s d t \<Longrightarrow> delivers D sk t e u \<Longrightarrow> delivers D sk s (d @ e) u"
  by (simp add: delivers_def covers_append add.assoc)

lemma delivers_same: "delivers D sk s d t \<Longrightarrow> host_same sk t u \<Longrightarrow> delivers D sk s d u"
  by (simp add: delivers_def host_same_def)

lemma delivers_first: "host_same sk r s \<Longrightarrow> delivers D sk s d t \<Longrightarrow> delivers D sk r d t"
  by (simp add: delivers_def host_same_def)

lemma enqueue_delivers:
  assumes "recv_ok s" "own_socket sk s" "no_zero_write sk s" "covers D (rcv_nxt s) d"
    and "\<forall>q \<in> set (ooo s). covers D (q_seq q) (q_data q)"
  shows "delivers D sk s d ((enqueue_to_host d s)\<lparr>rcv_nxt := rcv_nxt s + of_nat (length d)\<rparr>)"
proof -
  note e = enqueue_stream [OF assms(1-3), of d]
  have "host_stream sk ((enqueue_to_host d s)\<lparr>rcv_nxt := n\<rparr>) = host_stream sk s @ d"
    "own_socket sk ((enqueue_to_host d s)\<lparr>rcv_nxt := n\<rparr>)"
    "no_zero_write sk ((enqueue_to_host d s)\<lparr>rcv_nxt := n\<rparr>)" for n
    using e by (simp_all add: host_stream_def own_socket_def no_zero_write_def)
  then show ?thesis
    using assms(4,5) by (simp add: delivers_def)
qed

lemma ooo_total_member: "q \<in> set qs \<Longrightarrow> length (q_data q) \<le> ooo_total qs"
  by (induction qs) auto

lemma deliver_queue_delivers:
  assumes "recv_ok (s\<lparr>ooo := qs\<rparr>)" "own_socket sk s" "no_zero_write sk s"
    and "\<forall>q \<in> set qs. covers D (q_seq q) (q_data q)"
  shows "\<exists>d. delivers D sk s d (deliver_queue qs s)"
  using assms
proof (induction qs arbitrary: s)
  case Nil
  then have "delivers D sk s [] (s\<lparr>ooo := []\<rparr>)"
    by (simp add: delivers_def host_stream_def own_socket_def no_zero_write_def)
  then show ?case by auto
next
  case (Cons h q)
  let ?n = "length (q_data h)"
  let ?e = "q_seq h + of_nat ?n"
  have len: "?n < 2 ^ 31"
    using Cons.prems(1) by (simp add: recv_ok_def MAX_OOO_BYTES_def)
  define t where "t = s\<lparr>ooo_bytes := ooo_bytes s - ?n, ooo := q\<rparr>"
  have t: "recv_ok t" "own_socket sk t" "no_zero_write sk t" "rcv_nxt t = rcv_nxt s" "ooo t = q"
    "host_stream sk t = host_stream sk s"
    using Cons.prems(1-3) by (simp_all add: t_def recv_ok_def own_socket_def no_zero_write_def host_stream_def)
  consider (old) "\<not> seq_lt (rcv_nxt s) ?e" | (gap) "seq_lt (rcv_nxt s) ?e" "seq_lt (rcv_nxt s) (q_seq h)"
    | (now) "seq_lt (rcv_nxt s) ?e" "\<not> seq_lt (rcv_nxt s) (q_seq h)"
    by blast
  then show ?case
  proof cases
    case old
    let ?u = "s\<lparr>ooo_bytes := ooo_bytes s - ?n\<rparr>"
    have "\<exists>d. delivers D sk ?u d (deliver_queue q ?u)"
      using Cons.prems(2-4) t(1) by (intro Cons.IH) (simp_all add: own_socket_def no_zero_write_def t_def)
    moreover have "delivers D sk ?u d x = delivers D sk s d x" for d x
      by (simp add: delivers_def host_stream_def)
    ultimately show ?thesis
      using old by (simp add: Let_def)
  next
    case gap
    then have "delivers D sk s [] (s\<lparr>ooo := h # q\<rparr>)"
      using Cons.prems by (simp add: delivers_def host_stream_def own_socket_def no_zero_write_def)
    then show ?thesis
      using gap by (auto simp: Let_def)
  next
    case now
    let ?k = "unat (rcv_nxt s - q_seq h)"
    let ?d = "drop ?k (q_data h)"
    note inside = overlap_inside [OF now(2,1) len]
    have cov: "covers D (rcv_nxt s) ?d"
      using covers_drop [of D "q_seq h" "q_data h" ?k] inside(1) Cons.prems(4) by simp
    define u where "u = (enqueue_to_host ?d t)\<lparr>rcv_nxt := ?e\<rparr>"
    have u1: "delivers D sk t ?d u"
      using enqueue_delivers [OF t(1-3), of D ?d] cov Cons.prems(4) t(4,5) inside(2) by (simp add: u_def)
    have "recv_ok (u\<lparr>ooo := q\<rparr>)"
      using enqueue_ok(1) [OF t(1), of ?d] t(5) by (simp add: u_def recv_ok_def)
    then have "\<exists>d. delivers D sk u d (deliver_queue q u)"
      using u1 Cons.prems(4) by (intro Cons.IH) (simp_all add: delivers_def)
    then obtain d where "delivers D sk t (?d @ d) (deliver_queue q u)"
      using delivers_trans [OF u1] by blast
    then have "delivers D sk s (?d @ d) (deliver_queue q u)"
      using t(4,6) by (simp add: delivers_def)
    moreover have "deliver_queue (h # q) s = deliver_queue q u"
      using now by (simp add: Let_def t_def u_def)
    ultimately show ?thesis
      by metis
  qed
qed

lemma store_ooo_covers:
  assumes "\<forall>q \<in> set (ooo s). covers D (q_seq q) (q_data q)" "covers D q d"
  shows "\<forall>q \<in> set (ooo (store_ooo q d s)). covers D (q_seq q) (q_data q)"
  using assms by (auto simp: store_ooo_def Let_def dest: in_set_takeD in_set_dropD)

lemma store_ooo_same [simp]:
  "host_stream sk (store_ooo q d s) = host_stream sk s" "own_socket sk (store_ooo q d s) = own_socket sk s"
  "no_zero_write sk (store_ooo q d s) = no_zero_write sk s" "rcv_nxt (store_ooo q d s) = rcv_nxt s"
  by (simp_all add: store_ooo_def Let_def host_stream_def own_socket_def no_zero_write_def)

lemma seq_antisym: "\<not> seq_lt a b \<Longrightarrow> \<not> seq_lt b a \<Longrightarrow> a = b"
proof -
  assume "\<not> seq_lt a b" "\<not> seq_lt b a"
  then have small: "unat (a - b) < 2147483648" "unat (b - a) < 2147483648"
    by (simp_all add: seq_lt_iff)
  let ?m = "unat (a - b)" and ?n = "unat (b - a)"
  have "(of_nat (?m + ?n) :: u32) = of_nat ?m + of_nat ?n"
    by (rule of_nat_add)
  also have "\<dots> = 0"
    by simp
  finally have "unat (of_nat (?m + ?n) :: u32) = 0"
    by simp
  moreover have "unat (of_nat (?m + ?n) :: u32) = ?m + ?n"
    by (rule unat_of_nat_u32) (use small in linarith)
  ultimately have "?m = 0"
    by simp
  then show "a = b"
    by (simp only: unat_eq_zero right_minus_eq)
qed

definition progress :: "u32 \<Rightarrow> u32 \<Rightarrow> bytes \<Rightarrow> bytes \<Rightarrow> bool" where
  "progress r q data d \<longleftrightarrow>
     (\<not> seq_lt r q \<and> seq_lt r (q + of_nat (length data)) \<longrightarrow> length data - unat (r - q) \<le> length d)"

lemma handle_data_in_delivers:
  assumes inv: "recv_ok s" "own_socket sk s" "no_zero_write sk s" "\<forall>q \<in> set (ooo s). covers D (q_seq q) (q_data q)"
    and seg: "covers D q data" "length data < 2 ^ 31"
  shows "\<exists>d. delivers D sk s d (snd (handle_data_in q data s)) \<and> progress (rcv_nxt s) q data d"
proof -
  let ?r = "rcv_nxt s"
  let ?k = "if seq_lt q ?r then unat (?r - q) else 0"
  have idle: "delivers D sk s [] s"
    using inv by (simp add: delivers_def)
  consider (skip) "data = [] \<or> \<not> seq_lt ?r (q + of_nat (length data)) \<or> (seq_lt q ?r \<and> ?k \<ge> length data)"
    | (inord) "data \<noteq> []" "seq_lt ?r (q + of_nat (length data))" "\<not> (seq_lt q ?r \<and> ?k \<ge> length data)"
        "q + of_nat ?k = ?r"
    | (ahead) "data \<noteq> []" "seq_lt ?r (q + of_nat (length data))" "\<not> (seq_lt q ?r \<and> ?k \<ge> length data)"
        "q + of_nat ?k \<noteq> ?r"
    by blast
  then show ?thesis
  proof cases
    case skip
    then have "snd (handle_data_in q data s) = s"
      by (auto simp: handle_data_in_def Let_def)
    moreover have "progress ?r q data []"
      using skip overlap_inside(1) [of ?r q "length data"] seg(2) by (auto simp: progress_def seq_lt_iff)
    ultimately show ?thesis
      using idle by metis
  next
    case inord
    let ?d = "drop ?k data"
    have k: "?k \<le> length data"
      using inord(3) by auto
    have cov: "covers D ?r ?d"
      using covers_drop [OF seg(1) k] inord(4) by simp
    define t where "t = (enqueue_to_host ?d s)\<lparr>rcv_nxt := ?r + of_nat (length ?d)\<rparr>"
    have t: "delivers D sk s ?d t"
      unfolding t_def by (rule enqueue_delivers [OF inv(1-3) cov inv(4)])
    have "recv_ok t"
      unfolding t_def recv_ok_timers by (rule enqueue_ok(1) [OF inv(1)])
    then have "recv_ok (t\<lparr>ooo := ooo t\<rparr>)"
      by (rule recv_ok_self [THEN iffD2])
    then obtain e where "delivers D sk t e (deliver_ooo t)"
      using deliver_queue_delivers [where s = t and qs = "ooo t" and sk = sk and D = D] t by (auto simp: delivers_def deliver_ooo_def)
    then have "delivers D sk s (?d @ e) (deliver_ooo t)"
      by (rule delivers_trans [OF t])
    moreover have "snd (handle_data_in q data s) = deliver_ooo t"
      using inord by (simp add: handle_data_in_def Let_def t_def)
    moreover have "progress ?r q data (?d @ e)"
      using inord(4) by (auto simp: progress_def)
    ultimately show ?thesis
      by metis
  next
    case ahead
    have q: "\<not> seq_lt q ?r"
      using ahead(4) by auto
    then have "snd (handle_data_in q data s) = store_ooo q data s"
      using ahead by (simp add: handle_data_in_def Let_def)
    moreover have "delivers D sk s [] (store_ooo q data s)"
      using inv store_ooo_covers [OF inv(4) seg(1)] by (simp add: delivers_def)
    moreover have "progress ?r q data []"
      using q ahead(4) seq_antisym [of ?r q] by (auto simp: progress_def)
    ultimately show ?thesis
      by metis
  qed
qed

text \<open>In-order reassembly. Let the segment and everything in the reassembly queue agree with
  a client stream \<open>D\<close>. Then \<open>handle_data_in\<close> extends what reaches the host (bytes already
  written to the socket, then bytes still buffered) by exactly the bytes of \<open>D\<close> from \<open>rcv_nxt\<close>
  on, moves \<open>rcv_nxt\<close> by their number, keeps the queue in agreement with \<open>D\<close>, and makes
  progress: a segment that reaches past \<open>rcv_nxt\<close> without a gap delivers all its new bytes.\<close>

theorem reassembly_in_order:
  assumes "tcp_inv s" "own_socket sk s" "no_zero_write sk s"
    and "\<forall>q \<in> set (ooo s). covers D (q_seq q) (q_data q)"
    and "covers D seq data" "length data < 2 ^ 31"
  shows "\<exists>d. let t = snd (handle_data_in seq data s) in
     host_stream sk t = host_stream sk s @ d
     \<and> d = map (\<lambda>i. D (rcv_nxt s + of_nat i)) [0..<length d]
     \<and> rcv_nxt t = rcv_nxt s + of_nat (length d)
     \<and> (\<forall>q \<in> set (ooo t). covers D (q_seq q) (q_data q))
     \<and> (\<not> seq_lt (rcv_nxt s) seq \<and> seq_lt (rcv_nxt s) (seq + of_nat (length data))
        \<longrightarrow> length data - unat (rcv_nxt s - seq) \<le> length d)"
proof -
  obtain d where d: "delivers D sk s d (snd (handle_data_in seq data s))" "progress (rcv_nxt s) seq data d"
    using handle_data_in_delivers [of s sk D seq data] assms by (auto simp: tcp_inv_def)
  have "d = map (\<lambda>i. D (rcv_nxt s + of_nat i)) [0..<length d]"
    using d(1) by (intro nth_equalityI) (auto simp: delivers_def covers_def)
  then show ?thesis
    using d by (intro exI [of _ d]) (simp add: delivers_def progress_def Let_def)
qed

section \<open>A whole segment in ESTABLISHED\<close>

lemma host_same_upd:
  "host_same sk s (s\<lparr>snd_wnd := a\<rparr>)" "host_same sk s (s\<lparr>state := st\<rparr>)"
  "host_same sk s (s\<lparr>host_wr_shut := b\<rparr>)" "host_same sk s (s\<lparr>host_pollin_paused := b\<rparr>)"
  "host_same sk s (s\<lparr>to_client := d\<rparr>)" "host_same sk s (s\<lparr>to_client_off := k\<rparr>)"
  "host_same sk s (s\<lparr>sent_fin := b\<rparr>)" "host_same sk s (s\<lparr>snd_nxt := a\<rparr>)"
  "host_same sk s (s\<lparr>last_stall_log_ms := a\<rparr>)" "host_same sk s (s\<lparr>host_read_eof := b\<rparr>)"
  by (simp_all add: host_same_def host_stream_def own_socket_def no_zero_write_def)

lemma host_same_segment_loop: "host_same sk s (snd (segment_loop s))"
proof (rule segment_loop_preserves [where P = "host_same sk s"])
  fix t data
  assume "host_same sk s t"
  then show "host_same sk s (snd (emit_segment (TCP_ACK OR TCP_PSH) (snd_nxt t) data True [] t))"
    using host_same_keep [OF keep_view_emit(1)] host_same_trans by blast
next
  fix t n k
  assume "host_same sk s t"
  moreover have "host_same sk t (t\<lparr>snd_nxt := n, to_client_off := to_client_off t + k\<rparr>)"
    by (simp add: host_same_def host_stream_def own_socket_def no_zero_write_def)
  ultimately show "host_same sk s (t\<lparr>snd_nxt := n, to_client_off := to_client_off t + k\<rparr>)"
    by (rule host_same_trans)
qed simp

lemma host_same_send_fin: "host_same sk s (send_fin s)"
proof -
  have "host_same sk s (s\<lparr>sent_fin := True\<rparr>)"
    by (rule host_same_upd)
  also have "host_same sk \<dots> (snd (emit_segment (TCP_FIN OR TCP_ACK) (snd_nxt s) [] True [] \<dots>))"
    by (rule host_same_keep) simp
  finally have *: "host_same sk s (snd (emit_segment (TCP_FIN OR TCP_ACK) (snd_nxt s) [] True [] (s\<lparr>sent_fin := True\<rparr>)))" .
  show ?thesis
    unfolding send_fin_def Let_def
    by (rule host_same_trans [OF host_same_trans [OF _ host_same_upd(8)] host_same_upd(2)]) (use * in simp)
qed

lemma host_same_resume: "host_same sk s (resume_reads s)"
  unfolding resume_reads_def using host_same_trans [OF host_same_upd(4) host_same_refresh] by simp

lemma host_same_try_segment: "host_same sk s (try_segment_and_emit s)"
proof -
  define t where "t = resume_reads (snd (segment_loop s))"
  have t: "host_same sk s t"
    unfolding t_def by (rule host_same_trans [OF host_same_segment_loop host_same_resume])
  have clear: "host_same sk t (t\<lparr>to_client := [], to_client_off := 0\<rparr>)"
    by (rule host_same_trans [OF host_same_upd(5) host_same_upd(6)])
  have stall: "host_same sk t (snd (now_ms t))" "host_same sk t ((snd (now_ms t))\<lparr>last_stall_log_ms := n\<rparr>)" for n
    using host_same_keep [OF keep_view_emit(2)] host_same_trans [OF _ host_same_upd(9)] by blast+
  have "host_same sk t (try_segment_and_emit s)"
    unfolding try_segment_and_emit_def Let_def case_prod_unfold t_def [symmetric]
    using clear stall host_same_trans [OF clear host_same_send_fin] by simp
  with t show ?thesis
    by (rule host_same_trans)
qed

lemma host_same_shutdown: "host_same sk s (shutdown_write s)"
  by (simp add: shutdown_write_def Let_def host_same_upd host_same_trans [OF host_same_sys host_same_upd(3)]
      split: option.split)

text \<open>As \<open>delivers\<close>, with the FIN the segment may carry counted in \<open>rcv_nxt\<close>.\<close>

definition delivers_fin :: "(u32 \<Rightarrow> u8) \<Rightarrow> sock \<Rightarrow> tcp_session \<Rightarrow> bytes \<Rightarrow> bool \<Rightarrow> tcp_session \<Rightarrow> bool" where
  "delivers_fin D sk s d fin t \<longleftrightarrow> host_stream sk t = host_stream sk s @ d \<and> covers D (rcv_nxt s) d
     \<and> rcv_nxt t = rcv_nxt s + of_nat (length d) + (if fin then 1 else 0)
     \<and> own_socket sk t \<and> no_zero_write sk t \<and> (\<forall>q \<in> set (ooo t). covers D (q_seq q) (q_data q))"

lemma delivers_fin_same: "delivers_fin D sk s d f t \<Longrightarrow> host_same sk t u \<Longrightarrow> delivers_fin D sk s d f u"
  by (simp add: delivers_fin_def host_same_def)

lemma delivers_fin_False: "delivers_fin D sk s d False t = delivers D sk s d t"
  by (auto simp: delivers_fin_def delivers_def)

text \<open>The FIN block of \<open>process_established\<close>.\<close>

definition fin_part :: "u8 \<Rightarrow> bool \<Rightarrow> u32 \<Rightarrow> bytes \<Rightarrow> tcp_session \<Rightarrow> tcp_session" where
  "fin_part flags ino seq payload s =
     (if flags AND TCP_FIN \<noteq> 0 then
        if fin_in_order ino seq payload s then
          let s = emit_ack (s\<lparr>rcv_nxt := rcv_nxt s + 1, state := CloseWait\<rparr>);
              s = try_drain_to_host s
          in if host s \<noteq> None \<and> \<not> host_wr_shut s \<and> to_host_off s \<ge> length (to_host s)
             then shutdown_write s else s
        else emit_ack s
      else s)"

lemma process_established_fin_part:
  "process_established flags seq ack wnd payload s =
     (let s = ack_if_flagged flags ack s;
          s = s\<lparr>snd_wnd := scaled_window wnd s\<rparr>;
          ino = (seq = rcv_nxt s);
          s = data_and_ack seq payload s
      in zwp_now (try_segment_and_emit (fin_part flags ino seq payload s)))"
  by (simp only: process_established_def fin_part_def Let_def)

lemma fin_part_delivers:
  assumes "delivers D sk s d t" "recv_ok t"
  shows "delivers_fin D sk s d (flags AND TCP_FIN \<noteq> 0 \<and> fin_in_order ino seq payload t)
           (fin_part flags ino seq payload t)"
proof -
  let ?u = "t\<lparr>rcv_nxt := rcv_nxt t + 1, state := CloseWait\<rparr>"
  let ?v = "try_drain_to_host (emit_ack ?u)"
  have u: "delivers_fin D sk s d True ?u"
    using assms(1) by (simp add: delivers_fin_def delivers_def host_stream_def own_socket_def no_zero_write_def)
  have a: "host_same sk x (emit_ack x)" for x
    by (rule host_same_keep) simp
  note ua = delivers_fin_same [OF u a]
  have own: "own_socket sk (emit_ack ?u)" "no_zero_write sk (emit_ack ?u)"
    using ua unfolding delivers_fin_def by blast+
  have "host_same sk (emit_ack ?u) ?v"
    by (rule try_drain_stream [OF _ own]) (use assms(2) in simp)
  note v = delivers_fin_same [OF ua this]
  show ?thesis
    using v delivers_fin_same [OF v host_same_shutdown] delivers_fin_same [OF _ a]
      assms(1) [folded delivers_fin_False] by (auto simp: fin_part_def Let_def)
qed

lemma on_segment_established:
  assumes "state s = Established" "20 \<le> tcp_data_off seg" "tcp_data_off seg \<le> length seg" "tcp_flags seg AND TCP_RST = 0"
  shows "snd (on_segment seg s) = process_established (tcp_flags seg) (tcp_seq seg) (tcp_ack seg)
     (tcp_window seg) (drop (tcp_data_off seg) seg) (note_options (slice seg 20 (tcp_data_off seg)) (tcp_seq seg) s)"
  using assms by (simp add: on_segment_def dispatch_state_def Let_def)

text \<open>C3. The same for a whole segment: any well-formed segment without RST that reaches an
  ESTABLISHED session, ACK processing, FIN, segmentation and timers included, extends the
  host stream by exactly the next bytes of the client's stream, with a FIN counted in
  \<open>rcv_nxt\<close> only when it is in order.\<close>

theorem established_segment_in_order:
  assumes inv: "tcp_inv s" "state s = Established" "own_socket sk s" "no_zero_write sk s"
      "\<forall>q \<in> set (ooo s). covers D (q_seq q) (q_data q)"
    and seg: "20 \<le> tcp_data_off seg" "tcp_data_off seg \<le> length seg" "length seg < 2 ^ 31"
      "tcp_flags seg AND TCP_RST = 0" "covers D (tcp_seq seg) (drop (tcp_data_off seg) seg)"
  shows "\<exists>d fin. let t = snd (on_segment seg s); data = drop (tcp_data_off seg) seg in
     host_stream sk t = host_stream sk s @ d
     \<and> d = map (\<lambda>i. D (rcv_nxt s + of_nat i)) [0..<length d]
     \<and> rcv_nxt t = rcv_nxt s + of_nat (length d) + (if fin then 1 else 0)
     \<and> (fin \<longrightarrow> tcp_flags seg AND TCP_FIN \<noteq> 0)
     \<and> (\<forall>q \<in> set (ooo t). covers D (q_seq q) (q_data q))
     \<and> (\<not> seq_lt (rcv_nxt s) (tcp_seq seg) \<and> seq_lt (rcv_nxt s) (tcp_seq seg + of_nat (length data))
        \<longrightarrow> length data - unat (rcv_nxt s - tcp_seq seg) \<le> length d)"
proof -
  let ?data = "drop (tcp_data_off seg) seg"
  define a where "a = ack_if_flagged (tcp_flags seg) (tcp_ack seg)
    (note_options (slice seg 20 (tcp_data_off seg)) (tcp_seq seg) s)"
  define b where "b = a\<lparr>snd_wnd := scaled_window (tcp_window seg) a\<rparr>"
  define c where "c = data_and_ack (tcp_seq seg) ?data b"
  define ino where "ino = (tcp_seq seg = rcv_nxt b)"
  define e where "e = fin_part (tcp_flags seg) ino (tcp_seq seg) ?data c"
  have t: "snd (on_segment seg s) = zwp_now (try_segment_and_emit e)"
    using inv(2) seg by (simp add: on_segment_established process_established_fin_part Let_def
        a_def b_def c_def ino_def e_def)
  have "host_same sk s (note_options (slice seg 20 (tcp_data_off seg)) (tcp_seq seg) s)"
    by (rule host_same_keep) simp
  also have "host_same sk \<dots> a"
    unfolding a_def ack_if_flagged_def Let_def case_prod_unfold by (rule host_same_keep) simp
  also have "host_same sk a b"
    unfolding b_def by (rule host_same_upd)
  finally have sb: "host_same sk s b" .
  have okb: "recv_ok b"
    using inv(1) by (simp add: tcp_inv_def b_def a_def)
  have "length ?data < 2 ^ 31"
    using seg(3) by simp
  then obtain d where d: "delivers D sk b d (snd (handle_data_in (tcp_seq seg) ?data b))"
      "progress (rcv_nxt b) (tcp_seq seg) ?data d"
    using handle_data_in_delivers [of b sk D "tcp_seq seg" ?data] okb sb inv(3-5) seg(5)
    by (auto simp: host_same_def)
  have "delivers D sk b d c"
  proof (cases "?data = []")
    case True
    then show ?thesis
      using d(1) by (simp add: c_def data_and_ack_def handle_data_in_def)
  next
    case False
    then show ?thesis
      using delivers_same [OF d(1) host_same_keep [OF keep_view_emit(4)]] by (simp add: c_def data_and_ack_def)
  qed
  then have "delivers D sk s d c"
    by (rule delivers_first [OF sb])
  moreover have "recv_ok c"
    unfolding c_def using okb by simp
  ultimately obtain fin where "delivers_fin D sk s d fin e" "fin \<longrightarrow> tcp_flags seg AND TCP_FIN \<noteq> 0"
    using fin_part_delivers unfolding e_def by blast
  moreover have "host_same sk e (zwp_now (try_segment_and_emit e))"
    using host_same_trans [OF host_same_try_segment host_same_keep]
    by (simp add: zwp_now_def Let_def case_prod_unfold)
  ultimately have f: "delivers_fin D sk s d fin (snd (on_segment seg s))" "fin \<longrightarrow> tcp_flags seg AND TCP_FIN \<noteq> 0"
    unfolding t using delivers_fin_same by blast+
  moreover have "d = map (\<lambda>i. D (rcv_nxt s + of_nat i)) [0..<length d]"
    using f(1) by (intro nth_equalityI) (auto simp: delivers_fin_def covers_def)
  moreover have "progress (rcv_nxt s) (tcp_seq seg) ?data d"
    using d(2) sb by (simp add: host_same_def)
  ultimately show ?thesis
    by (intro exI [of _ d] exI [of _ fin]) (simp add: delivers_fin_def progress_def Let_def)
qed

section \<open>Witnesses\<close>

text \<open>An established session that waits for sequence number 101 and holds bytes 104 and 105 of a
  stream of \<open>A\<close>s out of order.\<close>

definition sample_est :: tcp_session where
  "sample_est = (tcp_new sample_key sample_world)\<lparr>state := Established, host := Some 7, host_token := Some 7,
     rcv_nxt := 101, ooo := [\<lparr>q_seq = 104, q_data = [65, 65]\<rparr>], ooo_bytes := 2\<rparr>"

text \<open>A segment with the three bytes 101 to 103.\<close>

definition sample_data :: bytes where
  "sample_data = [0x0F, 0xA0, 1, 0xBB, 0, 0, 0, 101, 0, 0, 0, 0, 0x50, 0x10, 0xFF, 0xFF, 0, 0, 0, 0, 65, 65, 65]"

lemma sample_est_ok:
  "tcp_inv sample_est" "own_socket 7 sample_est" "no_zero_write 7 sample_est" "state sample_est = Established"
  "\<forall>q \<in> set (ooo sample_est). covers (\<lambda>_. 65) (q_seq q) (q_data q)" "rcv_nxt sample_est = 101"
  by (simp_all add: sample_est_def tcp_new_def tcp_inv_def recv_ok_def snd_ok_def st_ok_def sample_world_def
      OWN_MSS_def MAX_OOO_BYTES_def own_socket_def no_zero_write_def covers_def less_Suc_eq)

lemma sample_data_ok:
  "tcp_data_off sample_data = 20" "length sample_data = 23" "tcp_flags sample_data AND TCP_RST = 0"
  "tcp_seq sample_data = 101" "covers (\<lambda>_. 65) 101 (drop 20 sample_data)"
  by (simp_all add: sample_data_def tcp_data_off_def tcp_flags_def TCP_RST_def tcp_seq_def slice_def be32_def
      covers_def less_Suc_eq)

theorem reassembly_in_order_witness:
  "\<exists>d. host_stream 7 (snd (handle_data_in 101 [65, 65, 65] sample_est)) = host_stream 7 sample_est @ d
     \<and> d = replicate (length d) 65 \<and> 3 \<le> length d"
proof -
  have "covers (\<lambda>_. 65) 101 [65, 65, 65]" "length [65, 65, 65 :: u8] < 2 ^ 31"
    by (simp_all add: covers_def less_Suc_eq)
  from reassembly_in_order [OF sample_est_ok(1-3,5) this] show ?thesis
    by (auto simp: sample_est_ok(6) seq_lt_def map_replicate_const Let_def)
qed

theorem established_segment_in_order_witness:
  "\<exists>d. host_stream 7 (snd (on_segment sample_data sample_est)) = host_stream 7 sample_est @ d
     \<and> d = replicate (length d) 65 \<and> 3 \<le> length d"
proof -
  have "20 \<le> tcp_data_off sample_data" "tcp_data_off sample_data \<le> length sample_data"
    "length sample_data < 2 ^ 31" "tcp_flags sample_data AND TCP_RST = 0"
    "covers (\<lambda>_. 65) (tcp_seq sample_data) (drop (tcp_data_off sample_data) sample_data)"
    by (simp_all add: sample_data_ok)
  from established_segment_in_order [OF sample_est_ok(1,4,2,3,5) this] show ?thesis
    by (auto simp: sample_est_ok(6) sample_data_ok seq_lt_def map_replicate_const Let_def)
qed

end
