(* ===== verification/Tcp_Sender.thy ===== *)
theory Tcp_Sender
  imports Tcp_Stream
begin

text \<open>
  The host-to-client direction: how \<open>try_segment_and_emit\<close> cuts the buffered host bytes into
  segments, that what it sends stays inside the window, and that retransmission either gets
  an answer or gives up after nine timeouts.
\<close>

section \<open>Segmentation\<close>

text \<open>The retransmission queue changes only by what is recorded.\<close>

lemma retx_simps [simp]:
  "retx (snd (now_ms s)) = retx s" "retx (snd (current_tsval s)) = retx s" "retx (snd (emit_pkt p s)) = retx s"
  "retx (update_adv_wnd f s) = retx s" "retx (schedule_rto n s) = retx s" "retx (schedule_tlp n s) = retx s"
  by (simp_all add: now_ms_def current_tsval_def emit_pkt_def update_adv_wnd_def schedule_rto_def schedule_tlp_def
      Let_def case_prod_unfold)

lemma retx_pair:
  "now_ms s = (n, t) \<Longrightarrow> retx t = retx s" "current_tsval s = (n, t) \<Longrightarrow> retx t = retx s"
  "emit_pkt p s = (ok, t) \<Longrightarrow> retx t = retx s"
  by (metis retx_simps(1) snd_conv, metis retx_simps(2) snd_conv, metis retx_simps(3) snd_conv)

lemma emit_segment_retx_pair:
  assumes "emit_segment f q p r o' s = (ok, t)"
  shows "if ok \<and> r then \<exists>g. retx t = retx s @ [g] \<and> g_seq g = q \<and> g_data g = p \<and> g_flags g = f
         else retx t = retx s"
  using assms unfolding emit_segment_def Let_def
  by (auto split: prod.splits if_splits dest!: retx_pair)

lemma emit_segment_retx [simp]:
  "retx (snd (emit_segment f q p False o' s)) = retx s"
  "\<not> fst (emit_segment f q p r o' s) \<Longrightarrow> retx (snd (emit_segment f q p r o' s)) = retx s"
  using emit_segment_retx_pair [OF prod.collapse [symmetric]] by (metis (full_types))+

text \<open>A run of segments without gap or overlap.\<close>

fun contiguous :: "u32 \<Rightarrow> out_seg list \<Rightarrow> u32 \<Rightarrow> bool" where
  "contiguous q [] e \<longleftrightarrow> q = e"
| "contiguous q (g # gs) e \<longleftrightarrow> g_seq g = q \<and> contiguous (q + of_nat (length (g_data g))) gs e"

definition segmented :: "tcp_session \<Rightarrow> tcp_session \<Rightarrow> bool" where
  "segmented s t \<longleftrightarrow>
     (\<exists>gs. retx t = retx s @ gs \<and> contiguous (snd_nxt s) gs (snd_nxt t)
        \<and> concat (map g_data gs) = slice (to_client s) (to_client_off s) (to_client_off t)
        \<and> (\<forall>g \<in> set gs. 0 < length (g_data g) \<and> length (g_data g) \<le> unat (peer_mss s)))
     \<and> to_client t = to_client s \<and> to_client_off s \<le> to_client_off t \<and> peer_mss t = peer_mss s"

lemma slice_join: "a \<le> b \<Longrightarrow> b \<le> c \<Longrightarrow> slice xs a b @ slice xs b c = slice xs a c"
  using take_add [of "b - a" "c - b" "drop a xs"] by (simp add: slice_def)

lemma segmented_send:
  assumes n: "0 < n" "to_client_off s + n \<le> length (to_client s)" "n \<le> unat (peer_mss s)"
    and e: "emit_segment (TCP_ACK OR TCP_PSH) (snd_nxt s)
      (slice (to_client s) (to_client_off s) (to_client_off s + n)) True [] s = (True, t)"
    and u: "segmented (t\<lparr>snd_nxt := snd_nxt s + of_nat n, to_client_off := to_client_off s + n\<rparr>) u"
  shows "segmented s u"
proof -
  let ?d = "slice (to_client s) (to_client_off s) (to_client_off s + n)"
  have len: "length ?d = n"
    using n by (simp add: slice_def)
  then have nonempty: "?d \<noteq> []"
    using n(1) by (metis less_not_refl list.size(3))
  obtain g where g: "retx t = retx s @ [g]" "g_seq g = snd_nxt s" "g_data g = ?d"
    using emit_segment_retx_pair [OF e] by auto
  have t: "to_client t = to_client s" "peer_mss t = peer_mss s"
    using emit_segment_keeps [of "TCP_ACK OR TCP_PSH" "snd_nxt s" ?d True "[]" s] unfolding e by simp_all
  obtain gs where gs: "retx u = retx t @ gs" "contiguous (snd_nxt s + of_nat n) gs (snd_nxt u)"
    "concat (map g_data gs) = slice (to_client s) (to_client_off s + n) (to_client_off u)"
    "\<forall>g \<in> set gs. 0 < length (g_data g) \<and> length (g_data g) \<le> unat (peer_mss s)"
    "to_client u = to_client s" "to_client_off s + n \<le> to_client_off u" "peer_mss u = peer_mss s"
    using u t by (auto simp: segmented_def)
  show ?thesis
    unfolding segmented_def
    using gs g n len nonempty slice_join [of "to_client_off s" "to_client_off s + n" "to_client_off u" "to_client s"]
    by (intro conjI exI [of _ "g # gs"]) auto
qed

lemma segment_loop_segmented: "segmented s (snd (segment_loop s))"
proof (induction s rule: segment_loop_induct [where P = "\<lambda>s r. segmented s (snd r)"])
  case (stop s b)
  show ?case
    by (simp add: segmented_def slice_def)
next
  case (refuse s data)
  then show ?case
    by (simp add: segmented_def slice_def emit_segment_retx)
next
  case (send s n t res)
  then show ?case
    using segmented_send by blast
qed

section \<open>The window\<close>

lemma unat_pipe_of: "unat (pipe_of s) = unat (snd_nxt s - snd_una s) - unat (sacked_bytes s)"
  by (simp add: pipe_of_def Let_def word_less_nat_alt unat_sub_if' word_le_nat_alt not_less)

lemma unat_add_le: "unat (a + of_nat n :: u32) \<le> unat a + n"
proof -
  have "a + of_nat n = of_nat (unat a + n)"
    by simp
  then show ?thesis
    using unat_of_nat [of "unat a + n", where 'a = 32] by (metis mod_less_eq_dividend)
qed

lemma pipe_advance:
  assumes "pipe_of s < w" "n \<le> unat (w - pipe_of s)" "snd_una t = snd_una s" "sacked_bytes t = sacked_bytes s"
    "snd_nxt t = snd_nxt s + of_nat n"
  shows "pipe_of t \<le> w"
proof -
  have sub_mono: "x - k \<le> y - k + n" if "x \<le> y + n" for x y k :: nat
    using that by arith
  have "snd_nxt t - snd_una t = (snd_nxt s - snd_una s) + of_nat n"
    using assms(3,5) by simp
  then have "unat (snd_nxt t - snd_una t) \<le> unat (snd_nxt s - snd_una s) + n"
    using unat_add_le by metis
  then have "unat (pipe_of t) \<le> unat (pipe_of s) + n"
    unfolding unat_pipe_of assms(4) by (rule sub_mono)
  also have "\<dots> \<le> unat w"
    using assms(1,2) unat_sub [of "pipe_of s" w] by (simp add: word_less_nat_alt word_le_nat_alt)
  finally show ?thesis
    by (simp add: word_le_nat_alt)
qed

definition within :: "tcp_session \<Rightarrow> tcp_session \<Rightarrow> bool" where
  "within s t \<longleftrightarrow> snd_wnd t = snd_wnd s \<and> cwnd t = cwnd s \<and> pipe_of t \<le> max (pipe_of s) (min (snd_wnd s) (cwnd s))"

lemma segment_loop_within: "within s (snd (segment_loop s))"
proof (induction s rule: segment_loop_induct [where P = "\<lambda>s r. within s (snd r)"])
  case (stop s b)
  show ?case
    by (simp add: within_def)
next
  case (refuse s data)
  then show ?case
    by (simp add: within_def pipe_of_def Let_def)
next
  case (send s n t res)
  let ?w = "min (snd_wnd s) (cwnd s)"
  let ?u = "t\<lparr>snd_nxt := snd_nxt s + of_nat n, to_client_off := to_client_off s + n\<rparr>"
  have t: "t = snd (emit_segment (TCP_ACK OR TCP_PSH) (snd_nxt s)
      (slice (to_client s) (to_client_off s) (to_client_off s + n)) True [] s)"
    using send(6) by simp
  have u: "snd_una ?u = snd_una s" "sacked_bytes ?u = sacked_bytes s" "snd_nxt ?u = snd_nxt s + of_nat n"
    "snd_wnd ?u = snd_wnd s" "cwnd ?u = cwnd s"
    unfolding t by simp_all
  have "pipe_of ?u \<le> ?w"
    by (rule pipe_advance [OF send(4,5) u(1-3)])
  then show ?case
    using send(7) u(4,5) unfolding within_def by (auto simp: le_max_iff_disj)
qed

text \<open>C26. Segmentation loses and invents nothing and respects the window. The send loop appends to
  the retransmission queue a run of segments, each of 1 to \<open>peer_mss\<close> bytes, whose sequence
  numbers run without gap from the old \<open>snd_nxt\<close> to the new one and whose payloads concatenate
  to exactly the host bytes it moved past; and the bytes in flight (less those SACKed) never
  grow beyond the peer's window and the congestion window.\<close>

theorem segmentation_exact:
  "\<exists>gs. let t = snd (segment_loop s) in
     retx t = retx s @ gs \<and> contiguous (snd_nxt s) gs (snd_nxt t)
     \<and> concat (map g_data gs) = slice (to_client s) (to_client_off s) (to_client_off t)
     \<and> list_all (\<lambda>g. 0 < length (g_data g) \<and> length (g_data g) \<le> unat (peer_mss s)) gs
     \<and> to_client t = to_client s \<and> to_client_off s \<le> to_client_off t
     \<and> pipe_of t \<le> max (pipe_of s) (min (snd_wnd s) (cwnd s))"
  using segment_loop_segmented [of s] segment_loop_within [of s]
  unfolding segmented_def within_def Let_def list_all_iff by blast

section \<open>Giving up\<close>

definition rx_view :: "tcp_session \<Rightarrow> u8 \<times> nat" where
  "rx_view s = (rto_retries s, length (retx s))"

lemma rx_view_emit [simp]:
  "rx_view (snd (emit_segment f q p False o' s)) = rx_view s" "rx_view (emit_ack s) = rx_view s"
  "rx_view (snd (retransmit_at i now s)) = rx_view s" "rx_view (schedule_rto n s) = rx_view s"
  "rx_view (enter_fast_recovery s) = rx_view s"
proof -
  show e: "rx_view (snd (emit_segment f q p False o' s)) = rx_view s" for f q p o' s
    by (simp add: rx_view_def)
  show "rx_view (emit_ack s) = rx_view s"
    by (simp add: emit_ack_def e)
  show "rx_view (snd (retransmit_at i now s)) = rx_view s"
    unfolding retransmit_at_def Let_def e by (simp add: rx_view_def)
  show "rx_view (schedule_rto n s) = rx_view s" "rx_view (enter_fast_recovery s) = rx_view s"
    by (simp_all add: rx_view_def schedule_rto_def enter_fast_recovery_def Let_def)
qed

lemma rx_view_upd [simp]:
  "rx_view (s\<lparr>rack_reo_wnd := a\<rparr>) = rx_view s" "rx_view (s\<lparr>rack_deadline_ms := a\<rparr>) = rx_view s"
  "rx_view (s\<lparr>last_head_retx_ms := a\<rparr>) = rx_view s" "rx_view (s\<lparr>tlp_deadline_ms := a\<rparr>) = rx_view s"
  "rx_view (s\<lparr>zwp_interval_ms := a\<rparr>) = rx_view s" "rx_view (s\<lparr>zwp_deadline_ms := a\<rparr>) = rx_view s"
  "rx_view (s\<lparr>rto_ms := a\<rparr>) = rx_view s"
  by (simp_all add: rx_view_def)

lemma rx_view_rack_emit [simp]: "rx_view (snd (rack_emit now is e s)) = rx_view s"
  by (induction "is" arbitrary: e s) (simp_all add: Let_def case_prod_unfold)

lemma rx_view_timers [simp]:
  "rx_view (rack_timer n s) = rx_view s" "rx_view (tlp_timer n s) = rx_view s" "rx_view (zwp_timer n s) = rx_view s"
  by (simp_all add: rack_timer_def rack_detect_loss_and_arm_timer_def tlp_timer_def fire_tlp_def zwp_timer_def
      zwp_fire_def Let_def case_prod_unfold split: option.split)

lemma rx_view_rto_collapse:
  "rto_retries (rto_collapse n s) = rto_retries s + 1" "length (retx (rto_collapse n s)) = length (retx s)"
proof -
  have "\<exists>t. rto_collapse n s = (snd (retransmit_at 0 n t))\<lparr>rto_retries := rto_retries (snd (retransmit_at 0 n t)) + 1\<rparr>
      \<and> rx_view t = rx_view s"
    unfolding rto_collapse_def Let_def case_prod_unfold
    by (rule exI, rule conjI, rule refl) (simp add: rx_view_def current_tsval_def now_ms_def w_now_def Let_def)
  then obtain t where t: "rto_collapse n s = (snd (retransmit_at 0 n t))\<lparr>rto_retries := rto_retries (snd (retransmit_at 0 n t)) + 1\<rparr>"
      "rx_view t = rx_view s"
    by blast
  have "rx_view (snd (retransmit_at 0 n t)) = rx_view s"
    using t(2) by simp
  then show "rto_retries (rto_collapse n s) = rto_retries s + 1" "length (retx (rto_collapse n s)) = length (retx s)"
    unfolding t(1) by (simp_all add: rx_view_def)
qed

fun run_ticks :: "u32 list \<Rightarrow> tcp_session \<Rightarrow> tcp_session" where
  "run_ticks [] s = s"
| "run_ticks (n # ns) s = run_ticks ns (snd (tick n s))"

text \<open>Every tick of the run finds the retransmission timer armed and expired.\<close>

fun due_run :: "u32 list \<Rightarrow> tcp_session \<Rightarrow> bool" where
  "due_run [] s \<longleftrightarrow> True"
| "due_run (n # ns) s \<longleftrightarrow> rto_deadline_ms s \<noteq> 0 \<and> time_after n (rto_deadline_ms s) \<and> due_run ns (snd (tick n s))"

lemma rto_timer_due:
  assumes "retx s \<noteq> []" "rto_retries s < 9" "rto_deadline_ms s \<noteq> 0" "time_after n (rto_deadline_ms s)"
  shows "state (rto_timer n s) = Closed
    \<or> rto_retries s < 8 \<and> rx_view (rto_timer n s) = (rto_retries s + 1, length (retx s))"
proof (cases "rto_retries s + 1 \<ge> 9")
  case True
  then show ?thesis
    using assms by (simp add: rto_timer_def rto_fire_def Let_def rx_view_rto_collapse)
next
  case False
  then have "unat (rto_retries s) < 8"
    using assms(2) by (simp add: word_le_nat_alt word_less_nat_alt unat_word_ariths)
  then show ?thesis
    using False assms by (simp add: rto_timer_def rto_fire_def Let_def rx_view_rto_collapse rx_view_def
        schedule_rto_def word_less_nat_alt)
qed

lemma tick_closed: "state s = Closed \<Longrightarrow> snd (tick n s) = s"
  by (simp add: tick_def)

lemma run_ticks_closed: "state s = Closed \<Longrightarrow> run_ticks ns s = s"
  by (induction ns) (simp_all add: tick_closed)

lemma tick_due:
  assumes "retx s \<noteq> []" "rto_retries s < 9" "rto_deadline_ms s \<noteq> 0" "time_after n (rto_deadline_ms s)"
  shows "state (snd (tick n s)) = Closed
    \<or> rto_retries s < 8 \<and> rx_view (snd (tick n s)) = (rto_retries s + 1, length (retx s))"
  using rto_timer_due [OF assms] by (auto simp: tick_def Let_def)

lemma run_ticks_inv: "tcp_inv s \<Longrightarrow> tcp_inv (run_ticks ns s)"
  by (induction ns arbitrary: s) (simp_all add: tick_inv)

lemma run_ticks_gives_up:
  assumes "retx s \<noteq> []" "due_run ns s" "length ns + unat (rto_retries s) = 9" "ns \<noteq> []"
  shows "state (run_ticks ns s) = Closed"
  using assms
proof (induction ns arbitrary: s)
  case (Cons n ns)
  have "rto_retries s < 9"
    using Cons.prems(3) by (simp add: word_less_nat_alt)
  then have t: "state (snd (tick n s)) = Closed
      \<or> rto_retries s < 8 \<and> rx_view (snd (tick n s)) = (rto_retries s + 1, length (retx s))"
    using tick_due Cons.prems(1,2) by simp
  show ?case
  proof (cases "state (snd (tick n s)) = Closed")
    case True
    then show ?thesis
      by (simp add: run_ticks_closed)
  next
    case False
    with t have r: "rto_retries s < 8" "rto_retries (snd (tick n s)) = rto_retries s + 1"
      "length (retx (snd (tick n s))) = length (retx s)"
      by (simp_all add: rx_view_def)
    then have "unat (rto_retries (snd (tick n s))) = unat (rto_retries s) + 1"
      by (simp add: unat_word_ariths word_less_nat_alt)
    moreover have "ns \<noteq> []"
      using r(1) Cons.prems(3) by (auto simp: word_less_nat_alt)
    ultimately show ?thesis
      using Cons.prems r(3) by (simp, intro Cons.IH) auto
  qed
qed simp

text \<open>C27. A session with unacknowledged data does not retransmit forever: when the retransmission
  timer expires at each of the next ticks and no acknowledgement arrives in between, the
  session is closed by the tick that brings the count to nine, and its host socket is
  released.\<close>

theorem rto_gives_up:
  assumes "tcp_inv s" "retx s \<noteq> []" "rto_retries s < 9"
    and "length ns = 9 - unat (rto_retries s)" "due_run ns s"
  shows "state (run_ticks ns s) = Closed \<and> host (run_ticks ns s) = None"
proof -
  have "length ns + unat (rto_retries s) = 9" "ns \<noteq> []"
    using assms(3,4) by (auto simp: word_less_nat_alt)
  then have "state (run_ticks ns s) = Closed"
    using run_ticks_gives_up assms(2,5) by blast
  then show ?thesis
    using run_ticks_inv [OF assms(1), of ns] by (simp add: tcp_inv_def st_ok_def)
qed

theorem rto_gives_up_witness:
  "let s = sample_est\<lparr>retx := [\<lparr>g_seq = 1, g_flags = TCP_ACK, g_sent_ms = 0, g_retransmitted = True,
       g_sacked = False, g_data = [65], g_options = []\<rparr>], rto_retries := 8, rto_deadline_ms := 500\<rparr>
   in state s = Established \<and> state (run_ticks [1000] s) = Closed \<and> host (run_ticks [1000] s) = None"
proof -
  let ?s = "sample_est\<lparr>retx := [\<lparr>g_seq = 1, g_flags = TCP_ACK, g_sent_ms = 0, g_retransmitted = True,
       g_sacked = False, g_data = [65], g_options = []\<rparr>], rto_retries := 8, rto_deadline_ms := 500\<rparr>"
  have "tcp_inv ?s"
    by (simp add: sample_est_def tcp_new_def tcp_inv_def recv_ok_def snd_ok_def st_ok_def sample_world_def
        OWN_MSS_def MAX_OOO_BYTES_def)
  moreover have "due_run [1000] ?s"
    by (simp add: time_after_def)
  ultimately show ?thesis
    using rto_gives_up [of ?s "[1000]"] sample_est_ok(4) by (simp add: Let_def)
qed

end
