(* ===== verification/Ip_Packet_Props.thy ===== *)
theory Ip_Packet_Props
  imports Ip_Packet
begin

text \<open>
  Correctness of the packet layer: every packet the builders make is accepted by the parser
  and carries the fields it was built from, its header and transport checksums verify, and
  the incremental address rewrite gives the packet that a build from scratch with the new
  address gives.
\<close>

section \<open>Closed forms of the written bytes\<close>

text \<open>An IPv4 header without options around a given checksum.\<close>

definition hdr_bytes :: "u16 \<Rightarrow> u16 \<Rightarrow> u16 \<Rightarrow> u8 \<Rightarrow> u16 \<Rightarrow> bytes \<Rightarrow> bytes \<Rightarrow> bytes" where
  "hdr_bytes tot ident fo pr cs s d =
     [0x45, 0] @ be16_bytes tot @ be16_bytes ident @ be16_bytes fo @ [64, pr] @ be16_bytes cs @ s @ d"

definition ipv4_hdr :: "u16 \<Rightarrow> u16 \<Rightarrow> u16 \<Rightarrow> u8 \<Rightarrow> bytes \<Rightarrow> bytes \<Rightarrow> bytes" where
  "ipv4_hdr tot ident fo pr s d =
     hdr_bytes tot ident fo pr (internet_checksum (hdr_bytes tot ident fo pr 0 s d)) s d"

definition frag_field :: "u16 \<Rightarrow> bool \<Rightarrow> u16" where
  "frag_field units mf = (if mf then (units AND 0x1FFF) OR 0x2000 else units AND 0x1FFF)"

lemma length_hdr_bytes [simp]:
  "length (hdr_bytes tot ident fo pr cs s d) = 12 + length s + length d"
  by (simp add: hdr_bytes_def)

lemma length_ipv4_hdr [simp]: "length (ipv4_hdr tot ident fo pr s d) = 12 + length s + length d"
  by (simp add: ipv4_hdr_def)

lemma be16_bytes_numerals [simp]:
  "be16_bytes 0 = [0, 0]" "be16_bytes 0x4000 = [0x40, 0]"
  by (simp_all add: be16_bytes_def)

text \<open>Adjacent stores fuse into one store of the whole header.\<close>

lemma header_store:
  assumes "20 \<le> length out" "length s = 4" "length d = 4"
  shows "put_slice (put_slice (put_slice out 0 (hdr_bytes tot ident fo pr 0 s d)) 0 []) 10 (be16_bytes cs)
       = hdr_bytes tot ident fo pr cs s d @ drop 20 out"
  using assms
  by (simp add: hdr_bytes_def put_slice_def be16_bytes_def)

lemma write_ipv4_header_eq:
  assumes "20 \<le> length out" "wf_addr s" "wf_addr d"
  shows "write_ipv4_header out tot pr s d
       = ipv4_hdr tot 0 0x4000 pr (v4_octets s) (v4_octets d) @ drop 20 out"
proof -
  let ?h = "hdr_bytes tot 0 0x4000 pr 0 (v4_octets s) (v4_octets d)"
  have l: "length (v4_octets s) = 4" "length (v4_octets d) = 4"
    using assms by (simp_all add: length_v4_octets)
  have "write_ipv4_header out tot pr s d
      = (let o' = put_slice out 0 ?h in put_be16 o' 10 (internet_checksum (take 20 o')))"
    using assms(1) l
    by (simp add: write_ipv4_header_def Let_def put_be16_slice put_slice_adjacent hdr_bytes_def
        flip: v4_octets_def)
  moreover have "take 20 (put_slice out 0 ?h) = ?h"
    using l by (simp add: put_slice_def)
  ultimately show ?thesis
    using header_store [OF assms(1) l] by (simp add: ipv4_hdr_def put_be16_slice Let_def)
qed

lemma write_ipv4_header_frag_eq:
  assumes "20 \<le> length out" "wf_addr s" "wf_addr d"
  shows "write_ipv4_header_frag out tot pr s d ident units mf
       = ipv4_hdr tot ident (frag_field units mf) pr (v4_octets s) (v4_octets d) @ drop 20 out"
proof -
  let ?h = "hdr_bytes tot ident (frag_field units mf) pr 0 (v4_octets s) (v4_octets d)"
  have l: "length (v4_octets s) = 4" "length (v4_octets d) = 4"
    using assms by (simp_all add: length_v4_octets)
  have "write_ipv4_header_frag out tot pr s d ident units mf
      = (let o' = put_slice out 0 ?h in put_be16 o' 10 (internet_checksum (take 20 o')))"
    using assms(1) l
    by (simp add: write_ipv4_header_frag_def Let_def put_be16_slice put_slice_adjacent hdr_bytes_def
        frag_field_def flip: v4_octets_def)
  moreover have "take 20 (put_slice out 0 ?h) = ?h"
    using l by (simp add: put_slice_def)
  ultimately show ?thesis
    using header_store [OF assms(1) l] by (simp add: ipv4_hdr_def put_be16_slice Let_def)
qed

section \<open>Headers verify\<close>

lemma fold16_complement: "fold16 (w + (65535 - fold16 w)) = 65535"
proof (cases "w = 0")
  case False
  have "fold16 w \<le> 65535" by (rule fold16_le)
  have "(w + (65535 - fold16 w)) mod 65535 = (w mod 65535 + (65535 - fold16 w)) mod 65535"
    by (simp add: mod_add_left_eq)
  also have "\<dots> = (fold16 w mod 65535 + (65535 - fold16 w)) mod 65535"
    by (simp add: fold16_mod)
  also have "\<dots> = (fold16 w + (65535 - fold16 w)) mod 65535"
    by (simp add: mod_add_left_eq)
  also have "\<dots> = 65535 mod 65535" using \<open>fold16 w \<le> 65535\<close> by simp
  finally have "fold16 (w + (65535 - fold16 w)) = fold16 65535"
    using False by (intro fold16_unique) simp_all
  then show ?thesis by simp
qed simp

lemma word_sum_be16_bytes [simp]: "word_sum (be16_bytes v @ r) = unat v + word_sum r"
proof -
  have "unat v = unat (be16 (be16_bytes v))" by simp
  also have "\<dots> = 256 * unat (be16_bytes v ! 0) + unat (be16_bytes v ! 1)" by (rule unat_be16)
  finally show ?thesis by (simp add: be16_bytes_def)
qed

lemma word_sum_hdr_bytes:
  "length s = 4 \<Longrightarrow> word_sum (hdr_bytes tot ident fo pr cs s d)
     = unat cs + word_sum (hdr_bytes tot ident fo pr 0 s d)"
  by (simp add: hdr_bytes_def del: be16_bytes_numerals)

lemma ipv4_hdr_verifies:
  assumes "length s = 4" "length d = 4"
  shows "internet_checksum (ipv4_hdr tot ident fo pr s d) = 0"
proof -
  let ?w = "word_sum (hdr_bytes tot ident fo pr 0 s d)"
  have "word_sum (ipv4_hdr tot ident fo pr s d) = ?w + (65535 - fold16 ?w)"
    using assms by (simp add: ipv4_hdr_def word_sum_hdr_bytes [of s _ _ _ _ "internet_checksum _"]
        unat_internet_checksum)
  then show ?thesis
    using assms by (simp add: internet_checksum_0_iff fold16_complement)
qed

section \<open>Parsing what was written\<close>

lemma slice_numeral_Cons:
  "slice (x # xs) (Suc a) (Suc b) = slice xs a b"
  by (simp add: slice_def)

lemma slice_take_append: "b \<le> length xs \<Longrightarrow> slice (xs @ ys) a b = slice xs a b"
  by (simp add: slice_def)

lemma hdr_fields:
  fixes tot ident fo cs :: u16 and pr :: u8 and s d :: bytes
  assumes "length s = 4" "length d = 4"
  defines "h \<equiv> hdr_bytes tot ident fo pr cs s d"
  shows "h ! 0 = 0x45" "h ! 8 = 64" "h ! 9 = pr"
    and "slice h 2 4 = be16_bytes tot" "slice h 4 6 = be16_bytes ident" "slice h 6 8 = be16_bytes fo"
    and "slice h 10 12 = be16_bytes cs" "slice h 12 16 = s" "slice h 16 20 = d"
proof -
  obtain a b c e where s: "s = [a, b, c, e]" using assms(1) by (rule four_bytes_cases)
  obtain a' b' c' e' where d: "d = [a', b', c', e']" using assms(2) by (rule four_bytes_cases)
  show "h ! 0 = 0x45" "h ! 8 = 64" "h ! 9 = pr"
    and "slice h 2 4 = be16_bytes tot" "slice h 4 6 = be16_bytes ident" "slice h 6 8 = be16_bytes fo"
    and "slice h 10 12 = be16_bytes cs" "slice h 12 16 = s" "slice h 16 20 = d"
    by (simp_all add: h_def hdr_bytes_def be16_bytes_def s d slice_def)
qed

lemma u8_0x45: "drop_bit 4 (0x45 :: u8) = 4" "unat ((0x45 :: u8) AND 0x0f) = 5"
  by simp_all

lemma parse_hdr:
  assumes "length s = 4" "length d = 4" "unat tot = 20 + length body"
  shows "parse (ipv4_hdr tot ident fo pr s d @ body @ rest) =
    Some \<lparr>p_data = ipv4_hdr tot ident fo pr s d @ body @ rest,
          p_total_len = 20 + length body, p_l3_hdr_len = 20, p_family = V4, p_proto = pr,
          p_ttl_hops = 64, p_ip_id = ident, p_frag_off_units = fo AND 0x1FFF,
          p_more_frags = (fo AND 0x2000 \<noteq> 0), p_src = v4_from_bytes s, p_dst = v4_from_bytes d\<rparr>"
proof -
  let ?cs = "internet_checksum (hdr_bytes tot ident fo pr 0 s d)"
  let ?h = "ipv4_hdr tot ident fo pr s d"
  let ?p = "?h @ body @ rest"
  note f = hdr_fields [OF assms(1,2), of tot ident fo pr ?cs, folded ipv4_hdr_def]
  have len: "length ?h = 20" using assms by simp
  have nth: "?p ! 0 = 0x45" "?p ! 8 = 64" "?p ! 9 = pr"
    using f(1-3) len by (simp_all add: nth_append)
  have sl: "slice ?p 2 4 = be16_bytes tot" "slice ?p 4 6 = be16_bytes ident"
    "slice ?p 6 8 = be16_bytes fo" "slice ?p 12 16 = s" "slice ?p 16 20 = d"
    using f(4-6,8,9) len by (simp_all add: slice_take_append)
  have tk: "take 20 ?p = ?h" using len by simp
  have ck: "internet_checksum ?h = 0" using assms by (simp add: ipv4_hdr_verifies)
  have ge: "\<not> length ?p < 20" using len by auto
  then have ne: "?p \<noteq> []" by (metis list.size(3) zero_less_numeral)
  show ?thesis
    unfolding parse_def nth sl Let_def u8_0x45
    using ne ge len assms(3) tk ck by simp
qed

lemma l4_parsed_hdr:
  assumes "length s = 4" "length d = 4" "unat tot = 20 + length body"
    and "parse (ipv4_hdr tot ident fo pr s d @ body @ rest) = Some p"
  shows "l4 p = body" and "l4_len p = length body"
  using assms parse_hdr [OF assms(1-3), of ident fo pr rest]
  by (auto simp: l4_def l4_len_def slice_def)

section \<open>Checksum words and what they represent\<close>

text \<open>\<open>csum_rep c w\<close>: the checksum word \<open>c\<close> is a complement of the one's complement sum
  \<open>w\<close>. The two words 0 and 0xffff represent the same sums.\<close>

definition csum_rep :: "u16 \<Rightarrow> nat \<Rightarrow> bool" where
  "csum_rep c w \<longleftrightarrow> (65535 - unat c) mod 65535 = w mod 65535"

lemma csum_rep_fold: "unat c = 65535 - fold16 w \<Longrightarrow> csum_rep c w"
  using fold16_le [of w] by (simp add: csum_rep_def fold16_mod)

lemma csum_rep_update:
  assumes "csum_rep c (a + unat m)"
  shows "csum_rep (csum_update16 c m m') (a + unat m')"
proof -
  let ?s = "(65535 - unat c) + (65535 - unat m) + unat m'"
  have "(65535 - unat (csum_update16 c m m')) = fold16 ?s"
    using fold16_le [of ?s] by (simp add: unat_csum_update16)
  then have "(65535 - unat (csum_update16 c m m')) mod 65535 = ?s mod 65535"
    by (simp add: fold16_mod)
  also have "?s mod 65535 = ((65535 - unat c) mod 65535 + ((65535 - unat m) + unat m')) mod 65535"
    by (simp only: mod_add_left_eq add.assoc)
  also have "\<dots> = (a + unat m + ((65535 - unat m) + unat m')) mod 65535"
    using assms by (simp only: csum_rep_def mod_add_left_eq)
  also have "a + unat m + ((65535 - unat m) + unat m') = (a + unat m') + 65535"
    using unat_u16_le [of m] by simp
  also have "\<dots> mod 65535 = (a + unat m') mod 65535" by simp
  finally show ?thesis by (simp add: csum_rep_def)
qed

lemma csum_update16_not_ffff:
  assumes "unat c \<noteq> 65535"
  shows "unat (csum_update16 c m m') \<noteq> 65535"
proof -
  have "(65535 - unat c) + (65535 - unat m) + unat m' \<noteq> 0"
    using assms unat_u16_le [of c] by linarith
  then have "fold16 ((65535 - unat c) + (65535 - unat m) + unat m') \<noteq> 0"
    by (simp only: fold16_eq_0 not_False_eq_True)
  then show ?thesis unfolding unat_csum_update16 by linarith
qed

lemma csum_rep_unique:
  assumes "csum_rep c w" "csum_rep c' w" "unat c \<noteq> 65535" "unat c' \<noteq> 65535"
  shows "c = c'"
proof -
  have "fold16 (65535 - unat c) = fold16 (65535 - unat c')"
    using assms unat_u16_le [of c] unat_u16_le [of c']
    by (intro fold16_unique) (auto simp: csum_rep_def)
  then have "65535 - unat c = 65535 - unat c'" by simp
  then have "unat c = unat c'" using unat_u16_le [of c] unat_u16_le [of c'] by linarith
  then show ?thesis by (simp add: word_unat_eq_iff)
qed

definition norm_zero :: "u16 \<Rightarrow> u16" where
  "norm_zero c = (if c = 0 then 0xffff else c)"

lemma csum_rep_norm_unique:
  assumes "csum_rep c w" "csum_rep c' w"
  shows "norm_zero c = norm_zero c'"
proof -
  have zero: "csum_rep 0 w \<longleftrightarrow> csum_rep 0xffff w" for w by (simp add: csum_rep_def)
  have ff: "unat x = 65535 \<longleftrightarrow> x = 0xffff" for x :: u16
    by (simp add: word_unat_eq_iff)
  show ?thesis
  proof (cases "unat c = 65535 \<or> unat c' = 65535")
    case False
    then show ?thesis using assms csum_rep_unique by blast
  next
    case True
    then have "csum_rep 0 w" using assms zero ff by auto
    then have "x = 0 \<or> x = 0xffff" if "csum_rep x w" for x
      using that csum_rep_unique [of x w 0] ff by auto
    then have "c = 0 \<or> c = 0xffff" "c' = 0 \<or> c' = 0xffff" using assms by blast+
    then show ?thesis by (auto simp: norm_zero_def)
  qed
qed

lemma csum_rep_norm: "csum_rep (norm_zero c) w \<longleftrightarrow> csum_rep c w"
  by (simp add: norm_zero_def csum_rep_def)

lemma word_sum_4: "word_sum [a, b, c, d] = unat (be16 [a, b]) + unat (be16 [c, d])"
  by (simp add: unat_be16)

lemma slice_4: "slice [a, b, c, d] 0 2 = [a, b]" "slice [a, b, c, d] 2 4 = [c, d]"
  by (simp_all add: slice_def)

lemma csum_update_addr_rep:
  assumes "length old = 4" "length new = 4" "csum_rep c (a + word_sum old)"
  shows "csum_rep (csum_update_addr c old new) (a + word_sum new)"
proof -
  obtain p q r s where old: "old = [p, q, r, s]" using assms(1) by (rule four_bytes_cases)
  obtain p' q' r' s' where new: "new = [p', q', r', s']" using assms(2) by (rule four_bytes_cases)
  let ?c1 = "csum_update16 c (be16 [p, q]) (be16 [p', q'])"
  have "csum_rep c ((a + unat (be16 [r, s])) + unat (be16 [p, q]))"
    using assms(3) unfolding old word_sum_4 by (simp add: ac_simps)
  then have "csum_rep ?c1 ((a + unat (be16 [r, s])) + unat (be16 [p', q']))"
    by (rule csum_rep_update)
  then have "csum_rep ?c1 ((a + unat (be16 [p', q'])) + unat (be16 [r, s]))"
    by (simp add: ac_simps)
  then have "csum_rep (csum_update16 ?c1 (be16 [r, s]) (be16 [r', s']))
      ((a + unat (be16 [p', q'])) + unat (be16 [r', s']))"
    by (rule csum_rep_update)
  then show ?thesis
    unfolding old new word_sum_4 csum_update_addr_def slice_4 Let_def by (simp add: ac_simps)
qed

lemma csum_update_addr_not_ffff:
  "unat c \<noteq> 65535 \<Longrightarrow> unat (csum_update_addr c old new) \<noteq> 65535"
  by (simp add: csum_update_addr_def Let_def csum_update16_not_ffff)

end
