(* ===== verification/Builder_Props.thy ===== *)
theory Builder_Props
  imports Ip_Packet_Props
begin

text \<open>
  The TCP and UDP builders: closed forms of the packets, round trip through the parser,
  validity of the transport checksum, and equality of the in-place address rewrite with a
  build from scratch.
\<close>

section \<open>Transport checksums\<close>

text \<open>The one's complement sum that \<open>l4_checksum\<close> folds: the pseudo header and the segment.\<close>

definition pseudo_sum :: "bytes \<Rightarrow> bytes \<Rightarrow> u8 \<Rightarrow> nat \<Rightarrow> nat" where
  "pseudo_sum s d pr n = word_sum s + word_sum d + unat pr + n"

lemma word_sum_len_field:
  "n < 65536 \<Longrightarrow> word_sum [0, pr, of_nat (n div 256), of_nat n] = unat pr + n"
  by (simp add: unat_of_nat)

lemma unat_l4_checksum:
  assumes "is_v4 s" "length seg \<le> 65535"
  shows "unat (l4_checksum s d pr seg)
       = 65535 - fold16 (pseudo_sum (v4_octets s) (v4_octets d) pr (length seg) + word_sum seg)"
proof -
  let ?a = "checksum_partial (v4_octets s) 0"
  let ?b = "checksum_partial (v4_octets d) ?a"
  let ?c = "checksum_partial [0, pr, of_nat (length seg div 256), of_nat (length seg)] ?b"
  have a: "unat ?a = fold16 (word_sum (v4_octets s))"
    by (simp add: unat_checksum_partial v4_octets_def)
  then have b: "unat ?b = fold16 (word_sum (v4_octets s) + word_sum (v4_octets d))"
    using fold16_le by (simp add: unat_checksum_partial v4_octets_def fold16_add_left)
  then have c: "unat ?c = fold16 (pseudo_sum (v4_octets s) (v4_octets d) pr (length seg))"
    using fold16_le assms(2) word_sum_len_field [of "length seg" pr]
    by (simp add: unat_checksum_partial fold16_add_left pseudo_sum_def add.assoc del: word_sum.simps)
  have "l4_checksum s d pr seg = checksum_final (checksum_partial seg ?c)"
    using assms(1) by (simp add: l4_checksum_def Let_def v4_octets_def)
  then show ?thesis
    using c fold16_le assms(2)
    by (simp add: unat_checksum_final unat_checksum_partial fold16_add_left)
qed

text \<open>A segment with a checksum word between an even prefix and a suffix.\<close>

definition with_csum :: "bytes \<Rightarrow> u16 \<Rightarrow> bytes \<Rightarrow> bytes" where
  "with_csum pre cs post = pre @ be16_bytes cs @ post"

lemma length_with_csum [simp]: "length (with_csum pre cs post) = length pre + 2 + length post"
  by (simp add: with_csum_def)

lemma put_with_csum:
  "length pre = k \<Longrightarrow> put_be16 (with_csum pre c post) k cs = with_csum pre cs post"
  by (simp add: put_be16_slice with_csum_def put_slice_def)

lemma word_sum_with_csum:
  "even (length pre) \<Longrightarrow> word_sum (with_csum pre cs post) = word_sum pre + unat cs + word_sum post"
  by (simp add: with_csum_def word_sum_append)

locale segment_layout =
  fixes pre :: "'b \<Rightarrow> bytes" and post :: "'b \<Rightarrow> bytes" and pr :: u8
  assumes even_pre: "even (length (pre b))"
    and pr_pos: "unat pr \<noteq> 0"
begin

text \<open>The sum a receiver computes over everything but the checksum word.\<close>

lemma checksum_of_zeroed:
  assumes "is_v4 s" "length (pre b) + 2 + length (post b) \<le> 65535"
  shows "unat (l4_checksum s d pr (with_csum (pre b) 0 (post b)))
       = 65535 - fold16 (pseudo_sum (v4_octets s) (v4_octets d) pr (length (pre b) + 2 + length (post b))
                         + (word_sum (pre b) + word_sum (post b)))"
  using assms unat_l4_checksum [of s "with_csum (pre b) 0 (post b)" d pr]
  by (simp add: word_sum_with_csum even_pre)

lemma stored_checksum_verifies:
  assumes v4: "is_v4 s" and len: "length (pre b) + 2 + length (post b) \<le> 65535"
    and cs: "csum_rep cs (pseudo_sum (v4_octets s) (v4_octets d) pr (length (pre b) + 2 + length (post b))
                         + (word_sum (pre b) + word_sum (post b)))"
  shows "l4_checksum s d pr (with_csum (pre b) cs (post b)) = 0"
proof -
  let ?w = "pseudo_sum (v4_octets s) (v4_octets d) pr (length (pre b) + 2 + length (post b))
            + (word_sum (pre b) + word_sum (post b))"
  have "?w + unat cs \<noteq> 0" using pr_pos by (simp add: pseudo_sum_def)
  moreover have "(?w + unat cs) mod 65535 = 0"
  proof -
    have "(?w + unat cs) mod 65535 = (?w mod 65535 + unat cs) mod 65535"
      by (simp only: mod_add_left_eq)
    also have "\<dots> = ((65535 - unat cs) mod 65535 + unat cs) mod 65535"
      using cs by (simp only: csum_rep_def)
    also have "\<dots> = ((65535 - unat cs) + unat cs) mod 65535" by (simp only: mod_add_left_eq)
    also have "\<dots> = 0" using unat_u16_le [of cs] by simp
    finally show ?thesis .
  qed
  ultimately have "fold16 (?w + unat cs) = fold16 65535"
    by (intro fold16_unique) simp_all
  then have "unat (l4_checksum s d pr (with_csum (pre b) cs (post b))) = 0"
    using v4 len unat_l4_checksum [of s "with_csum (pre b) cs (post b)" d pr]
    by (simp add: word_sum_with_csum even_pre ac_simps)
  then show ?thesis by (simp add: unat_eq_zero)
qed

lemma checksum_rep:
  assumes "is_v4 s" "length (pre b) + 2 + length (post b) \<le> 65535"
  shows "csum_rep (l4_checksum s d pr (with_csum (pre b) 0 (post b)))
     (pseudo_sum (v4_octets s) (v4_octets d) pr (length (pre b) + 2 + length (post b))
        + (word_sum (pre b) + word_sum (post b)))"
  using checksum_of_zeroed [OF assms] by (rule csum_rep_fold)

lemma checksum_not_ffff:
  assumes "is_v4 s" "length (pre b) + 2 + length (post b) \<le> 65535"
  shows "unat (l4_checksum s d pr (with_csum (pre b) 0 (post b))) \<noteq> 65535"
proof -
  have "fold16 (pseudo_sum (v4_octets s) (v4_octets d) pr (length (pre b) + 2 + length (post b))
        + (word_sum (pre b) + word_sum (post b))) \<noteq> 0"
    using pr_pos by (simp add: pseudo_sum_def)
  then show ?thesis unfolding checksum_of_zeroed [OF assms] by linarith
qed

end

section \<open>TCP\<close>

definition tcp_pre :: "tcp_build \<Rightarrow> bytes" where
  "tcp_pre b = be16_bytes (tb_src_port b) @ be16_bytes (tb_dst_port b) @ be32_bytes (tb_seq b)
     @ be32_bytes (tb_ack b) @ [of_nat ((20 + length (tb_options b)) div 4 * 16), tb_flags b]
     @ be16_bytes (tb_window b)"

definition tcp_post :: "tcp_build \<Rightarrow> bytes" where
  "tcp_post b = [0, 0] @ tb_options b @ tb_payload b"

interpretation tcp: segment_layout tcp_pre tcp_post "6 :: u8"
  by unfold_locales (simp_all add: tcp_pre_def)

lemma length_tcp_pre [simp]: "length (tcp_pre b) = 16"
  by (simp add: tcp_pre_def)

lemma length_tcp_post [simp]: "length (tcp_post b) = 2 + length (tb_options b) + length (tb_payload b)"
  by (simp add: tcp_post_def)

definition tcp_ok :: "bytes \<Rightarrow> tcp_build \<Rightarrow> bool" where
  "tcp_ok out b \<longleftrightarrow> is_v4 (tb_src b) \<and> is_v4 (tb_dst b) \<and> wf_addr (tb_src b) \<and> wf_addr (tb_dst b)
     \<and> length (tb_options b) mod 4 = 0
     \<and> 40 + length (tb_options b) + length (tb_payload b) \<le> length out
     \<and> 40 + length (tb_options b) + length (tb_payload b) \<le> 0xffff"

definition tcp_segment :: "tcp_build \<Rightarrow> bytes" where
  "tcp_segment b = with_csum (tcp_pre b)
     (l4_checksum (tb_src b) (tb_dst b) 6 (with_csum (tcp_pre b) 0 (tcp_post b))) (tcp_post b)"

definition tcp_packet :: "tcp_build \<Rightarrow> bytes" where
  "tcp_packet b =
     ipv4_hdr (of_nat (40 + length (tb_options b) + length (tb_payload b))) 0 0x4000 6
       (v4_octets (tb_src b)) (v4_octets (tb_dst b)) @ tcp_segment b"

lemma length_tcp_segment [simp]:
  "length (tcp_segment b) = 20 + length (tb_options b) + length (tb_payload b)"
  by (simp add: tcp_segment_def)

lemma build_tcp_eq:
  assumes "tcp_ok out b"
  shows "build_tcp out b =
    (40 + length (tb_options b) + length (tb_payload b),
     tcp_packet b @ drop (40 + length (tb_options b) + length (tb_payload b)) out)"
proof -
  let ?n = "20 + length (tb_options b) + length (tb_payload b)"
  let ?t = "slice out 20 (20 + ?n)"
  let ?w = "tcp_pre b @ [0, 0] @ tcp_post b"
  have lt: "length ?t = ?n" using assms by (auto simp: tcp_ok_def min_def)
  have opt: "(if xs \<noteq> [] then put_slice tcp k xs else tcp) = put_slice tcp k xs" for tcp k and xs :: bytes
    by simp
  have full: "put_slice ?t 0 ?w = with_csum (tcp_pre b) 0 (tcp_post b)"
    using lt by (simp add: put_slice_def with_csum_def)
  have seg: "put_be16 (with_csum (tcp_pre b) 0 (tcp_post b)) 16 cs
      = with_csum (tcp_pre b) cs (tcp_post b)" for cs
    by (rule put_with_csum) simp
  have out20: "20 \<le> length (put_slice out 20 (tcp_segment b))"
    and drop20: "drop 20 (put_slice out 20 (tcp_segment b))
      = tcp_segment b @ drop (40 + length (tb_options b) + length (tb_payload b)) out"
    using assms by (simp_all add: tcp_ok_def put_slice_def add.assoc)
  have fuse: "put_slice (put_slice (put_be16 (put_slice (put_slice (put_be16 (put_slice (put_slice
      (put_be32 (put_be32 (put_be16 (put_be16 ?t 0 (tb_src_port b)) 2 (tb_dst_port b)) 4 (tb_seq b)) 8 (tb_ack b))
      12 [of_nat ((20 + length (tb_options b)) div 4 * 16)]) 13 [tb_flags b]) 14 (tb_window b))
      16 [0]) 17 [0]) 18 0) 20 (tb_options b)) (20 + length (tb_options b)) (tb_payload b)
      = put_slice ?t 0 ?w"
    using lt by (simp add: put_be16_slice put_be32_slice put_slice_adjacent tcp_pre_def tcp_post_def)
  have nums: "20 + (20 + length (tb_options b) + length (tb_payload b))
      = 40 + length (tb_options b) + length (tb_payload b)" by simp
  show ?thesis
    using assms write_ipv4_header_eq [OF out20, of "tb_src b" "tb_dst b" "of_nat (20 + ?n)" 6]
    unfolding build_tcp_def Let_def opt l4_u8.simps
    unfolding fuse seg full tcp_ok_def
      tcp_segment_def [symmetric] drop20 tcp_packet_def
    unfolding nums
    by simp
qed

section \<open>UDP\<close>

definition udp_pre :: "udp_build \<Rightarrow> bytes" where
  "udp_pre b = be16_bytes (ub_src_port b) @ be16_bytes (ub_dst_port b)
     @ be16_bytes (of_nat (8 + length (ub_payload b)))"

interpretation udp: segment_layout udp_pre ub_payload "17 :: u8"
  by unfold_locales (simp_all add: udp_pre_def)

lemma length_udp_pre [simp]: "length (udp_pre b) = 6"
  by (simp add: udp_pre_def)

definition udp_ok :: "bytes \<Rightarrow> udp_build \<Rightarrow> bool" where
  "udp_ok out b \<longleftrightarrow> is_v4 (ub_src b) \<and> is_v4 (ub_dst b) \<and> wf_addr (ub_src b) \<and> wf_addr (ub_dst b)
     \<and> 28 + length (ub_payload b) \<le> length out \<and> 28 + length (ub_payload b) \<le> 0xffff"

definition udp_segment :: "udp_build \<Rightarrow> bytes" where
  "udp_segment b = with_csum (udp_pre b)
     (norm_zero (l4_checksum (ub_src b) (ub_dst b) 17 (with_csum (udp_pre b) 0 (ub_payload b))))
     (ub_payload b)"

definition udp_packet :: "udp_build \<Rightarrow> bytes" where
  "udp_packet b =
     ipv4_hdr (of_nat (28 + length (ub_payload b))) 0 0x4000 17
       (v4_octets (ub_src b)) (v4_octets (ub_dst b)) @ udp_segment b"

lemma length_udp_segment [simp]: "length (udp_segment b) = 8 + length (ub_payload b)"
  by (simp add: udp_segment_def)

lemma build_udp_eq:
  assumes "udp_ok out b"
  shows "build_udp out b =
    (28 + length (ub_payload b), udp_packet b @ drop (28 + length (ub_payload b)) out)"
proof -
  let ?n = "8 + length (ub_payload b)"
  let ?t = "slice out 20 (20 + ?n)"
  let ?w = "udp_pre b @ [0, 0] @ ub_payload b"
  have lt: "length ?t = ?n" using assms by (auto simp: udp_ok_def min_def)
  have opt: "(if xs \<noteq> [] then put_slice udp k xs else udp) = put_slice udp k xs" for udp k and xs :: bytes
    by simp
  have full: "put_slice ?t 0 ?w = with_csum (udp_pre b) 0 (ub_payload b)"
    using lt by (simp add: put_slice_def with_csum_def)
  have seg: "put_be16 (with_csum (udp_pre b) 0 (ub_payload b)) 6 cs
      = with_csum (udp_pre b) cs (ub_payload b)" for cs
    by (rule put_with_csum) simp
  have out20: "20 \<le> length (put_slice out 20 (udp_segment b))"
    and drop20: "drop 20 (put_slice out 20 (udp_segment b))
      = udp_segment b @ drop (28 + length (ub_payload b)) out"
    using assms by (simp_all add: udp_ok_def put_slice_def)
  have fuse: "put_slice (put_slice (put_slice (put_be16 (put_be16 (put_be16 ?t 0 (ub_src_port b))
      2 (ub_dst_port b)) 4 (of_nat ?n)) 6 [0]) 7 [0]) 8 (ub_payload b) = put_slice ?t 0 ?w"
    using lt by (simp add: put_be16_slice put_slice_adjacent udp_pre_def)
  have nums: "20 + (8 + length (ub_payload b)) = 28 + length (ub_payload b)" by simp
  show ?thesis
    using assms write_ipv4_header_eq [OF out20, of "ub_src b" "ub_dst b" "of_nat (20 + ?n)" 17]
    unfolding build_udp_def Let_def opt l4_u8.simps
    unfolding fuse seg full udp_ok_def norm_zero_def [symmetric]
      udp_segment_def [symmetric] drop20 udp_packet_def
    unfolding nums
    by simp
qed

section \<open>Round trips\<close>

text \<open>What the parser says of a packet the NAT builds: not a fragment, the transport payload
  is the segment.\<close>

lemma parse_built:
  assumes "length s = 4" "length d = 4" "20 + length body \<le> 0xffff"
  obtains p where "parse (ipv4_hdr (of_nat (20 + length body)) 0 0x4000 pr s d @ body) = Some p"
    and "\<not> is_fragment p" "p_proto p = pr" "p_src p = v4_from_bytes s" "p_dst p = v4_from_bytes d"
    and "l4 p = body" "l4_len p = length body"
proof -
  have u: "unat (of_nat (20 + length body) :: u16) = 20 + length body"
    by (rule unat_of_nat_u16) (use assms(3) in simp)
  note P = parse_hdr [OF assms(1,2) u, of 0 "0x4000" pr "[]", unfolded append_Nil2]
  note L = l4_parsed_hdr [OF assms(1,2) u, of 0 "0x4000" pr "[]", unfolded append_Nil2, OF P]
  show thesis
    by (rule that [OF P]) (use L in \<open>simp_all add: is_fragment_def\<close>)
qed

text \<open>The header view of a TCP segment, provided the options fit the data-offset field.\<close>

lemma tcp_pre_views:
  fixes cs :: u16 and b :: tcp_build
  assumes "length (tb_options b) mod 4 = 0" "length (tb_options b) \<le> 40"
  defines "q \<equiv> with_csum (tcp_pre b) cs (tcp_post b)"
  shows "tcp_src_port q = tb_src_port b" "tcp_dst_port q = tb_dst_port b"
    "tcp_seq q = tb_seq b" "tcp_ack q = tb_ack b" "tcp_flags q = tb_flags b"
    "tcp_window q = tb_window b" "tcp_checksum q = cs"
    "tcp_data_off q = 20 + length (tb_options b)"
    "slice q 20 (tcp_data_off q) = tb_options b" "drop (tcp_data_off q) q = tb_payload b"
proof -
  have sl: "slice q 0 2 = be16_bytes (tb_src_port b)" "slice q 2 4 = be16_bytes (tb_dst_port b)"
    "slice q 4 8 = be32_bytes (tb_seq b)" "slice q 8 12 = be32_bytes (tb_ack b)"
    "slice q 14 16 = be16_bytes (tb_window b)" "slice q 16 18 = be16_bytes cs"
    "q ! 13 = tb_flags b" "q ! 12 = of_nat ((20 + length (tb_options b)) div 4 * 16)"
    by (simp_all add: q_def with_csum_def tcp_pre_def be16_bytes_def be32_bytes_def slice_def)
  then show "tcp_src_port q = tb_src_port b" "tcp_dst_port q = tb_dst_port b"
    "tcp_seq q = tb_seq b" "tcp_ack q = tb_ack b" "tcp_flags q = tb_flags b"
    "tcp_window q = tb_window b" "tcp_checksum q = cs"
    by (simp_all add: tcp_view_defs)
  show off: "tcp_data_off q = 20 + length (tb_options b)"
  proof -
    let ?k = "(20 + length (tb_options b)) div 4"
    have "4 dvd 20 + length (tb_options b)" using assms(1) by presburger
    then have k: "?k * 4 = 20 + length (tb_options b)" by (rule dvd_div_mult_self)
    then have "?k * 16 < 256" using assms(2) by linarith
    have "unat (drop_bit 4 (q ! 12)) = unat (q ! 12) div 16" by (simp add: unat_drop_bit)
    also have "unat (q ! 12) = ?k * 16" using \<open>?k * 16 < 256\<close> unfolding sl(8) by (subst unat_of_nat) simp
    finally have "unat (drop_bit 4 (q ! 12)) = ?k" by simp
    then show ?thesis using k by (simp only: tcp_data_off_def)
  qed
  show "slice q 20 (tcp_data_off q) = tb_options b" "drop (tcp_data_off q) q = tb_payload b"
    unfolding off by (simp_all add: q_def with_csum_def tcp_post_def slice_def)
qed

lemma udp_pre_views:
  fixes cs :: u16 and b :: udp_build
  assumes "8 + length (ub_payload b) \<le> 0xffff"
  defines "q \<equiv> with_csum (udp_pre b) cs (ub_payload b)"
  shows "udp_src_port q = ub_src_port b" "udp_dst_port q = ub_dst_port b"
    "unat (udp_len q) = 8 + length (ub_payload b)" "udp_payload q = ub_payload b"
    "udp_payload_len q = length (ub_payload b)"
proof -
  have sl: "slice q 0 2 = be16_bytes (ub_src_port b)" "slice q 2 4 = be16_bytes (ub_dst_port b)"
    "slice q 4 6 = be16_bytes (of_nat (8 + length (ub_payload b)))" "drop 8 q = ub_payload b"
    by (simp_all add: q_def with_csum_def udp_pre_def be16_bytes_def slice_def)
  show "udp_src_port q = ub_src_port b" "udp_dst_port q = ub_dst_port b" "udp_payload q = ub_payload b"
    using sl by (simp_all add: udp_view_defs)
  show len: "unat (udp_len q) = 8 + length (ub_payload b)"
    unfolding udp_len_def sl(3) be16_be16_bytes0 by (rule unat_of_nat_u16) (use assms(1) in simp)
  show "udp_payload_len q = length (ub_payload b)"
    by (simp add: udp_payload_len_def Let_def len)
qed

section \<open>Address rewriting equals rebuilding\<close>

lemma word_sum_hdr_addrs:
  assumes "length s = 4" "length d = 4"
  shows "word_sum (hdr_bytes tot ident fo pr 0 s d)
       = (word_sum (hdr_bytes tot ident fo pr 0 [0,0,0,0] [0,0,0,0])) + word_sum s + word_sum d"
  using assms by (simp add: hdr_bytes_def word_sum_append del: be16_bytes_numerals)

lemma hdr_sum_pos: "word_sum (hdr_bytes tot ident fo pr 0 [0,0,0,0] [0,0,0,0]) \<noteq> 0"
  by (simp add: hdr_bytes_def)

lemma header_checksum_rep:
  assumes "length s = 4" "length d = 4"
  shows "csum_rep (internet_checksum (hdr_bytes tot ident fo pr 0 s d))
           (word_sum (hdr_bytes tot ident fo pr 0 s d))"
    and "unat (internet_checksum (hdr_bytes tot ident fo pr 0 s d)) \<noteq> 65535"
proof -
  have u: "unat (internet_checksum (hdr_bytes tot ident fo pr 0 s d))
      = 65535 - fold16 (word_sum (hdr_bytes tot ident fo pr 0 s d))"
    using assms by (simp add: unat_internet_checksum)
  then show "csum_rep (internet_checksum (hdr_bytes tot ident fo pr 0 s d))
           (word_sum (hdr_bytes tot ident fo pr 0 s d))" by (rule csum_rep_fold)
  have "fold16 (word_sum (hdr_bytes tot ident fo pr 0 s d)) \<noteq> 0"
    using word_sum_hdr_addrs [OF assms] hdr_sum_pos by simp
  then show "unat (internet_checksum (hdr_bytes tot ident fo pr 0 s d)) \<noteq> 65535"
    unfolding u by linarith
qed

lemma header_update:
  assumes "length s = 4" "length d = 4" "length n = 4"
  shows "csum_update_addr (internet_checksum (hdr_bytes tot ident fo pr 0 s d)) s n
       = internet_checksum (hdr_bytes tot ident fo pr 0 n d)"
    and "csum_update_addr (internet_checksum (hdr_bytes tot ident fo pr 0 s d)) d n
       = internet_checksum (hdr_bytes tot ident fo pr 0 s n)"
proof -
  let ?a = "word_sum (hdr_bytes tot ident fo pr 0 [0,0,0,0] [0,0,0,0])"
  note W = word_sum_hdr_addrs [where tot = tot and ident = ident and fo = fo and pr = pr]
  note R = header_checksum_rep [where tot = tot and ident = ident and fo = fo and pr = pr]
  have "csum_rep (internet_checksum (hdr_bytes tot ident fo pr 0 s d)) (?a + word_sum d + word_sum s)"
    using R(1) [OF assms(1,2)] W [OF assms(1,2)] by (simp add: ac_simps)
  then have "csum_rep (csum_update_addr (internet_checksum (hdr_bytes tot ident fo pr 0 s d)) s n)
      (?a + word_sum d + word_sum n)" by (rule csum_update_addr_rep [OF assms(1,3)])
  then show "csum_update_addr (internet_checksum (hdr_bytes tot ident fo pr 0 s d)) s n
       = internet_checksum (hdr_bytes tot ident fo pr 0 n d)"
    using R(1) [OF assms(3,2)] W [OF assms(3,2)] R(2) [OF assms(3,2)]
      csum_update_addr_not_ffff [OF R(2) [OF assms(1,2)]]
    by (intro csum_rep_unique) (simp_all add: ac_simps)
  have "csum_rep (internet_checksum (hdr_bytes tot ident fo pr 0 s d)) (?a + word_sum s + word_sum d)"
    using R(1) [OF assms(1,2)] W [OF assms(1,2)] by simp
  then have "csum_rep (csum_update_addr (internet_checksum (hdr_bytes tot ident fo pr 0 s d)) d n)
      (?a + word_sum s + word_sum n)" by (rule csum_update_addr_rep [OF assms(2,3)])
  then show "csum_update_addr (internet_checksum (hdr_bytes tot ident fo pr 0 s d)) d n
       = internet_checksum (hdr_bytes tot ident fo pr 0 s n)"
    using R(1) [OF assms(1,3)] W [OF assms(1,3)] R(2) [OF assms(1,3)]
      csum_update_addr_not_ffff [OF R(2) [OF assms(1,2)]]
    by (intro csum_rep_unique) simp_all
qed

lemma hdr_patch:
  assumes "length s = 4" "length d = 4" "length n = 4"
  shows "put_slice (put_be16 (hdr_bytes tot ident fo pr cs s d @ r) 10 cs') 12 n
       = hdr_bytes tot ident fo pr cs' n d @ r"
    and "put_slice (put_be16 (hdr_bytes tot ident fo pr cs s d @ r) 10 cs') 16 n
       = hdr_bytes tot ident fo pr cs' s n @ r"
proof -
  have l: "length (hdr_bytes tot ident fo pr cs s d) = 20" using assms by simp
  obtain a b c e where s: "s = [a, b, c, e]" using assms(1) by (rule four_bytes_cases)
  obtain a' b' c' e' where d: "d = [a', b', c', e']" using assms(2) by (rule four_bytes_cases)
  obtain a'' b'' c'' e'' where n: "n = [a'', b'', c'', e'']" using assms(3) by (rule four_bytes_cases)
  show "put_slice (put_be16 (hdr_bytes tot ident fo pr cs s d @ r) 10 cs') 12 n
       = hdr_bytes tot ident fo pr cs' n d @ r"
    and "put_slice (put_be16 (hdr_bytes tot ident fo pr cs s d @ r) 10 cs') 16 n
       = hdr_bytes tot ident fo pr cs' s n @ r"
    by (simp_all add: put_be16_def put_slice_def hdr_bytes_def be16_bytes_def s d n)
qed

lemma four_nth: "length h \<ge> k + 4 \<Longrightarrow> [h ! k, h ! (k + 1), h ! (k + 2), h ! (k + 3)] = slice h k (k + 4)"
  by (rule nth_equalityI) (auto simp: slice_def less_Suc_eq numeral_eq_Suc)

text \<open>A packet whose header the NAT wrote, up to the transport checksum fixup.\<close>

lemma rewrite_ip_part:
  fixes body s d n :: bytes and tot ident fo :: u16 and pr :: u8 and is_src :: bool
  assumes "length s = 4" "length d = 4" "length n = 4" "n \<noteq> (if is_src then s else d)"
  defines "q \<equiv> ipv4_hdr tot ident fo pr (if is_src then n else s) (if is_src then d else n) @ body"
    and "old \<equiv> (if is_src then s else d)"
  shows "rewrite_v4_addr (ipv4_hdr tot ident fo pr s d @ body) n is_src =
    (if pr = 6 then
       if length body < 18 then (False, q)
       else (True, put_be16 q 36 (csum_update_addr (be16 (slice body 16 18)) old n))
     else if pr = 17 then
       if length body < 8 then (False, q)
       else if be16 (slice body 6 8) \<noteq> 0
            then (True, put_be16 q 26 (norm_zero (csum_update_addr (be16 (slice body 6 8)) old n)))
            else (True, q)
     else (True, q))"
proof -
  let ?cs = "internet_checksum (hdr_bytes tot ident fo pr 0 s d)"
  let ?h = "ipv4_hdr tot ident fo pr s d"
  note f = hdr_fields [OF assms(1,2), of tot ident fo pr ?cs, folded ipv4_hdr_def]
  have len: "length ?h = 20" using assms(1,2) by simp
  have nth: "(?h @ body) ! 0 = 0x45" "(?h @ body) ! 9 = pr"
    using f(1,3) len by (simp_all add: nth_append)
  have old: "[(?h @ body) ! k, (?h @ body) ! (k + 1), (?h @ body) ! (k + 2), (?h @ body) ! (k + 3)] = old"
    if "k = (if is_src then 12 else 16)" for k
  proof -
    have "[(?h @ body) ! k, (?h @ body) ! (k + 1), (?h @ body) ! (k + 2), (?h @ body) ! (k + 3)]
        = slice (?h @ body) k (k + 4)"
      using that len by (intro four_nth) auto
    also have "\<dots> = old"
      using that f(8,9) len by (auto simp: slice_take_append old_def)
    finally show ?thesis .
  qed
  have ck: "slice (?h @ body) 10 12 = be16_bytes ?cs"
    using f(7) len by (simp add: slice_take_append)
  have patch: "put_slice (put_be16 (?h @ body) 10 (csum_update_addr ?cs old n))
      (if is_src then 12 else 16) n = q"
    using header_update [OF assms(1-3)] hdr_patch [OF assms(1-3)]
    by (auto simp: q_def old_def ipv4_hdr_def)
  have dq: "drop 20 q = body" using assms(1-3) by (simp add: q_def)
  have ge: "\<not> length (?h @ body) < 20" using len by simp
  show ?thesis
    using ge assms(4) dq
    unfolding rewrite_v4_addr_def nth Let_def u8_0x45 old [OF refl] ck be16_be16_bytes0 patch
      norm_zero_def
    by (simp add: old_def)
qed

lemma slice_with_csum:
  "length pre = k \<Longrightarrow> slice (with_csum pre cs post) k (k + 2) = be16_bytes cs"
  by (simp add: slice_def with_csum_def)

lemma put_csum_packet:
  assumes "length h = 20" "length pre = k"
  shows "put_be16 (h @ with_csum pre c post) (20 + k) c' = h @ with_csum pre c' post"
  using assms put_with_csum [OF assms(2), of c post c']
  by (simp add: put_be16_slice put_slice_app_right)

lemma pseudo_sum_addrs:
  "pseudo_sum s d pr n = (word_sum d + unat pr + n) + word_sum s"
  "pseudo_sum s d pr n = (word_sum s + unat pr + n) + word_sum d"
  by (simp_all add: pseudo_sum_def)

context segment_layout begin

lemma update_src_matches:
  assumes v4: "is_v4 s" "is_v4 s'" and l: "length (v4_octets s) = 4" "length (v4_octets s') = 4"
    and len: "length (pre b) + 2 + length (post b) \<le> 65535"
    and c: "csum_rep c (pseudo_sum (v4_octets s) (v4_octets d) pr (length (pre b) + 2 + length (post b))
                         + (word_sum (pre b) + word_sum (post b)))"
  shows "csum_rep (csum_update_addr c (v4_octets s) (v4_octets s'))
     (pseudo_sum (v4_octets s') (v4_octets d) pr (length (pre b) + 2 + length (post b))
                         + (word_sum (pre b) + word_sum (post b)))"
  using csum_update_addr_rep [OF l, of c "word_sum (v4_octets d) + unat pr
      + (length (pre b) + 2 + length (post b)) + (word_sum (pre b) + word_sum (post b))"] c
  by (simp add: pseudo_sum_def ac_simps)

lemma update_dst_matches:
  assumes l: "length (v4_octets d) = 4" "length (v4_octets d') = 4"
    and c: "csum_rep c (pseudo_sum (v4_octets s) (v4_octets d) pr (length (pre b) + 2 + length (post b))
                         + (word_sum (pre b) + word_sum (post b)))"
  shows "csum_rep (csum_update_addr c (v4_octets d) (v4_octets d'))
     (pseudo_sum (v4_octets s) (v4_octets d') pr (length (pre b) + 2 + length (post b))
                         + (word_sum (pre b) + word_sum (post b)))"
  using csum_update_addr_rep [OF l, of c "word_sum (v4_octets s) + unat pr
      + (length (pre b) + 2 + length (post b)) + (word_sum (pre b) + word_sum (post b))"] c
  by (simp add: pseudo_sum_def ac_simps)

end

text \<open>The slice \<open>&out[..n]\<close> a caller passes on after a build.\<close>

definition tcp_bytes :: "bytes \<Rightarrow> tcp_build \<Rightarrow> bytes" where
  "tcp_bytes out b = take (fst (build_tcp out b)) (snd (build_tcp out b))"

definition udp_bytes :: "bytes \<Rightarrow> udp_build \<Rightarrow> bytes" where
  "udp_bytes out b = take (fst (build_udp out b)) (snd (build_udp out b))"

lemma tcp_bytes_eq: "tcp_ok out b \<Longrightarrow> tcp_bytes out b = tcp_packet b"
  using build_tcp_eq [of out b]
  by (simp add: tcp_bytes_def tcp_packet_def length_v4_octets tcp_ok_def)

lemma udp_bytes_eq: "udp_ok out b \<Longrightarrow> udp_bytes out b = udp_packet b"
  using build_udp_eq [of out b]
  by (simp add: udp_bytes_def udp_packet_def length_v4_octets udp_ok_def)

lemma rewrite_same:
  assumes "length s = 4" "length d = 4" "n = (if is_src then s else d)"
  shows "rewrite_v4_addr (ipv4_hdr tot ident fo pr s d @ body) n is_src
       = (True, ipv4_hdr tot ident fo pr s d @ body)"
proof -
  let ?cs = "internet_checksum (hdr_bytes tot ident fo pr 0 s d)"
  let ?h = "ipv4_hdr tot ident fo pr s d"
  note f = hdr_fields [OF assms(1,2), of tot ident fo pr ?cs, folded ipv4_hdr_def]
  have len: "length ?h = 20" using assms(1,2) by simp
  have nth: "(?h @ body) ! 0 = 0x45" using f(1) len by (simp add: nth_append)
  have old: "[(?h @ body) ! k, (?h @ body) ! (k + 1), (?h @ body) ! (k + 2), (?h @ body) ! (k + 3)] = n"
    if "k = (if is_src then 12 else 16)" for k
  proof -
    have "[(?h @ body) ! k, (?h @ body) ! (k + 1), (?h @ body) ! (k + 2), (?h @ body) ! (k + 3)]
        = slice (?h @ body) k (k + 4)"
      using that len by (intro four_nth) auto
    then show ?thesis using that f(8,9) len assms(3) by (auto simp: slice_take_append)
  qed
  have ge: "\<not> length (?h @ body) < 20" using len by simp
  show ?thesis
    using ge unfolding rewrite_v4_addr_def nth Let_def u8_0x45 old [OF refl] by simp
qed

lemma tcp_packet_rewrite:
  assumes "is_v4 (tb_src b)" "is_v4 (tb_dst b)" "wf_addr (tb_src b)" "wf_addr (tb_dst b)"
    and len: "40 + length (tb_options b) + length (tb_payload b) \<le> 0xffff" and new: "length new = 4"
  shows "rewrite_v4_addr (tcp_packet b) new True = (True, tcp_packet (b\<lparr>tb_src := v4_from_bytes new\<rparr>))"
    and "rewrite_v4_addr (tcp_packet b) new False = (True, tcp_packet (b\<lparr>tb_dst := v4_from_bytes new\<rparr>))"
proof -
  let ?s = "tb_src b" and ?d = "tb_dst b" and ?a = "v4_from_bytes new"
  let ?cs = "\<lambda>s d. l4_checksum s d 6 (with_csum (tcp_pre b) 0 (tcp_post b))"
  have l: "length (v4_octets ?s) = 4" "length (v4_octets ?d) = 4"
    using assms by (simp_all add: length_v4_octets)
  have a: "v4_octets ?a = new" "is_v4 ?a" "length (v4_octets ?a) = 4" using new by simp_all
  have sz: "length (tcp_pre b) + 2 + length (tcp_post b) \<le> 65535" using len by simp
  have pre: "tcp_pre (b\<lparr>tb_src := x\<rparr>) = tcp_pre b" "tcp_post (b\<lparr>tb_src := x\<rparr>) = tcp_post b"
    "tcp_pre (b\<lparr>tb_dst := x\<rparr>) = tcp_pre b" "tcp_post (b\<lparr>tb_dst := x\<rparr>) = tcp_post b" for x
    by (simp_all add: tcp_pre_def tcp_post_def)
  have us: "csum_update_addr (?cs ?s ?d) (v4_octets ?s) new = ?cs ?a ?d"
  proof (rule csum_rep_unique)
    show "csum_rep (csum_update_addr (?cs ?s ?d) (v4_octets ?s) new)
      (pseudo_sum (v4_octets ?a) (v4_octets ?d) 6 (length (tcp_pre b) + 2 + length (tcp_post b))
         + (word_sum (tcp_pre b) + word_sum (tcp_post b)))"
      using tcp.update_src_matches [OF assms(1) a(2) l(1) a(3) sz tcp.checksum_rep [OF assms(1) sz], of ?d]
      by (simp add: a)
  qed (use tcp.checksum_rep [OF a(2) sz] tcp.checksum_not_ffff [OF a(2) sz]
        csum_update_addr_not_ffff [OF tcp.checksum_not_ffff [OF assms(1) sz]] in simp_all)
  have ud: "csum_update_addr (?cs ?s ?d) (v4_octets ?d) new = ?cs ?s ?a"
  proof (rule csum_rep_unique)
    show "csum_rep (csum_update_addr (?cs ?s ?d) (v4_octets ?d) new)
      (pseudo_sum (v4_octets ?s) (v4_octets ?a) 6 (length (tcp_pre b) + 2 + length (tcp_post b))
         + (word_sum (tcp_pre b) + word_sum (tcp_post b)))"
      using tcp.update_dst_matches [OF l(2) a(3) tcp.checksum_rep [OF assms(1) sz]]
      by (simp add: a)
  qed (use tcp.checksum_rep [OF assms(1) sz] tcp.checksum_not_ffff [OF assms(1) sz]
        csum_update_addr_not_ffff [OF tcp.checksum_not_ffff [OF assms(1) sz]] in simp_all)
  have seg: "be16 (slice (tcp_segment b) 16 18) = ?cs ?s ?d"
    using slice_with_csum [of "tcp_pre b" 16] by (simp add: tcp_segment_def)
  have put: "length h = 20 \<Longrightarrow> put_be16 (h @ tcp_segment b) 36 c = h @ with_csum (tcp_pre b) c (tcp_post b)" for h c
    using put_csum_packet [of h "tcp_pre b" 16 _ "tcp_post b" c] by (simp add: tcp_segment_def)
  show "rewrite_v4_addr (tcp_packet b) new True = (True, tcp_packet (b\<lparr>tb_src := ?a\<rparr>))"
  proof (cases "new = v4_octets ?s")
    case True
    then have "b\<lparr>tb_src := ?a\<rparr> = b" using assms by (simp add: v4_from_bytes_octets)
    then show ?thesis using rewrite_same [OF l, of new True] True by (simp add: tcp_packet_def)
  next
    case False
    then show ?thesis
      using rewrite_ip_part [OF l new, of True] us seg put l new
      by (simp add: tcp_packet_def tcp_segment_def [of "b\<lparr>tb_src := ?a\<rparr>"] pre a)
  qed
  show "rewrite_v4_addr (tcp_packet b) new False = (True, tcp_packet (b\<lparr>tb_dst := ?a\<rparr>))"
  proof (cases "new = v4_octets ?d")
    case True
    then have "b\<lparr>tb_dst := ?a\<rparr> = b" using assms by (simp add: v4_from_bytes_octets)
    then show ?thesis using rewrite_same [OF l, of new False] True by (simp add: tcp_packet_def)
  next
    case False
    then show ?thesis
      using rewrite_ip_part [OF l new, of False] ud seg put l new
      by (simp add: tcp_packet_def tcp_segment_def [of "b\<lparr>tb_dst := ?a\<rparr>"] pre a)
  qed
qed

lemma udp_csum_update:
  assumes "is_v4 s" "is_v4 s'" "wf_addr s" "wf_addr s'" "wf_addr d" "wf_addr d'"
    and sz: "length (udp_pre b) + 2 + length (ub_payload b) \<le> 65535"
  defines "cs \<equiv> \<lambda>s d. norm_zero (l4_checksum s d 17 (with_csum (udp_pre b) 0 (ub_payload b)))"
  shows "norm_zero (csum_update_addr (cs s d) (v4_octets s) (v4_octets s')) = cs s' d"
    and "norm_zero (csum_update_addr (cs s d) (v4_octets d) (v4_octets d')) = cs s d'"
proof -
  have l: "length (v4_octets x) = 4" if "wf_addr x" for x using that by (rule length_v4_octets)
  have R: "csum_rep (cs x y) (pseudo_sum (v4_octets x) (v4_octets y) 17
      (length (udp_pre b) + 2 + length (ub_payload b)) + (word_sum (udp_pre b) + word_sum (ub_payload b)))"
    if "is_v4 x" for x y
    unfolding cs_def csum_rep_norm by (rule udp.checksum_rep [OF that sz])
  have n: "norm_zero (cs x y) = cs x y" for x y by (simp add: cs_def norm_zero_def)
  show "norm_zero (csum_update_addr (cs s d) (v4_octets s) (v4_octets s')) = cs s' d"
    using csum_rep_norm_unique [OF udp.update_src_matches [OF assms(1,2) l l sz R] R] assms n by metis
  show "norm_zero (csum_update_addr (cs s d) (v4_octets d) (v4_octets d')) = cs s d'"
    using csum_rep_norm_unique [OF udp.update_dst_matches [OF l l R] R] assms n by metis
qed

lemma udp_packet_rewrite:
  assumes "is_v4 (ub_src b)" "is_v4 (ub_dst b)" "wf_addr (ub_src b)" "wf_addr (ub_dst b)"
    and len: "28 + length (ub_payload b) \<le> 0xffff" and new: "length new = 4"
  shows "rewrite_v4_addr (udp_packet b) new True = (True, udp_packet (b\<lparr>ub_src := v4_from_bytes new\<rparr>))"
    and "rewrite_v4_addr (udp_packet b) new False = (True, udp_packet (b\<lparr>ub_dst := v4_from_bytes new\<rparr>))"
proof -
  let ?s = "ub_src b" and ?d = "ub_dst b" and ?a = "v4_from_bytes new"
  have l: "length (v4_octets ?s) = 4" "length (v4_octets ?d) = 4"
    using assms by (simp_all add: length_v4_octets)
  have a: "v4_octets ?a = new" "is_v4 ?a" "wf_addr ?a" using new by simp_all
  have sz: "length (udp_pre b) + 2 + length (ub_payload b) \<le> 65535" using len by simp
  have pre: "udp_pre (b\<lparr>ub_src := x\<rparr>) = udp_pre b" "udp_pre (b\<lparr>ub_dst := x\<rparr>) = udp_pre b" for x
    by (simp_all add: udp_pre_def)
  note U = udp_csum_update [OF assms(1) a(2) assms(3) a(3) assms(4) a(3) sz, unfolded a(1)]
  have seg: "be16 (slice (udp_segment b) 6 8)
      = norm_zero (l4_checksum ?s ?d 17 (with_csum (udp_pre b) 0 (ub_payload b)))"
    using slice_with_csum [of "udp_pre b" 6] by (simp add: udp_segment_def)
  have nz: "be16 (slice (udp_segment b) 6 8) \<noteq> 0" unfolding seg by (simp add: norm_zero_def)
  have put: "length h = 20 \<Longrightarrow> put_be16 (h @ udp_segment b) 26 c = h @ with_csum (udp_pre b) c (ub_payload b)" for h c
    using put_csum_packet [of h "udp_pre b" 6 _ "ub_payload b" c] by (simp add: udp_segment_def)
  show "rewrite_v4_addr (udp_packet b) new True = (True, udp_packet (b\<lparr>ub_src := ?a\<rparr>))"
  proof (cases "new = v4_octets ?s")
    case True
    then have "b\<lparr>ub_src := ?a\<rparr> = b" using assms by (simp add: v4_from_bytes_octets)
    then show ?thesis using rewrite_same [OF l, of new True] True by (simp add: udp_packet_def)
  next
    case False
    then show ?thesis
      using rewrite_ip_part [OF l new, of True] U nz put l new seg
      by (simp add: udp_packet_def udp_segment_def [of "b\<lparr>ub_src := ?a\<rparr>"] pre a)
  qed
  show "rewrite_v4_addr (udp_packet b) new False = (True, udp_packet (b\<lparr>ub_dst := ?a\<rparr>))"
  proof (cases "new = v4_octets ?d")
    case True
    then have "b\<lparr>ub_dst := ?a\<rparr> = b" using assms by (simp add: v4_from_bytes_octets)
    then show ?thesis using rewrite_same [OF l, of new False] True by (simp add: udp_packet_def)
  next
    case False
    then show ?thesis
      using rewrite_ip_part [OF l new, of False] U nz put l new seg
      by (simp add: udp_packet_def udp_segment_def [of "b\<lparr>ub_dst := ?a\<rparr>"] pre a)
  qed
qed

section \<open>Properties\<close>

text \<open>C24. Every TCP segment of a v4 flow that is built with options of at most 40 bytes, a multiple of 4,
  and fits the buffer and the 65535 bytes of an IP packet, is accepted by the IP parser as an unfragmented
  TCP packet with the addresses, ports, sequence and acknowledgement numbers, flags, window, options and
  payload it was built from, and its TCP checksum verifies at the receiver. (An acknowledgement with four SACK
  blocks and timestamps has 48 bytes of options and does not parse.)\<close>

theorem build_tcp_roundtrip:
  assumes "is_v4 (tb_src b)" "is_v4 (tb_dst b)" "wf_addr (tb_src b)" "wf_addr (tb_dst b)"
    and "length (tb_options b) mod 4 = 0" "length (tb_options b) \<le> 40"
    and "40 + length (tb_options b) + length (tb_payload b) \<le> length out"
    and "40 + length (tb_options b) + length (tb_payload b) \<le> 0xffff"
  shows "\<exists>n out' p. build_tcp out b = (n, out')
     \<and> n = 40 + length (tb_options b) + length (tb_payload b) \<and> length out' = length out
     \<and> parse (take n out') = Some p \<and> \<not> is_fragment p
     \<and> p_proto p = l4_u8 Tcp \<and> p_src p = tb_src b \<and> p_dst p = tb_dst b
     \<and> tcp_src_port (l4 p) = tb_src_port b \<and> tcp_dst_port (l4 p) = tb_dst_port b
     \<and> tcp_seq (l4 p) = tb_seq b \<and> tcp_ack (l4 p) = tb_ack b
     \<and> tcp_flags (l4 p) = tb_flags b \<and> tcp_window (l4 p) = tb_window b
     \<and> slice (l4 p) 20 (tcp_data_off (l4 p)) = tb_options b
     \<and> drop (tcp_data_off (l4 p)) (l4 p) = tb_payload b
     \<and> l4_checksum (tb_src b) (tb_dst b) (l4_u8 Tcp) (l4 p) = 0"
proof -
  let ?n = "40 + length (tb_options b) + length (tb_payload b)"
  have ok: "tcp_ok out b" using assms by (simp add: tcp_ok_def)
  have l: "length (v4_octets (tb_src b)) = 4" "length (v4_octets (tb_dst b)) = 4"
    using assms by (simp_all add: length_v4_octets)
  have n: "?n = 20 + length (tcp_segment b)" by simp
  have body: "20 + length (tcp_segment b) \<le> 0xffff" using assms by simp
  obtain p where p: "parse (tcp_packet b) = Some p" "\<not> is_fragment p" "p_proto p = 6"
    "p_src p = v4_from_bytes (v4_octets (tb_src b))" "p_dst p = v4_from_bytes (v4_octets (tb_dst b))"
    "l4 p = tcp_segment b"
    using parse_built [OF l body, of 6] unfolding tcp_packet_def n by metis
  have tk: "take ?n (tcp_packet b @ drop ?n out) = tcp_packet b"
    using l by (simp add: tcp_packet_def)
  have addr: "v4_from_bytes (v4_octets (tb_src b)) = tb_src b" "v4_from_bytes (v4_octets (tb_dst b)) = tb_dst b"
    using assms by (simp_all add: v4_from_bytes_octets)
  have cs: "l4_checksum (tb_src b) (tb_dst b) 6 (tcp_segment b) = 0"
    unfolding tcp_segment_def
    by (rule tcp.stored_checksum_verifies [OF assms(1) _ tcp.checksum_rep [OF assms(1)]])
       (use assms in simp_all)
  note v = tcp_pre_views [OF assms(5,6), of "l4_checksum (tb_src b) (tb_dst b) 6
      (with_csum (tcp_pre b) 0 (tcp_post b))", folded tcp_segment_def]
  show ?thesis
    using build_tcp_eq [OF ok] p tk addr cs v l assms(7)
    by (intro exI [of _ ?n] exI [of _ "tcp_packet b @ drop ?n out"] exI [of _ p])
       (simp add: tcp_packet_def)
qed

text \<open>Every UDP datagram that fits one packet is accepted by the IP parser with the
  addresses, ports, length and payload it was built from, its stored checksum is never the
  "not computed" value 0, and it verifies at the receiver.\<close>

theorem build_udp_roundtrip:
  assumes "is_v4 (ub_src b)" "is_v4 (ub_dst b)" "wf_addr (ub_src b)" "wf_addr (ub_dst b)"
    and "28 + length (ub_payload b) \<le> length out" "28 + length (ub_payload b) \<le> 0xffff"
  shows "\<exists>n out' p. build_udp out b = (n, out')
     \<and> n = 28 + length (ub_payload b) \<and> length out' = length out
     \<and> parse (take n out') = Some p \<and> \<not> is_fragment p
     \<and> p_proto p = l4_u8 Udp \<and> p_src p = ub_src b \<and> p_dst p = ub_dst b
     \<and> udp_src_port (l4 p) = ub_src_port b \<and> udp_dst_port (l4 p) = ub_dst_port b
     \<and> udp_payload (l4 p) = ub_payload b \<and> udp_payload_len (l4 p) = length (ub_payload b)
     \<and> be16 (slice (l4 p) 6 8) \<noteq> 0
     \<and> l4_checksum (ub_src b) (ub_dst b) (l4_u8 Udp) (l4 p) = 0"
proof -
  let ?n = "28 + length (ub_payload b)"
  let ?c = "norm_zero (l4_checksum (ub_src b) (ub_dst b) 17 (with_csum (udp_pre b) 0 (ub_payload b)))"
  have ok: "udp_ok out b" using assms by (simp add: udp_ok_def)
  have l: "length (v4_octets (ub_src b)) = 4" "length (v4_octets (ub_dst b)) = 4"
    using assms by (simp_all add: length_v4_octets)
  have n: "?n = 20 + length (udp_segment b)" by simp
  have body: "20 + length (udp_segment b) \<le> 0xffff" using assms by simp
  obtain p where p: "parse (udp_packet b) = Some p" "\<not> is_fragment p" "p_proto p = 17"
    "p_src p = v4_from_bytes (v4_octets (ub_src b))" "p_dst p = v4_from_bytes (v4_octets (ub_dst b))"
    "l4 p = udp_segment b"
    using parse_built [OF l body, of 17] unfolding udp_packet_def n by metis
  have tk: "take ?n (udp_packet b @ drop ?n out) = udp_packet b"
    using l by (simp add: udp_packet_def)
  have addr: "v4_from_bytes (v4_octets (ub_src b)) = ub_src b" "v4_from_bytes (v4_octets (ub_dst b)) = ub_dst b"
    using assms by (simp_all add: v4_from_bytes_octets)
  have cs: "l4_checksum (ub_src b) (ub_dst b) 17 (udp_segment b) = 0"
    unfolding udp_segment_def
    by (rule udp.stored_checksum_verifies [OF assms(1)])
       (use assms udp.checksum_rep [OF assms(1), of b "ub_dst b"] in \<open>simp_all add: csum_rep_norm\<close>)
  have nz: "be16 (slice (udp_segment b) 6 8) \<noteq> 0"
    using slice_with_csum [of "udp_pre b" 6 ?c "ub_payload b"]
    by (simp add: udp_segment_def norm_zero_def)
  have len: "8 + length (ub_payload b) \<le> 0xffff" using assms(6) by simp
  note v = udp_pre_views [OF len, of ?c, folded udp_segment_def]
  show ?thesis
    using build_udp_eq [OF ok] p tk addr cs v l assms(5) nz
    by (intro exI [of _ ?n] exI [of _ "udp_packet b @ drop ?n out"] exI [of _ p])
       (simp add: udp_packet_def)
qed

text \<open>C25. The in-place rewrite with incremental (RFC 1624) checksum fixup gives, byte for
  byte, the packet that building the TCP segment from scratch with the new source or
  destination address gives.\<close>

theorem rewrite_tcp_matches_rebuild:
  assumes "is_v4 (tb_src b)" "is_v4 (tb_dst b)" "wf_addr (tb_src b)" "wf_addr (tb_dst b)"
    and "length (tb_options b) mod 4 = 0"
    and "40 + length (tb_options b) + length (tb_payload b) \<le> length out"
    and "40 + length (tb_options b) + length (tb_payload b) \<le> 0xffff"
    and "length new = 4"
  shows "rewrite_v4_src (tcp_bytes out b) new = (True, tcp_bytes out (b\<lparr>tb_src := v4_from_bytes new\<rparr>))
       \<and> rewrite_v4_dst (tcp_bytes out b) new = (True, tcp_bytes out (b\<lparr>tb_dst := v4_from_bytes new\<rparr>))"
proof -
  have "tcp_ok out b" "tcp_ok out (b\<lparr>tb_src := v4_from_bytes new\<rparr>)"
    "tcp_ok out (b\<lparr>tb_dst := v4_from_bytes new\<rparr>)"
    using assms(1-8) by (simp_all add: tcp_ok_def)
  then show ?thesis
    using tcp_packet_rewrite [OF assms(1-4,7,8)]
    by (simp add: tcp_bytes_eq rewrite_v4_src_def rewrite_v4_dst_def)
qed

text \<open>The same for UDP datagrams, whose stored checksum follows the rule that a computed 0
  is sent as 0xffff.\<close>

theorem rewrite_udp_matches_rebuild:
  assumes "is_v4 (ub_src b)" "is_v4 (ub_dst b)" "wf_addr (ub_src b)" "wf_addr (ub_dst b)"
    and "28 + length (ub_payload b) \<le> length out" "28 + length (ub_payload b) \<le> 0xffff"
    and "length new = 4"
  shows "rewrite_v4_src (udp_bytes out b) new = (True, udp_bytes out (b\<lparr>ub_src := v4_from_bytes new\<rparr>))
       \<and> rewrite_v4_dst (udp_bytes out b) new = (True, udp_bytes out (b\<lparr>ub_dst := v4_from_bytes new\<rparr>))"
proof -
  have "udp_ok out b" "udp_ok out (b\<lparr>ub_src := v4_from_bytes new\<rparr>)"
    "udp_ok out (b\<lparr>ub_dst := v4_from_bytes new\<rparr>)"
    using assms(1-7) by (simp_all add: udp_ok_def)
  then show ?thesis
    using udp_packet_rewrite [OF assms(1-4,6,7)]
    by (simp add: udp_bytes_eq rewrite_v4_src_def rewrite_v4_dst_def)
qed

section \<open>Witnesses\<close>

definition sample_tcp :: tcp_build where
  "sample_tcp = \<lparr>tb_src = v4_from_bytes [10, 8, 0, 2], tb_dst = v4_from_bytes [8, 8, 8, 8],
     tb_src_port = 12345, tb_dst_port = 80, tb_seq = 1, tb_ack = 0, tb_flags = TCP_SYN,
     tb_window = 65535, tb_options = [2, 4, 3, 192], tb_payload = [104, 105]\<rparr>"

definition sample_udp :: udp_build where
  "sample_udp = \<lparr>ub_src = v4_from_bytes [10, 8, 0, 2], ub_dst = v4_from_bytes [1, 1, 1, 1],
     ub_src_port = 5353, ub_dst_port = 53, ub_payload = [113]\<rparr>"

theorem build_tcp_roundtrip_witness:
  "\<exists>n out' p. build_tcp (replicate 64 0) sample_tcp = (n, out') \<and> n = 46
     \<and> parse (take n out') = Some p \<and> p_dst p = v4_from_bytes [8, 8, 8, 8]
     \<and> tcp_dst_port (l4 p) = 80 \<and> drop (tcp_data_off (l4 p)) (l4 p) = [104, 105]"
  using build_tcp_roundtrip [of sample_tcp "replicate 64 0"]
  by (simp add: sample_tcp_def) blast

theorem build_udp_roundtrip_witness:
  "\<exists>n out' p. build_udp (replicate 64 0) sample_udp = (n, out') \<and> n = 29
     \<and> parse (take n out') = Some p \<and> p_dst p = v4_from_bytes [1, 1, 1, 1]
     \<and> udp_payload (l4 p) = [113]"
  using build_udp_roundtrip [of sample_udp "replicate 64 0"]
  by (simp add: sample_udp_def) blast

theorem rewrite_tcp_matches_rebuild_witness:
  "rewrite_v4_src (tcp_bytes (replicate 64 0) sample_tcp) [10, 8, 0, 42]
     = (True, tcp_bytes (replicate 64 0) (sample_tcp\<lparr>tb_src := v4_from_bytes [10, 8, 0, 42]\<rparr>))"
  using rewrite_tcp_matches_rebuild [of sample_tcp "replicate 64 0" "[10, 8, 0, 42]"]
  by (simp add: sample_tcp_def)

theorem rewrite_udp_matches_rebuild_witness:
  "rewrite_v4_dst (udp_bytes (replicate 64 0) sample_udp) [8, 8, 4, 4]
     = (True, udp_bytes (replicate 64 0) (sample_udp\<lparr>ub_dst := v4_from_bytes [8, 8, 4, 4]\<rparr>))"
  using rewrite_udp_matches_rebuild [of sample_udp "replicate 64 0" "[8, 8, 4, 4]"]
  by (simp add: sample_udp_def)

end
