(* ===== verification/Tcp_Control.thy ===== *)
theory Tcp_Control
  imports Tcp_Stream Builder_Props
begin

text \<open>
  Control behaviour of a session: validation of RST segments, the connection-state graph, and
  three behaviours of the code that its comments and the protocol do not intend (a write that
  returns 0 discards the pending bytes; a segment that carries data and FIN revives a session
  its own data closed; an ACK with four SACK blocks and timestamps has an unparsable header).
\<close>

section \<open>RST\<close>

lemma on_segment_rst:
  assumes "20 \<le> tcp_data_off seg" "tcp_data_off seg \<le> length seg" "tcp_flags seg AND TCP_RST \<noteq> 0"
  shows "snd (on_segment seg s) =
    (let s = note_options (slice seg 20 (tcp_data_off seg)) (tcp_seq seg) s
     in if state s \<in> {SynRcvd, Closed} \<or> tcp_seq seg - rcv_nxt s < rcv_wnd s then mark_closed s else s)"
  using assms by (simp add: on_segment_def Let_def)

lemma on_segment_malformed:
  "\<not> (20 \<le> tcp_data_off seg \<and> tcp_data_off seg \<le> length seg) \<Longrightarrow> snd (on_segment seg s) = s"
  by (auto simp: on_segment_def Let_def)

lemma on_segment_live:
  assumes "20 \<le> tcp_data_off seg" "tcp_data_off seg \<le> length seg" "tcp_flags seg AND TCP_RST = 0"
  shows "snd (on_segment seg s) =
    (let n = note_options (slice seg 20 (tcp_data_off seg)) (tcp_seq seg) s
     in if state s = Closed then snd (accept_initial_syn seg n)
        else dispatch_state (tcp_flags seg) (tcp_seq seg) (tcp_ack seg) (tcp_window seg) (drop (tcp_data_off seg) seg) n)"
  using assms by (simp add: on_segment_def Let_def)

text \<open>A session without what the options of a segment write: the reading of the clock, the SACK marks of
  the segments in flight and their count, RACK's newest delivered segment and its duplicate-SACK flag, and
  the timestamp fields. All else is there: the state, both sequence spaces and windows, the buffers,
  what is kept for retransmission, congestion control, every timer, and the calls made on the outside world.\<close>

definition sans_options :: "tcp_session \<Rightarrow> tcp_session" where
  "sans_options s = s\<lparr>io := (io s)\<lparr>w_ticks := 0\<rparr>, retx := map (\<lambda>g. g\<lparr>g_sacked := False\<rparr>) (retx s),
     sacked_bytes := 0, sacked_at_segment_start := 0, rack_xmit_ts := 0, rack_end_seq := 0, rack_rtt := 0,
     rack_inited := False, rack_dsack_seen := False, ts_recent := 0, cur_tsecr := 0, cur_tsecr_present := False\<rparr>"

lemma sans_options_rack: "sans_options (rack_update_from_delivered a e n s) = sans_options s"
  by (simp add: rack_update_from_delivered_def sans_options_def Let_def)

lemma sans_options_fold: "sans_options (fold (\<lambda>g. rack_update_from_delivered (f g) (h g) n) gs s) = sans_options s"
  by (induction gs arbitrary: s) (simp_all add: sans_options_rack)

lemma sans_options_block: "sans_options (on_sack_block l r s) = sans_options s"
  unfolding on_sack_block_def Let_def case_prod_unfold sans_options_fold
  by (simp add: sans_options_def now_ms_def w_now_def Let_def comp_def)

lemma sans_options_upd:
  "sans_options (s\<lparr>rack_dsack_seen := b\<rparr>) = sans_options s" "sans_options (s\<lparr>sacked_at_segment_start := x\<rparr>) = sans_options s"
  "sans_options (s\<lparr>ts_recent := x\<rparr>) = sans_options s" "sans_options (s\<lparr>cur_tsecr := x\<rparr>) = sans_options s"
  "sans_options (s\<lparr>cur_tsecr_present := b\<rparr>) = sans_options s"
  by (simp_all add: sans_options_def)

lemma sans_options_blocks: "sans_options (sack_blocks bs b s) = sans_options s"
  by (induction bs b s rule: sack_blocks.induct) (simp_all add: Let_def sans_options_block sans_options_upd)

lemma sans_options_note: "sans_options (note_options opts q s) = sans_options s"
proof -
  have "sans_options (sack_option o' t) = sans_options t" for o' t
    by (simp add: sack_option_def sans_options_blocks)
  then have "sans_options (walk_opts sack_option opts t) = sans_options t" for t
    by (rule walk_opts_preserves)
  then have "sans_options (parse_sack_blocks opts t) = sans_options t" for t
    by (simp add: parse_sack_blocks_def)
  then have "sans_options (note_sack opts s) = sans_options s"
    by (simp add: note_sack_def Let_def sans_options_upd)
  moreover have "sans_options (note_timestamp opts q t) = sans_options t" for t
    by (simp add: note_timestamp_def Let_def sans_options_upd)
  ultimately show ?thesis by (simp add: note_options_def)
qed

text \<open>C28. RST validation (RFC 5961): in a synchronised state a RST outside the receive window changes
  nothing of the session but what its options write (SACK marks and their count, RACK's newest delivered
  segment, timestamp fields) and the reading of the clock; without options it changes the per-segment scratch
  fields only. So it moves no sequence number, window, buffer, congestion variable or timer and sends nothing.
  Inside the window, or before the connection is synchronised, it closes the session and releases the host
  socket.\<close>

theorem rst_validation:
  assumes "tcp_inv s" "20 \<le> tcp_data_off seg" "tcp_data_off seg \<le> length seg" "tcp_flags seg AND TCP_RST \<noteq> 0"
  shows "(state s \<notin> {SynRcvd, Closed} \<and> tcp_seq seg - rcv_nxt s \<ge> rcv_wnd s
           \<longrightarrow> sans_options (snd (on_segment seg s)) = sans_options s
             \<and> (tcp_data_off seg = 20 \<longrightarrow>
                  snd (on_segment seg s) = s\<lparr>sacked_at_segment_start := sacked_bytes s, cur_tsecr_present := False, cur_tsecr := 0\<rparr>))
       \<and> (state s \<in> {SynRcvd, Closed} \<or> tcp_seq seg - rcv_nxt s < rcv_wnd s
           \<longrightarrow> state (snd (on_segment seg s)) = Closed \<and> host (snd (on_segment seg s)) = None)"
proof -
  let ?n = "note_options (slice seg 20 (tcp_data_off seg)) (tcp_seq seg) s"
  note kv = keep_viewD [OF keep_view_note_options [of "slice seg 20 (tcp_data_off seg)" "tcp_seq seg" s]]
  have n: "state ?n = state s" "rcv_nxt ?n = rcv_nxt s" "rcv_wnd ?n = rcv_wnd s"
    using kv(1) recv_viewD(3,4) [OF kv(2)] by simp_all
  have "recv_ok ?n"
    using assms(1) by (simp add: tcp_inv_def)
  then have c: "host (mark_closed ?n) = None"
    by (simp add: mark_closed_def)
  have "?n = s\<lparr>sacked_at_segment_start := sacked_bytes s, cur_tsecr_present := False, cur_tsecr := 0\<rparr>" if "tcp_data_off seg = 20"
    using that by (simp add: note_options_def note_sack_def note_timestamp_def slice_def Let_def)
  then show ?thesis
    using on_segment_rst [OF assms(2-4), of s] n c sans_options_note [of "slice seg 20 (tcp_data_off seg)" "tcp_seq seg" s]
    by (auto simp: Let_def not_less)
qed

section \<open>The state graph\<close>

text \<open>Where one segment can take a session.\<close>

fun seg_next :: "tcp_state \<Rightarrow> tcp_state set" where
  "seg_next Closed = {Closed, SynRcvd}"
| "seg_next SynRcvd = {SynRcvd, Established, CloseWait, Closed}"
| "seg_next Established = {Established, CloseWait, FinWait1, LastAck, Closed}"
| "seg_next CloseWait = {CloseWait, LastAck, Closed}"
| "seg_next FinWait1 = {FinWait1, FinWait2, Closing, TimeWait, Closed}"
| "seg_next FinWait2 = {FinWait2, TimeWait, Closed}"
| "seg_next Closing = {Closing, TimeWait, Closed}"
| "seg_next LastAck = {LastAck, Closed}"
| "seg_next TimeWait = {TimeWait, Closed}"
| "seg_next Listen = {Listen, Closed}"
| "seg_next SynSent = {SynSent, Closed}"

lemmas state_emit [simp] = keep_viewD(1) [OF keep_view_emit(1)] keep_viewD(1) [OF keep_view_emit(2)]
  keep_viewD(1) [OF keep_view_emit(3)] keep_viewD(1) [OF keep_view_emit(4)] keep_viewD(1) [OF keep_view_emit(5)]
  keep_viewD(1) [OF keep_view_emit(7)] keep_viewD(1) [OF keep_view_on_ack] keep_viewD(1) [OF keep_view_rtt(2)]

lemma state_host_io [simp]:
  "state (refresh_host_interest s) = state s" "state (reset_and_close s) = Closed"
  "state (drained s) = state s" "state (drain_blocked s) = state s" "state (set_writes sk ws s) = state s"
  "state (shutdown_write s) = state s" "state (resume_reads s) = state s"
proof -
  show r: "state (refresh_host_interest s) = state s" for s
    by (simp add: refresh_host_interest_def Let_def split: option.split)
  show "state (reset_and_close s) = Closed" "state (drained s) = state s" "state (drain_blocked s) = state s"
    "state (set_writes sk ws s) = state s" "state (shutdown_write s) = state s" "state (resume_reads s) = state s"
    by (simp_all add: reset_and_close_def drained_def drain_blocked_def set_writes_def shutdown_write_def
        resume_reads_def Let_def r split: option.split)
qed

text \<open>The session is in one of the states \<open>S\<close>; writing to the host can add only \<open>Closed\<close>.\<close>

definition stays :: "tcp_state set \<Rightarrow> tcp_session \<Rightarrow> bool" where
  "stays S s \<longleftrightarrow> state s \<in> S"

lemma stays_simps [simp]:
  "stays S (sys c s) = stays S s" "stays S (set_writes sk ws s) = stays S s" "stays S (drained s) = stays S s"
  "stays S (drain_blocked s) = stays S s" "stays S (refresh_host_interest s) = stays S s"
  "Closed \<in> S \<Longrightarrow> stays S (reset_and_close s)" "stays S (emit_ack s) = stays S s"
  "stays S (s\<lparr>to_host := d\<rparr>) = stays S s" "stays S (s\<lparr>to_host_off := k\<rparr>) = stays S s"
  "stays S (s\<lparr>ooo := q\<rparr>) = stays S s" "stays S (s\<lparr>ooo_bytes := k\<rparr>) = stays S s"
  "stays S (s\<lparr>rcv_nxt := a\<rparr>) = stays S s" "stays S (s\<lparr>snd_wnd := a\<rparr>) = stays S s"
  "stays S (s\<lparr>state := st\<rparr>) = (st \<in> S)" "stays S (store_ooo a d s) = stays S s"
  "stays S (s\<lparr>time_wait_deadline_ms := a\<rparr>) = stays S s"
  "stays S (shutdown_write s) = stays S s" "stays S (on_ack a n s) = stays S s" "stays S (snd (now_ms s)) = stays S s"
  by (simp_all add: stays_def store_ooo_def Let_def)

lemma stays_drain [simp]: "Closed \<in> S \<Longrightarrow> stays S s \<Longrightarrow> stays S (drain_writes sk ws s)"
  by (induction ws arbitrary: s) (simp_all add: Let_def split: wr_result.split)

lemma stays_try_drain [simp]: "Closed \<in> S \<Longrightarrow> stays S s \<Longrightarrow> stays S (try_drain_to_host s)"
  by (simp add: try_drain_to_host_def split: option.split)

lemma stays_enqueue [simp]: "Closed \<in> S \<Longrightarrow> stays S s \<Longrightarrow> stays S (enqueue_to_host d s)"
  by (simp add: enqueue_to_host_def Let_def)

lemma stays_deliver [simp]: "Closed \<in> S \<Longrightarrow> stays S s \<Longrightarrow> stays S (deliver_queue qs s)"
  by (induction qs arbitrary: s) (simp_all add: Let_def)

lemma stays_data [simp]: "Closed \<in> S \<Longrightarrow> stays S s \<Longrightarrow> stays S (data_and_ack q d s)"
  by (simp add: data_and_ack_def handle_data_in_def deliver_ooo_def Let_def)

lemma stays_zwp_now [simp]: "stays S (zwp_now s) = stays S s"
  by (simp add: stays_def zwp_now_def Let_def case_prod_unfold)

lemma stays_ack_if_flagged [simp]: "stays S (ack_if_flagged f a s) = stays S s"
  by (simp add: stays_def ack_if_flagged_def Let_def case_prod_unfold)

lemma stays_time_wait_now [simp]: "TimeWait \<in> S \<Longrightarrow> stays S (time_wait_now s)"
  by (simp add: stays_def time_wait_now_def enter_time_wait_def Let_def case_prod_unfold)

lemma stays_open [simp]: "stays S (snd (open_host_socket s)) = stays S s"
  by (simp add: stays_def)

lemma stays_mark_closed [simp]: "Closed \<in> S \<Longrightarrow> stays S (mark_closed s)"
  by (simp add: stays_def)

text \<open>Sending leaves the state alone but for the FIN.\<close>

lemma state_segment_loop [simp]: "state (snd (segment_loop s)) = state s"
  by (rule segment_loop_preserves [where P = "\<lambda>t. state t = state s"]) simp_all

lemma state_send_fin: "state (send_fin s) = (if state s = CloseWait then LastAck else FinWait1)"
  by (simp add: send_fin_def Let_def)

lemma stays_try_segment:
  assumes "stays S s" "Established \<in> S \<longrightarrow> FinWait1 \<in> S" "CloseWait \<in> S \<longrightarrow> LastAck \<in> S"
  shows "stays S (try_segment_and_emit s)"
  using assms by (auto simp: stays_def try_segment_and_emit_def Let_def case_prod_unfold state_send_fin)

lemma state_syn_negotiate: "state (syn_negotiate seg s) = SynRcvd"
  by (simp add: syn_negotiate_def Let_def case_prod_unfold)

lemma state_accept_initial_syn: "state s = Closed \<Longrightarrow> state (snd (accept_initial_syn seg s)) \<in> {Closed, SynRcvd}"
  by (simp add: accept_initial_syn_def Let_def case_prod_unfold state_syn_negotiate
      keep_viewD(1) [OF syn_ack_options_ok(1)])

lemma stays_dispatch:
  assumes "state s \<noteq> Closed"
  shows "stays (seg_next (state s)) (dispatch_state f q a w d s)"
proof (cases "state s")
  case SynRcvd
  have "stays {SynRcvd, Established, CloseWait, Closed} s"
    using SynRcvd by (simp add: stays_def)
  then show ?thesis
    using SynRcvd by (simp add: dispatch_state_def process_syn_rcvd_def Let_def case_prod_unfold)
next
  case Established
  have "stays {Established, CloseWait, FinWait1, LastAck, Closed} s"
    using Established by (simp add: stays_def)
  then show ?thesis
    using Established by (simp add: dispatch_state_def process_established_def Let_def stays_try_segment)
next
  case CloseWait
  have "stays {CloseWait, LastAck, Closed} s"
    using CloseWait by (simp add: stays_def)
  then show ?thesis
    using CloseWait by (simp add: dispatch_state_def process_close_wait_def Let_def stays_try_segment)
next
  case FinWait1
  have "stays {FinWait1, FinWait2, Closing, TimeWait, Closed} s"
    using FinWait1 by (simp add: stays_def)
  then show ?thesis
    using FinWait1 by (simp add: dispatch_state_def process_fin_wait_1_def Let_def)
next
  case FinWait2
  have "stays {FinWait2, TimeWait, Closed} s"
    using FinWait2 by (simp add: stays_def)
  then show ?thesis
    using FinWait2 by (simp add: dispatch_state_def process_fin_wait_2_def Let_def)
next
  case Closing
  have "stays {Closing, TimeWait, Closed} s"
    using Closing by (simp add: stays_def)
  then show ?thesis
    using Closing by (simp add: dispatch_state_def process_closing_def Let_def)
next
  case LastAck
  have "stays {LastAck, Closed} s"
    using LastAck by (simp add: stays_def)
  then show ?thesis
    using LastAck by (simp add: dispatch_state_def process_last_ack_def Let_def case_prod_unfold)
next
  case TimeWait
  have "stays {TimeWait, Closed} s"
    using TimeWait by (simp add: stays_def)
  then show ?thesis
    using TimeWait by (simp add: dispatch_state_def process_time_wait_def Let_def case_prod_unfold)
qed (use assms in \<open>simp_all add: dispatch_state_def stays_def\<close>)

text \<open>One segment moves a session only along the edges of the TCP state graph (RFC 793, passive
  open), whatever bytes it holds and however the host socket answers: from ESTABLISHED, say,
  only to CLOSE-WAIT, FIN-WAIT-1 (the host had closed), LAST-ACK (both) or CLOSED.\<close>

theorem segment_state_graph:
  "state (snd (on_segment seg s)) \<in> seg_next (state s)"
proof -
  let ?n = "note_options (slice seg 20 (tcp_data_off seg)) (tcp_seq seg) s"
  have n: "state ?n = state s"
    by (rule keep_viewD(1)) simp
  have self: "st \<in> seg_next st" "Closed \<in> seg_next st" for st
    by (cases st; simp)+
  have d: "state (dispatch_state f q a w d ?n) \<in> seg_next (state s)" if "state s \<noteq> Closed" for f q a w d
    using stays_dispatch [of ?n f q a w d] that by (simp add: n stays_def)
  have a: "state (snd (accept_initial_syn seg ?n)) \<in> seg_next (state s)" if "state s = Closed"
    using state_accept_initial_syn [of ?n seg] that by (simp add: n)
  show ?thesis
  proof (cases "20 \<le> tcp_data_off seg \<and> tcp_data_off seg \<le> length seg")
    case False
    then show ?thesis
      using self(1) by (auto simp: on_segment_malformed)
  next
    case True
    then show ?thesis
      using on_segment_rst [of seg s] on_segment_live [of seg s] d a self
      by (cases "tcp_flags seg AND TCP_RST = 0"; cases "state s = Closed") (simp_all add: Let_def n del: seg_next.simps)
  qed
qed

text \<open>A RST with sequence number 0, far outside the window that starts at 101.\<close>

definition sample_rst :: bytes where
  "sample_rst = [0x0F, 0xA0, 1, 0xBB, 0, 0, 0, 0, 0, 0, 0, 0, 0x50, 0x04, 0, 0, 0, 0, 0, 0]"

theorem rst_validation_witness:
  "tcp_flags sample_rst AND TCP_RST \<noteq> 0 \<and> state sample_est = Established
   \<and> sans_options (snd (on_segment sample_rst sample_est)) = sans_options sample_est
   \<and> snd (on_segment sample_rst sample_est) =
      sample_est\<lparr>sacked_at_segment_start := sacked_bytes sample_est, cur_tsecr_present := False, cur_tsecr := 0\<rparr>"
proof -
  have seg: "20 \<le> tcp_data_off sample_rst" "tcp_data_off sample_rst \<le> length sample_rst"
    "tcp_flags sample_rst AND TCP_RST \<noteq> 0" "tcp_seq sample_rst = 0" "tcp_data_off sample_rst = 20"
    by (simp_all add: sample_rst_def tcp_data_off_def tcp_flags_def TCP_RST_def tcp_seq_def slice_def be32_def)
  have "rcv_wnd sample_est = 1048576"
    by (simp add: sample_est_def tcp_new_def)
  then have out: "state sample_est \<notin> {SynRcvd, Closed} \<and> tcp_seq sample_rst - rcv_nxt sample_est \<ge> rcv_wnd sample_est"
    using seg(4) sample_est_ok(4,6) by (simp add: word_le_nat_alt)
  show ?thesis
    using rst_validation [OF sample_est_ok(1) seg(1-3)] out seg(3,5) sample_est_ok(4) by blast
qed

text \<open>What an out-of-window RST does change: a SACK block in it marks a segment in flight as received.\<close>

definition sack_rst :: bytes where
  "sack_rst = [0x0F, 0xA0, 1, 0xBB, 0, 0, 0, 0, 0, 0, 0, 0, 0x80, 0x04, 0, 0, 0, 0, 0, 0, 1, 1, 5, 10, 0, 0, 0, 1, 0, 0, 0, 3]"

definition one_in_flight :: tcp_session where
  "one_in_flight = sample_est\<lparr>peer_sack_ok := True, snd_una := 1, snd_nxt := 3,
     retx := [\<lparr>g_seq = 1, g_flags = TCP_ACK, g_sent_ms = 0, g_retransmitted = False, g_sacked = False, g_data = [7, 8], g_options = []\<rparr>]\<rparr>"

lemma stray_rst_marks_sacked:
  "state one_in_flight = Established \<and> tcp_seq sack_rst - rcv_nxt one_in_flight \<ge> rcv_wnd one_in_flight
   \<and> map g_sacked (retx (snd (on_segment sack_rst one_in_flight))) = [True] \<and> sacked_bytes (snd (on_segment sack_rst one_in_flight)) = 2"
  by code_simp

section \<open>A write that returns 0\<close>

text \<open>When the host socket answers a write with \<open>Ok(0)\<close>, the drain loop breaks and then clears
  the buffer: the bytes that were still pending reach neither the socket nor the buffer.\<close>

theorem zero_write_discards:
  assumes "host s = Some sk" "host_writable s" "to_host_off s < length (to_host s)" "w_writes (io s) sk = WOk 0 # ws"
  shows "host_stream sk (try_drain_to_host s) = written sk (w_calls (io s))
     \<and> host_stream sk s = written sk (w_calls (io s)) @ drop (to_host_off s) (to_host s)
     \<and> drop (to_host_off s) (to_host s) \<noteq> [] \<and> state (try_drain_to_host s) = state s"
  using assms
  by (simp add: try_drain_to_host_def Let_def host_stream_def drained_def set_writes_def sys_def w_call_def)

theorem zero_write_discards_witness:
  "let s = sample_est\<lparr>host_writable := True, to_host := [1, 2, 3], io := sample_world\<lparr>w_writes := (\<lambda>_. [WOk 0])\<rparr>\<rparr>
   in host_stream 7 s = [1, 2, 3] \<and> host_stream 7 (try_drain_to_host s) = []"
proof -
  let ?s = "sample_est\<lparr>host_writable := True, to_host := [1, 2, 3], io := sample_world\<lparr>w_writes := (\<lambda>_. [WOk 0])\<rparr>\<rparr>"
  have "host ?s = Some 7" "host_writable ?s" "to_host_off ?s < length (to_host ?s)" "w_writes (io ?s) 7 = WOk 0 # []"
    "w_calls (io ?s) = []" "to_host_off ?s = 0" "to_host ?s = [1, 2, 3]"
    by (simp_all add: sample_est_def tcp_new_def sample_world_def)
  then show ?thesis
    using zero_write_discards [of ?s 7 "[]"] by (simp add: Let_def)
qed

section \<open>Data and FIN on a failing socket\<close>

lemma enqueue_failing:
  assumes "recv_ok s" "host s = Some sk" "host_writable s" "w_writes (io s) sk = WErr # ws" "d \<noteq> []"
  shows "state (enqueue_to_host d s) = Closed" "host (enqueue_to_host d s) = None"
proof -
  have *: "state (try_drain_to_host t) = Closed \<and> host (try_drain_to_host t) = None"
    if "recv_ok t" "host t = Some sk" "host_writable t" "w_writes (io t) sk = WErr # ws"
      "to_host_off t < length (to_host t)" for t
  proof -
    have "recv_ok (sys (SysWrite sk []) (set_writes sk ws t))"
      using that(1) by simp
    then show ?thesis
      using that by (simp add: try_drain_to_host_def reset_and_close_def mark_closed_def)
  qed
  have ok: "recv_ok (s\<lparr>to_host_off := 0, to_host := drop (to_host_off s) (to_host s) @ d\<rparr>)"
    "recv_ok (s\<lparr>to_host := to_host s @ d\<rparr>)" "to_host_off s \<le> length (to_host s)"
    using assms(1) by (auto simp: recv_ok_def)
  have d: "0 < length d" "to_host_off s < length (to_host s) + length d"
    using assms(5) ok(3) by (cases d; simp)+
  define u where "u = (if to_host_off s > 0 \<and> to_host_off s \<ge> length (to_host s) div 2
    then s\<lparr>to_host_off := 0, to_host := drop (to_host_off s) (to_host s) @ d\<rparr> else s\<lparr>to_host := to_host s @ d\<rparr>)"
  have u: "recv_ok u" "host u = Some sk" "host_writable u" "w_writes (io u) sk = WErr # ws"
    "to_host_off u < length (to_host u)"
    using assms(2-4) ok d by (simp_all add: u_def)
  have "enqueue_to_host d s = try_drain_to_host u"
    using assms(3) by (simp add: enqueue_to_host_def Let_def u_def)
  then show "state (enqueue_to_host d s) = Closed" "host (enqueue_to_host d s) = None"
    using * [OF u] by simp_all
qed

lemma seq_lt_forward:
  assumes "0 < n" "n < 2 ^ 31"
  shows "seq_lt r (r + of_nat n)"
proof (rule ccontr)
  have n: "unat (of_nat n :: u32) = n"
    by (rule unat_of_nat_u32) (use assms(2) in simp)
  then have "\<not> seq_lt (r + of_nat n) r"
    using assms(2) by (simp add: seq_lt_iff)
  moreover assume "\<not> seq_lt r (r + of_nat n)"
  ultimately have "r = r + of_nat n"
    using seq_antisym by blast
  then have "(of_nat n :: u32) = 0"
    by simp
  with n assms(1) show False
    by simp
qed

lemma host_try_segment [simp]: "host (try_segment_and_emit s) = host s"
proof -
  have "host (snd (segment_loop s)) = host s"
    by (rule segment_loop_preserves [where P = "\<lambda>t. host t = host s"]) simp_all
  moreover have "host (send_fin t) = host t" "host (snd (now_ms t)) = host t" for t
    by (simp_all add: send_fin_def now_ms_def w_now_def Let_def)
  ultimately show ?thesis
    by (simp add: try_segment_and_emit_def resume_reads_def Let_def case_prod_unfold)
qed

text \<open>A closed session comes back: when an in-order segment carries data and FIN and the write of
  that data fails, the session is reset and closed, and the FIN branch of the same call then
  moves it to CLOSE-WAIT (or LAST-ACK) without a host socket, so the dispatcher keeps it.\<close>

theorem failed_write_with_fin_revives:
  assumes inv: "tcp_inv s" "state s = Established" "ooo s = []" "host s = Some sk" "host_writable s"
      "w_writes (io s) sk = WErr # ws"
    and seg: "20 \<le> tcp_data_off seg" "tcp_data_off seg < length seg" "tcp_flags seg AND TCP_RST = 0"
      "tcp_flags seg AND TCP_FIN \<noteq> 0" "tcp_seq seg = rcv_nxt s" "length seg < 2 ^ 31"
  shows "state (snd (on_segment seg s)) \<in> {CloseWait, LastAck} \<and> host (snd (on_segment seg s)) = None"
proof -
  let ?data = "drop (tcp_data_off seg) seg"
  define a where "a = ack_if_flagged (tcp_flags seg) (tcp_ack seg)
    (note_options (slice seg 20 (tcp_data_off seg)) (tcp_seq seg) s)"
  define b where "b = a\<lparr>snd_wnd := scaled_window (tcp_window seg) a\<rparr>"
  define c where "c = data_and_ack (tcp_seq seg) ?data b"
  have t: "snd (on_segment seg s) = zwp_now (try_segment_and_emit (fin_part (tcp_flags seg) (tcp_seq seg = rcv_nxt b)
      (tcp_seq seg) ?data c))"
    using inv(2) seg by (simp add: on_segment_established process_established_fin_part Let_def a_def b_def c_def)
  have kv: "keep_view a = keep_view s"
    by (simp add: a_def ack_if_flagged_def Let_def case_prod_unfold)
  have v: "recv_view b = recv_view s"
    using keep_viewD(2) [OF kv] by (simp add: b_def recv_view_def)
  have b: "recv_ok b" "host b = Some sk" "host_writable b" "w_writes (io b) sk = WErr # ws" "rcv_nxt b = rcv_nxt s"
    "ooo b = []"
    using recv_ok_cong [OF v] inv recv_viewD(3,5,8,15) [OF v] io_viewD(3) [OF recv_viewD(1) [OF v]]
    by (simp_all add: tcp_inv_def)
  have ne: "?data \<noteq> []"
    using seg(2) by simp
  have len: "length ?data < 2 ^ 31" "0 < length ?data"
    using seg(2,6) by simp_all
  have adv: "seq_lt (rcv_nxt s) (rcv_nxt s + of_nat (length ?data))"
    by (rule seq_lt_forward [OF len(2,1)])
  have not_self: "\<not> seq_lt r r" for r
    by (simp add: seq_lt_def)
  note e = enqueue_failing [OF b(1-4) ne]
  have c: "c = emit_ack (deliver_ooo ((enqueue_to_host ?data b)\<lparr>rcv_nxt := rcv_nxt s + of_nat (length ?data)\<rparr>))"
    using ne adv seg(5) b(5) not_self by (simp add: c_def data_and_ack_def handle_data_in_def Let_def del: length_drop)
  then have c2: "host c = None" "rcv_nxt c = rcv_nxt s + of_nat (length ?data)"
    using e(2) b(6) by (simp_all add: deliver_ooo_def del: length_drop)
  let ?f = "fin_part (tcp_flags seg) (tcp_seq seg = rcv_nxt b) (tcp_seq seg) ?data c"
  have f: "state ?f = CloseWait" "host ?f = None"
    using c2 seg(4,5) b(5) by (simp_all add: fin_part_def fin_in_order_def try_drain_to_host_def Let_def del: length_drop)
  have "stays {CloseWait, LastAck} (try_segment_and_emit ?f)"
    by (rule stays_try_segment) (use f in \<open>simp_all add: stays_def\<close>)
  then have "stays {CloseWait, LastAck} (snd (on_segment seg s))"
    unfolding t by simp
  moreover have "host (snd (on_segment seg s)) = None"
    using f(2) unfolding t by (simp add: zwp_now_def now_ms_def w_now_def update_zwp_def Let_def)
  ultimately show ?thesis
    by (simp add: stays_def)
qed

text \<open>The bytes 101 to 103 with a FIN, and a session whose next write fails.\<close>

definition sample_fin :: bytes where
  "sample_fin = [0x0F, 0xA0, 1, 0xBB, 0, 0, 0, 101, 0, 0, 0, 0, 0x50, 0x11, 0xFF, 0xFF, 0, 0, 0, 0, 65, 65, 65]"

definition sample_failing :: tcp_session where
  "sample_failing = (tcp_new sample_key (sample_world\<lparr>w_writes := (\<lambda>_. [WErr])\<rparr>))\<lparr>state := Established,
     host := Some 7, host_token := Some 7, host_writable := True, rcv_nxt := 101\<rparr>"

theorem failed_write_with_fin_revives_witness:
  "tcp_inv sample_failing \<and> state (snd (on_segment sample_fin sample_failing)) \<in> {CloseWait, LastAck}
   \<and> host (snd (on_segment sample_fin sample_failing)) = None"
proof -
  have s: "tcp_inv sample_failing" "state sample_failing = Established" "ooo sample_failing = []"
    "host sample_failing = Some 7" "host_writable sample_failing" "w_writes (io sample_failing) 7 = WErr # []"
    "rcv_nxt sample_failing = 101"
    by (simp_all add: sample_failing_def tcp_new_def tcp_inv_def recv_ok_def snd_ok_def st_ok_def sample_world_def
        OWN_MSS_def)
  have seg: "20 \<le> tcp_data_off sample_fin" "tcp_data_off sample_fin < length sample_fin"
    "tcp_flags sample_fin AND TCP_RST = 0" "tcp_flags sample_fin AND TCP_FIN \<noteq> 0" "tcp_seq sample_fin = 101"
    "length sample_fin < 2 ^ 31"
    by (simp_all add: sample_fin_def tcp_data_off_def tcp_flags_def TCP_RST_def TCP_FIN_def tcp_seq_def slice_def
        be32_def)
  show ?thesis
    using failed_write_with_fin_revives [OF s(1-6) seg(1-4) _ seg(6)] s(1,7) seg(5) by simp
qed

section \<open>Too many options\<close>

lemma length_concat_blocks: "length (concat (map sack_block qs)) = 8 * length qs"
  by (induction qs) (simp_all add: sack_block_def be32_bytes_def)

lemma length_sack_ts:
  assumes "peer_sack_ok s" "4 \<le> length (ooo s)"
  shows "length (build_sack_option s @ ts_option a b) = 48"
proof -
  have "ooo s \<noteq> []"
    using assms(2) by auto
  then show ?thesis
    using assms by (simp add: build_sack_option_def Let_def length_concat_blocks ts_option_def be32_bytes_def)
qed

lemma data_off_48:
  assumes "length (tb_options b) = 48"
  shows "tcp_data_off (tcp_segment b) = 4"
proof -
  have "tcp_segment b ! 12 = 0x10"
    using assms by (simp add: tcp_segment_def with_csum_def tcp_pre_def be16_bytes_def be32_bytes_def)
  then show ?thesis
    by (simp add: tcp_data_off_def)
qed

lemma emit_pkt_sent: "w_sent (io (snd (emit_pkt p s))) = w_sent (io s) @ [p]"
  by (simp add: emit_pkt_def flow_emit_def Let_def case_prod_unfold)

text \<open>A pure ACK with timestamps: one call of the callback with the built segment.\<close>

lemma emit_pure_ack:
  assumes "peer_ts_ok s" "is_v4 (src (key s))" "wf_addr (src (key s))" "is_v4 (dst (key s))" "wf_addr (dst (key s))"
    and "length opts mod 4 = 0" "length opts \<le> 1000"
  shows "\<exists>b. tb_options b = opts @ ts_option (fst (current_tsval s)) (ts_recent s) \<and> tb_payload b = []
     \<and> tb_src b = dst (key s) \<and> tb_dst b = src (key s)
     \<and> w_sent (io (snd (emit_segment TCP_ACK q [] False opts s))) = w_sent (io s) @ [tcp_packet b]"
proof -
  let ?s1 = "snd (current_tsval s)"
  have key1: "key ?s1 = key s" "ts_recent ?s1 = ts_recent s" "w_sent (io ?s1) = w_sent (io s)"
    by (simp_all add: current_tsval_def now_ms_def w_now_def Let_def)
  define s2 where "s2 = update_adv_wnd TCP_ACK ?s1"
  have key2: "key s2 = key s" "w_sent (io s2) = w_sent (io s)"
    using key1 by (simp_all add: s2_def update_adv_wnd_def Let_def)
  define b where "b = segment_build TCP_ACK q [] (opts @ ts_option (fst (current_tsval s)) (ts_recent s)) s2"
  have b: "tb_options b = opts @ ts_option (fst (current_tsval s)) (ts_recent s)" "tb_payload b = []"
    "tb_src b = dst (key s)" "tb_dst b = src (key s)"
    by (simp_all add: b_def segment_build_def key2)
  have len: "length (ts_option x y) = 12" for x y
    by (simp add: ts_option_def be32_bytes_def)
  define out :: bytes where "out = replicate 1564 0"
  let ?n = "40 + length (tb_options b) + length (tb_payload b)"
  have mod: "length (tb_options b) mod 4 = 0" "?n \<le> 1564"
    using assms(6,7) b(1,2) len by (simp_all add: mod_add_left_eq [symmetric])
  have "tcp_ok out b"
    using assms(2-5) b mod by (simp add: tcp_ok_def out_def)
  note eq = build_tcp_eq [OF this]
  have "length (tcp_packet b) = ?n"
    using assms(3,5) b by (simp add: tcp_packet_def length_v4_octets)
  then have tk: "take ?n (tcp_packet b @ drop ?n out) = tcp_packet b"
    by simp
  have syn: "TCP_ACK AND TCP_SYN = 0"
    by (simp add: TCP_ACK_def TCP_SYN_def)
  have "snd (emit_segment TCP_ACK q [] False opts s) = snd (emit_pkt (tcp_packet b) s2)"
    unfolding emit_segment_def out_def [symmetric]
    using assms(1) by (simp add: syn key1 s2_def [symmetric] b_def [symmetric] eq tk Let_def case_prod_unfold
        del: take_append)
  then show ?thesis
    using b key2(2) by (intro exI [of _ b]) (simp add: emit_pkt_sent)
qed

text \<open>With timestamps and SACK negotiated and four or more blocks in the reassembly queue, every
  pure ACK carries 48 bytes of options; its header of 68 bytes does not fit the 4-bit data
  offset, which wraps to 4, and the receiver rejects the segment as malformed.\<close>

theorem four_sack_blocks_unparsable:
  assumes "peer_ts_ok s" "peer_sack_ok s" "4 \<le> length (ooo s)"
    and "is_v4 (src (key s))" "wf_addr (src (key s))" "is_v4 (dst (key s))" "wf_addr (dst (key s))"
  shows "\<exists>pkt p. w_sent (io (emit_ack s)) = w_sent (io s) @ [pkt] \<and> parse pkt = Some p
     \<and> tcp_data_off (l4 p) = 4 \<and> fst (on_segment (l4 p) t) = False"
proof -
  have opts: "length (build_sack_option s) = 36"
    using length_sack_ts [OF assms(2,3)] by (simp add: ts_option_def be32_bytes_def)
  have m: "length (build_sack_option s) mod 4 = 0" "length (build_sack_option s) \<le> 1000"
    unfolding opts by simp_all
  obtain b where o: "tb_options b = build_sack_option s @ ts_option (fst (current_tsval s)) (ts_recent s)"
      and b': "tb_payload b = []" "tb_src b = dst (key s)" "tb_dst b = src (key s)"
      "w_sent (io (emit_ack s)) = w_sent (io s) @ [tcp_packet b]"
    using emit_pure_ack [OF assms(1,4-7) m, of "snd_nxt s"] unfolding emit_ack_def by blast
  have "length (tb_options b) = 48"
    unfolding o by (rule length_sack_ts [OF assms(2,3)])
  note b = this b'
  have l: "length (v4_octets (tb_src b)) = 4" "length (v4_octets (tb_dst b)) = 4"
    using b assms by (simp_all add: length_v4_octets)
  have body: "20 + length (tcp_segment b) \<le> 0xffff"
    using b by simp
  obtain p where "parse (tcp_packet b) = Some p" "l4 p = tcp_segment b"
    using parse_built [OF l body, of 6] b(1,2) unfolding tcp_packet_def by auto
  then show ?thesis
    using b(5) data_off_48 [OF b(1)] by (auto simp: on_segment_def)
qed

lemma v4_from_u32_be_bytes: "v4_from_u32_be v = v4_from_bytes (be32_bytes v)"
  by (simp add: v4_from_u32_be_def v4_from_bytes_def be32_bytes_def)

theorem four_sack_blocks_unparsable_witness:
  "\<exists>pkt p. w_sent (io (emit_ack (sample_est\<lparr>peer_ts_ok := True, peer_sack_ok := True,
       ooo := map (\<lambda>k. \<lparr>q_seq = k, q_data = [65]\<rparr>) [110, 120, 130, 140]\<rparr>))) = [pkt]
     \<and> parse pkt = Some p \<and> tcp_data_off (l4 p) = 4"
proof -
  let ?s = "sample_est\<lparr>peer_ts_ok := True, peer_sack_ok := True,
    ooo := map (\<lambda>k. \<lparr>q_seq = k, q_data = [65]\<rparr>) [110, 120, 130, 140]\<rparr>"
  have k: "key ?s = sample_key" "w_sent (io ?s) = []"
    by (simp_all add: sample_est_def tcp_new_def sample_world_def)
  have "is_v4 (src (key ?s))" "wf_addr (src (key ?s))" "is_v4 (dst (key ?s))" "wf_addr (dst (key ?s))"
    unfolding k sample_key_def
    by (simp_all add: v4_from_u32_be_bytes be32_bytes_def)
  from four_sack_blocks_unparsable [OF _ _ _ this, of sample_est] k show ?thesis
    by auto
qed

end
