(* ===== verification/Udp_Session.thy ===== *)
theory Udp_Session
  imports Nat_Env Builder_Props
begin

text \<open>
  The per-flow UDP relay (\<open>nat/udp_session.rs\<close>). A session is a record with the fields of
  \<open>struct UdpSession\<close>; the emit closure, the clock, the sockets and the process-wide IP-id
  counter are in the \<open>world\<close>, which every operation takes and returns. Opening a session
  binds and connects a datagram socket towards an allowed destination; \<open>udp_send\<close> relays a
  client datagram; \<open>on_readable\<close> drains the socket and turns every answer into one IP
  packet, or into fragments when the packet would be longer than 1000 bytes.

  The lemmas at the end describe the emitted packets: the fragments of a datagram share one
  identification, carry consecutive multiples of eight bytes, and their bodies concatenate to
  the checksummed datagram.
\<close>

section \<open>The session\<close>

record udp_session =
  u_key :: flow_key
  u_host :: "sock option"
  u_token :: "sock option"
  last_active_ms :: u32
  tx_count :: u32
  rx_count :: u32
  tx_bytes :: u32
  rx_bytes :: u32

definition udp_new :: "flow_key \<Rightarrow> world \<Rightarrow> udp_session \<times> world" where
  "udp_new k w =
     (let (n, w) = w_now w
      in (\<lparr>u_key = k, u_host = None, u_token = None, last_active_ms = n,
           tx_count = 0, rx_count = 0, tx_bytes = 0, rx_bytes = 0\<rparr>, w))"

text \<open>\<open>u32::saturating_add\<close>.\<close>

definition sat_add32 :: "u32 \<Rightarrow> u32 \<Rightarrow> u32" where
  "sat_add32 a b = (if unat a + unat b < 2 ^ 32 then a + b else 0xFFFFFFFF)"

definition udp_open :: "udp_session \<Rightarrow> world \<Rightarrow> bool \<times> udp_session \<times> world" where
  "udp_open s w =
     (if \<not> is_v4 (dst (u_key s)) then (False, s, w)
      else
        let dst_ip = ipv4_from_u32 (v4_be (dst (u_key s))) in
        if is_blocked_dst (StdV4 dst_ip) then (False, s, w)
        else
          let bound = w_connect_ok w (length (w_calls w)); w = w_call SysUdpBind w in
          if \<not> bound then (False, s, w)
          else
            let sk = w_next_sock w;
                w = w\<lparr>w_next_sock := Suc sk\<rparr>;
                res = w_udp_connect w (length (w_calls w));
                w = w_call (SysUdpConnect dst_ip (dst_port (u_key s))) w;
                failed = (case res of WOk _ \<Rightarrow> False | WWouldBlock \<Rightarrow> False
                                    | WInterrupted \<Rightarrow> True | WErr \<Rightarrow> True) in
            if failed then (False, s, w)
            else
              let w = w_call (SysRegister sk Readable) w
              in (True, s\<lparr>u_host := Some sk, u_token := Some sk\<rparr>, w))"

text \<open>A datagram socket sends a datagram whole or not at all; the answer is clipped to the
  bytes that were there to send. An exhausted script answers \<open>WouldBlock\<close>.\<close>

definition next_write :: "sock \<Rightarrow> world \<Rightarrow> wr_result \<times> world" where
  "next_write sk w =
     (case w_writes w sk of
        [] \<Rightarrow> (WWouldBlock, w)
      | r # rs \<Rightarrow> (r, w\<lparr>w_writes := (w_writes w)(sk := rs)\<rparr>))"

definition udp_send :: "bytes \<Rightarrow> udp_session \<Rightarrow> world \<Rightarrow> udp_session \<times> world" where
  "udp_send payload s w =
     (case u_host s of
        None \<Rightarrow> (s, w)
      | Some sk \<Rightarrow>
          let (n, w) = w_now w;
              s = s\<lparr>last_active_ms := n\<rparr>;
              (res, w) = next_write sk w;
              w = w_call (SysWrite sk payload) w
          in case res of
               WOk n \<Rightarrow>
                 let n = min n (length payload);
                     s = s\<lparr>tx_count := sat_add32 (tx_count s) 1\<rparr>;
                     s = s\<lparr>tx_bytes := sat_add32 (tx_bytes s) (of_nat n)\<rparr>
                 in (s, w)
             | WWouldBlock \<Rightarrow> (s, w)
             | WInterrupted \<Rightarrow> (s, w)
             | WErr \<Rightarrow> (s, w))"

definition touch :: "udp_session \<Rightarrow> world \<Rightarrow> udp_session \<times> world" where
  "touch s w = (let (n, w) = w_now w in (s\<lparr>last_active_ms := n\<rparr>, w))"

definition last_ms :: "udp_session \<Rightarrow> u32" where
  "last_ms s = last_active_ms s"

section \<open>Answers to the client\<close>

definition MAX_IP_PKT :: nat where "MAX_IP_PKT = 1000"
definition MAX_FRAG_DATA :: nat where "MAX_FRAG_DATA = ((MAX_IP_PKT - 20) div 8) * 8"

text \<open>The UDP segment that is fragmented: header, payload, then the checksum stored into
  bytes 6 and 7.\<close>

definition udp_frag_segment :: "flow_key \<Rightarrow> bytes \<Rightarrow> bytes" where
  "udp_frag_segment k payload =
     (let udp_total = 8 + length payload;
          udp = replicate udp_total 0;
          udp = put_be16 udp 0 (dst_port k);
          udp = put_be16 udp 2 (src_port k);
          udp = put_be16 udp 4 (of_nat udp_total);
          udp = put_slice (put_slice udp 6 [0]) 7 [0];
          udp = (if payload \<noteq> [] then put_slice udp 8 payload else udp);
          cs = l4_checksum (dst k) (src k) (l4_u8 Udp) udp;
          cs = (if cs = 0 then 0xFFFF else cs)
      in put_be16 udp 6 cs)"

text \<open>The emit loop. The scratch buffer \<open>out\<close> is reused from one fragment to the next, as
  in the code; every fragment overwrites the bytes it sends.\<close>

lemma MAX_FRAG_DATA_eq: "MAX_FRAG_DATA = 976"
  by (simp add: MAX_FRAG_DATA_def MAX_IP_PKT_def)

function emit_frags :: "flow_key \<Rightarrow> u16 \<Rightarrow> bytes \<Rightarrow> nat \<Rightarrow> bytes \<Rightarrow> world \<Rightarrow> world" where
  "emit_frags k ip_id udp off out w =
     (let udp_total = length udp in
      if off < udp_total then
        let remaining = udp_total - off;
            last = (remaining \<le> MAX_FRAG_DATA);
            frag_data = (if last then remaining else MAX_FRAG_DATA);
            pkt_len = 20 + frag_data;
            out = write_ipv4_header_frag out (of_nat pkt_len) (l4_u8 Udp) (dst k) (src k)
                    ip_id (of_nat (off div 8)) (\<not> last);
            out = put_slice out 20 (slice udp off (off + frag_data));
            (_, w) = flow_emit (take pkt_len out) w
        in emit_frags k ip_id udp (off + frag_data) out w
      else w)"
  by pat_completeness auto
termination
  by (relation "measure (\<lambda>(k, ip_id, udp, off, out, w). length udp - off)")
     (auto simp: MAX_FRAG_DATA_eq split: if_splits)

declare emit_frags.simps [simp del]

definition build_and_emit :: "bytes \<Rightarrow> udp_session \<Rightarrow> world \<Rightarrow> world" where
  "build_and_emit payload s w =
     (let k = u_key s;
          b = \<lparr>ub_src = dst k, ub_dst = src k, ub_src_port = dst_port k, ub_dst_port = src_port k,
               ub_payload = payload\<rparr> in
      if 28 + length payload \<le> MAX_IP_PKT then
        let (n, out) = build_udp (replicate (MAX_IP_PKT + 8) 0) b in
        if n = 0 then w else snd (flow_emit (take n out) w)
      else if 28 + length payload > 0xFFFF then w
      else if \<not> is_v4 (dst k) \<or> \<not> is_v4 (src k) then w
      else
        let udp = udp_frag_segment k payload;
            ip_id = w_ip_id w;
            w = w\<lparr>w_ip_id := w_ip_id w + 1\<rparr>
        in emit_frags k ip_id udp 0 (replicate (MAX_IP_PKT + 8) 0) w)"

text \<open>The receive loop of \<open>on_readable\<close>, by recursion on the socket's remaining answers; a
  datagram longer than the 2048-byte buffer is truncated by the socket.\<close>

fun recv_loop :: "sock \<Rightarrow> rd_result list \<Rightarrow> udp_session \<Rightarrow> world \<Rightarrow> udp_session \<times> world" where
  "recv_loop sk [] s w = (s, w_call (SysRead sk) (w\<lparr>w_reads := (w_reads w)(sk := [])\<rparr>))"
| "recv_loop sk (r # rs) s w =
     (let w = w_call (SysRead sk) w in
      case r of
        ROk d \<Rightarrow>
          let buf = take 2048 d;
              (n, w) = w_now w;
              s = s\<lparr>last_active_ms := n\<rparr>;
              s = s\<lparr>rx_count := sat_add32 (rx_count s) 1\<rparr>;
              s = s\<lparr>rx_bytes := sat_add32 (rx_bytes s) (of_nat (length buf))\<rparr>;
              w = build_and_emit buf s w
          in recv_loop sk rs s w
      | RWouldBlock \<Rightarrow> (s, w\<lparr>w_reads := (w_reads w)(sk := rs)\<rparr>)
      | RInterrupted \<Rightarrow> recv_loop sk rs s w
      | RErr \<Rightarrow> (s, w\<lparr>w_reads := (w_reads w)(sk := rs)\<rparr>))"

definition on_readable :: "udp_session \<Rightarrow> world \<Rightarrow> udp_session \<times> world" where
  "on_readable s w =
     (case u_host s of None \<Rightarrow> (s, w) | Some sk \<Rightarrow> recv_loop sk (w_reads w sk) s w)"

definition udp_drop :: "udp_session \<Rightarrow> world \<Rightarrow> udp_session \<times> world" where
  "udp_drop s w =
     (case (u_host s, u_token s) of
        (Some sk, Some tok) \<Rightarrow> (s\<lparr>u_host := None, u_token := None\<rparr>, w_call (SysDeregister tok) w)
      | _ \<Rightarrow> (s\<lparr>u_host := None, u_token := None\<rparr>, w))"

definition udp_on_event :: "bool \<Rightarrow> udp_session \<Rightarrow> world \<Rightarrow> udp_session \<times> world" where
  "udp_on_event is_readable s w = (if \<not> is_readable then (s, w) else on_readable s w)"


section \<open>Frames\<close>

text \<open>The part of the world that the emit path leaves alone.\<close>

definition call_view :: "world \<Rightarrow> syscall list \<times> sock \<times> (nat \<Rightarrow> bool) \<times> u16" where
  "call_view w = (w_calls w, w_next_sock w, w_accept w, w_rwnd_scale w)"

lemma call_viewD:
  assumes "call_view w = call_view w'"
  shows "w_calls w = w_calls w'" "w_next_sock w = w_next_sock w'" "w_accept w = w_accept w'"
    "w_rwnd_scale w = w_rwnd_scale w'"
  using assms by (simp_all add: call_view_def)

lemma flow_emit_calls [simp]:
  "call_view (snd (flow_emit p w)) = call_view w" "w_sent (snd (flow_emit p w)) = w_sent w @ [p]"
  "w_ip_id (snd (flow_emit p w)) = w_ip_id w"
  by (simp_all add: flow_emit_def Let_def call_view_def)

lemma call_view_updates [simp]:
  "call_view (w\<lparr>w_ip_id := i\<rparr>) = call_view w" "call_view (w\<lparr>w_ticks := n\<rparr>) = call_view w"
  "call_view (w\<lparr>w_reads := r\<rparr>) = call_view w" "call_view (w\<lparr>w_writes := ws\<rparr>) = call_view w"
  by (simp_all add: call_view_def)

section \<open>The fragments of a datagram\<close>

text \<open>The packets the loop emits, and each of them in closed form.\<close>

definition frag_packet :: "flow_key \<Rightarrow> u16 \<Rightarrow> nat \<Rightarrow> bool \<Rightarrow> bytes \<Rightarrow> bytes" where
  "frag_packet k ip_id off mf body =
     ipv4_hdr (of_nat (20 + length body)) ip_id (frag_field (of_nat (off div 8)) mf) (l4_u8 Udp)
       (v4_octets (dst k)) (v4_octets (src k)) @ body"

text \<open>How a segment is cut: the offset, the more-fragments flag and the bytes of each piece.\<close>

function chunks :: "nat \<Rightarrow> bytes \<Rightarrow> (nat \<times> bool \<times> bytes) list" where
  "chunks off body =
     (if body = [] then []
      else (off, length body > MAX_FRAG_DATA, take MAX_FRAG_DATA body)
           # chunks (off + MAX_FRAG_DATA) (drop MAX_FRAG_DATA body))"
  by pat_completeness auto
termination
  by (relation "measure (\<lambda>(off, body). length body)") (auto simp: MAX_FRAG_DATA_eq)

declare chunks.simps [simp del]

definition frag_packets :: "flow_key \<Rightarrow> u16 \<Rightarrow> (nat \<times> bool \<times> bytes) list \<Rightarrow> bytes list" where
  "frag_packets k ip_id cs = map (\<lambda>(off, mf, body). frag_packet k ip_id off mf body) cs"

lemma emit_frags_sent:
  assumes "wf_addr (dst k)" "wf_addr (src k)" "length out = 1008" "off \<le> length udp"
  shows "w_sent (emit_frags k ip_id udp off out w) = w_sent w @ frag_packets k ip_id (chunks off (drop off udp))
    \<and> call_view (emit_frags k ip_id udp off out w) = call_view w
    \<and> w_ip_id (emit_frags k ip_id udp off out w) = w_ip_id w"
  using assms
proof (induction "length udp - off" arbitrary: off out w rule: less_induct)
  case less
  note 1 = less(1) less(2-5)
  show ?case
  proof (cases "off < length udp")
    case True
    define rem where "rem = length udp - off"
    define fd where "fd = (if rem \<le> MAX_FRAG_DATA then rem else MAX_FRAG_DATA)"
    define out1 where "out1 = put_slice (write_ipv4_header_frag out (of_nat (20 + fd)) (l4_u8 Udp) (dst k) (src k)
       ip_id (of_nat (off div 8)) (\<not> rem \<le> MAX_FRAG_DATA)) 20 (slice udp off (off + fd))"
    have fd: "fd \<le> 976" "off + fd \<le> length udp" "0 < fd"
      using True by (auto simp: fd_def rem_def MAX_FRAG_DATA_eq)
    have body: "slice udp off (off + fd) = take MAX_FRAG_DATA (drop off udp)"
      by (auto simp: slice_def fd_def rem_def)
    have lb: "length (take MAX_FRAG_DATA (drop off udp)) = fd"
      using body fd by (metis add_diff_cancel_left' length_slice min_def diff_le_mono le_add_diff_inverse2 nat_le_linear)
    have dr: "drop MAX_FRAG_DATA (drop off udp) = drop (off + fd) udp"
      by (auto simp: fd_def rem_def ac_simps)
    have o1: "out1 = frag_packet k ip_id off (length (drop off udp) > MAX_FRAG_DATA)
          (take MAX_FRAG_DATA (drop off udp)) @ drop (20 + fd) out"
      using 1(2-4) lb by (simp add: out1_def write_ipv4_header_frag_eq body put_slice_def frag_packet_def
          length_v4_octets rem_def not_le add.commute [of fd 20])
    have lp: "length (frag_packet k ip_id off mf (take MAX_FRAG_DATA (drop off udp))) = 20 + fd" for mf
      using 1(2,3) lb by (simp add: frag_packet_def length_v4_octets del: length_take)
    have len: "length out1 = 1008" and tk: "take (20 + fd) out1 = frag_packet k ip_id off
        (length (drop off udp) > MAX_FRAG_DATA) (take MAX_FRAG_DATA (drop off udp))"
      unfolding o1 using lp 1(4) fd(1) by simp_all
    have step: "emit_frags k ip_id udp off out w
        = emit_frags k ip_id udp (off + fd) out1 (snd (flow_emit (take (20 + fd) out1) w))"
      using True by (subst emit_frags.simps)
        (simp add: Let_def case_prod_unfold fd_def rem_def out1_def)
    have unfold: "frag_packets k ip_id (chunks off (drop off udp)) = take (20 + fd) out1
        # frag_packets k ip_id (chunks (off + fd) (drop (off + fd) udp))"
    proof (cases "rem \<le> MAX_FRAG_DATA")
      case True
      then have e: "drop (off + fd) udp = []" by (simp add: fd_def rem_def)
      show ?thesis using \<open>off < length udp\<close> True
        by (subst chunks.simps) (simp add: tk e chunks.simps frag_packets_def rem_def)
    next
      case False
      then have e: "MAX_FRAG_DATA = fd" by (simp add: fd_def)
      show ?thesis using \<open>off < length udp\<close>
        unfolding tk by (subst chunks.simps) (simp add: e frag_packets_def add.commute)
    qed
    have IH: "w_sent (emit_frags k ip_id udp (off + fd) out1 w1)
        = w_sent w1 @ frag_packets k ip_id (chunks (off + fd) (drop (off + fd) udp))
      \<and> call_view (emit_frags k ip_id udp (off + fd) out1 w1) = call_view w1
      \<and> w_ip_id (emit_frags k ip_id udp (off + fd) out1 w1) = w_ip_id w1" for w1
      by (rule less.hyps) (use 1(2,3) len fd True in simp_all)
    show ?thesis unfolding step unfold using IH by simp
  next
    case False
    then have "emit_frags k ip_id udp off out w = w" by (subst emit_frags.simps) (simp add: Let_def)
    then show ?thesis using False by (simp add: chunks.simps frag_packets_def)
  qed
qed


section \<open>Tilings\<close>

text \<open>A list of pieces tiles a datagram when the pieces are non-empty and adjacent, start at a
  multiple of eight, and exactly the last one has the flag cleared.\<close>

fun tiles :: "nat \<Rightarrow> (nat \<times> bool \<times> bytes) list \<Rightarrow> bytes \<Rightarrow> bool" where
  "tiles off [] body \<longleftrightarrow> body = []"
| "tiles off ((o', mf, d) # cs) body \<longleftrightarrow>
     o' = off \<and> off mod 8 = 0 \<and> d \<noteq> [] \<and> (mf \<longleftrightarrow> cs \<noteq> []) \<and> take (length d) body = d
     \<and> tiles (off + length d) cs (drop (length d) body)"

lemma chunks_Nil_iff: "chunks off body = [] \<longleftrightarrow> body = []"
  by (simp add: chunks.simps)

lemma tiles_chunks: "off mod 8 = 0 \<Longrightarrow> tiles off (chunks off body) body"
proof (induction off body rule: chunks.induct)
  case (1 off body)
  show ?case
  proof (cases "body = []")
    case False
    have "tiles (off + MAX_FRAG_DATA) (chunks (off + MAX_FRAG_DATA) (drop MAX_FRAG_DATA body)) (drop MAX_FRAG_DATA body)"
      using 1(1) [OF False] 1(2) by (simp add: MAX_FRAG_DATA_eq mod_add_eq [of off 8 976, symmetric])
    moreover have "length (take MAX_FRAG_DATA body) = MAX_FRAG_DATA" if "drop MAX_FRAG_DATA body \<noteq> []"
      using that by simp
    ultimately show ?thesis
      using False 1(2) by (subst chunks.simps) (cases "drop MAX_FRAG_DATA body = []"; 
        auto simp: chunks_Nil_iff MAX_FRAG_DATA_eq chunks.simps [of _ "[]"])
  qed (simp add: chunks.simps)
qed

lemma chunk_bound: "(o', mf, d) \<in> set (chunks off body) \<Longrightarrow> length d \<le> MAX_FRAG_DATA"
  by (induction off body rule: chunks.induct) (subst (asm) (2) chunks.simps, auto split: if_splits)

lemma tiles_concat: "tiles off cs body \<Longrightarrow> concat (map (\<lambda>(o', mf, d). d) cs) = body"
  by (induction off cs body rule: tiles.induct) (auto, metis append_take_drop_id)

lemma tiles_bounds:
  "tiles off cs body \<Longrightarrow> (o', mf, d) \<in> set cs \<Longrightarrow>
     off \<le> o' \<and> o' mod 8 = 0 \<and> d \<noteq> [] \<and> o' + length d \<le> off + length body \<and> (mf \<longleftrightarrow> o' + length d < off + length body)"
proof (induction off cs body rule: tiles.induct)
  case (2 off o1 mf1 d1 cs body)
  have len: "length d1 \<le> length body"
    using 2(2) by simp (metis length_take min.cobounded1)
  have cs: "drop (length d1) body = [] \<longleftrightarrow> cs = []"
    using 2(2) by (cases cs) auto
  show ?case
  proof (cases "(o', mf, d) = (o1, mf1, d1)")
    case True
    then show ?thesis using 2(2) len cs by auto
  next
    case False
    then show ?thesis using 2 len by auto
  qed
qed simp

text \<open>What the parser reads from one fragment.\<close>

lemma frag_field_bits:
  assumes "unat u < 8192"
  shows "frag_field u mf AND 0x1FFF = u" "(frag_field u mf AND 0x2000 \<noteq> 0) \<longleftrightarrow> mf"
proof -
  have m: "u AND 0x1FFF = u"
  proof -
    have "u AND 0x1FFF = take_bit 13 u" by (simp add: take_bit_eq_mask mask_eq_exp_minus_1)
    also have "\<dots> = u" using assms by (simp add: take_bit_eq_mod unat_mod flip: word_unat_eq_iff) (simp add: word_unat_eq_iff unat_mod)
    finally show ?thesis .
  qed
  have nb: "\<not> bit u 13" 
    by (subst m [symmetric]) (simp add: bit_simps)
  show "frag_field u mf AND 0x1FFF = u"
    by (simp add: frag_field_def m) (simp add: and.commute bit.conj_disj_distrib m)
  have two: "(0x2000 :: u16) = 2 ^ 13" by simp
  have "u AND 0x2000 = 0"
    unfolding two by (rule bit_word_eqI, unfold bit_and_iff bit_exp_iff) (use nb in auto)
  then show "(frag_field u mf AND 0x2000 \<noteq> 0) \<longleftrightarrow> mf"
    by (simp add: frag_field_def m)
qed

lemma parse_frag_packet:
  assumes "is_v4 (dst k)" "is_v4 (src k)" "wf_addr (dst k)" "wf_addr (src k)"
    and "off mod 8 = 0" "off < 65536" "20 + length body \<le> 0xffff"
  obtains p where "parse (frag_packet k ip_id off mf body) = Some p"
    and "p_proto p = l4_u8 Udp" "p_src p = dst k" "p_dst p = src k" "p_ip_id p = ip_id"
    and "l4 p = body" "l4_len p = length body" "p_more_frags p \<longleftrightarrow> mf"
    and "unat (frag_offset_bytes p) = off" "is_fragment p \<longleftrightarrow> mf \<or> off \<noteq> 0"
proof -
  have l: "length (v4_octets (dst k)) = 4" "length (v4_octets (src k)) = 4"
    using assms by (simp_all add: length_v4_octets)
  have u: "unat (of_nat (20 + length body) :: u16) = 20 + length body"
    by (rule unat_of_nat_u16) (use assms(7) in simp)
  have o8: "unat (of_nat (off div 8) :: u16) = off div 8"
    by (rule unat_of_nat_u16) (use assms(6) in simp)
  have "unat (of_nat (off div 8) :: u16) < 8192" using o8 assms(6) by simp
  note ff = frag_field_bits [OF this]
  note P = parse_hdr [OF l u, of ip_id "frag_field (of_nat (off div 8)) mf" "l4_u8 Udp" "[]",
      unfolded append_Nil2, folded frag_packet_def]
  note L = l4_parsed_hdr [OF l u, of ip_id "frag_field (of_nat (off div 8)) mf" "l4_u8 Udp" "[]",
      unfolded append_Nil2, folded frag_packet_def, OF P]
  have oo: "unat (of_nat (off div 8) * 8 :: u16) = off"
    using o8 assms(5,6) by (simp add: unat_word_ariths) (simp add: dvd_div_mult_self mod_0_imp_dvd)
  have z: "(of_nat (off div 8) :: u16) = 0 \<longleftrightarrow> off = 0"
    using o8 assms(5) by (metis div_mult_mod_eq mult_0 unat_0 of_nat_0 div_0 add_0)
  show thesis
    by (rule that [OF P])
       (use L oo ff z assms in \<open>simp_all add: v4_from_bytes_octets frag_offset_bytes_def is_fragment_def\<close>)
qed

section \<open>Answers are delivered\<close>

definition answer :: "flow_key \<Rightarrow> bytes \<Rightarrow> udp_build" where
  "answer k payload = \<lparr>ub_src = dst k, ub_dst = src k, ub_src_port = dst_port k, ub_dst_port = src_port k,
     ub_payload = payload\<rparr>"

lemma udp_frag_segment_eq: "udp_frag_segment k payload = udp_segment (answer k payload)"
proof -
  let ?b = "answer k payload" and ?n = "8 + length payload"
  let ?t = "replicate ?n 0 :: bytes"
  have opt: "(if xs \<noteq> [] then put_slice udp k xs else udp) = put_slice udp k xs" for udp k and xs :: bytes
    by simp
  have fuse: "put_slice (put_slice (put_slice (put_be16 (put_be16 (put_be16 ?t 0 (dst_port k))
      2 (src_port k)) 4 (of_nat ?n)) 6 [0]) 7 [0]) 8 payload = with_csum (udp_pre ?b) 0 payload"
    by (simp add: put_be16_slice put_slice_adjacent udp_pre_def with_csum_def answer_def)
       (simp add: put_slice_def)
  have seg: "put_be16 (with_csum (udp_pre ?b) 0 payload) 6 cs = with_csum (udp_pre ?b) cs payload" for cs
    by (rule put_with_csum) simp
  show ?thesis
    unfolding udp_frag_segment_def Let_def opt fuse seg l4_u8.simps udp_segment_def norm_zero_def [symmetric]
    by (simp add: answer_def)
qed

definition v4_flow :: "flow_key \<Rightarrow> bool" where
  "v4_flow k \<longleftrightarrow> is_v4 (src k) \<and> is_v4 (dst k) \<and> wf_addr (src k) \<and> wf_addr (dst k)"

text \<open>The packets of an answer, in closed form.\<close>

definition answer_packets :: "flow_key \<Rightarrow> u16 \<Rightarrow> bytes \<Rightarrow> bytes list" where
  "answer_packets k ip_id payload =
     (if 28 + length payload \<le> MAX_IP_PKT then [udp_packet (answer k payload)]
      else frag_packets k ip_id (chunks 0 (udp_segment (answer k payload))))"

lemma build_and_emit_sent:
  assumes "v4_flow (u_key s)" "28 + length payload \<le> 0xffff"
  shows "w_sent (build_and_emit payload s w) = w_sent w @ answer_packets (u_key s) (w_ip_id w) payload"
    and "w_ip_id (build_and_emit payload s w)
      = (if 28 + length payload \<le> MAX_IP_PKT then w_ip_id w else w_ip_id w + 1)"
proof -
  let ?k = "u_key s"
  define out where "out = (replicate (MAX_IP_PKT + 8) 0 :: bytes)"
  have lo: "length out = 1008" by (simp add: out_def MAX_IP_PKT_def)
  have E: "w_sent (emit_frags ?k i (udp_frag_segment ?k payload) 0 out w') = w_sent w' @
        frag_packets ?k i (chunks 0 (udp_segment (answer ?k payload)))
      \<and> w_ip_id (emit_frags ?k i (udp_frag_segment ?k payload) 0 out w') = w_ip_id w'" for i w'
    using emit_frags_sent [of ?k out 0 "udp_frag_segment ?k payload" i w'] assms(1) lo
    by (simp add: v4_flow_def udp_frag_segment_eq)
  show "w_sent (build_and_emit payload s w) = w_sent w @ answer_packets ?k (w_ip_id w) payload"
    "w_ip_id (build_and_emit payload s w) = (if 28 + length payload \<le> MAX_IP_PKT then w_ip_id w else w_ip_id w + 1)"
  proof (atomize (full), cases "28 + length payload \<le> MAX_IP_PKT")
    case True
    have ok: "udp_ok out (answer ?k payload)"
      using assms True by (simp add: udp_ok_def v4_flow_def answer_def lo MAX_IP_PKT_def)
    have tk: "take (28 + length payload) (udp_packet (answer ?k payload) @ r) = udp_packet (answer ?k payload)" for r
      using assms(1) by (simp add: udp_packet_def v4_flow_def length_v4_octets answer_def)
    have b: "build_udp out (answer ?k payload) = (28 + length payload,
        udp_packet (answer ?k payload) @ drop (28 + length payload) out)"
      using build_udp_eq [OF ok] by (simp add: answer_def)
    show "w_sent (build_and_emit payload s w) = w_sent w @ answer_packets ?k (w_ip_id w) payload
      \<and> w_ip_id (build_and_emit payload s w) = (if 28 + length payload \<le> MAX_IP_PKT then w_ip_id w else w_ip_id w + 1)"
      unfolding build_and_emit_def Let_def answer_packets_def answer_def [symmetric] out_def [symmetric]
      using True b tk by simp
  next
    case False
    then show "w_sent (build_and_emit payload s w) = w_sent w @ answer_packets ?k (w_ip_id w) payload
      \<and> w_ip_id (build_and_emit payload s w) = (if 28 + length payload \<le> MAX_IP_PKT then w_ip_id w else w_ip_id w + 1)"
      unfolding build_and_emit_def Let_def answer_packets_def out_def [symmetric]
      using assms E by (simp add: v4_flow_def)
  qed
qed

lemma call_view_emit_frags [simp]: "call_view (emit_frags k ip_id udp off out w) = call_view w"
proof (induction "length udp - off" arbitrary: off out w rule: less_induct)
  case less
  show ?case
    by (subst emit_frags.simps) (simp add: Let_def case_prod_unfold less MAX_FRAG_DATA_eq)
qed

lemma call_view_build_and_emit [simp]: "call_view (build_and_emit payload s w) = call_view w"
  by (simp add: build_and_emit_def Let_def case_prod_unfold)


section \<open>The client sees the datagram\<close>

text \<open>A parsed packet that carries one piece of a datagram of flow \<open>k\<close> towards the client.\<close>

definition frag_of :: "flow_key \<Rightarrow> u16 \<Rightarrow> nat \<times> bool \<times> bytes \<Rightarrow> ip_packet \<Rightarrow> bool" where
  "frag_of k ip_id c p \<longleftrightarrow> (case c of (off, mf, d) \<Rightarrow>
     p_proto p = l4_u8 Udp \<and> p_src p = dst k \<and> p_dst p = src k \<and> p_ip_id p = ip_id
     \<and> l4 p = d \<and> l4_len p = length d \<and> (p_more_frags p \<longleftrightarrow> mf)
     \<and> unat (frag_offset_bytes p) = off \<and> (is_fragment p \<longleftrightarrow> mf \<or> off \<noteq> 0))"

lemma frag_of_parse:
  assumes "v4_flow k" "off mod 8 = 0" "off < 65536" "20 + length d \<le> 0xffff"
  shows "\<exists>p. parse (frag_packet k ip_id off mf d) = Some p \<and> frag_of k ip_id (off, mf, d) p"
  using assms by (auto simp: v4_flow_def frag_of_def intro: parse_frag_packet [of k off d ip_id mf])

lemma frag_packets_parse:
  assumes "v4_flow k" "\<forall>(off, mf, d) \<in> set cs. off mod 8 = 0 \<and> off < 65536 \<and> 20 + length d \<le> 0xffff"
  shows "\<exists>ps. map parse (frag_packets k ip_id cs) = map Some ps \<and> list_all2 (frag_of k ip_id) cs ps"
  using assms(2)
proof (induction cs)
  case (Cons c cs)
  obtain off mf d where c: "c = (off, mf, d)" by (cases c)
  from Cons obtain ps where ps: "map parse (frag_packets k ip_id cs) = map Some ps"
    "list_all2 (frag_of k ip_id) cs ps" by auto
  have "\<exists>p. parse (frag_packet k ip_id off mf d) = Some p \<and> frag_of k ip_id (off, mf, d) p"
    by (rule frag_of_parse [OF assms(1)]) (use Cons.prems c in auto)
  then obtain p where "parse (frag_packet k ip_id off mf d) = Some p" "frag_of k ip_id c p"
    using c by auto
  with ps c show ?case by (intro exI [of _ "p # ps"]) (simp add: frag_packets_def)
qed (simp add: frag_packets_def)

lemma tiles_nth:
  "tiles off cs body \<Longrightarrow> i < length cs \<Longrightarrow>
     fst (cs ! i) = off + length (concat (map (\<lambda>(o', mf, d). d) (take i cs)))
     \<and> (fst (snd (cs ! i)) \<longleftrightarrow> Suc i < length cs)"
proof (induction off cs body arbitrary: i rule: tiles.induct)
  case (2 off o1 mf1 d1 cs body)
  then show ?case by (cases i) auto
qed simp

lemma frag_of_l4: "list_all2 (frag_of k ip_id) cs ps \<Longrightarrow> map l4 ps = map (\<lambda>(o', mf, d). d) cs"
  by (induction rule: list_all2_induct) (auto simp: frag_of_def)

lemma frag_of_at:
  assumes "list_all2 (frag_of k ip_id) cs ps" "tiles 0 cs body" "i < length ps"
  shows "p_src (ps ! i) = dst k \<and> p_dst (ps ! i) = src k \<and> p_proto (ps ! i) = l4_u8 Udp
    \<and> p_ip_id (ps ! i) = ip_id
    \<and> unat (frag_offset_bytes (ps ! i)) = length (concat (map l4 (take i ps)))
    \<and> (p_more_frags (ps ! i) \<longleftrightarrow> Suc i < length ps)"
proof -
  have i: "i < length cs" and len: "length cs = length ps"
    using assms list_all2_lengthD by metis+
  have "frag_of k ip_id (cs ! i) (ps ! i)" using list_all2_nthD [OF assms(1) i] .
  moreover have "map l4 (take i ps) = map (\<lambda>(o', mf, d). d) (take i cs)"
    using frag_of_l4 [OF assms(1)] by (metis take_map)
  ultimately show ?thesis
    using tiles_nth [OF assms(2) i] len by (auto simp: frag_of_def split: prod.splits)
qed

lemma udp_segment_verifies:
  assumes "is_v4 (ub_src b)" "8 + length (ub_payload b) \<le> 0xffff" "wf_addr (ub_src b)" "wf_addr (ub_dst b)"
  shows "l4_checksum (ub_src b) (ub_dst b) 17 (udp_segment b) = 0"
  unfolding udp_segment_def
  by (rule udp.stored_checksum_verifies [OF assms(1)])
     (use assms udp.checksum_rep [OF assms(1), of b "ub_dst b"] in \<open>simp_all add: csum_rep_norm\<close>)

text \<open>C29. Whatever a host sends back on a UDP flow reaches the client: the packets the session
  emits for an answer are all accepted by the IP parser, go from the destination to the client,
  are at most 1000 bytes long, and their bodies, which sit at consecutive offsets with the
  more-fragments flag on all but the last, concatenate to one UDP segment with the flow's ports,
  exactly the answer as payload and a checksum that verifies. Fragments carry the next value of
  the process-wide identification counter.\<close>

theorem udp_answer_delivered:
  assumes "v4_flow (u_key s)" "28 + length payload \<le> 0xffff"
  shows "\<exists>pkts ps seg. w_sent (build_and_emit payload s w) = w_sent w @ pkts
    \<and> map parse pkts = map Some ps \<and> (\<forall>q \<in> set pkts. length q \<le> 1000)
    \<and> concat (map l4 ps) = seg
    \<and> udp_src_port seg = dst_port (u_key s) \<and> udp_dst_port seg = src_port (u_key s)
    \<and> udp_payload seg = payload
    \<and> l4_checksum (dst (u_key s)) (src (u_key s)) (l4_u8 Udp) seg = 0
    \<and> (\<forall>i < length ps. p_src (ps ! i) = dst (u_key s) \<and> p_dst (ps ! i) = src (u_key s)
         \<and> p_proto (ps ! i) = l4_u8 Udp
         \<and> unat (frag_offset_bytes (ps ! i)) = length (concat (map l4 (take i ps)))
         \<and> (p_more_frags (ps ! i) \<longleftrightarrow> Suc i < length ps)
         \<and> (1 < length ps \<longrightarrow> p_ip_id (ps ! i) = w_ip_id w))"
proof -
  let ?k = "u_key s" and ?b = "answer (u_key s) payload"
  let ?seg = "udp_segment ?b"
  have v4: "is_v4 (ub_src ?b)" "is_v4 (ub_dst ?b)" "wf_addr (ub_src ?b)" "wf_addr (ub_dst ?b)"
    and l: "length (v4_octets (dst ?k)) = 4" "length (v4_octets (src ?k)) = 4"
    using assms by (simp_all add: v4_flow_def answer_def length_v4_octets)
  have len: "8 + length (ub_payload ?b) \<le> 0xffff" using assms(2) by (simp add: answer_def)
  have cs: "l4_checksum (dst ?k) (src ?k) (l4_u8 Udp) ?seg = 0"
    using udp_segment_verifies [of ?b] v4 assms(2) by (simp add: answer_def)
  note v = udp_pre_views [OF len, of "norm_zero (l4_checksum (ub_src ?b) (ub_dst ?b) 17
      (with_csum (udp_pre ?b) 0 (ub_payload ?b)))", folded udp_segment_def]
  have views: "udp_src_port ?seg = dst_port ?k" "udp_dst_port ?seg = src_port ?k" "udp_payload ?seg = payload"
    using v by (simp_all add: answer_def)
  show ?thesis
  proof (cases "28 + length payload \<le> MAX_IP_PKT")
    case True
    have body: "20 + length ?seg \<le> 0xffff" using assms(2) by (simp add: answer_def)
    obtain p where p: "parse (udp_packet ?b) = Some p" "\<not> is_fragment p" "p_proto p = 17"
      "p_src p = v4_from_bytes (v4_octets (dst ?k))" "p_dst p = v4_from_bytes (v4_octets (src ?k))" "l4 p = ?seg"
      using parse_built [OF l body, of 17] by (auto simp: udp_packet_def answer_def)
    have "length (udp_packet ?b) \<le> 1000"
      using True l by (simp add: udp_packet_def answer_def MAX_IP_PKT_def)
    with p cs views assms build_and_emit_sent(1) [OF assms, of w] True show ?thesis
      by (intro exI [of _ "[udp_packet ?b]"] exI [of _ "[p]"] exI [of _ ?seg])
         (simp add: answer_packets_def v4_from_bytes_octets v4_flow_def is_fragment_def frag_offset_bytes_def)
  next
    case False
    let ?cs = "chunks 0 ?seg"
    have t: "tiles 0 ?cs ?seg" by (rule tiles_chunks) simp
    have small: "length q \<le> 1000" if "q \<in> set (frag_packets ?k i ?cs)" for q i
      using that l by (auto simp: frag_packets_def frag_packet_def MAX_FRAG_DATA_eq dest!: chunk_bound)
    have "\<forall>(off, mf, d) \<in> set ?cs. off mod 8 = 0 \<and> off < 65536 \<and> 20 + length d \<le> 0xffff"
      using tiles_bounds [OF t] chunk_bound assms(2) by (fastforce simp: answer_def MAX_FRAG_DATA_eq)
    from frag_packets_parse [OF assms(1) this] obtain ps where
      ps: "map parse (frag_packets ?k (w_ip_id w) ?cs) = map Some ps" "list_all2 (frag_of ?k (w_ip_id w)) ?cs ps"
      by blast
    have cat: "concat (map l4 ps) = ?seg" using frag_of_l4 [OF ps(2)] tiles_concat [OF t] by simp
    show ?thesis
      by (intro exI [of _ "frag_packets ?k (w_ip_id w) ?cs"] exI [of _ ps] exI [of _ ?seg])
         (use False ps(1) small cat cs views frag_of_at [OF ps(2) t] build_and_emit_sent(1) [OF assms, of w]
           in \<open>simp add: answer_packets_def\<close>)
  qed
qed


definition sample_dns :: udp_session where
  "sample_dns = \<lparr>u_key = \<lparr>src = v4_from_bytes [10, 8, 0, 2], dst = v4_from_bytes [1, 1, 1, 1],
       src_port = 4000, dst_port = 53, proto = Udp\<rparr>,
     u_host = Some 7, u_token = Some 7, last_active_ms = 1000,
     tx_count = 1, rx_count = 0, tx_bytes = 40, rx_bytes = 0\<rparr>"

lemma v4_flow_sample_dns: "v4_flow (u_key sample_dns)"
  by (simp add: v4_flow_def sample_dns_def)

theorem udp_answer_delivered_witness:
  "\<exists>pkts ps. w_sent (build_and_emit (replicate 2000 7) sample_dns sample_world) = pkts
    \<and> map parse pkts = map Some ps \<and> udp_payload (concat (map l4 ps)) = replicate 2000 7"
proof -
  have "28 + length (replicate 2000 (7 :: u8)) \<le> 0xffff" by simp
  from udp_answer_delivered [OF v4_flow_sample_dns this, of sample_world] show ?thesis
    by (auto simp: sample_world_def)
qed

section \<open>Invariant of a session\<close>

definition udp_inv :: "flow_key \<Rightarrow> udp_session \<Rightarrow> bool" where
  "udp_inv k s \<longleftrightarrow> u_key s = k \<and> u_token s = u_host s \<and> u_host s \<noteq> None"

lemma dials_allowed_call [simp]:
  "w_calls (w_call c w) = w_calls w @ [c]" by (simp add: w_call_def)

lemma udp_open_ok:
  assumes "udp_open (fst (udp_new k w)) (snd (udp_new k w)) = (ok, s', w')" "dials_allowed (w_calls w)"
  shows "dials_allowed (w_calls w')" "w_sent w' = w_sent w" "w_rwnd_scale w' = w_rwnd_scale w" "ok \<Longrightarrow> udp_inv k s'"
  using assms
  by (auto simp: udp_open_def udp_new_def w_now_def Let_def udp_inv_def w_call_def
      split: if_splits wr_result.splits)

lemma next_write_frame [simp]: "call_view (snd (next_write sk w)) = call_view w" "w_sent (snd (next_write sk w)) = w_sent w"
  by (simp_all add: next_write_def split: list.split)

lemma udp_send_ok:
  "udp_inv k s \<Longrightarrow> udp_inv k (fst (udp_send d s w))"
  "dials_allowed (w_calls w) \<Longrightarrow> dials_allowed (w_calls (snd (udp_send d s w)))"
  "w_sent (snd (udp_send d s w)) = w_sent w"
  "w_rwnd_scale (snd (udp_send d s w)) = w_rwnd_scale w"
  using call_viewD(1,4) [OF next_write_frame(1), of _ "w\<lparr>w_ticks := Suc (w_ticks w)\<rparr>"]
  by (simp_all add: udp_send_def udp_inv_def Let_def case_prod_unfold w_call_def split: option.split wr_result.split)

lemma recv_loop_ok:
  "udp_inv k s \<Longrightarrow> udp_inv k (fst (recv_loop sk rs s w))
   \<and> (dials_allowed (w_calls w) \<longrightarrow> dials_allowed (w_calls (snd (recv_loop sk rs s w))))
   \<and> w_rwnd_scale (snd (recv_loop sk rs s w)) = w_rwnd_scale w"
proof (induction rs arbitrary: s w)
  case (Cons r rs)
  show ?case
  proof (cases r)
    case (ROk d)
    define w1 where "w1 = (w_call (SysRead sk) w)\<lparr>w_ticks := Suc (w_ticks w)\<rparr>"
    define s1 where "s1 = s\<lparr>last_active_ms := w_clock w (w_ticks w), rx_count := sat_add32 (rx_count s) 1,
      rx_bytes := sat_add32 (rx_bytes s) (of_nat (length (take 2048 d)))\<rparr>"
    have e: "recv_loop sk (r # rs) s w = recv_loop sk rs s1 (build_and_emit (take 2048 d) s1 w1)"
      by (simp add: ROk Let_def s1_def w1_def w_now_def) (simp add: w_call_def)
    have i: "udp_inv k s1" using Cons.prems by (simp add: s1_def udp_inv_def)
    have c: "w_calls (build_and_emit (take 2048 d) s1 w1) = w_calls w @ [SysRead sk]"
      "w_rwnd_scale (build_and_emit (take 2048 d) s1 w1) = w_rwnd_scale w"
      using call_viewD(1,4) [OF call_view_build_and_emit, of "take 2048 d" s1 w1] by (simp_all add: w1_def w_call_def)
    show ?thesis unfolding e using Cons.IH [OF i, of "build_and_emit (take 2048 d) s1 w1"] c by simp
  next
    case RInterrupted
    then show ?thesis using Cons.IH [OF Cons.prems, of "w_call (SysRead sk) w"] by (simp add: Let_def w_call_def)
  qed (use Cons.prems in \<open>simp_all add: w_call_def Let_def\<close>)
qed (simp add: w_call_def)

lemma udp_on_event_ok:
  "udp_inv k s \<Longrightarrow> udp_inv k (fst (udp_on_event ev s w))"
  "udp_inv k s \<Longrightarrow> dials_allowed (w_calls w) \<Longrightarrow> dials_allowed (w_calls (snd (udp_on_event ev s w)))"
  "udp_inv k s \<Longrightarrow> w_rwnd_scale (snd (udp_on_event ev s w)) = w_rwnd_scale w"
  using recv_loop_ok [of k s] by (auto simp: udp_on_event_def on_readable_def split: option.split)

lemma udp_drop_ok:
  "dials_allowed (w_calls w) \<Longrightarrow> dials_allowed (w_calls (snd (udp_drop s w)))"
  "w_rwnd_scale (snd (udp_drop s w)) = w_rwnd_scale w"
  by (simp_all add: udp_drop_def w_call_def split: option.split)

end
