(* ===== verification/Flow_Table.thy ===== *)
theory Flow_Table
  imports Prelude "HOL-Library.AList"
begin

text \<open>
  The keyed tables of the dispatcher. The code keeps its flows and its fragment streams in
  \<open>std::collections::HashMap\<close>s; what it relies on is the interface \<open>keyed_table\<close> below,
  which says how \<open>get\<close>, \<open>insert\<close>, \<open>remove\<close> and \<open>len\<close> interact. The model's tables are
  association lists, whose order stands for the map's iteration order: the order is free in
  every state, and \<open>insert\<close> of a fresh key puts it last.
\<close>

type_synonym ('k, 'v) table = "('k \<times> 'v) list"

definition t_get :: "('k, 'v) table \<Rightarrow> 'k \<Rightarrow> 'v option" where
  "t_get t k = map_of t k"

definition t_put :: "'k \<Rightarrow> 'v \<Rightarrow> ('k, 'v) table \<Rightarrow> ('k, 'v) table" where
  "t_put k v t = AList.update k v t"

definition t_del :: "'k \<Rightarrow> ('k, 'v) table \<Rightarrow> ('k, 'v) table" where
  "t_del k t = AList.delete k t"

definition t_ok :: "('k, 'v) table \<Rightarrow> bool" where
  "t_ok t \<longleftrightarrow> distinct (map fst t)"

section \<open>The interface\<close>

locale keyed_table =
  fixes ok :: "'t \<Rightarrow> bool"
    and get :: "'t \<Rightarrow> 'k \<Rightarrow> 'v option"
    and put :: "'k \<Rightarrow> 'v \<Rightarrow> 't \<Rightarrow> 't"
    and del :: "'k \<Rightarrow> 't \<Rightarrow> 't"
    and size :: "'t \<Rightarrow> nat"
  assumes ok_put: "ok t \<Longrightarrow> ok (put k v t)"
    and ok_del: "ok t \<Longrightarrow> ok (del k t)"
    and get_put: "get (put k v t) j = (if j = k then Some v else get t j)"
    and get_del: "get (del k t) j = (if j = k then None else get t j)"
    and size_put: "size (put k v t) = (if get t k = None then Suc (size t) else size t)"
    and size_del: "ok t \<Longrightarrow> size (del k t) = (if get t k = None then size t else size t - 1)"
    and size_pos: "get t k \<noteq> None \<Longrightarrow> 0 < size t"
begin

definition all :: "('k \<Rightarrow> 'v \<Rightarrow> bool) \<Rightarrow> 't \<Rightarrow> bool" where
  "all P t \<longleftrightarrow> (\<forall>k v. get t k = Some v \<longrightarrow> P k v)"

lemma all_put: "all P t \<Longrightarrow> P k v \<Longrightarrow> all P (put k v t)"
  by (simp add: all_def get_put)

lemma all_del: "all P t \<Longrightarrow> all P (del k t)"
  by (simp add: all_def get_del)

lemma all_get: "all P t \<Longrightarrow> get t k = Some v \<Longrightarrow> P k v"
  by (simp add: all_def)

lemma size_put_le: "size t < n \<Longrightarrow> size (put k v t) \<le> n"
  by (simp add: size_put)

text \<open>Evicting a present key makes room for one more.\<close>

lemma evict_put_le:
  assumes "ok t" "size t \<le> n" "get t e \<noteq> None"
  shows "size (put k v (del e t)) \<le> n"
  using assms size_pos [of t e] by (auto simp: size_put size_del)

end

interpretation tbl: keyed_table t_ok t_get t_put t_del length
proof
  fix t :: "('k, 'v) table" and k j :: 'k and v :: 'v
  show "t_ok t \<Longrightarrow> t_ok (t_put k v t)" by (simp add: t_ok_def t_put_def distinct_update)
  show "t_ok t \<Longrightarrow> t_ok (t_del k t)" by (simp add: t_ok_def t_del_def distinct_delete)
  show "t_get (t_put k v t) j = (if j = k then Some v else t_get t j)"
    by (simp add: t_get_def t_put_def update_conv')
  show "t_get (t_del k t) j = (if j = k then None else t_get t j)"
    by (simp add: t_get_def t_del_def delete_conv')
  show "length (t_put k v t) = (if t_get t k = None then Suc (length t) else length t)"
    by (induction t) (auto simp: t_get_def t_put_def split: if_splits)
  show "t_ok t \<Longrightarrow> length (t_del k t) = (if t_get t k = None then length t else length t - 1)"
  proof (induction t)
    case (Cons a t)
    have "AList.delete k t = t" if "k \<notin> fst ` set t" using that by (rule delete_id)
    then show ?case using Cons
      by (cases t) (auto simp: t_ok_def t_get_def t_del_def map_of_eq_None_iff)
  qed (simp add: t_get_def t_del_def)
  show "t_get t k \<noteq> None \<Longrightarrow> 0 < length t" by (cases t) (simp_all add: t_get_def)
qed

lemma all_entries: "t_ok t \<Longrightarrow> tbl.all P t \<longleftrightarrow> (\<forall>(k, v) \<in> set t. P k v)"
  unfolding tbl.all_def t_get_def t_ok_def by (auto simp: map_of_eq_Some_iff)

lemma put_del_fresh: "t_get t k = None \<Longrightarrow> t_del k (t_put k v t) = t"
  by (induction t) (auto simp: t_get_def t_put_def t_del_def delete_id split: if_splits)

lemma put_fresh: "t_get t k = None \<Longrightarrow> t_put k v t = t @ [(k, v)]"
  by (induction t) (auto simp: t_get_def t_put_def split: if_splits)

lemma put_again: "t_put k v (t_put k u t) = t_put k v t"
  by (induction t) (auto simp: t_put_def)

lemma ok_filter: "t_ok t \<Longrightarrow> t_ok (filter P t)"
  by (simp add: t_ok_def distinct_map_filter)

end
