(* ===== verification/Nat_Dispatcher.thy ===== *)
theory Nat_Dispatcher
  imports Tcp_Reach Udp_Session Flow_Table
begin

text \<open>
  The NAT dispatcher of a connected client (\<open>nat/dispatcher.rs\<close>) and the registry that sweeps
  every dispatcher (\<open>nat/sweep.rs\<close>). The dispatcher parses what the client sends, reassembles
  IP fragments, routes each packet to the session of its flow, and on every sweep recomputes the
  shared receive-window scale, drops idle UDP flows, ticks the TCP sessions and expires fragment
  streams.

  The fields are those of \<open>struct NatDispatcher\<close>; the outbound callback, its counters and
  the shared window scale live in the \<open>world\<close>, which the dispatcher lends to a session for the
  duration of a call. The pressure sampler is an oracle, indexed by the number of samples taken.
\<close>

section \<open>Data\<close>

definition GLOBAL_RWND_LO :: u16 where "GLOBAL_RWND_LO = 500"
definition GLOBAL_RWND_HI :: u16 where "GLOBAL_RWND_HI = 900"
definition RWND_GREW_THRESHOLD :: u16 where "RWND_GREW_THRESHOLD = 100"
definition MAX_FRAG_STREAMS :: nat where "MAX_FRAG_STREAMS = 64"
definition MAX_FRAG_BYTES_PER_STREAM :: nat where "MAX_FRAG_BYTES_PER_STREAM = 65535"
definition FRAG_EXPIRY_MS :: u32 where "FRAG_EXPIRY_MS = 30000"

record flow_stats_rec =
  tcp_flows :: u32
  udp_flows :: u32
  tcp_state_counts :: "u32 list"
  srtt_min_ms :: u32
  srtt_med_ms :: u32
  srtt_max_ms :: u32
  rttvar_med_ms :: u32
  rto_med_ms :: u32
  flight_total_bytes :: u64
  rto_retx_total :: u64

definition stats_default :: flow_stats_rec where
  "stats_default = \<lparr>tcp_flows = 0, udp_flows = 0, tcp_state_counts = replicate 11 0,
     srtt_min_ms = 0, srtt_med_ms = 0, srtt_max_ms = 0, rttvar_med_ms = 0, rto_med_ms = 0,
     flight_total_bytes = 0, rto_retx_total = 0\<rparr>"

record frag_key =
  fk_src :: ip_addr
  fk_dst :: ip_addr
  fk_proto :: u8
  fk_ip_id :: u16

record frag_part =
  fp_off :: u16
  fp_len :: u16
  fp_data :: bytes

record frag_entry =
  fe_parts :: "frag_part list"
  fe_proto :: u8
  fe_src :: ip_addr
  fe_dst :: ip_addr
  fe_total_len :: int
  fe_accumulated :: nat
  fe_arrived_ms :: u32

record nat_dispatcher =
  d_sid :: u64
  d_io :: world
  d_udp :: "(flow_key, udp_session) table"
  d_tcp :: "(flow_key, tcp_session) table"
  d_frag :: "(frag_key, frag_entry) table"
  d_rx_pkts :: u64
  d_rx_bytes :: u64
  last_stats_log_ms :: u32
  registered_for_sweep :: bool
  pressure_fn :: "(nat \<Rightarrow> u16) option"
  d_samples :: nat
  last_rwnd_scale :: u16
  flow_stats_snapshot :: flow_stats_rec

definition nat_new :: "u64 \<Rightarrow> world \<Rightarrow> nat_dispatcher" where
  "nat_new s w = \<lparr>d_sid = s,
     d_io = w\<lparr>w_tx_pkts := 0, w_tx_bytes := 0, w_udp_tx_pkts := 0, w_rwnd_scale := GLOBAL_RWND_SCALE_FULL\<rparr>,
     d_udp = [], d_tcp = [], d_frag = [], d_rx_pkts = 0, d_rx_bytes = 0,
     last_stats_log_ms = 0, registered_for_sweep = False,
     pressure_fn = None, d_samples = 0, last_rwnd_scale = GLOBAL_RWND_SCALE_FULL,
     flow_stats_snapshot = stats_default\<rparr>"

definition set_pressure_fn :: "(nat \<Rightarrow> u16) option \<Rightarrow> nat_dispatcher \<Rightarrow> nat_dispatcher" where
  "set_pressure_fn f d = d\<lparr>pressure_fn := f\<rparr>"

section \<open>Flows\<close>

text \<open>A new UDP session is opened before it enters the table; when that fails it is dropped,
  with no socket to deregister.\<close>

definition handle_udp :: "flow_key \<Rightarrow> bytes \<Rightarrow> nat_dispatcher \<Rightarrow> bool \<times> nat_dispatcher" where
  "handle_udp k payload d =
     (let (found, d) = (case t_get (d_udp d) k of
           Some s \<Rightarrow> (Some s, d)
         | None \<Rightarrow>
             let (s, w) = udp_new k (d_io d); (opened, s, w) = udp_open s w in
             if \<not> opened then (None, d\<lparr>d_io := w\<rparr>)
             else (Some s, d\<lparr>d_io := w, d_udp := t_put k s (d_udp d)\<rparr>))
      in case found of
           None \<Rightarrow> (False, d)
         | Some s \<Rightarrow>
             let (s, w) = udp_send payload s (d_io d)
             in (True, d\<lparr>d_io := w, d_udp := t_put k s (d_udp d)\<rparr>))"

text \<open>A session that ends closed leaves the table at once, and its \<open>Drop\<close> runs.\<close>

definition handle_tcp :: "flow_key \<Rightarrow> bytes \<Rightarrow> nat_dispatcher \<Rightarrow> bool \<times> nat_dispatcher" where
  "handle_tcp k seg d =
     (if length seg < 20 then (False, d)
      else if t_get (d_tcp d) k = None \<and> (tcp_flags seg AND TCP_SYN = 0 \<or> tcp_flags seg AND TCP_ACK \<noteq> 0)
      then (True, d)
      else
        let s = (case t_get (d_tcp d) k of Some s \<Rightarrow> s\<lparr>io := d_io d\<rparr> | None \<Rightarrow> tcp_new k (d_io d));
            (ok, s) = on_segment seg s
        in if is_terminal s
           then (ok, d\<lparr>d_io := io (drop_session s), d_tcp := t_del k (d_tcp d)\<rparr>)
           else (ok, d\<lparr>d_io := io s, d_tcp := t_put k s (d_tcp d)\<rparr>))"

text \<open>The tail that \<open>process\<close> and \<open>handle_fragment\<close> share: hand the transport part of an
  unfragmented packet to its flow.\<close>

definition route_l4 :: "ip_packet \<Rightarrow> nat_dispatcher \<Rightarrow> bool \<times> nat_dispatcher" where
  "route_l4 pkt d =
     (if p_proto pkt = l4_u8 Udp then
        if l4_len pkt < 8 then (False, d)
        else let u = l4 pkt;
                 k = \<lparr>src = p_src pkt, dst = p_dst pkt, src_port = udp_src_port u, dst_port = udp_dst_port u,
                      proto = Udp\<rparr>
             in handle_udp k (udp_payload u) d
      else if p_proto pkt = l4_u8 Tcp then
        if l4_len pkt < 20 then (False, d)
        else let t = l4 pkt;
                 k = \<lparr>src = p_src pkt, dst = p_dst pkt, src_port = tcp_src_port t, dst_port = tcp_dst_port t,
                      proto = Tcp\<rparr>
             in handle_tcp k t d
      else (True, d))"

section \<open>Fragments\<close>

text \<open>\<open>iter().min_by_key(arrived_ms)\<close>: the first entry with the least arrival time.\<close>

fun oldest :: "(frag_key, frag_entry) table \<Rightarrow> (frag_key \<times> u32) option" where
  "oldest [] = None"
| "oldest ((k, e) # t) =
     (case oldest t of
        None \<Rightarrow> Some (k, fe_arrived_ms e)
      | Some (k', a) \<Rightarrow> if fe_arrived_ms e \<le> a then Some (k, fe_arrived_ms e) else Some (k', a))"

text \<open>The copy loop over the sorted parts: \<open>payload\<close>, \<open>expected\<close> and \<open>ok\<close> of the code.\<close>

fun place_parts :: "frag_part list \<Rightarrow> bytes \<Rightarrow> nat \<Rightarrow> bool \<times> bytes \<times> nat" where
  "place_parts [] payload expected = (True, payload, expected)"
| "place_parts (p # ps) payload expected =
     (if unat (fp_off p) \<noteq> expected then (False, payload, expected)
      else let e = unat (fp_off p) + unat (fp_len p) in
        if e > length payload then (False, payload, expected)
        else place_parts ps (put_slice payload (unat (fp_off p)) (fp_data p)) e)"

text \<open>\<open>Reassemble\<close>: sort, copy, and rebuild an unfragmented packet; \<open>None\<close> where the code
  returns \<open>false\<close>.\<close>

definition reassemble :: "frag_entry \<Rightarrow> ip_packet option" where
  "reassemble e =
     (let parts = sort_key (\<lambda>p. unat (fp_off p)) (fe_parts e);
          tot = nat (fe_total_len e);
          (ok, payload, expected) = place_parts parts (replicate tot 0) 0 in
      if \<not> ok \<or> expected \<noteq> tot then None
      else
        let total_ip = 20 + tot;
            full = replicate total_ip 0;
            full = write_ipv4_header_frag full (of_nat total_ip) (fe_proto e) (fe_src e) (fe_dst e) 0 0 False;
            full = put_slice full 20 payload
        in parse full)"

definition handle_fragment :: "ip_packet \<Rightarrow> nat_dispatcher \<Rightarrow> bool \<times> nat_dispatcher" where
  "handle_fragment pkt d =
     (if \<not> is_v4 (p_src pkt) \<or> \<not> is_v4 (p_dst pkt) then (False, d)
      else
        let k = \<lparr>fk_src = p_src pkt, fk_dst = p_dst pkt, fk_proto = p_proto pkt, fk_ip_id = p_ip_id pkt\<rparr>;
            (now, w) = w_now (d_io d);
            d = d\<lparr>d_io := w\<rparr>;
            d = (if t_get (d_frag d) k = None \<and> length (d_frag d) \<ge> MAX_FRAG_STREAMS
                 then case oldest (d_frag d) of
                        Some (ok, _) \<Rightarrow> d\<lparr>d_frag := t_del ok (d_frag d)\<rparr>
                      | None \<Rightarrow> d
                 else d);
            entry = (case t_get (d_frag d) k of
                       Some e \<Rightarrow> e
                     | None \<Rightarrow> \<lparr>fe_parts = [], fe_proto = p_proto pkt, fe_src = p_src pkt, fe_dst = p_dst pkt,
                                fe_total_len = -1, fe_accumulated = 0, fe_arrived_ms = now\<rparr>);
            off = frag_offset_bytes pkt;
            len = (of_nat (l4_len pkt) :: u16) in
        if unat off + unat len > MAX_FRAG_BYTES_PER_STREAM
        then (False, d\<lparr>d_frag := t_del k (d_frag d)\<rparr>)
        else
          let part = \<lparr>fp_off = off, fp_len = len, fp_data = take (unat len) (l4 pkt)\<rparr>;
              entry = entry\<lparr>fe_parts := fe_parts entry @ [part],
                            fe_accumulated := fe_accumulated entry + unat len\<rparr>;
              entry = (if \<not> p_more_frags pkt
                       then entry\<lparr>fe_total_len := int (unat off) + int (l4_len pkt)\<rparr> else entry) in
          if fe_accumulated entry > MAX_FRAG_BYTES_PER_STREAM
          then (False, d\<lparr>d_frag := t_del k (d_frag d)\<rparr>)
          else if fe_total_len entry < 0 \<or> int (fe_accumulated entry) < fe_total_len entry
          then (True, d\<lparr>d_frag := t_put k entry (d_frag d)\<rparr>)
          else
            let d = d\<lparr>d_frag := t_del k (d_frag d)\<rparr> in
            case reassemble entry of
              None \<Rightarrow> (False, d)
            | Some rebuilt \<Rightarrow> route_l4 rebuilt d)"

text \<open>\<open>process\<close>, the entry point for a packet from the client.\<close>

definition process :: "bytes \<Rightarrow> nat_dispatcher \<Rightarrow> bool \<times> nat_dispatcher" where
  "process data d =
     (let d = d\<lparr>d_rx_pkts := d_rx_pkts d + 1, d_rx_bytes := d_rx_bytes d + of_nat (length data)\<rparr> in
      case parse data of
        None \<Rightarrow> (False, d)
      | Some pkt \<Rightarrow> if is_fragment pkt then handle_fragment pkt d else route_l4 pkt d)"

section \<open>The receive-window scale\<close>

definition rwnd_scale :: "u16 \<Rightarrow> u16" where
  "rwnd_scale pressure =
     (if pressure \<le> GLOBAL_RWND_LO then GLOBAL_RWND_SCALE_FULL
      else if pressure \<ge> GLOBAL_RWND_HI then 0
      else let num = ucast (GLOBAL_RWND_HI - pressure) * ucast GLOBAL_RWND_SCALE_FULL :: u32;
               den = ucast (GLOBAL_RWND_HI - GLOBAL_RWND_LO) :: u32
           in ucast (num div den))"

text \<open>\<open>for s in self.tcp.values_mut()\<close>: one call per session, the world handed on.\<close>

fun each_session ::
  "(tcp_session \<Rightarrow> tcp_session) \<Rightarrow> (flow_key, tcp_session) table \<Rightarrow> world \<Rightarrow> (flow_key, tcp_session) table \<times> world" where
  "each_session f [] w = ([], w)"
| "each_session f ((k, s) # t) w =
     (let s = f (s\<lparr>io := w\<rparr>); (t, w) = each_session f t (io s) in ((k, s) # t, w))"

definition update_global_rwnd_scale :: "nat_dispatcher \<Rightarrow> nat_dispatcher" where
  "update_global_rwnd_scale d =
     (let (pressure, d) = (case pressure_fn d of
                             Some f \<Rightarrow> (f (d_samples d), d\<lparr>d_samples := Suc (d_samples d)\<rparr>)
                           | None \<Rightarrow> (0, d));
          scale = rwnd_scale pressure;
          prev = last_rwnd_scale d;
          d = d\<lparr>d_io := (d_io d)\<lparr>w_rwnd_scale := scale\<rparr>, last_rwnd_scale := scale\<rparr>;
          unblocked = (prev = 0 \<and> scale > 0);
          grew = (scale > prev \<and> scale - prev \<ge> RWND_GREW_THRESHOLD)
      in if unblocked \<or> grew
         then let (t, w) = each_session fan_out_window_update (d_tcp d) (d_io d)
              in d\<lparr>d_tcp := t, d_io := w\<rparr>
         else d)"

section \<open>Statistics\<close>

text \<open>\<open>t.state() as u8\<close>: the discriminant.\<close>

fun state_u8 :: "tcp_state \<Rightarrow> nat" where
  "state_u8 Closed = 0" | "state_u8 Listen = 1" | "state_u8 SynSent = 2" | "state_u8 SynRcvd = 3"
| "state_u8 Established = 4" | "state_u8 FinWait1 = 5" | "state_u8 FinWait2 = 6" | "state_u8 CloseWait = 7"
| "state_u8 Closing = 8" | "state_u8 LastAck = 9" | "state_u8 TimeWait = 10"

definition med :: "u32 list \<Rightarrow> u32" where
  "med v = (if v = [] then 0 else sort v ! (length v div 2))"

definition count_session :: "tcp_session \<Rightarrow> flow_stats_rec \<Rightarrow> flow_stats_rec" where
  "count_session t s =
     (let st = state_u8 (state t);
          s = (if st < 11 then s\<lparr>tcp_state_counts := (tcp_state_counts s)[st := tcp_state_counts s ! st + 1]\<rparr> else s)
      in s\<lparr>flight_total_bytes := flight_total_bytes s + ucast (flight_bytes t),
           rto_retx_total := rto_retx_total s + ucast (rto_retries t)\<rparr>)"

definition compute_flow_stats :: "nat_dispatcher \<Rightarrow> flow_stats_rec" where
  "compute_flow_stats d =
     (let ts = map snd (d_tcp d);
          s = stats_default\<lparr>tcp_flows := of_nat (length (d_tcp d)), udp_flows := of_nat (length (d_udp d))\<rparr>;
          s = fold count_session ts s;
          timed = filter (\<lambda>t. srtt_ms t > 0) ts;
          srtts = map srtt_ms timed; rttvars = map rttvar_ms timed; rtos = map rto_ms timed;
          s = (if srtts \<noteq> [] then s\<lparr>srtt_min_ms := Min (set srtts), srtt_max_ms := Max (set srtts)\<rparr> else s)
      in s\<lparr>srtt_med_ms := med srtts, rttvar_med_ms := med rttvars, rto_med_ms := med rtos\<rparr>)"

definition flow_stats :: "nat_dispatcher \<Rightarrow> flow_stats_rec" where
  "flow_stats d = flow_stats_snapshot d"

section \<open>The sweep\<close>

definition UDP_IDLE_MS :: u32 where "UDP_IDLE_MS = 60000"

text \<open>\<open>udp.retain\<close>: the sessions that go are dropped in turn.\<close>

fun retain_udp :: "u32 \<Rightarrow> u32 \<Rightarrow> (flow_key, udp_session) table \<Rightarrow> world \<Rightarrow> (flow_key, udp_session) table \<times> world" where
  "retain_udp now idle [] w = ([], w)"
| "retain_udp now idle ((k, s) # t) w =
     (if now - last_ms s \<le> idle
      then let (t, w) = retain_udp now idle t w in ((k, s) # t, w)
      else let (s, w) = udp_drop s w in retain_udp now idle t w)"

text \<open>Tick every session and collect the keys of those that are done.\<close>

fun tick_all ::
  "u32 \<Rightarrow> (flow_key, tcp_session) table \<Rightarrow> world \<Rightarrow> flow_key list \<times> (flow_key, tcp_session) table \<times> world" where
  "tick_all now [] w = ([], [], w)"
| "tick_all now ((k, s) # t) w =
     (let (keep, s) = tick now (s\<lparr>io := w\<rparr>); (stale, t, w) = tick_all now t (io s)
      in ((if keep then stale else k # stale), (k, s) # t, w))"

definition remove_tcp :: "flow_key \<Rightarrow> nat_dispatcher \<Rightarrow> nat_dispatcher" where
  "remove_tcp k d =
     (case t_get (d_tcp d) k of
        None \<Rightarrow> d
      | Some s \<Rightarrow> d\<lparr>d_tcp := t_del k (d_tcp d), d_io := io (drop_session (s\<lparr>io := d_io d\<rparr>))\<rparr>)"

definition sweep_idle :: "u32 \<Rightarrow> nat_dispatcher \<Rightarrow> nat_dispatcher" where
  "sweep_idle udp_idle_ms d =
     (let (now, w) = w_now (d_io d);
          d = update_global_rwnd_scale (d\<lparr>d_io := w\<rparr>);
          (udp, w) = retain_udp now udp_idle_ms (d_udp d) (d_io d);
          d = d\<lparr>d_udp := udp, d_io := w\<rparr>;
          (stale, tcp, w) = tick_all now (d_tcp d) (d_io d);
          d = fold remove_tcp stale (d\<lparr>d_tcp := tcp, d_io := w\<rparr>);
          expired = map fst (filter (\<lambda>(k, e). now - fe_arrived_ms e > FRAG_EXPIRY_MS) (d_frag d));
          d = d\<lparr>d_frag := fold t_del expired (d_frag d)\<rparr>;
          d = (if w_debug (d_io d) \<and> now - last_stats_log_ms d > 5000 then d\<lparr>last_stats_log_ms := now\<rparr> else d)
      in d\<lparr>flow_stats_snapshot := compute_flow_stats d\<rparr>)"

section \<open>Reactor events and \<open>Drop\<close>\<close>

text \<open>The reactor's handlers hold the address of a session in the table and call it.\<close>

definition tcp_event :: "flow_key \<Rightarrow> host_event \<Rightarrow> nat_dispatcher \<Rightarrow> nat_dispatcher" where
  "tcp_event k ev d =
     (case t_get (d_tcp d) k of
        None \<Rightarrow> d
      | Some s \<Rightarrow> let s = on_host_event ev (s\<lparr>io := d_io d\<rparr>)
                  in d\<lparr>d_tcp := t_put k s (d_tcp d), d_io := io s\<rparr>)"

definition udp_event :: "flow_key \<Rightarrow> bool \<Rightarrow> nat_dispatcher \<Rightarrow> nat_dispatcher" where
  "udp_event k is_readable d =
     (case t_get (d_udp d) k of
        None \<Rightarrow> d
      | Some s \<Rightarrow> let (s, w) = udp_on_event is_readable s (d_io d)
                  in d\<lparr>d_udp := t_put k s (d_udp d), d_io := w\<rparr>)"

fun drop_udps :: "(flow_key, udp_session) table \<Rightarrow> world \<Rightarrow> world" where
  "drop_udps [] w = w"
| "drop_udps ((k, s) # t) w = drop_udps t (snd (udp_drop s w))"

definition nat_drop :: "nat_dispatcher \<Rightarrow> nat_dispatcher" where
  "nat_drop d =
     (let (t, w) = each_session drop_session (d_tcp d) (d_io d);
          d = d\<lparr>d_tcp := [], d_io := w\<rparr>
      in d\<lparr>d_udp := [], d_io := drop_udps (d_udp d) (d_io d)\<rparr>)"

end
