(* ===== verification/Tcp_Identity.thy ===== *)
theory Tcp_Identity
  imports Tcp_Reach
begin

text \<open>
  A session never changes the flow it belongs to, nor the window scale that the dispatcher
  shares with it: \<open>ident\<close> is the same before and after every entry point.
\<close>

definition ident :: "tcp_session \<Rightarrow> flow_key \<times> u16" where
  "ident s = (key s, w_rwnd_scale (io s))"

lemma recv_view_ident:
  assumes "recv_view s = recv_view t"
  shows "ident s = ident t"
  using recv_viewD(2) [OF assms] io_viewD(5) [OF recv_viewD(1) [OF assms]] by (simp add: ident_def)

lemma keep_view_ident: "keep_view s = keep_view t \<Longrightarrow> ident s = ident t"
  using keep_viewD(2) recv_view_ident by blast

lemma out_view_ident: "out_view s = out_view t \<Longrightarrow> ident s = ident t"
  using out_viewD(2) recv_view_ident by blast

lemma ident_upd [simp]:
  "ident (s\<lparr>state := a1\<rparr>) = ident s" "ident (s\<lparr>host := a2\<rparr>) = ident s" "ident (s\<lparr>host_token := a2\<rparr>) = ident s"
  "ident (s\<lparr>to_host := a3\<rparr>) = ident s" "ident (s\<lparr>to_host_off := a4\<rparr>) = ident s"
  "ident (s\<lparr>to_client := a3\<rparr>) = ident s" "ident (s\<lparr>to_client_off := a4\<rparr>) = ident s"
  "ident (s\<lparr>ooo := a5\<rparr>) = ident s" "ident (s\<lparr>ooo_bytes := a4\<rparr>) = ident s"
  "ident (s\<lparr>rcv_nxt := a6\<rparr>) = ident s" "ident (s\<lparr>snd_nxt := a6\<rparr>) = ident s"
  "ident (s\<lparr>snd_una := a6\<rparr>) = ident s" "ident (s\<lparr>snd_wnd := a6\<rparr>) = ident s" "ident (s\<lparr>cwnd := a6\<rparr>) = ident s"
  "ident (s\<lparr>sent_fin := b\<rparr>) = ident s" "ident (s\<lparr>host_read_eof := b\<rparr>) = ident s"
  "ident (s\<lparr>host_wr_shut := b\<rparr>) = ident s" "ident (s\<lparr>host_writable := b\<rparr>) = ident s"
  "ident (s\<lparr>host_pollin_paused := b\<rparr>) = ident s" "ident (s\<lparr>last_stall_log_ms := a6\<rparr>) = ident s"
  "ident (s\<lparr>time_wait_deadline_ms := a6\<rparr>) = ident s" "ident (s\<lparr>rto_deadline_ms := a6\<rparr>) = ident s"
  "ident (s\<lparr>rack_deadline_ms := a6\<rparr>) = ident s" "ident (s\<lparr>tlp_deadline_ms := a6\<rparr>) = ident s"
  "ident (s\<lparr>zwp_deadline_ms := a6\<rparr>) = ident s" "ident (s\<lparr>rto_retries := a7\<rparr>) = ident s"
  "ident (s\<lparr>rto_ms := a6\<rparr>) = ident s"
  "ident (s\<lparr>peer_mss := a8\<rparr>) = ident s" "ident (s\<lparr>peer_sack_ok := b\<rparr>) = ident s"
  "ident (s\<lparr>peer_ws_ok := b\<rparr>) = ident s" "ident (s\<lparr>peer_wscale := a7\<rparr>) = ident s"
  "ident (s\<lparr>own_wscale := a7\<rparr>) = ident s" "ident (s\<lparr>peer_ts_ok := b\<rparr>) = ident s"
  "ident (s\<lparr>ts_recent := a6\<rparr>) = ident s" "ident (s\<lparr>ts_clock_base := a6\<rparr>) = ident s"
  by (simp_all add: ident_def)

lemma ident_sys [simp]: "ident (sys c s) = ident s"
  by (simp add: ident_def sys_def w_call_def)

lemmas ident_emit [simp] =
  keep_view_ident [OF keep_view_emit(1)] keep_view_ident [OF keep_view_emit(2)] keep_view_ident [OF keep_view_emit(3)]
  keep_view_ident [OF keep_view_emit(4)] keep_view_ident [OF keep_view_emit(5)] keep_view_ident [OF keep_view_emit(6)]
  keep_view_ident [OF keep_view_emit(7)] keep_view_ident [OF keep_view_emit(8)]
  out_view_ident [OF out_view_snd(1)] out_view_ident [OF out_view_snd(2)] out_view_ident [OF out_view_snd(3)]
  out_view_ident [OF out_view_snd(4)] out_view_ident [OF out_view_emit(1)] out_view_ident [OF out_view_emit(2)]
  out_view_ident [OF out_view_emit(3)] out_view_ident [OF out_view_timers(1)] out_view_ident [OF out_view_timers(2)]

lemmas ident_ack [simp] =
  keep_view_ident [OF keep_view_on_ack] keep_view_ident [OF keep_view_fire_tlp] keep_view_ident [OF keep_view_rack]
  keep_view_ident [OF keep_view_zwp_fire] keep_view_ident [OF keep_view_parse_sack_blocks]
  keep_view_ident [OF keep_view_rtt(2)] keep_view_ident [OF keep_view_rto_collapse]
  keep_view_ident [OF keep_view_note_options] out_view_ident [OF syn_ack_options_ok(2)]

section \<open>Closing and the host socket\<close>

lemma ident_close [simp]:
  "ident (close_host_socket s) = ident s" "ident (mark_closed s) = ident s"
  "ident (reset_and_close s) = ident s" "ident (enter_time_wait n s) = ident s"
  "ident (time_wait_now s) = ident s" "ident (zwp_now s) = ident s" "ident (send_fin s) = ident s"
  "ident (rto_fire n s) = ident s"
  by (simp_all add: close_host_socket_def mark_closed_def reset_and_close_def enter_time_wait_def
      time_wait_now_def zwp_now_def send_fin_def rto_fire_def Let_def case_prod_unfold split: option.split)

lemma ident_host [simp]:
  "ident (refresh_host_interest s) = ident s" "ident (shutdown_write s) = ident s"
  "ident (snd (take_error sk s)) = ident s" "ident (set_writes sk ws s) = ident s"
  "ident (set_reads sk rs s) = ident s" "ident (snd (open_host_socket s)) = ident s"
  by (simp_all add: refresh_host_interest_def shutdown_write_def take_error_def set_writes_def set_reads_def
      open_host_socket_def sys_def w_call_def Let_def ident_def split: option.split)

lemma ident_drain_writes [simp]: "ident (drain_writes sk ws s) = ident s"
  by (induction ws arbitrary: s) (simp_all add: Let_def drained_def drain_blocked_def split: wr_result.split)

lemma ident_enqueue [simp]: "ident (try_drain_to_host s) = ident s" "ident (enqueue_to_host d s) = ident s"
  by (simp_all add: enqueue_to_host_def try_drain_to_host_def Let_def split: option.split)

lemma ident_deliver_queue [simp]: "ident (deliver_queue q s) = ident s"
  by (induction q arbitrary: s) (simp_all add: Let_def)

lemma ident_data [simp]: "ident (data_and_ack q d s) = ident s"
  by (simp add: data_and_ack_def handle_data_in_def deliver_ooo_def store_ooo_def Let_def)

lemma ident_segment_loop [simp]: "ident (snd (segment_loop s)) = ident s"
  by (rule segment_loop_preserves [where P = "\<lambda>t. ident t = ident s"]) simp_all

lemma ident_try_segment [simp]: "ident (try_segment_and_emit s) = ident s"
  by (simp add: try_segment_and_emit_def resume_reads_def Let_def case_prod_unfold)

section \<open>Entry points\<close>

lemma ident_ack_if_flagged [simp]: "ident (ack_if_flagged f a s) = ident s"
  by (simp add: ack_if_flagged_def Let_def case_prod_unfold)

lemma ident_handlers [simp]:
  "ident (process_syn_rcvd f q a w d s) = ident s" "ident (process_established f q a w d s) = ident s"
  "ident (process_close_wait f a w s) = ident s" "ident (process_fin_wait_1 f q a w d s) = ident s"
  "ident (process_fin_wait_2 f q w d s) = ident s" "ident (process_closing f a s) = ident s"
  "ident (process_last_ack f a s) = ident s" "ident (process_time_wait f s) = ident s"
  by (simp_all add: process_syn_rcvd_def process_established_def process_close_wait_def process_fin_wait_1_def
      process_fin_wait_2_def process_closing_def process_last_ack_def process_time_wait_def Let_def case_prod_unfold)

lemma ident_accept_initial_syn [simp]: "ident (snd (accept_initial_syn seg s)) = ident s"
  by (simp add: accept_initial_syn_def syn_negotiate_def apply_syn_options_def Let_def case_prod_unfold)

lemma ident_on_segment [simp]: "ident (snd (on_segment seg s)) = ident s"
  by (simp add: on_segment_def dispatch_state_def Let_def split: tcp_state.split)

lemma ident_read_loop [simp]: "ident (snd (read_loop sk rs s)) = ident s"
  by (induction rs arbitrary: s)
     (simp_all add: Let_def host_eof_def buffer_to_client_def split: rd_result.split list.split)

lemma ident_after_connect [simp]: "ident (after_connect s) = ident s"
  by (simp add: after_connect_def Let_def)

lemma ident_on_host_writable [simp]: "ident (on_host_writable s) = ident s"
proof -
  have e: "(case take_error sk s of (SoNone, t) \<Rightarrow> after_connect t | (_, t) \<Rightarrow> reset_and_close t)
    = (if fst (take_error sk s) = SoNone then after_connect (snd (take_error sk s))
       else reset_and_close (snd (take_error sk s)))" for sk
    by (cases "take_error sk s"; cases "fst (take_error sk s)") auto
  show ?thesis by (simp add: on_host_writable_def e split: option.split)
qed

lemma ident_on_host_readable [simp]: "ident (on_host_readable s) = ident s"
  by (auto simp: on_host_readable_def split: option.split prod.split read_end.split)
     (metis ident_read_loop snd_conv)+

lemma ident_on_host_event [simp]: "ident (on_host_event ev s) = ident s"
  by (simp add: on_host_event_def host_closed_def Let_def case_prod_unfold split: option.split)

lemma ident_tick [simp]: "ident (snd (tick now s)) = ident s"
proof -
  have t [simp]: "ident (rto_timer now t) = ident t" "ident (rack_timer now t) = ident t"
    "ident (tlp_timer now t) = ident t" "ident (zwp_timer now t) = ident t" for t
    by (simp_all add: rto_timer_def rack_timer_def tlp_timer_def zwp_timer_def)
  show ?thesis unfolding tick_def Let_def by simp
qed

lemma ident_rest [simp]:
  "ident (fan_out_window_update s) = ident s" "ident (drop_session s) = ident s"
  by (simp_all add: fan_out_window_update_def drop_session_def)

lemma ident_new [simp]: "ident (tcp_new k w) = (k, w_rwnd_scale w)"
  by (simp add: ident_def tcp_new_def)

lemma ident_lend [simp]: "ident (s\<lparr>io := w\<rparr>) = (key s, w_rwnd_scale w)"
  by (simp add: ident_def)

lemma identD: "ident s = (k, r) \<Longrightarrow> key s = k" "ident s = (k, r) \<Longrightarrow> w_rwnd_scale (io s) = r"
  by (simp_all add: ident_def)

end
