(* ===== verification/Nat_Inv.thy ===== *)
theory Nat_Inv
  imports Nat_Dispatcher Tcp_Identity
begin

text \<open>
  The invariant of the NAT dispatcher and the states it can reach: packets from the client in
  any order and of any content, events of the host sockets, sweeps and the replacement of the
  pressure sampler.
\<close>

section \<open>What the parser guarantees\<close>

lemma parse_bounds:
  assumes "parse data = Some p"
  shows "length (l4 p) = l4_len p" "l4_len p < 65536" "wf_addr (p_src p)" "wf_addr (p_dst p)"
    "is_v4 (p_src p)" "is_v4 (p_dst p)"
proof -
  have "\<not> length data < 20" and tot: "unat (be16 (slice data 2 4)) < 65536"
    using assms unat_u16_less by (auto simp: parse_def Let_def split: if_splits)
  then show "wf_addr (p_src p)" "wf_addr (p_dst p)" "is_v4 (p_src p)" "is_v4 (p_dst p)"
    using assms by (auto simp: parse_def Let_def split: if_splits)
  show "length (l4 p) = l4_len p" "l4_len p < 65536"
    using assms tot by (auto simp: parse_def Let_def l4_def l4_len_def split: if_splits)
qed

section \<open>The invariant\<close>

definition frag_ok :: "frag_key \<Rightarrow> frag_entry \<Rightarrow> bool" where
  "frag_ok k e \<longleftrightarrow>
     fe_proto e = fk_proto k \<and> fe_src e = fk_src k \<and> fe_dst e = fk_dst k \<and> is_v4 (fe_src e) \<and> is_v4 (fe_dst e)
     \<and> fe_accumulated e = sum_list (map (\<lambda>p. unat (fp_len p)) (fe_parts e))
     \<and> fe_accumulated e \<le> MAX_FRAG_BYTES_PER_STREAM
     \<and> (\<forall>p \<in> set (fe_parts e). length (fp_data p) = unat (fp_len p)
           \<and> unat (fp_off p) + unat (fp_len p) \<le> MAX_FRAG_BYTES_PER_STREAM)
     \<and> (fe_total_len e = -1 \<or> int (fe_accumulated e) < fe_total_len e \<and> fe_total_len e \<le> 65535)"

definition tcp_slot :: "flow_key \<Rightarrow> tcp_session \<Rightarrow> bool" where
  "tcp_slot k s \<longleftrightarrow> key s = k \<and> tcp_inv s"

definition nat_inv :: "nat_dispatcher \<Rightarrow> bool" where
  "nat_inv d \<longleftrightarrow>
     t_ok (d_udp d) \<and> t_ok (d_tcp d) \<and> t_ok (d_frag d)
     \<and> tbl.all udp_inv (d_udp d) \<and> tbl.all tcp_slot (d_tcp d) \<and> tbl.all frag_ok (d_frag d)
     \<and> length (d_frag d) \<le> MAX_FRAG_STREAMS
     \<and> dials_allowed (w_calls (d_io d))
     \<and> w_rwnd_scale (d_io d) = last_rwnd_scale d \<and> last_rwnd_scale d \<le> GLOBAL_RWND_SCALE_FULL"

lemmas table_laws = tbl.ok_put tbl.ok_del tbl.all_put tbl.all_del

lemma tcp_inv_dials: "tcp_inv s \<Longrightarrow> dials_allowed (w_calls (io s))"
  by (simp add: tcp_inv_def recv_ok_def)

lemma nat_inv_new: "dials_allowed (w_calls w) \<Longrightarrow> nat_inv (nat_new i w)"
  by (simp add: nat_inv_def nat_new_def t_ok_def tbl.all_def t_get_def)

section \<open>Flows\<close>

lemma handle_udp_inv:
  assumes "nat_inv d"
  shows "nat_inv (snd (handle_udp k payload d))"
proof -
  have send: "nat_inv (d'\<lparr>d_io := snd (udp_send payload s (d_io d')), d_udp := t_put k (fst (udp_send payload s (d_io d'))) (d_udp d')\<rparr>)"
    if "nat_inv d'" "udp_inv k s" for d' s
    using that by (simp add: nat_inv_def table_laws udp_send_ok)
  show ?thesis
  proof (cases "t_get (d_udp d) k")
    case (Some s)
    then have "udp_inv k s" using assms tbl.all_get by (fastforce simp: nat_inv_def)
    with Some send [OF assms] show ?thesis
      by (simp add: handle_udp_def Let_def case_prod_unfold)
  next
    case None
    define o' where "o' = udp_open (fst (udp_new k (d_io d))) (snd (udp_new k (d_io d)))"
    obtain ok s w where o': "o' = (ok, s, w)" by (metis prod_cases3)
    note op = udp_open_ok [OF o' [unfolded o'_def]]
    have w: "nat_inv (d\<lparr>d_io := w\<rparr>)" using assms op(1,3) by (simp add: nat_inv_def)
    have "nat_inv (d\<lparr>d_io := w, d_udp := t_put k s (d_udp d)\<rparr>)" if ok
      using assms op that by (simp add: nat_inv_def table_laws)
    note sent = send [OF this op(4)]
    show ?thesis
      using None w sent o' assms
      by (cases ok) (simp_all add: handle_udp_def Let_def case_prod_unfold o'_def [symmetric] nat_inv_def)
  qed
qed

lemma lend_inv:
  assumes "nat_inv d" "t_get (d_tcp d) k = Some s"
  shows "tcp_inv (s\<lparr>io := d_io d\<rparr>)" "key s = k"
proof -
  have "tcp_slot k s" using assms tbl.all_get by (fastforce simp: nat_inv_def)
  then show "tcp_inv (s\<lparr>io := d_io d\<rparr>)" "key s = k"
    using assms by (simp_all add: tcp_slot_def env_inv nat_inv_def)
qed

text \<open>Giving the world back: what a session returns fits the dispatcher it was lent by.\<close>

lemma return_inv:
  assumes "nat_inv d" "tcp_inv s" "ident s = (k, w_rwnd_scale (d_io d))"
  shows "nat_inv (d\<lparr>d_io := io s, d_tcp := t_put k s (d_tcp d)\<rparr>)"
    "nat_inv (d\<lparr>d_io := io s, d_tcp := t_del k (d_tcp d)\<rparr>)"
  using assms identD [OF assms(3)] tcp_inv_dials [OF assms(2)]
  by (simp_all add: nat_inv_def table_laws tcp_slot_def)

lemma handle_tcp_inv:
  assumes "nat_inv d"
  shows "nat_inv (snd (handle_tcp k seg d))"
proof -
  define s where "s = (case t_get (d_tcp d) k of Some s \<Rightarrow> s\<lparr>io := d_io d\<rparr> | None \<Rightarrow> tcp_new k (d_io d))"
  have s: "tcp_inv s" "ident s = (k, w_rwnd_scale (d_io d))"
    using assms lend_inv [OF assms] by (auto simp: s_def new_inv nat_inv_def split: option.split)
  let ?t = "snd (on_segment seg s)"
  have t: "tcp_inv ?t" "ident ?t = (k, w_rwnd_scale (d_io d))"
    and dr: "tcp_inv (drop_session ?t)" "ident (drop_session ?t) = (k, w_rwnd_scale (d_io d))"
    using s on_segment_inv by (simp_all add: drop_inv)
  show ?thesis
    using assms return_inv(1) [OF assms t] return_inv(2) [OF assms dr]
    by (simp add: handle_tcp_def Let_def case_prod_unfold s_def [symmetric])
qed

lemma route_l4_inv: "nat_inv d \<Longrightarrow> nat_inv (snd (route_l4 p d))"
  by (simp add: route_l4_def Let_def handle_udp_inv handle_tcp_inv)

section \<open>Fragments\<close>

lemma oldest_present: "t \<noteq> [] \<Longrightarrow> \<exists>k a. oldest t = Some (k, a) \<and> t_get t k \<noteq> None"
proof (induction t)
  case (Cons x t)
  obtain k e where x: "x = (k, e)" by (cases x)
  show ?case
  proof (cases "t = []")
    case False
    with Cons obtain k' a where "oldest t = Some (k', a)" "t_get t k' \<noteq> None" by auto
    then show ?thesis by (auto simp: x t_get_def)
  qed (simp add: x t_get_def)
qed simp

text \<open>The stream table after making room: the key can be added.\<close>

definition make_room :: "frag_key \<Rightarrow> nat_dispatcher \<Rightarrow> nat_dispatcher" where
  "make_room k d =
     (if t_get (d_frag d) k = None \<and> length (d_frag d) \<ge> MAX_FRAG_STREAMS
      then case oldest (d_frag d) of Some (ok, _) \<Rightarrow> d\<lparr>d_frag := t_del ok (d_frag d)\<rparr> | None \<Rightarrow> d
      else d)"

lemma make_room_inv:
  assumes "nat_inv d"
  shows "nat_inv (make_room k d)" "length (t_put k e (d_frag (make_room k d))) \<le> MAX_FRAG_STREAMS"
proof -
  have len: "length (d_frag d) \<le> MAX_FRAG_STREAMS" and ok: "t_ok (d_frag d)"
    using assms by (simp_all add: nat_inv_def)
  have full: "d_frag d \<noteq> []" if "MAX_FRAG_STREAMS \<le> length (d_frag d)"
    using that by (auto simp: MAX_FRAG_STREAMS_def)
  have del: "length (t_del j (d_frag d)) \<le> MAX_FRAG_STREAMS" for j
    using len ok by (auto simp: tbl.size_del)
  show "nat_inv (make_room k d)"
    using assms del by (auto simp: make_room_def nat_inv_def table_laws split: option.split)
  show "length (t_put k e (d_frag (make_room k d))) \<le> MAX_FRAG_STREAMS"
  proof (cases "t_get (d_frag d) k = None \<and> MAX_FRAG_STREAMS \<le> length (d_frag d)")
    case True
    then obtain j a where "oldest (d_frag d) = Some (j, a)" "t_get (d_frag d) j \<noteq> None"
      using oldest_present [OF full] by blast
    with True tbl.evict_put_le [OF ok len] show ?thesis by (simp add: make_room_def)
  next
    case False
    then show ?thesis using len by (auto simp: make_room_def tbl.size_put)
  qed
qed

lemma frag_ok_push:
  assumes "frag_ok k e" "length dt = unat ln" "unat off + unat ln \<le> MAX_FRAG_BYTES_PER_STREAM"
    "fe_accumulated e + unat ln \<le> MAX_FRAG_BYTES_PER_STREAM"
    "tot = -1 \<or> int (fe_accumulated e + unat ln) < tot \<and> tot \<le> 65535"
  shows "frag_ok k (e\<lparr>fe_parts := fe_parts e @ [\<lparr>fp_off = off, fp_len = ln, fp_data = dt\<rparr>],
      fe_accumulated := fe_accumulated e + unat ln, fe_total_len := tot\<rparr>)"
  using assms by (auto simp: frag_ok_def)

definition frag_key_of :: "ip_packet \<Rightarrow> frag_key" where
  "frag_key_of p = \<lparr>fk_src = p_src p, fk_dst = p_dst p, fk_proto = p_proto p, fk_ip_id = p_ip_id p\<rparr>"

definition entry_for :: "ip_packet \<Rightarrow> u32 \<Rightarrow> (frag_key, frag_entry) table \<Rightarrow> frag_entry" where
  "entry_for p now t = (case t_get t (frag_key_of p) of
     Some e \<Rightarrow> e
   | None \<Rightarrow> \<lparr>fe_parts = [], fe_proto = p_proto p, fe_src = p_src p, fe_dst = p_dst p,
              fe_total_len = -1, fe_accumulated = 0, fe_arrived_ms = now\<rparr>)"

definition add_part :: "ip_packet \<Rightarrow> frag_entry \<Rightarrow> frag_entry" where
  "add_part p e = e\<lparr>fe_parts := fe_parts e @ [\<lparr>fp_off = frag_offset_bytes p, fp_len = of_nat (l4_len p), fp_data = l4 p\<rparr>],
     fe_accumulated := fe_accumulated e + l4_len p,
     fe_total_len := (if p_more_frags p then fe_total_len e
                      else int (unat (frag_offset_bytes p)) + int (l4_len p))\<rparr>"

text \<open>The handler on a parsed packet, in terms of these steps.\<close>

lemma handle_fragment_eq:
  assumes "parse data = Some p"
  shows "handle_fragment p d =
    (let now = w_clock (d_io d) (w_ticks (d_io d)); k = frag_key_of p;
         d = make_room k (d\<lparr>d_io := (d_io d)\<lparr>w_ticks := Suc (w_ticks (d_io d))\<rparr>\<rparr>);
         e = add_part p (entry_for p now (d_frag d));
         gone = d\<lparr>d_frag := t_del k (d_frag d)\<rparr>
     in if unat (frag_offset_bytes p) + l4_len p > MAX_FRAG_BYTES_PER_STREAM
          \<or> fe_accumulated e > MAX_FRAG_BYTES_PER_STREAM then (False, gone)
        else if fe_total_len e < 0 \<or> int (fe_accumulated e) < fe_total_len e
        then (True, d\<lparr>d_frag := t_put k e (d_frag d)\<rparr>)
        else case reassemble e of None \<Rightarrow> (False, gone) | Some r \<Rightarrow> route_l4 r gone)"
proof -
  note b = parse_bounds [OF assms]
  have len: "unat (of_nat (l4_len p) :: u16) = l4_len p" using b(2) by (rule unat_of_nat_u16)
  have tk: "take (l4_len p) (l4 p) = l4 p" using b(1) by simp
  show ?thesis
    using b(5,6)
    unfolding handle_fragment_def Let_def frag_key_of_def [symmetric] w_now_def
    by (simp add: len tk add_part_def make_room_def entry_for_def split: option.split)
qed


lemma entry_for_ok:
  assumes "nat_inv d" "parse data = Some p"
  shows "frag_ok (frag_key_of p) (entry_for p now (d_frag d))"
proof (cases "t_get (d_frag d) (frag_key_of p)")
  case None
  then show ?thesis using parse_bounds [OF assms(2)] by (simp add: entry_for_def frag_ok_def frag_key_of_def)
next
  case (Some e)
  then show ?thesis using assms(1) tbl.all_get by (fastforce simp: entry_for_def nat_inv_def)
qed

lemma add_part_ok:
  assumes "frag_ok k e" "parse data = Some p" "unat (frag_offset_bytes p) + l4_len p \<le> MAX_FRAG_BYTES_PER_STREAM"
    "fe_accumulated (add_part p e) \<le> MAX_FRAG_BYTES_PER_STREAM"
    "fe_total_len (add_part p e) < 0 \<or> int (fe_accumulated (add_part p e)) < fe_total_len (add_part p e)"
  shows "frag_ok k (add_part p e)"
proof -
  have len: "unat (of_nat (l4_len p) :: u16) = l4_len p"
    using parse_bounds(2) [OF assms(2)] by (rule unat_of_nat_u16)
  define o' where "o' = unat (frag_offset_bytes p)"
  let ?tot = "if p_more_frags p then fe_total_len e else int (unat (frag_offset_bytes p)) + int (l4_len p)"
  have tot: "?tot = -1 \<or> int (fe_accumulated e + l4_len p) < ?tot \<and> ?tot \<le> 65535"
    unfolding o'_def [symmetric]
    using assms(1,3,5) unfolding add_part_def o'_def [symmetric]
    by (auto simp: frag_ok_def MAX_FRAG_BYTES_PER_STREAM_def split: if_splits)
  show ?thesis
    using frag_ok_push [OF assms(1), of "l4 p" "of_nat (l4_len p)" "frag_offset_bytes p" ?tot]
      parse_bounds(1) [OF assms(2)] assms(3,4) tot
    by (simp only: len add_part_def frag_entry.simps simp_thms) (simp add: add_part_def len)
qed

lemma handle_fragment_inv:
  assumes "nat_inv d" "parse data = Some p"
  shows "nat_inv (snd (handle_fragment p d))"
proof -
  define now where "now = w_clock (d_io d) (w_ticks (d_io d))"
  define k where "k = frag_key_of p"
  define d1 where "d1 = make_room k (d\<lparr>d_io := (d_io d)\<lparr>w_ticks := Suc (w_ticks (d_io d))\<rparr>\<rparr>)"
  define e where "e = add_part p (entry_for p now (d_frag d1))"
  define gone where "gone = d1\<lparr>d_frag := t_del k (d_frag d1)\<rparr>"
  have tick: "nat_inv (d\<lparr>d_io := (d_io d)\<lparr>w_ticks := Suc (w_ticks (d_io d))\<rparr>\<rparr>)"
    using assms(1) by (simp add: nat_inv_def)
  note room = make_room_inv [OF tick, of k, folded d1_def]
  have gone: "nat_inv gone"
    using room(1) by (auto simp: gone_def nat_inv_def table_laws tbl.size_del)
  have e: "frag_ok k e" if "unat (frag_offset_bytes p) + l4_len p \<le> MAX_FRAG_BYTES_PER_STREAM"
    "fe_accumulated e \<le> MAX_FRAG_BYTES_PER_STREAM"
    "fe_total_len e < 0 \<or> int (fe_accumulated e) < fe_total_len e"
    unfolding e_def by (rule add_part_ok [OF entry_for_ok [OF room(1) assms(2), folded k_def] assms(2)])
      (use that in \<open>simp_all add: e_def\<close>)
  have put: "nat_inv (d1\<lparr>d_frag := t_put k e (d_frag d1)\<rparr>)" if "frag_ok k e"
    using room that by (simp add: nat_inv_def table_laws)
  show ?thesis
    using gone e put route_l4_inv [OF gone]
    unfolding handle_fragment_eq [OF assms(2)] Let_def k_def [symmetric] d1_def [symmetric] now_def [symmetric]
      e_def [symmetric] gone_def [symmetric]
    by (auto split: option.split)
qed

lemma process_inv: "nat_inv d \<Longrightarrow> nat_inv (snd (process data d))"
proof -
  assume "nat_inv d"
  then have "nat_inv (d\<lparr>d_rx_pkts := d_rx_pkts d + 1, d_rx_bytes := d_rx_bytes d + of_nat (length data)\<rparr>)"
    by (simp add: nat_inv_def)
  then show ?thesis
    by (auto simp: process_def Let_def handle_fragment_inv route_l4_inv split: option.split)
qed

section \<open>Sweeps\<close>

text \<open>Calling every session in turn keeps the tables, when each call keeps the session.\<close>

lemma each_session_ok:
  assumes step: "\<And>s. tcp_inv s \<Longrightarrow> tcp_inv (f s)" "\<And>s. ident (f s) = ident s"
    and "\<forall>(k, s) \<in> set t. tcp_slot k s" "dials_allowed (w_calls w)" "each_session f t w = (t', w')"
  shows "map fst t' = map fst t \<and> (\<forall>(k, s) \<in> set t'. tcp_slot k s) \<and> dials_allowed (w_calls w')
    \<and> w_rwnd_scale w' = w_rwnd_scale w"
  using assms(3-5)
proof (induction t arbitrary: w t')
  case (Cons x t)
  obtain k s where x: "x = (k, s)" by (cases x)
  let ?s = "f (s\<lparr>io := w\<rparr>)"
  have "tcp_inv (s\<lparr>io := w\<rparr>)" "key s = k" using Cons.prems x by (simp_all add: tcp_slot_def env_inv)
  then have s: "tcp_inv ?s" "ident ?s = (k, w_rwnd_scale w)" using step by simp_all
  obtain t1 where r: "each_session f t (io ?s) = (t1, w')" "t' = (k, ?s) # t1"
    using Cons.prems(3) x by (auto simp: Let_def split: prod.splits)
  have "map fst t1 = map fst t \<and> (\<forall>(k, s) \<in> set t1. tcp_slot k s) \<and> dials_allowed (w_calls w')
    \<and> w_rwnd_scale w' = w_rwnd_scale (io ?s)"
    by (rule Cons.IH [OF _ tcp_inv_dials [OF s(1)] r(1)]) (use Cons.prems(1) in simp)
  then show ?case using s r x identD [OF s(2)] by (simp add: tcp_slot_def)
qed simp

lemma unat_rwnd_scale: 
  "unat (rwnd_scale p) = (if unat p \<le> 500 then 1000 else if 900 \<le> unat p then 0 else (900 - unat p) * 1000 div 400)"
proof -
  have c: "(p \<le> GLOBAL_RWND_LO) = (unat p \<le> 500)" "(p \<ge> GLOBAL_RWND_HI) = (900 \<le> unat p)"
    by (simp_all add: word_le_nat_alt GLOBAL_RWND_LO_def GLOBAL_RWND_HI_def)
  show ?thesis
  proof (cases "unat p \<le> 500 \<or> 900 \<le> unat p")
    case True
    then show ?thesis by (auto simp: rwnd_scale_def c GLOBAL_RWND_SCALE_FULL_def)
  next
    case False
    have n: "unat (900 - p :: u16) = 900 - unat p"
      using False by (simp add: unat_sub word_le_nat_alt)
    have m: "unat (ucast (900 - p :: u16) * 1000 :: u32) = (900 - unat p) * 1000"
      using n False by (simp add: unat_word_ariths)
    have d: "unat (ucast (900 - p :: u16) * 1000 div 400 :: u32) = (900 - unat p) * 1000 div 400"
      by (simp add: unat_div m)
    have "(900 - unat p) * 1000 div 400 < 65536" using False by simp
    then have "unat (ucast (ucast (900 - p :: u16) * 1000 div 400 :: u32) :: u16) = (900 - unat p) * 1000 div 400"
      using d by (simp add: unat_ucast_small)
    then show ?thesis
      using False unfolding rwnd_scale_def c
      by (simp add: GLOBAL_RWND_SCALE_FULL_def GLOBAL_RWND_HI_def GLOBAL_RWND_LO_def Let_def)
  qed
qed

lemma rwnd_scale_le: "rwnd_scale p \<le> GLOBAL_RWND_SCALE_FULL"
proof -
  have "(900 - n) * 1000 div 400 \<le> 1000" if "\<not> n \<le> 500" for n :: nat using that by linarith
  then show ?thesis by (auto simp: word_le_nat_alt unat_rwnd_scale GLOBAL_RWND_SCALE_FULL_def)
qed

lemma tcp_table_inv:
  assumes "nat_inv d" "map fst t = map fst (d_tcp d)" "\<forall>(k, s) \<in> set t. tcp_slot k s"
    "dials_allowed (w_calls w)" "w_rwnd_scale w = last_rwnd_scale d"
  shows "nat_inv (d\<lparr>d_tcp := t, d_io := w\<rparr>)"
proof -
  have "t_ok t" using assms(1,2) by (simp add: nat_inv_def t_ok_def)
  then show ?thesis using assms by (simp add: nat_inv_def all_entries)
qed

lemma tcp_slots: "nat_inv d \<Longrightarrow> \<forall>(k, s) \<in> set (d_tcp d). tcp_slot k s"
  unfolding nat_inv_def using all_entries by blast

lemma update_global_rwnd_scale_inv:
  assumes "nat_inv d"
  shows "nat_inv (update_global_rwnd_scale d)"
proof -
  define p where "p = (case pressure_fn d of Some f \<Rightarrow> f (d_samples d) | None \<Rightarrow> 0)"
  define d1 where "d1 = (case pressure_fn d of Some f \<Rightarrow> d\<lparr>d_samples := Suc (d_samples d)\<rparr> | None \<Rightarrow> d)"
  define d2 where "d2 = d1\<lparr>d_io := (d_io d1)\<lparr>w_rwnd_scale := rwnd_scale p\<rparr>, last_rwnd_scale := rwnd_scale p\<rparr>"
  have d2: "nat_inv d2"
    using assms by (simp add: d2_def d1_def nat_inv_def rwnd_scale_le split: option.split)
  obtain t w where e: "each_session fan_out_window_update (d_tcp d2) (d_io d2) = (t, w)" by fastforce
  have "map fst t = map fst (d_tcp d2) \<and> (\<forall>(k, s) \<in> set t. tcp_slot k s) \<and> dials_allowed (w_calls w)
      \<and> w_rwnd_scale w = w_rwnd_scale (d_io d2)"
    by (rule each_session_ok [OF _ _ tcp_slots [OF d2] _ e]) (use d2 in \<open>simp_all add: fan_out_inv nat_inv_def\<close>)
  then have "nat_inv (d2\<lparr>d_tcp := t, d_io := w\<rparr>)"
    using d2 by (intro tcp_table_inv) (simp_all add: nat_inv_def)
  then show ?thesis
    using d2 e unfolding update_global_rwnd_scale_def d2_def d1_def p_def
    by (auto simp: Let_def split: option.splits)
qed


lemma retain_udp_ok:
  assumes "dials_allowed (w_calls w)" "retain_udp now idle t w = (t', w')"
  shows "t' = filter (\<lambda>(k, s). now - last_ms s \<le> idle) t \<and> dials_allowed (w_calls w')
    \<and> w_rwnd_scale w' = w_rwnd_scale w"
  using assms
proof (induction t arbitrary: w t')
  case (Cons x t)
  obtain k s where x: "x = (k, s)" by (cases x)
  show ?case
  proof (cases "now - last_ms s \<le> idle")
    case True
    then obtain t1 where "retain_udp now idle t w = (t1, w')" "t' = (k, s) # t1"
      using Cons.prems(2) x by (auto simp: Let_def split: prod.splits)
    with Cons.IH [OF Cons.prems(1)] True x show ?thesis by auto
  next
    case False
    then have r: "retain_udp now idle t (snd (udp_drop s w)) = (t', w')"
      using Cons.prems(2) x by (simp add: Let_def case_prod_unfold)
    show ?thesis
      using Cons.IH [OF udp_drop_ok(1) [OF Cons.prems(1)] r] False x udp_drop_ok(2) [of s w] by simp
  qed
qed simp

lemma tick_alive: "fst (tick now s) \<Longrightarrow> state (snd (tick now s)) \<noteq> Closed"
proof -
  have "state (zwp_timer now (tlp_timer now t)) = state t" for t
    using keep_viewD(1) [OF keep_view_fire_tlp, of now t] keep_viewD(1) [OF keep_view_zwp_fire]
    by (simp add: zwp_timer_def tlp_timer_def)
  then show "fst (tick now s) \<Longrightarrow> state (snd (tick now s)) \<noteq> Closed"
    unfolding tick_def Let_def by (auto split: if_splits)
qed

lemma tick_all_ok:
  assumes "\<forall>(k, s) \<in> set t. tcp_slot k s" "dials_allowed (w_calls w)" "tick_all now t w = (stale, t', w')"
  shows "map fst t' = map fst t \<and> (\<forall>(k, s) \<in> set t'. tcp_slot k s) \<and> dials_allowed (w_calls w')
    \<and> w_rwnd_scale w' = w_rwnd_scale w \<and> set stale \<subseteq> fst ` set t'
    \<and> (\<forall>(k, s) \<in> set t'. k \<notin> set stale \<longrightarrow> state s \<noteq> Closed)"
  using assms
proof (induction t arbitrary: w stale t')
  case (Cons x t)
  obtain k s where x: "x = (k, s)" by (cases x)
  obtain keep s' where tk: "tick now (s\<lparr>io := w\<rparr>) = (keep, s')" by fastforce
  have "tcp_inv (s\<lparr>io := w\<rparr>)" "key s = k" using Cons.prems x by (simp_all add: tcp_slot_def env_inv)
  then have s: "tcp_inv s'" "ident s' = (k, w_rwnd_scale w)"
    using tick_inv [of "s\<lparr>io := w\<rparr>" now] ident_tick [of now "s\<lparr>io := w\<rparr>"] tk by simp_all
  have alive: "state s' \<noteq> Closed" if keep
    using tick_alive [of now "s\<lparr>io := w\<rparr>"] that tk by simp
  obtain st1 t1 where r: "tick_all now t (io s') = (st1, t1, w')" "t' = (k, s') # t1"
    "stale = (if keep then st1 else k # st1)"
    using Cons.prems(3) x tk by (auto simp: Let_def split: prod.splits)
  have IH: "map fst t1 = map fst t \<and> (\<forall>(k, s) \<in> set t1. tcp_slot k s) \<and> dials_allowed (w_calls w')
    \<and> w_rwnd_scale w' = w_rwnd_scale (io s') \<and> set st1 \<subseteq> fst ` set t1
    \<and> (\<forall>(k, s) \<in> set t1. k \<notin> set st1 \<longrightarrow> state s \<noteq> Closed)"
    by (rule Cons.IH [OF _ tcp_inv_dials [OF s(1)] r(1)]) (use Cons.prems(1) in simp)
  show ?case using IH s r x identD [OF s(2)] alive by (auto simp: tcp_slot_def)
qed simp

lemma remove_tcp_inv: "nat_inv d \<Longrightarrow> nat_inv (remove_tcp k d)"
proof (cases "t_get (d_tcp d) k")
  case (Some s)
  assume inv: "nat_inv d"
  let ?t = "drop_session (s\<lparr>io := d_io d\<rparr>)"
  have "tcp_inv ?t" "ident ?t = (k, w_rwnd_scale (d_io d))"
    using lend_inv [OF inv Some] by (simp_all add: drop_inv)
  from return_inv(2) [OF inv this] Some show ?thesis
    by (simp add: remove_tcp_def nat_inv_def)
qed (simp add: remove_tcp_def)

lemma fold_remove_tcp_inv: "nat_inv d \<Longrightarrow> nat_inv (fold remove_tcp ks d)"
  by (induction ks arbitrary: d) (simp_all add: remove_tcp_inv)

lemma fold_t_del:
  "t_ok t \<Longrightarrow> t_ok (fold t_del ks t) \<and> length (fold t_del ks t) \<le> length t
     \<and> (\<forall>k. t_get (fold t_del ks t) k = (if k \<in> set ks then None else t_get t k))"
proof (induction ks arbitrary: t)
  case (Cons a ks)
  have "length (t_del a t) \<le> length t" using Cons.prems by (simp add: tbl.size_del)
  with Cons.IH [of "t_del a t"] Cons.prems show ?case by (auto simp: tbl.ok_del tbl.get_del)
qed simp

lemma frag_expire_inv: "nat_inv d \<Longrightarrow> nat_inv (d\<lparr>d_frag := fold t_del ks (d_frag d)\<rparr>)"
  using fold_t_del [of "d_frag d" ks] by (auto simp: nat_inv_def tbl.all_def split: if_splits)

lemma sweep_idle_inv:
  assumes "nat_inv d"
  shows "nat_inv (sweep_idle idle d)"
proof -
  define now where "now = w_clock (d_io d) (w_ticks (d_io d))"
  define d1 where "d1 = update_global_rwnd_scale (d\<lparr>d_io := (d_io d)\<lparr>w_ticks := Suc (w_ticks (d_io d))\<rparr>\<rparr>)"
  have d1: "nat_inv d1"
    unfolding d1_def by (rule update_global_rwnd_scale_inv) (use assms in \<open>simp add: nat_inv_def\<close>)
  obtain udp w where u: "retain_udp now idle (d_udp d1) (d_io d1) = (udp, w)" by fastforce
  have uo: "udp = filter (\<lambda>(k, s). now - last_ms s \<le> idle) (d_udp d1) \<and> dials_allowed (w_calls w)
      \<and> w_rwnd_scale w = w_rwnd_scale (d_io d1)"
    by (rule retain_udp_ok [OF _ u]) (use d1 in \<open>simp add: nat_inv_def\<close>)
  define d2 where "d2 = d1\<lparr>d_udp := udp, d_io := w\<rparr>"
  have "t_ok udp" using d1 uo ok_filter by (auto simp: nat_inv_def)
  moreover have "tbl.all udp_inv udp" if "tbl.all udp_inv (d_udp d1)" "t_ok (d_udp d1)"
    using that uo all_entries [OF that(2)] all_entries [OF \<open>t_ok udp\<close>] by auto
  ultimately have d2: "nat_inv d2" using d1 uo by (simp add: d2_def nat_inv_def)
  obtain stale tcp w3 where tk: "tick_all now (d_tcp d2) (d_io d2) = (stale, tcp, w3)" by (metis prod_cases3)
  have t: "map fst tcp = map fst (d_tcp d2) \<and> (\<forall>(k, s) \<in> set tcp. tcp_slot k s) \<and> dials_allowed (w_calls w3)
      \<and> w_rwnd_scale w3 = w_rwnd_scale (d_io d2)"
    using tick_all_ok [OF tcp_slots [OF d2] _ tk] d2 by (auto simp: nat_inv_def)
  have d3: "nat_inv (d2\<lparr>d_tcp := tcp, d_io := w3\<rparr>)"
    using d2 t by (intro tcp_table_inv) (simp_all add: nat_inv_def)
  define d4 where "d4 = fold remove_tcp stale (d2\<lparr>d_tcp := tcp, d_io := w3\<rparr>)"
  have d4: "nat_inv d4" unfolding d4_def by (rule fold_remove_tcp_inv [OF d3])
  define ks where "ks = map fst (filter (\<lambda>(k, e). now - fe_arrived_ms e > FRAG_EXPIRY_MS) (d_frag d4))"
  note d5 = frag_expire_inv [OF d4, of ks]
  have upd: "nat_inv (e\<lparr>last_stats_log_ms := a\<rparr>) = nat_inv e" "nat_inv (e\<lparr>flow_stats_snapshot := b\<rparr>) = nat_inv e" for e a b
    by (simp_all add: nat_inv_def)
  show ?thesis
    unfolding sweep_idle_def Let_def w_now_def prod.case now_def [symmetric] d1_def [symmetric] u
      d2_def [symmetric] tk d4_def [symmetric] ks_def [symmetric] upd
    using d5 upd by simp
qed

section \<open>Events and \<open>Drop\<close>\<close>

lemma tcp_event_inv: "nat_inv d \<Longrightarrow> nat_inv (tcp_event k ev d)"
proof (cases "t_get (d_tcp d) k")
  case (Some s)
  assume inv: "nat_inv d"
  let ?t = "on_host_event ev (s\<lparr>io := d_io d\<rparr>)"
  have "tcp_inv ?t" "ident ?t = (k, w_rwnd_scale (d_io d))"
    using lend_inv [OF inv Some] by (simp_all add: on_host_event_inv)
  from return_inv(1) [OF inv this] Some show ?thesis
    by (simp add: tcp_event_def Let_def nat_inv_def)
qed (simp add: tcp_event_def)

lemma udp_event_inv: "nat_inv d \<Longrightarrow> nat_inv (udp_event k ev d)"
proof (cases "t_get (d_udp d) k")
  case (Some s)
  assume inv: "nat_inv d"
  have u: "udp_inv k s" using inv Some tbl.all_get by (fastforce simp: nat_inv_def)
  from inv udp_on_event_ok(1) [OF u, of ev "d_io d"] udp_on_event_ok(2,3) [OF u, where w = "d_io d" and ev = ev] Some show ?thesis
    by (simp add: udp_event_def Let_def case_prod_unfold nat_inv_def table_laws)
qed (simp add: udp_event_def)

lemma drop_udps_ok:
  "dials_allowed (w_calls w) \<Longrightarrow> dials_allowed (w_calls (drop_udps t w))"
  "w_rwnd_scale (drop_udps t w) = w_rwnd_scale w"
  by (induction t w rule: drop_udps.induct) (simp_all add: udp_drop_ok)

lemma nat_drop_inv:
  assumes "nat_inv d"
  shows "nat_inv (nat_drop d)"
proof -
  obtain t w where e: "each_session drop_session (d_tcp d) (d_io d) = (t, w)" by fastforce
  have "dials_allowed (w_calls w) \<and> w_rwnd_scale w = w_rwnd_scale (d_io d)"
    using each_session_ok [OF drop_inv _ tcp_slots [OF assms] _ e] assms by (simp add: nat_inv_def)
  with assms e show ?thesis
    by (simp add: nat_drop_def nat_inv_def drop_udps_ok t_ok_def tbl.all_def t_get_def)
qed

section \<open>Reachable dispatchers\<close>

inductive nat_step :: "nat_dispatcher \<Rightarrow> nat_dispatcher \<Rightarrow> bool" where
  packet: "nat_step d (snd (process data d))"
| tcp_ready: "nat_step d (tcp_event k ev d)"
| udp_ready: "nat_step d (udp_event k r d)"
| sweep: "nat_step d (sweep_idle idle d)"
| sampler: "nat_step d (set_pressure_fn f d)"
| teardown: "nat_step d (nat_drop d)"
| elsewhere: "dials_allowed (w_calls w) \<Longrightarrow> w_rwnd_scale w = w_rwnd_scale (d_io d) \<Longrightarrow> nat_step d (d\<lparr>d_io := w\<rparr>)"

inductive nat_reach :: "nat_dispatcher \<Rightarrow> bool" where
  new: "dials_allowed (w_calls w) \<Longrightarrow> nat_reach (nat_new i w)"
| step: "nat_reach d \<Longrightarrow> nat_step d e \<Longrightarrow> nat_reach e"

inductive_cases nat_stepE: "nat_step d e"

lemma nat_step_inv: "nat_step d e \<Longrightarrow> nat_inv d \<Longrightarrow> nat_inv e"
  by (elim nat_stepE)
     (simp_all add: process_inv tcp_event_inv udp_event_inv sweep_idle_inv nat_drop_inv,
      simp_all add: set_pressure_fn_def nat_inv_def)

text \<open>C2. Whatever a client sends, in whatever order, and however host sockets, sweeps and the
  pressure sampler interleave with it, the dispatcher keeps its invariant: no key is in a table
  twice; every UDP session holds an open, registered socket; every TCP session sits under its own
  flow key and satisfies the session invariant; at most 64 fragment streams are held, each with at
  most 65535 bytes, an exact byte count, parts that lie inside the datagram, and still incomplete;
  the window scale is at most 1000 and is the one the sessions see; and no destination that the
  filter blocks was ever dialled, over TCP or UDP.\<close>

theorem reachable_nat_inv:
  assumes "nat_reach d"
  shows "nat_inv d"
  using assms by induction (simp_all add: nat_inv_new nat_step_inv)


text \<open>A dispatcher that has just routed a SYN for 1.1.1.1:443.\<close>

definition sample_syn_build :: tcp_build where
  "sample_syn_build = \<lparr>tb_src = v4_from_bytes [10, 8, 0, 2], tb_dst = v4_from_bytes [1, 1, 1, 1],
     tb_src_port = 4000, tb_dst_port = 443, tb_seq = 100, tb_ack = 0, tb_flags = TCP_SYN, tb_window = 0xFFFF,
     tb_options = [], tb_payload = []\<rparr>"

definition sample_nat :: nat_dispatcher where
  "sample_nat = snd (process (tcp_packet sample_syn_build) (nat_new 1 sample_world))"

theorem reachable_nat_inv_witness:
  "nat_reach (sweep_idle UDP_IDLE_MS sample_nat) \<and> nat_inv (sweep_idle UDP_IDLE_MS sample_nat)"
proof -
  have "nat_reach (sweep_idle UDP_IDLE_MS sample_nat)"
    unfolding sample_nat_def
    by (intro nat_reach.step [OF nat_reach.step [OF nat_reach.new nat_step.packet] nat_step.sweep])
       (simp add: sample_world_def)
  then show ?thesis using reachable_nat_inv by blast
qed

end
