(* ===== verification/Nat_Sweep.thy ===== *)
theory Nat_Sweep
  imports Nat_Inv
begin

text \<open>
  What a sweep achieves, the receive-window scale as a function of the queue pressure, what the
  statistics count, which segments are ignored, and the registry of dispatchers that the reactor
  sweeps (\<open>nat/sweep.rs\<close>).
\<close>

section \<open>The window scale\<close>

text \<open>The window scale is full up to pressure 500, zero from pressure 900 on, linear in
  between, and never grows with the pressure; the 16- and 32-bit arithmetic neither underflows nor
  wraps.\<close>

theorem rwnd_scale_ramp:
  "(unat p \<le> unat q \<longrightarrow> unat (rwnd_scale q) \<le> unat (rwnd_scale p)) \<and> unat (rwnd_scale p) \<le> 1000
   \<and> unat (rwnd_scale p)
       = (if unat p \<le> 500 then 1000 else if unat p < 900 then (900 - unat p) * 5 div 2 else 0)"
proof (intro conjI impI)
  show "unat (rwnd_scale q) \<le> unat (rwnd_scale p)" if "unat p \<le> unat q"
    unfolding unat_rwnd_scale using that by (auto intro: div_le_mono)
  show "unat (rwnd_scale p) \<le> 1000"
    using rwnd_scale_le [of p] by (simp add: word_le_nat_alt GLOBAL_RWND_SCALE_FULL_def)
  show "unat (rwnd_scale p) = (if unat p \<le> 500 then 1000 else if unat p < 900 then (900 - unat p) * 5 div 2 else 0)"
    unfolding unat_rwnd_scale by auto
qed

theorem rwnd_scale_ramp_witness:
  "unat (rwnd_scale 800) \<le> unat (rwnd_scale 700) \<and> unat (rwnd_scale 700) = 500"
  using rwnd_scale_ramp [of 700 800] by simp

section \<open>After a sweep\<close>

lemma d_tcp_remove_tcp: "t_ok (d_tcp d) \<Longrightarrow> d_tcp (remove_tcp k d) = t_del k (d_tcp d)"
  by (auto simp: remove_tcp_def t_get_def t_del_def map_of_eq_None_iff delete_id split: option.split)

lemma t_ok_t_del: "t_ok t \<Longrightarrow> t_ok (t_del k t)"
  by (rule tbl.ok_del)

lemma d_tcp_fold_remove:
  "t_ok (d_tcp d) \<Longrightarrow> d_tcp (fold remove_tcp ks d) = fold t_del ks (d_tcp d)"
  by (induction ks arbitrary: d) (simp_all add: d_tcp_remove_tcp t_ok_t_del)

lemma set_fold_t_del: "set (fold t_del ks t) = {(k, v) \<in> set t. k \<notin> set ks}"
  by (induction ks arbitrary: t) (auto simp: t_del_def AList.delete_eq)

lemma remove_tcp_rest [simp]:
  "d_udp (remove_tcp k d) = d_udp d" "d_frag (remove_tcp k d) = d_frag d"
  by (simp_all add: remove_tcp_def split: option.split)

lemma fold_remove_rest [simp]:
  "d_udp (fold remove_tcp ks d) = d_udp d" "d_frag (fold remove_tcp ks d) = d_frag d"
  by (induction ks arbitrary: d) simp_all

lemma rwnd_rest [simp]:
  "d_udp (update_global_rwnd_scale d) = d_udp d" "d_frag (update_global_rwnd_scale d) = d_frag d"
  by (simp_all add: update_global_rwnd_scale_def Let_def case_prod_unfold split: option.split)

text \<open>C31. After a sweep no TCP session in the table is closed, no UDP flow has been idle longer
  than the limit, no fragment stream is older than thirty seconds, nothing was dropped that should
  have stayed, and the published statistics are those of the tables.\<close>

theorem sweep_leaves_live_flows:
  fixes d :: nat_dispatcher and idle :: u32
  assumes "nat_inv d"
  defines "now \<equiv> w_clock (d_io d) (w_ticks (d_io d))" and "d' \<equiv> sweep_idle idle d"
  shows "(\<forall>(k, s) \<in> set (d_tcp d'). state s \<noteq> Closed)
    \<and> d_udp d' = filter (\<lambda>(k, s). now - last_ms s \<le> idle) (d_udp d)
    \<and> set (d_frag d') = {(k, e) \<in> set (d_frag d). now - fe_arrived_ms e \<le> FRAG_EXPIRY_MS}
    \<and> flow_stats d' = compute_flow_stats d'"
proof -
  define d1 where "d1 = update_global_rwnd_scale (d\<lparr>d_io := (d_io d)\<lparr>w_ticks := Suc (w_ticks (d_io d))\<rparr>\<rparr>)"
  have d1: "nat_inv d1"
    unfolding d1_def by (rule update_global_rwnd_scale_inv) (use assms in \<open>simp add: nat_inv_def\<close>)
  have keep: "d_udp d1 = d_udp d" "d_frag d1 = d_frag d" by (simp_all add: d1_def)
  obtain udp w where u: "retain_udp now idle (d_udp d1) (d_io d1) = (udp, w)" by fastforce
  have uo: "udp = filter (\<lambda>(k, s). now - last_ms s \<le> idle) (d_udp d1)" "dials_allowed (w_calls w)"
    using retain_udp_ok [OF _ u] d1 by (auto simp: nat_inv_def)
  define d2 where "d2 = d1\<lparr>d_udp := udp, d_io := w\<rparr>"
  obtain stale tcp w3 where tk: "tick_all now (d_tcp d2) (d_io d2) = (stale, tcp, w3)" by (metis prod_cases3)
  have slots: "\<forall>(k, s) \<in> set (d_tcp d2). tcp_slot k s" using tcp_slots [OF d1] by (simp add: d2_def)
  have tko: "map fst tcp = map fst (d_tcp d1)" "\<forall>(k, s) \<in> set tcp. k \<notin> set stale \<longrightarrow> state s \<noteq> Closed"
    using tick_all_ok [OF slots _ tk] uo(2) by (auto simp: d2_def)
  have "t_ok tcp" using d1 tko(1) by (simp add: nat_inv_def t_ok_def)
  define d4 where "d4 = fold remove_tcp stale (d2\<lparr>d_tcp := tcp, d_io := w3\<rparr>)"
  have d4: "d_tcp d4 = fold t_del stale tcp" "d_udp d4 = udp" "d_frag d4 = d_frag d"
    using \<open>t_ok tcp\<close> keep by (simp_all add: d4_def d_tcp_fold_remove d2_def)
  define ks where "ks = map fst (filter (\<lambda>(k, e). now - fe_arrived_ms e > FRAG_EXPIRY_MS) (d_frag d4))"
  define d5 where "d5 = d4\<lparr>d_frag := fold t_del ks (d_frag d4)\<rparr>"
  define d6 where "d6 = (if w_debug (d_io d5) \<and> now - last_stats_log_ms d5 > 5000
    then d5\<lparr>last_stats_log_ms := now\<rparr> else d5)"
  have d': "d' = d6\<lparr>flow_stats_snapshot := compute_flow_stats d6\<rparr>"
    unfolding d'_def sweep_idle_def Let_def w_now_def prod.case now_def [symmetric] d1_def [symmetric] u
      d2_def [symmetric] tk d4_def [symmetric] ks_def [symmetric] d5_def [symmetric] d6_def [symmetric]
    by (rule refl)
  have f: "d_tcp d' = fold t_del stale tcp" "d_udp d' = udp" "d_frag d' = fold t_del ks (d_frag d)"
    by (simp_all add: d' d6_def d5_def d4)
  have "distinct (map fst (d_frag d))" using assms(1) by (simp add: nat_inv_def t_ok_def)
  then have "set (d_frag d') = {(k, e) \<in> set (d_frag d). now - fe_arrived_ms e \<le> FRAG_EXPIRY_MS}"
    unfolding f set_fold_t_del ks_def d4(3)
    by (auto simp: not_less dest: eq_key_imp_eq_value) force
  moreover have "flow_stats d' = compute_flow_stats d'"
    by (simp add: flow_stats_def d' compute_flow_stats_def)
  ultimately show ?thesis
    using f(1,2) tko(2) uo(1) keep by (auto simp: set_fold_t_del)
qed


definition sample_idle :: nat_dispatcher where
  "sample_idle = (nat_new 1 (sample_world\<lparr>w_clock := (\<lambda>_. 90000)\<rparr>))\<lparr>
     d_udp := [(u_key sample_dns, sample_dns)], d_tcp := [(sample_key, tcp_new sample_key sample_world)]\<rparr>"

theorem sweep_leaves_live_flows_witness:
  "d_udp (sweep_idle UDP_IDLE_MS sample_idle) = [] \<and> d_frag (sweep_idle UDP_IDLE_MS sample_idle) = []
   \<and> list_all (\<lambda>(k, s). state s \<noteq> Closed) (d_tcp (sweep_idle UDP_IDLE_MS sample_idle))"
proof -
  have k: "key (tcp_new sample_key sample_world) = sample_key" by (simp add: tcp_new_def)
  have "tcp_inv (tcp_new sample_key sample_world)" by (rule new_inv) (simp add: sample_world_def)
  then have "nat_inv sample_idle"
    using k by (auto simp: nat_inv_def sample_idle_def nat_new_def t_ok_def tbl.all_def t_get_def udp_inv_def
        tcp_slot_def sample_dns_def sample_world_def split: if_splits)
  note s = sweep_leaves_live_flows [OF this, of UDP_IDLE_MS]
  have "d_udp sample_idle = [(u_key sample_dns, sample_dns)]" "d_frag sample_idle = []"
    "w_clock (d_io sample_idle) n = 90000" "last_ms sample_dns = 1000" for n
    by (simp_all add: sample_idle_def nat_new_def last_ms_def sample_dns_def)
  with s show ?thesis by (simp add: UDP_IDLE_MS_def list_all_iff)
qed

section \<open>Statistics\<close>

lemma state_u8_less: "state_u8 st < 11"
  by (cases st) simp_all

lemma state_u8_inj: "state_u8 a = state_u8 b \<longleftrightarrow> a = b"
  by (cases a; cases b) simp_all

lemma count_sessions:
  assumes "length (tcp_state_counts s) = 11"
  shows "length (tcp_state_counts (fold count_session ts s)) = 11
    \<and> tcp_state_counts (fold count_session ts s) ! state_u8 st
        = tcp_state_counts s ! state_u8 st + of_nat (length (filter (\<lambda>t. state t = st) ts))"
  using assms
proof (induction ts arbitrary: s)
  case (Cons t ts)
  have "length (tcp_state_counts (count_session t s)) = 11"
    "tcp_state_counts (count_session t s) ! state_u8 st
      = tcp_state_counts s ! state_u8 st + (if state t = st then 1 else 0)"
    using Cons.prems state_u8_less [of "state t"] state_u8_less [of st] state_u8_inj [of "state t" st]
    by (simp_all add: count_session_def Let_def nth_list_update)
  with Cons.IH [of "count_session t s"] show ?case by simp
qed simp

text \<open>The statistics snapshot counts, for every TCP state, exactly the sessions of the table
  that are in that state, and the totals are the sizes of the tables (at \<open>u32\<close> width).\<close>

theorem stats_count_states:
  "tcp_state_counts (compute_flow_stats d) ! state_u8 st
     = of_nat (length (filter (\<lambda>(k, s). state s = st) (d_tcp d)))
   \<and> length (tcp_state_counts (compute_flow_stats d)) = 11
   \<and> tcp_flows (compute_flow_stats d) = of_nat (length (d_tcp d))
   \<and> udp_flows (compute_flow_stats d) = of_nat (length (d_udp d))"
proof -
  have flows: "tcp_flows (fold count_session ts s) = tcp_flows s" "udp_flows (fold count_session ts s) = udp_flows s" for ts s
    by (induction ts arbitrary: s) (simp_all add: count_session_def Let_def)
  have f: "length (filter (\<lambda>t. state t = st) (map snd t)) = length (filter (\<lambda>(k, s). state s = st) t)"
    for t :: "(flow_key, tcp_session) table"
    by (induction t) auto
  define s where "s = stats_default\<lparr>tcp_flows := of_nat (length (d_tcp d)), udp_flows := of_nat (length (d_udp d))\<rparr>"
  have s: "length (tcp_state_counts s) = 11" "tcp_state_counts s ! state_u8 st = 0"
    using state_u8_less [of st] by (simp_all add: s_def stats_default_def del: replicate.simps)
  show ?thesis
    using count_sessions [OF s(1), of "map snd (d_tcp d)" st] s(2) f flows
    unfolding compute_flow_stats_def Let_def s_def [symmetric] by (simp add: s_def)
qed

section \<open>The sweep registry\<close>

text \<open>Dispatchers live in boxes at stable addresses; the registry holds the addresses that the
  reactor's tick dereferences. The tick copies the addresses under the registry's lock and releases it; each
  dereference is a step of its own, and other threads come in between. The heap is a table from addresses to
  dispatchers; \<open>dangled\<close> records the dereference of a freed address.\<close>

record sweep_state =
  boxes :: "(nat, nat_dispatcher) table"
  registry :: "nat list"
  tick_installed :: bool
  reactor_tick :: bool
  sweeping :: "nat list option"
  dangled :: bool

definition sweep_init :: sweep_state where
  "sweep_init = \<lparr>boxes = [], registry = [], tick_installed = False, reactor_tick = False, sweeping = None, dangled = False\<rparr>"

definition install_tick :: "sweep_state \<Rightarrow> sweep_state" where
  "install_tick g =
     (if tick_installed g then g else g\<lparr>tick_installed := True, reactor_tick := True\<rparr>)"

definition sweep_register :: "nat \<Rightarrow> sweep_state \<Rightarrow> sweep_state" where
  "sweep_register addr g = install_tick (g\<lparr>registry := List.insert addr (registry g)\<rparr>)"

definition sweep_unregister :: "nat \<Rightarrow> sweep_state \<Rightarrow> sweep_state" where
  "sweep_unregister addr g = g\<lparr>registry := removeAll addr (registry g)\<rparr>"

text \<open>The tick: the copy, one turn of the loop, and a tick nothing interrupts.\<close>

definition sweep_begin :: "sweep_state \<Rightarrow> sweep_state" where
  "sweep_begin g = g\<lparr>sweeping := Some (registry g)\<rparr>"

definition sweep_next :: "sweep_state \<Rightarrow> sweep_state" where
  "sweep_next g =
     (case sweeping g of
        None \<Rightarrow> g
      | Some [] \<Rightarrow> g\<lparr>sweeping := None\<rparr>
      | Some (a # as) \<Rightarrow>
          (case t_get (boxes g) a of
             None \<Rightarrow> g\<lparr>dangled := True, sweeping := Some as\<rparr>
           | Some d \<Rightarrow> g\<lparr>boxes := t_put a (sweep_idle UDP_IDLE_MS d) (boxes g), sweeping := Some as\<rparr>))"

definition sweep_tick :: "sweep_state \<Rightarrow> sweep_state" where
  "sweep_tick g = (sweep_next ^^ Suc (length (registry g))) (sweep_begin g)"

definition create_boxed :: "nat \<Rightarrow> u64 \<Rightarrow> world \<Rightarrow> sweep_state \<Rightarrow> sweep_state" where
  "create_boxed addr i w g =
     (let n = (nat_new i w)\<lparr>registered_for_sweep := True\<rparr>
      in sweep_register addr (g\<lparr>boxes := t_put addr n (boxes g)\<rparr>))"

definition drop_boxed :: "nat \<Rightarrow> sweep_state \<Rightarrow> sweep_state" where
  "drop_boxed addr g =
     (case t_get (boxes g) addr of
        None \<Rightarrow> g
      | Some d \<Rightarrow>
          let g = (if registered_for_sweep d then sweep_unregister addr g else g)
          in g\<lparr>boxes := t_del addr (boxes g)\<rparr>)"

text \<open>No operation of a dispatcher touches its registration flag.\<close>

lemma registered_flows [simp]:
  "registered_for_sweep (snd (handle_udp k p d)) = registered_for_sweep d"
  "registered_for_sweep (snd (handle_tcp k q d)) = registered_for_sweep d"
  "registered_for_sweep (snd (route_l4 pkt d)) = registered_for_sweep d"
proof -
  show u: "registered_for_sweep (snd (handle_udp k p d)) = registered_for_sweep d" for k p d
    by (simp add: handle_udp_def Let_def case_prod_unfold split: option.split)
  show t: "registered_for_sweep (snd (handle_tcp k q d)) = registered_for_sweep d" for k q d
    by (simp add: handle_tcp_def Let_def case_prod_unfold)
  show r: "registered_for_sweep (snd (route_l4 pkt d)) = registered_for_sweep d" for pkt d
    by (simp add: route_l4_def Let_def u t)
qed

lemma registered_fragment:
  assumes "parse data = Some p"
  shows "registered_for_sweep (snd (handle_fragment p d)) = registered_for_sweep d"
proof -
  have "registered_for_sweep (make_room k d) = registered_for_sweep d" for k d
    by (simp add: make_room_def split: option.split)
  then show ?thesis
    unfolding handle_fragment_eq [OF assms] Let_def by (simp split: option.split)
qed

lemma registered_remove [simp]: "registered_for_sweep (fold remove_tcp ks d) = registered_for_sweep d"
  by (induction ks arbitrary: d) (simp_all add: remove_tcp_def split: option.split)

lemma registered_rwnd [simp]: "registered_for_sweep (update_global_rwnd_scale d) = registered_for_sweep d"
  by (simp add: update_global_rwnd_scale_def Let_def case_prod_unfold split: option.split)

lemma registered_sweep [simp]: "registered_for_sweep (sweep_idle idle d) = registered_for_sweep d"
  by (simp add: sweep_idle_def Let_def case_prod_unfold)

lemma nat_step_registered: "nat_step d e \<Longrightarrow> registered_for_sweep e = registered_for_sweep d"
  by (elim nat_stepE)
     (simp_all add: process_def tcp_event_def udp_event_def set_pressure_fn_def nat_drop_def Let_def
       case_prod_unfold registered_fragment split: option.split)

text \<open>Any thread creates dispatchers at any time, also during a tick. The tick, the packets and events of
  the dispatchers and the drops run on the reactor's thread, so no drop falls into a tick: this is the discipline
  the tick relies on.\<close>

inductive sweep_step :: "sweep_state \<Rightarrow> sweep_state \<Rightarrow> bool" where
  create: "t_get (boxes g) a = None \<Longrightarrow> sweep_step g (create_boxed a i w g)"
| drop: "sweeping g = None \<Longrightarrow> sweep_step g (drop_boxed a g)"
| tick: "sweeping g = None \<Longrightarrow> sweep_step g (sweep_begin g)"
| turn: "sweep_step g (sweep_next g)"
| run: "t_get (boxes g) a = Some d \<Longrightarrow> nat_step d e \<Longrightarrow> sweep_step g (g\<lparr>boxes := t_put a e (boxes g)\<rparr>)"

inductive sweep_reach :: "sweep_state \<Rightarrow> bool" where
  init: "sweep_reach sweep_init"
| step: "sweep_reach g \<Longrightarrow> sweep_step g g' \<Longrightarrow> sweep_reach g'"

definition live :: "sweep_state \<Rightarrow> nat \<Rightarrow> bool" where
  "live g a \<longleftrightarrow> map_option registered_for_sweep (t_get (boxes g) a) = Some True"

definition to_sweep :: "sweep_state \<Rightarrow> nat list" where
  "to_sweep g = (case sweeping g of None \<Rightarrow> [] | Some as \<Rightarrow> as)"

text \<open>Registered addresses, and those a tick has copied and not yet dereferenced, are those of live boxes.\<close>

definition sweep_inv :: "sweep_state \<Rightarrow> bool" where
  "sweep_inv g \<longleftrightarrow> (\<forall>a \<in> set (registry g) \<union> set (to_sweep g). live g a) \<and> distinct (registry g)
     \<and> reactor_tick g = tick_installed g \<and> (registry g = [] \<or> tick_installed g) \<and> \<not> dangled g"

lemma sweep_next_inv:
  assumes "sweep_inv g"
  shows "sweep_inv (sweep_next g)"
proof (cases "\<exists>a as. sweeping g = Some (a # as)")
  case True
  then obtain a "as" where q: "sweeping g = Some (a # as)" by blast
  then have "live g a" using assms by (simp add: sweep_inv_def to_sweep_def)
  then obtain d where d: "t_get (boxes g) a = Some d" "registered_for_sweep d" by (auto simp: live_def)
  have g': "sweep_next g = g\<lparr>boxes := t_put a (sweep_idle UDP_IDLE_MS d) (boxes g), sweeping := Some as\<rparr>"
    using q d by (simp add: sweep_next_def)
  have "live (sweep_next g) b = live g b" for b using d by (simp add: g' live_def tbl.get_put)
  then show ?thesis using assms q by (auto simp: sweep_inv_def to_sweep_def g')
next
  case False
  then have "sweep_next g = g \<or> sweep_next g = g\<lparr>sweeping := None\<rparr>"
    by (auto simp: sweep_next_def split: option.split list.split)
  moreover have "sweep_inv (g\<lparr>sweeping := None\<rparr>)" using assms by (simp add: sweep_inv_def to_sweep_def live_def)
  ultimately show ?thesis using assms by auto
qed

lemma sweep_step_inv:
  assumes "sweep_step g g'" "sweep_inv g"
  shows "sweep_inv g'"
  using assms(1)
proof cases
  case (create a i w)
  with assms(2) show ?thesis
    by (auto simp: create_boxed_def Let_def sweep_register_def install_tick_def live_def tbl.get_put sweep_inv_def to_sweep_def)
next
  case (drop a)
  with assms(2) show ?thesis
    by (auto simp: drop_boxed_def Let_def sweep_unregister_def live_def tbl.get_del sweep_inv_def to_sweep_def
        distinct_removeAll split: option.splits)
next
  case tick
  with assms(2) show ?thesis by (auto simp: sweep_begin_def sweep_inv_def to_sweep_def live_def)
next
  case turn
  then show ?thesis using sweep_next_inv [OF assms(2)] by simp
next
  case (run a d e)
  have "live g' b = live g b" for b using run nat_step_registered [OF run(3)] by (simp add: live_def tbl.get_put)
  then show ?thesis using assms(2) run(1) by (simp add: sweep_inv_def to_sweep_def)
qed

lemma sweep_reach_inv: "sweep_reach g \<Longrightarrow> sweep_inv g"
proof (induction rule: sweep_reach.induct)
  case (step g g')
  then show ?case using sweep_step_inv by blast
qed (simp add: sweep_init_def sweep_inv_def to_sweep_def)

lemma sweep_turns:
  assumes "sweeping g = Some as" "distinct as" "\<forall>a \<in> set as. t_get (boxes g) a \<noteq> None"
  shows "sweeping ((sweep_next ^^ Suc (length as)) g) = None \<and>
    (\<forall>a. t_get (boxes ((sweep_next ^^ Suc (length as)) g)) a =
       (if a \<in> set as then map_option (sweep_idle UDP_IDLE_MS) (t_get (boxes g) a) else t_get (boxes g) a))"
  using assms
proof (induction "as" arbitrary: g)
  case Nil
  then show ?case by (simp add: sweep_next_def)
next
  case (Cons a "as")
  then obtain d where d: "t_get (boxes g) a = Some d" by auto
  let ?g = "g\<lparr>boxes := t_put a (sweep_idle UDP_IDLE_MS d) (boxes g), sweeping := Some as\<rparr>"
  have e: "sweep_next g = ?g" using Cons.prems d by (simp add: sweep_next_def)
  have "(sweep_next ^^ Suc (length (a # as))) g = (sweep_next ^^ Suc (length as)) ?g"
    by (simp add: funpow_swap1 e)
  moreover have "\<forall>a \<in> set as. t_get (boxes ?g) a \<noteq> None" using Cons.prems by (simp add: tbl.get_put)
  ultimately show ?case using Cons.IH [of ?g] Cons.prems d by (auto simp: tbl.get_put)
qed

text \<open>C32. As long as dispatchers are dropped on the reactor's thread, the sweep tick never dereferences a
  dropped one, however the turns of a tick interleave with creations on other threads and with the dispatchers'
  own work: no freed address was dereferenced, and every address a running tick has still to visit is that of a
  live box. While one is registered the tick is installed in the reactor, and a tick that starts now sweeps every
  registered dispatcher exactly once and touches no other box.\<close>

theorem sweep_never_dangles:
  assumes "sweep_reach g"
  shows "\<not> dangled g \<and> (\<forall>a as. sweeping g = Some as \<and> a \<in> set as \<longrightarrow> t_get (boxes g) a \<noteq> None)
    \<and> (registry g \<noteq> [] \<longrightarrow> reactor_tick g)
    \<and> (\<forall>a. t_get (boxes (sweep_tick g)) a =
         (if a \<in> set (registry g) then map_option (sweep_idle UDP_IDLE_MS) (t_get (boxes g) a) else t_get (boxes g) a))"
proof -
  have i: "sweep_inv g" using assms by (rule sweep_reach_inv)
  then have l: "\<forall>a \<in> set (registry g) \<union> set (to_sweep g). t_get (boxes g) a \<noteq> None"
    unfolding sweep_inv_def live_def by fastforce
  have "\<forall>a. t_get (boxes (sweep_tick g)) a =
         (if a \<in> set (registry g) then map_option (sweep_idle UDP_IDLE_MS) (t_get (boxes g) a) else t_get (boxes g) a)"
    using sweep_turns [of "sweep_begin g" "registry g"] i l by (simp add: sweep_tick_def sweep_begin_def sweep_inv_def)
  then show ?thesis using i l by (auto simp: sweep_inv_def to_sweep_def)
qed

theorem sweep_never_dangles_witness:
  "\<exists>g. sweep_reach g \<and> registry g = [5] \<and> sweeping g = Some [5] \<and> t_get (boxes g) 5 \<noteq> None \<and> reactor_tick g \<and> \<not> dangled g"
proof -
  define g where "g = sweep_begin (create_boxed 5 1 sample_world sweep_init)"
  have "sweep_reach (create_boxed 5 1 sample_world sweep_init)"
    by (rule sweep_reach.step [OF sweep_reach.init sweep_step.create]) (simp add: sweep_init_def t_get_def)
  moreover have "sweeping (create_boxed 5 1 sample_world sweep_init) = None"
    by (simp add: create_boxed_def Let_def sweep_register_def install_tick_def sweep_init_def)
  ultimately have r: "sweep_reach g" unfolding g_def using sweep_reach.step sweep_step.tick by blast
  have e: "registry g = [5]" "sweeping g = Some [5]"
    by (simp_all add: g_def sweep_begin_def create_boxed_def Let_def sweep_register_def install_tick_def sweep_init_def List.insert_def)
  then show ?thesis using r sweep_never_dangles [OF r] by (intro exI [of _ g]) simp
qed

text \<open>A drop on another thread between the copy and the dereference dangles.\<close>

lemma foreign_drop_dangles:
  "dangled (sweep_next (drop_boxed 5 (sweep_begin (create_boxed 5 1 w sweep_init))))"
  by (simp add: sweep_next_def drop_boxed_def sweep_begin_def create_boxed_def Let_def sweep_register_def sweep_unregister_def
      install_tick_def sweep_init_def List.insert_def tbl.get_put tbl.get_del)

end
