(* ===== verification/Frag_Reassembly.thy ===== *)
theory Frag_Reassembly
  imports Nat_Inv "HOL-Library.Multiset"
begin

text \<open>
  Reassembly in the dispatcher is the inverse of fragmentation, whatever order the fragments
  arrive in: feeding the pieces of a datagram to \<open>process\<close> in any order has the effect of handing
  the whole datagram to its flow, and leaves no trace in the fragment table. The pieces may be
  any tiling, in particular the one that the UDP relay itself cuts.
\<close>

section \<open>The stream of a set of pieces\<close>

type_synonym piece = "nat \<times> bool \<times> bytes"

definition part_of :: "piece \<Rightarrow> frag_part" where
  "part_of c = (case c of (off, mf, d) \<Rightarrow> \<lparr>fp_off = of_nat off, fp_len = of_nat (length d), fp_data = d\<rparr>)"

definition piece_len :: "piece \<Rightarrow> nat" where
  "piece_len c = length (snd (snd c))"

definition has_last :: "piece list \<Rightarrow> bool" where
  "has_last xs \<longleftrightarrow> (\<exists>c \<in> set xs. \<not> fst (snd c))"

definition stream :: "flow_key \<Rightarrow> u32 \<Rightarrow> nat \<Rightarrow> piece list \<Rightarrow> frag_entry" where
  "stream k t0 tot xs = \<lparr>fe_parts = map part_of xs, fe_proto = l4_u8 Udp, fe_src = dst k, fe_dst = src k,
     fe_total_len = (if has_last xs then int tot else -1),
     fe_accumulated = sum_list (map piece_len xs), fe_arrived_ms = t0\<rparr>"

definition stream_key :: "flow_key \<Rightarrow> u16 \<Rightarrow> frag_key" where
  "stream_key k ip_id = \<lparr>fk_src = dst k, fk_dst = src k, fk_proto = l4_u8 Udp, fk_ip_id = ip_id\<rparr>"

text \<open>The counters after some packets, and the state while the datagram is incomplete.\<close>

definition counted :: "piece list \<Rightarrow> nat_dispatcher \<Rightarrow> nat_dispatcher" where
  "counted xs d = d\<lparr>d_rx_pkts := d_rx_pkts d + of_nat (length xs),
     d_rx_bytes := d_rx_bytes d + of_nat (sum_list (map (\<lambda>c. 20 + piece_len c) xs)),
     d_io := (d_io d)\<lparr>w_ticks := w_ticks (d_io d) + length xs\<rparr>\<rparr>"

definition waiting :: "flow_key \<Rightarrow> u16 \<Rightarrow> nat \<Rightarrow> piece list \<Rightarrow> nat_dispatcher \<Rightarrow> nat_dispatcher" where
  "waiting k ip_id tot xs d =
     (if xs = [] then d
      else (counted xs d)\<lparr>d_frag := d_frag d
             @ [(stream_key k ip_id, stream k (w_clock (d_io d) (w_ticks (d_io d))) tot xs)]\<rparr>)"

section \<open>Pieces of one datagram\<close>

lemma tiles_piece:
  assumes "tiles 0 cs seg" "c \<in> set cs" "length seg \<le> 65515"
  shows "fst c mod 8 = 0" "fst c < 65536" "0 < piece_len c" "fst c + piece_len c \<le> length seg"
    "fst (snd c) \<longleftrightarrow> fst c + piece_len c < length seg"
proof -
  obtain off mf d where c: "c = (off, mf, d)" by (cases c)
  from tiles_bounds [OF assms(1), of off mf d] assms c
  show "fst c mod 8 = 0" "fst c < 65536" "0 < piece_len c" "fst c + piece_len c \<le> length seg"
    "fst (snd c) \<longleftrightarrow> fst c + piece_len c < length seg"
    by (auto simp: piece_len_def)
qed

lemma tiles_sum: "tiles off cs seg \<Longrightarrow> sum_list (map piece_len cs) = length seg"
proof (induction off cs seg rule: tiles.induct)
  case (2 off o1 mf1 d1 cs body)
  have "length d1 \<le> length body" using 2(2) by simp (metis length_take min.cobounded1)
  with 2 show ?case by (simp add: piece_len_def)
qed simp

lemma tiles_has_last: "tiles off cs seg \<Longrightarrow> cs \<noteq> [] \<Longrightarrow> has_last cs"
proof (induction off cs seg rule: tiles.induct)
  case (2 off o1 mf1 d1 cs body)
  then show ?case by (cases cs) (auto simp: has_last_def)
qed simp

lemma tiles_sorted: "tiles off cs seg \<Longrightarrow> sorted (map fst cs) \<and> (\<forall>c \<in> set cs. off \<le> fst c)"
proof (induction off cs seg rule: tiles.induct)
  case (2 off o1 mf1 d1 cs body)
  then show ?case by fastforce
qed simp

lemma tiles_distinct: "tiles off cs seg \<Longrightarrow> distinct (map fst cs)"
proof (induction off cs seg rule: tiles.induct)
  case (2 off o1 mf1 d1 cs body)
  then have "tiles (off + length d1) cs (drop (length d1) body)" "d1 \<noteq> []" "o1 = off" by auto
  with tiles_sorted [of "off + length d1" cs] 2(1) show ?case by fastforce
qed simp

lemma sort_parts:
  assumes "tiles 0 cs seg" "mset ds = mset cs" "length seg \<le> 65515"
  shows "sort_key (\<lambda>p. unat (fp_off p)) (map part_of ds) = map part_of cs"
proof (rule sort_key_inj_key_eq)
  have off: "unat (fp_off (part_of c)) = fst c" if "c \<in> set cs" for c
    using tiles_piece(2) [OF assms(1) that assms(3)] by (cases c) (simp add: part_of_def unat_of_nat_u16)
  show "mset (map part_of ds) = mset (map part_of cs)" using assms(2) by simp
  have set: "set ds = set cs" using assms(2) by (metis set_mset_mset)
  show "inj_on (\<lambda>p. unat (fp_off p)) (set (map part_of ds))"
  proof (rule inj_onI)
    fix x y assume "x \<in> set (map part_of ds)" "y \<in> set (map part_of ds)" "unat (fp_off x) = unat (fp_off y)"
    then obtain a b where ab: "x = part_of a" "a \<in> set cs" "y = part_of b" "b \<in> set cs" "fst a = fst b"
      using set off by auto
    with tiles_distinct [OF assms(1)] have "a = b" by (metis distinct_map inj_onD)
    with ab show "x = y" by simp
  qed
  have "map (\<lambda>p. unat (fp_off p)) (map part_of cs) = map fst cs" using off by simp
  then show "sorted (map (\<lambda>p. unat (fp_off p)) (map part_of cs))" using tiles_sorted [OF assms(1)] by presburger
qed

lemma part_of_simp:
  "part_of (off, mf, d) = \<lparr>fp_off = of_nat off, fp_len = of_nat (length d), fp_data = d\<rparr>"
  by (simp add: part_of_def)

lemma place_tiles:
  "tiles off cs body \<Longrightarrow> length pre = off \<Longrightarrow> off + length body < 65536 \<Longrightarrow>
     place_parts (map part_of cs) (pre @ replicate (length body) 0) off = (True, pre @ body, off + length body)"
proof (induction off cs body arbitrary: pre rule: tiles.induct)
  case (2 off o1 mf1 d1 cs body)
  have t: "o1 = off" "take (length d1) body = d1" "tiles (off + length d1) cs (drop (length d1) body)"
    using 2(2) by auto
  have ld: "length d1 \<le> length body" using t(2) by (metis length_take min.cobounded1)
  have u: "unat (of_nat off :: u16) = off" "unat (of_nat (length d1) :: u16) = length d1"
    using 2(4) ld by (simp_all add: unat_of_nat_u16)
  have cat: "d1 @ drop (length d1) body = body" using t(2) by (metis append_take_drop_id)
  have "replicate (length body) (0 :: u8) = replicate (length d1) 0 @ replicate (length (drop (length d1) body)) 0"
    using ld by (simp flip: replicate_add)
  then have put: "put_slice (pre @ replicate (length body) 0) off d1
      = (pre @ d1) @ replicate (length (drop (length d1) body)) 0"
    using 2(3) by (simp add: put_slice_def)
  have "place_parts (map part_of cs) ((pre @ d1) @ replicate (length (drop (length d1) body)) 0) (off + length d1)
      = (True, (pre @ d1) @ drop (length d1) body, off + length d1 + length (drop (length d1) body))"
    by (rule "2.IH" [OF t(3)]) (use 2(3,4) ld in simp_all)
  then show ?case
    using put u ld cat 2(3) t(1) part_of_simp [of off mf1 d1] by simp
qed simp


section \<open>Reassembly of a complete stream\<close>

lemma reassemble_stream:
  assumes "v4_flow k" "tiles 0 cs seg" "cs \<noteq> []" "mset ds = mset cs" "length seg \<le> 65515"
  obtains p where "reassemble (stream k t0 (length seg) ds) = Some p"
    and "p_proto p = l4_u8 Udp" "p_src p = dst k" "p_dst p = src k" "l4 p = seg" "l4_len p = length seg"
proof -
  let ?e = "stream k t0 (length seg) ds" and ?n = "length seg"
  have set: "set ds = set cs" using assms(4) by (metis set_mset_mset)
  have last: "has_last ds" using tiles_has_last [OF assms(2,3)] set by (simp add: has_last_def)
  have a: "is_v4 (dst k)" "is_v4 (src k)" "wf_addr (dst k)" "wf_addr (src k)"
    and l: "length (v4_octets (dst k)) = 4" "length (v4_octets (src k)) = 4"
    using assms(1) by (simp_all add: v4_flow_def length_v4_octets)
  have u: "unat (of_nat (20 + ?n) :: u16) = 20 + ?n" using assms(5) by (intro unat_of_nat_u16) simp
  have pl: "place_parts (map part_of cs) (replicate ?n 0) 0 = (True, seg, ?n)"
    using place_tiles [OF assms(2), of "[]"] assms(5) by simp
  define full where "full = (replicate (20 + ?n) 0 :: bytes)"
  have lf: "length full = 20 + ?n" by (simp add: full_def)
  have ff: "frag_field 0 False = 0" by (simp add: frag_field_def)
  have wr: "put_slice (write_ipv4_header_frag full (of_nat (20 + ?n)) (l4_u8 Udp) (dst k) (src k) 0 0 False) 20 seg
      = ipv4_hdr (of_nat (20 + ?n)) 0 0 (l4_u8 Udp) (v4_octets (dst k)) (v4_octets (src k)) @ seg"
    using write_ipv4_header_frag_eq [of full "dst k" "src k" "of_nat (20 + ?n)" "l4_u8 Udp" 0 0 False] lf a l
    by (simp add: ff put_slice_def)
  note P = parse_hdr [OF l u, of 0 0 "l4_u8 Udp" "[]", unfolded append_Nil2]
  note L = l4_parsed_hdr [OF l u, of 0 0 "l4_u8 Udp" "[]", unfolded append_Nil2, OF P]
  have "reassemble ?e = parse (ipv4_hdr (of_nat (20 + ?n)) 0 0 (l4_u8 Udp) (v4_octets (dst k)) (v4_octets (src k)) @ seg)"
    using sort_parts [OF assms(2,4,5)] last pl wr
    by (simp add: reassemble_def stream_def Let_def full_def [symmetric])
  then show thesis
    using that [of "the (reassemble ?e)"] P L a by (simp add: v4_from_bytes_octets)
qed

section \<open>One more fragment\<close>

lemma add_part_stream:
  assumes "frag_of k ip_id c p" "fst (snd c) \<longleftrightarrow> fst c + piece_len c < tot" "fst c + piece_len c \<le> tot"
  shows "add_part p (stream k t0 tot xs) = stream k t0 tot (xs @ [c])"
proof -
  obtain off mf d where c: "c = (off, mf, d)" by (cases c)
  note f = assms(1) [unfolded frag_of_def c prod.case]
  have "frag_offset_bytes p = of_nat (unat (frag_offset_bytes p))" by simp
  then have "frag_offset_bytes p = of_nat off" using f by metis
  moreover have "\<not> mf \<Longrightarrow> off + length d = tot" using assms(2,3) c by (simp add: piece_len_def)
  moreover have "unat (frag_offset_bytes p) = off" using f by simp
  ultimately show ?thesis
    using f c by (auto simp: add_part_def stream_def part_of_def piece_len_def has_last_def)
qed

lemma counted_snoc:
  "counted (xs @ [c]) d = (counted xs d)\<lparr>d_rx_pkts := d_rx_pkts (counted xs d) + 1,
     d_rx_bytes := d_rx_bytes (counted xs d) + of_nat (20 + piece_len c),
     d_io := (d_io (counted xs d))\<lparr>w_ticks := Suc (w_ticks (d_io (counted xs d)))\<rparr>\<rparr>"
  by (simp add: counted_def ac_simps)

lemma waiting_counters:
  "d_rx_pkts (waiting k i n xs d) = d_rx_pkts (counted xs d)" "d_rx_bytes (waiting k i n xs d) = d_rx_bytes (counted xs d)"
  "d_io (waiting k i n xs d) = d_io (counted xs d)"
  by (simp_all add: waiting_def counted_def)


lemma waiting_table:
  assumes "t_get (d_frag d) (stream_key k i) = None"
  defines "t0 \<equiv> w_clock (d_io d) (w_ticks (d_io d))"
  shows "t_get (d_frag (waiting k i n xs d)) (stream_key k i) = (if xs = [] then None else Some (stream k t0 n xs))"
    "t_del (stream_key k i) (d_frag (waiting k i n xs d)) = d_frag d"
    "t_put (stream_key k i) e (d_frag (waiting k i n xs d)) = d_frag d @ [(stream_key k i, e)]"
proof -
  have app: "map_of (t @ [(j, v)]) j = Some v" if "map_of t j = None" for t :: "(frag_key, frag_entry) table" and j v
    using that by (induction t) auto
  have put: "d_frag d @ [(stream_key k i, v)] = t_put (stream_key k i) v (d_frag d)" for v
    using put_fresh [OF assms(1)] by simp
  have del: "t_del (stream_key k i) (d_frag d) = d_frag d"
    using assms(1) by (simp add: t_get_def t_del_def map_of_eq_None_iff)
  show "t_get (d_frag (waiting k i n xs d)) (stream_key k i) = (if xs = [] then None else Some (stream k t0 n xs))"
    using assms app by (simp add: waiting_def t_get_def)
  show "t_del (stream_key k i) (d_frag (waiting k i n xs d)) = d_frag d"
    using del put_del_fresh [OF assms(1)] by (simp add: waiting_def put)
  show "t_put (stream_key k i) e (d_frag (waiting k i n xs d)) = d_frag d @ [(stream_key k i, e)]"
    unfolding put [of e] by (simp add: waiting_def put put_again)
qed

lemma fragment_step:
  assumes fresh: "t_get (d_frag d) (stream_key k i) = None" and room: "length (d_frag d) < MAX_FRAG_STREAMS"
    and p: "parse pkt = Some p" "frag_of k i c p" "is_fragment p" "length pkt = 20 + piece_len c"
    and c: "fst (snd c) \<longleftrightarrow> fst c + piece_len c < n" "fst c + piece_len c \<le> n"
    and n: "n \<le> 65515" "sum_list (map piece_len (xs @ [c])) \<le> n"
  shows "process pkt (waiting k i n xs d) =
    (if \<not> has_last (xs @ [c]) \<or> sum_list (map piece_len (xs @ [c])) < n then (True, waiting k i n (xs @ [c]) d)
     else case reassemble (stream k (w_clock (d_io d) (w_ticks (d_io d))) n (xs @ [c])) of
       None \<Rightarrow> (False, counted (xs @ [c]) d)
     | Some r \<Rightarrow> route_l4 r (counted (xs @ [c]) d))"
proof -
  define t0 where "t0 = w_clock (d_io d) (w_ticks (d_io d))"
  define w where "w = waiting k i n xs d"
  define w1 where "w1 = w\<lparr>d_rx_pkts := d_rx_pkts w + 1, d_rx_bytes := d_rx_bytes w + of_nat (length pkt)\<rparr>"
  define w2 where "w2 = w1\<lparr>d_io := (d_io w1)\<lparr>w_ticks := Suc (w_ticks (d_io w1))\<rparr>\<rparr>"
  let ?k = "stream_key k i" and ?now = "w_clock (d_io w1) (w_ticks (d_io w1))"
  let ?e = "stream k t0 n (xs @ [c])"
  note tbl = waiting_table [OF fresh, where n = n and xs = xs, folded t0_def w_def]
  have fk: "frag_key_of p = ?k"
    using p(2) by (auto simp: frag_of_def frag_key_of_def stream_key_def split: prod.splits)
  have frag: "d_frag w2 = d_frag w" "d_frag w1 = d_frag w" by (simp_all add: w2_def w1_def)
  have mr: "make_room ?k w2 = w2"
    using tbl(1) room by (simp add: make_room_def frag w_def waiting_def)
  have now: "?now = t0" if "xs = []" using that by (simp add: w1_def w_def waiting_def t0_def)
  have en: "entry_for p ?now (d_frag w2) = stream k t0 n xs"
    using tbl(1) now p(2)
    by (auto simp: entry_for_def fk frag stream_def has_last_def frag_of_def split: prod.splits)
  have ad: "add_part p (entry_for p ?now (d_frag w2)) = ?e"
    unfolding en by (rule add_part_stream [OF p(2) c])
  have small: "\<not> (unat (frag_offset_bytes p) + l4_len p > MAX_FRAG_BYTES_PER_STREAM
      \<or> fe_accumulated ?e > MAX_FRAG_BYTES_PER_STREAM)"
    using p(2) c(2) n by (auto simp: frag_of_def piece_len_def stream_def MAX_FRAG_BYTES_PER_STREAM_def split: prod.splits)
  have inc: "fe_total_len ?e < 0 \<or> int (fe_accumulated ?e) < fe_total_len ?e \<longleftrightarrow>
      \<not> has_last (xs @ [c]) \<or> sum_list (map piece_len (xs @ [c])) < n"
    by (auto simp: stream_def)
  have wait: "w2\<lparr>d_frag := t_put ?k ?e (d_frag w2)\<rparr> = waiting k i n (xs @ [c]) d"
    using tbl(3) [of ?e] p(4)
    by (simp add: frag, simp add: w2_def w1_def w_def waiting_def t0_def counted_def)
  have gone: "w2\<lparr>d_frag := t_del ?k (d_frag w2)\<rparr> = counted (xs @ [c]) d"
    using tbl(2) p(4) by (simp add: frag) (simp add: w2_def w1_def w_def waiting_def counted_def)
  have "process pkt w = handle_fragment p w1"
    using p(1,3) by (simp add: process_def w1_def Let_def)
  also have "\<dots> = (if \<not> has_last (xs @ [c]) \<or> sum_list (map piece_len (xs @ [c])) < n then (True, waiting k i n (xs @ [c]) d)
     else case reassemble ?e of None \<Rightarrow> (False, counted (xs @ [c]) d) | Some r \<Rightarrow> route_l4 r (counted (xs @ [c]) d))"
    unfolding handle_fragment_eq [OF p(1)] Let_def fk w2_def [symmetric] mr ad inc wait gone
    using small by simp
  finally show ?thesis unfolding w_def t0_def .
qed


section \<open>Any order\<close>

definition process_all :: "bytes list \<Rightarrow> nat_dispatcher \<Rightarrow> nat_dispatcher" where
  "process_all pkts d = fold (\<lambda>q d. snd (process q d)) pkts d"

lemma piece_packet:
  assumes "v4_flow k" "tiles 0 cs seg" "length seg \<le> 65515" "2 \<le> length cs" "c \<in> set cs"
  obtains p where "parse (frag_packet k i (fst c) (fst (snd c)) (snd (snd c))) = Some p"
    "frag_of k i c p" "is_fragment p"
    "length (frag_packet k i (fst c) (fst (snd c)) (snd (snd c))) = 20 + piece_len c"
proof -
  note b = tiles_piece [OF assms(2,5,3)]
  have "\<exists>p. parse (frag_packet k i (fst c) (fst (snd c)) (snd (snd c))) = Some p
      \<and> frag_of k i (fst c, fst (snd c), snd (snd c)) p"
    by (rule frag_of_parse [OF assms(1)]) (use b assms(3) in \<open>simp_all add: piece_len_def\<close>)
  then obtain p where p: "parse (frag_packet k i (fst c) (fst (snd c)) (snd (snd c))) = Some p" "frag_of k i c p"
    by auto
  have "\<not> (fst c = 0 \<and> \<not> fst (snd c))"
  proof
    assume z: "fst c = 0 \<and> \<not> fst (snd c)"
    then have all: "piece_len c = length seg" using b(4,5) by simp
    obtain x y where xy: "x \<in> set cs" "y \<in> set cs" "x \<noteq> y"
      using assms(4) tiles_distinct [OF assms(2)]
      by (cases cs; cases "tl cs") (auto, metis distinct_length_2_or_more list.set_intros)
    then obtain x where x: "x \<in> set cs" "x \<noteq> c" by metis
    have "fst x \<noteq> fst c" using tiles_distinct [OF assms(2)] x assms(5) by (metis distinct_map inj_onD)
    moreover have "sum_list (map piece_len cs) \<ge> piece_len c + piece_len x"
    proof -
      obtain us vs where "cs = us @ c # vs" using assms(5) by (meson split_list)
      moreover have "x \<in> set us \<or> x \<in> set vs" using x calculation by auto
      ultimately show ?thesis
        using member_le_sum_list [of "piece_len x" "map piece_len us"] member_le_sum_list [of "piece_len x" "map piece_len vs"]
        by auto
    qed
    ultimately show False using tiles_sum [OF assms(2)] all tiles_piece(3) [OF assms(2) x(1) assms(3)] by simp
  qed
  then have "is_fragment p" using p(2) by (auto simp: frag_of_def split: prod.splits)
  moreover have "length (frag_packet k i (fst c) (fst (snd c)) (snd (snd c))) = 20 + piece_len c"
    using assms(1) by (simp add: frag_packet_def v4_flow_def length_v4_octets piece_len_def)
  ultimately show thesis using p that by blast
qed

lemma process_prefix:
  assumes "t_get (d_frag d) (stream_key k i) = None" "length (d_frag d) < MAX_FRAG_STREAMS"
    and "v4_flow k" "tiles 0 cs seg" "length seg \<le> 65515" "2 \<le> length cs" "mset (xs @ ys) = mset cs" "ys \<noteq> []"
  shows "process_all (frag_packets k i xs) d = waiting k i (length seg) xs d"
  using assms(7,8)
proof (induction xs arbitrary: ys rule: rev_induct)
  case Nil
  show ?case by (simp add: process_all_def frag_packets_def waiting_def)
next
  case (snoc c xs)
  have set: "set cs = set xs \<union> {c} \<union> set ys" using snoc.prems(1) by (metis Un_insert_right append.assoc append_Cons append_Nil set_append list.simps(15) set_mset_mset sup_bot.right_neutral)
  then have c: "c \<in> set cs" by simp
  obtain p where p: "parse (frag_packet k i (fst c) (fst (snd c)) (snd (snd c))) = Some p"
    "frag_of k i c p" "is_fragment p" "length (frag_packet k i (fst c) (fst (snd c)) (snd (snd c))) = 20 + piece_len c"
    by (rule piece_packet [OF assms(3,4,5,6) c])
  note b = tiles_piece [OF assms(4) c assms(5)]
  have sum: "sum_list (map piece_len (xs @ [c])) + sum_list (map piece_len ys) = length seg"
    using snoc.prems(1) tiles_sum [OF assms(4)]
    by (metis map_append mset_map sum_list_append sum_mset_sum_list)
  have pos: "0 < sum_list (map piece_len ys)"
    using snoc.prems(2) set tiles_piece(3) [OF assms(4) _ assms(5)] by (cases ys) auto
  have IH: "process_all (frag_packets k i xs) d = waiting k i (length seg) xs d"
    by (rule snoc.IH [of "c # ys"]) (use snoc.prems in simp_all)
  have "process (frag_packet k i (fst c) (fst (snd c)) (snd (snd c))) (waiting k i (length seg) xs d)
      = (True, waiting k i (length seg) (xs @ [c]) d)"
    by (subst fragment_step [OF assms(1,2) p b(5,4) assms(5)]) (use sum pos in simp_all)
  then show ?case
    using IH by (cases c) (simp add: process_all_def frag_packets_def)
qed

text \<open>C4. Fragmentation and reassembly cancel, in any order of arrival: when the pieces of a UDP
  segment (any tiling of it, so also the one the relay cuts) reach a dispatcher as fragments of one
  identification in an arbitrary order, the dispatcher ends in the state it would have reached by
  handing the whole datagram to its flow, but for the counters and the clock; the fragment table is
  as before.\<close>

theorem fragments_reassemble_any_order:
  assumes "t_get (d_frag d) (stream_key k i) = None" "length (d_frag d) < 64"
    and "v4_flow k" "tiles 0 cs seg" "8 \<le> length seg" "length seg \<le> 65515" "2 \<le> length cs"
    and "mset ds = mset cs"
  shows "process_all (frag_packets k i ds) d
    = snd (handle_udp \<lparr>src = dst k, dst = src k, src_port = udp_src_port seg, dst_port = udp_dst_port seg, proto = Udp\<rparr>
             (udp_payload seg) (counted ds d))"
proof -
  have ne: "ds \<noteq> []" using assms(7,8) by (metis list.size(3) size_mset not_numeral_le_zero)
  define xs c where "xs = butlast ds" and "c = last ds"
  have ds: "ds = xs @ [c]" using ne by (simp add: xs_def c_def)
  have c: "c \<in> set cs" using assms(8) ds by (metis in_set_conv_decomp set_mset_mset)
  have room: "length (d_frag d) < MAX_FRAG_STREAMS" using assms(2) by (simp add: MAX_FRAG_STREAMS_def)
  obtain p where p: "parse (frag_packet k i (fst c) (fst (snd c)) (snd (snd c))) = Some p"
    "frag_of k i c p" "is_fragment p" "length (frag_packet k i (fst c) (fst (snd c)) (snd (snd c))) = 20 + piece_len c"
    by (rule piece_packet [OF assms(3,4,6,7) c])
  note b = tiles_piece [OF assms(4) c assms(6)]
  have sum: "sum_list (map piece_len (xs @ [c])) = length seg"
    using assms(8) ds tiles_sum [OF assms(4)] by (metis mset_map sum_mset_sum_list)
  have "cs \<noteq> []" using assms(7) by auto
  then have last: "has_last (xs @ [c])"
    using tiles_has_last [OF assms(4)] assms(8) ds by (metis has_last_def set_mset_mset)
  obtain r where r: "reassemble (stream k (w_clock (d_io d) (w_ticks (d_io d))) (length seg) (xs @ [c])) = Some r"
    "p_proto r = l4_u8 Udp" "p_src r = dst k" "p_dst r = src k" "l4 r = seg" "l4_len r = length seg"
    by (rule reassemble_stream [OF assms(3,4) \<open>cs \<noteq> []\<close> assms(8) [unfolded ds] assms(6)])
  have pre: "process_all (frag_packets k i xs) d = waiting k i (length seg) xs d"
    by (rule process_prefix [OF assms(1) room assms(3,4,6,7), of xs "[c]"]) (use assms(8) ds in simp_all)
  have "process (frag_packet k i (fst c) (fst (snd c)) (snd (snd c))) (waiting k i (length seg) xs d)
      = route_l4 r (counted (xs @ [c]) d)"
    by (subst fragment_step [OF assms(1) room p b(5,4) assms(6)]) (use sum last r in simp_all)
  then have "process_all (frag_packets k i ds) d = snd (route_l4 r (counted ds d))"
    using pre by (cases c) (simp add: process_all_def frag_packets_def ds)
  then show ?thesis
    using r assms(5) by (simp add: route_l4_def Let_def)
qed


text \<open>A 2000-byte answer of 1.1.1.1:53, cut by the relay and fed to another dispatcher last
  fragment first.\<close>

definition sample_answer :: udp_build where
  "sample_answer = answer (u_key sample_dns) (replicate 2000 7)"

lemma chunks_of_sample: "2 \<le> length (chunks 0 (udp_segment sample_answer))"
proof -
  have l: "length (udp_segment sample_answer) = 2008" by (simp add: sample_answer_def answer_def)
  then have "udp_segment sample_answer \<noteq> []" "drop MAX_FRAG_DATA (udp_segment sample_answer) \<noteq> []"
    by (metis list.size(3) zero_neq_numeral, simp add: MAX_FRAG_DATA_eq l del: length_udp_segment)
  then show ?thesis
    by (subst chunks.simps) (simp add: Suc_le_eq chunks_Nil_iff)
qed

theorem fragments_reassemble_any_order_witness:
  "process_all (frag_packets (u_key sample_dns) 9 (rev (chunks 0 (udp_segment sample_answer)))) (nat_new 1 sample_world)
   = snd (handle_udp \<lparr>src = dst (u_key sample_dns), dst = src (u_key sample_dns),
         src_port = udp_src_port (udp_segment sample_answer), dst_port = udp_dst_port (udp_segment sample_answer), proto = Udp\<rparr>
       (udp_payload (udp_segment sample_answer))
       (counted (rev (chunks 0 (udp_segment sample_answer))) (nat_new 1 sample_world)))"
proof -
  have l: "length (udp_segment sample_answer) = 2008" by (simp add: sample_answer_def answer_def)
  show ?thesis
    by (rule fragments_reassemble_any_order [OF _ _ v4_flow_sample_dns tiles_chunks _ _ chunks_of_sample])
       (simp_all add: nat_new_def t_get_def l del: length_udp_segment)
qed

end
