(* ===== verification/Carrier.thy ===== *)
theory Carrier
  imports Prelude
begin

text \<open>
  The carrier framing (\<open>rtp.rs\<close>) and the send loop that fills it (\<open>lib.rs\<close>): many
  length-prefixed packets go into one frame, a frame is flushed when the next packet does not
  fit, and the flush retries over the carrier tracks until one of them takes the frame. The
  answers of the tracks' queues are a script, one per attempt; a flush whose script runs out is
  still waiting, which is \<open>None\<close>.
\<close>

section \<open>Frames\<close>

definition MAX_FRAME_BYTES :: nat where "MAX_FRAME_BYTES = 1275"

definition push_packed :: "bytes \<Rightarrow> bytes \<Rightarrow> nat \<Rightarrow> bool \<times> bytes" where
  "push_packed batch packet mx =
     (if length packet > 65535 then (True, batch)
      else let needed = length batch + 2 + length packet in
        if needed > mx \<and> batch \<noteq> [] then (False, batch)
        else (True, batch @ be16_bytes (of_nat (length packet)) @ packet))"

text \<open>The packets handed to \<open>on_packet\<close>, in order; the index \<open>i\<close> of the loop is the length of
  what has been dropped.\<close>

function unpack :: "bytes \<Rightarrow> bytes list" where
  "unpack frame =
     (if 2 \<le> length frame then
        let len = unat (frame ! 0) * 256 + unat (frame ! 1);
            rest = drop 2 frame in
        if len = 0 \<or> len > length rest then []
        else take len rest # unpack (drop len rest)
      else [])"
  by pat_completeness auto
termination
  by (relation "measure length") auto

declare unpack.simps [simp del]

section \<open>The send loop\<close>

text \<open>\<open>u64::saturating_add\<close>.\<close>

definition sat_add64 :: "u64 \<Rightarrow> u64 \<Rightarrow> u64" where
  "sat_add64 a b = (if unat a + unat b < 2 ^ 64 then a + b else 0xFFFFFFFFFFFFFFFF)"

record send_state =
  batch :: bytes
  sent :: u64
  packets :: u64
  cumulative_waits :: u64
  next_track :: nat
  frames :: "(nat \<times> bytes) list"

text \<open>\<open>flush_with_backpressure\<close>: \<open>off\<close> is the position in the current sweep over the \<open>n\<close>
  tracks; after a sweep without success the task sleeps and starts over.\<close>

fun flush_loop :: "nat \<Rightarrow> bool list \<Rightarrow> nat \<Rightarrow> u64 \<Rightarrow> send_state \<Rightarrow> (bool list \<times> send_state) option" where
  "flush_loop n [] off local_waits st = None"
| "flush_loop n (a # as) off local_waits st =
     (let i = (next_track st + off) mod n in
      if a then
        let st = st\<lparr>next_track := (i + 1) mod n\<rparr>;
            st = (if local_waits > 0
                  then st\<lparr>cumulative_waits := sat_add64 (cumulative_waits st) local_waits\<rparr> else st);
            st = st\<lparr>sent := sat_add64 (sent st) 1, frames := frames st @ [(i, batch st)]\<rparr>
        in Some (as, st\<lparr>batch := []\<rparr>)
      else if Suc off < n then flush_loop n as (Suc off) local_waits st
      else flush_loop n as 0 (sat_add64 local_waits 1) st)"

definition flush_with_backpressure ::
  "nat \<Rightarrow> bool list \<Rightarrow> send_state \<Rightarrow> (bool list \<times> send_state) option" where
  "flush_with_backpressure n as st =
     (if batch st = [] \<or> n = 0 then Some (as, st) else flush_loop n as 0 0 st)"

definition push :: "nat \<Rightarrow> bytes \<Rightarrow> send_state \<Rightarrow> bool \<times> send_state" where
  "push cap pkt st = (let (ok, b) = push_packed (batch st) pkt cap in (ok, st\<lparr>batch := b\<rparr>))"

text \<open>The inner loop: drain what has already arrived.\<close>

fun drain_ready :: "nat \<Rightarrow> nat \<Rightarrow> bytes list \<Rightarrow> bool list \<Rightarrow> send_state \<Rightarrow> (bool list \<times> send_state) option" where
  "drain_ready cap n [] as st = Some (as, st)"
| "drain_ready cap n (p # ps) as st =
     (let st = st\<lparr>packets := sat_add64 (packets st) 1\<rparr>; (ok, st) = push cap p st in
      if ok then drain_ready cap n ps as st
      else case flush_with_backpressure n as st of
             None \<Rightarrow> None
           | Some (as, st) \<Rightarrow> drain_ready cap n ps as (snd (push cap p st)))"

text \<open>One turn of the outer loop: the packet it blocked for, then those ready behind it.\<close>

definition send_burst ::
  "nat \<Rightarrow> nat \<Rightarrow> bytes \<Rightarrow> bytes list \<Rightarrow> bool list \<Rightarrow> send_state \<Rightarrow> (bool list \<times> send_state) option" where
  "send_burst cap n first rest as st =
     (let st = snd (push cap first st);
          st = st\<lparr>packets := sat_add64 (packets st) 1\<rparr>
      in case drain_ready cap n rest as st of
           None \<Rightarrow> None
         | Some (as, st) \<Rightarrow> flush_with_backpressure n as st)"

section \<open>Unpacking what was packed\<close>

definition entry :: "bytes \<Rightarrow> bytes" where
  "entry p = be16_bytes (of_nat (length p)) @ p"

definition packable :: "bytes \<Rightarrow> bool" where
  "packable p \<longleftrightarrow> p \<noteq> [] \<and> length p \<le> 65535"

lemma unpack_entry:
  assumes "packable p"
  shows "unpack (entry p @ r) = p # unpack r"
proof -
  let ?f = "entry p @ r"
  have u: "unat (of_nat (length p) :: u16) = length p"
    using assms by (intro unat_of_nat_u16) (simp add: packable_def)
  have "unat (be16 ?f) = 256 * unat (?f ! 0) + unat (?f ! 1)" by (rule unat_be16)
  then have len: "unat (?f ! 0) * 256 + unat (?f ! 1) = length p"
    using u by (simp add: entry_def)
  have d: "drop 2 ?f = p @ r" by (simp add: entry_def)
  show ?thesis
    unfolding unpack.simps [of ?f] Let_def len d using assms by (simp add: packable_def entry_def)
qed

lemma unpack_entries: "list_all packable ps \<Longrightarrow> unpack (concat (map entry ps)) = ps"
  by (induction ps) (simp_all add: unpack_entry, simp add: unpack.simps)


section \<open>Flushing\<close>

lemma flush_loop_sends:
  "flush_loop n as off lw st = Some (as', st') \<Longrightarrow> 0 < n \<Longrightarrow>
     \<exists>i < n. frames st' = frames st @ [(i, batch st)] \<and> batch st' = []"
  by (induction n "as" off lw st rule: flush_loop.induct) (fastforce simp: Let_def split: if_splits)+

lemma flush_loop_live:
  "True \<in> set as \<Longrightarrow> \<exists>as' st'. flush_loop n as off lw st = Some (as', st')
     \<and> length (filter (\<lambda>a. a) as) = Suc (length (filter (\<lambda>a. a) as'))"
  by (induction n "as" off lw st rule: flush_loop.induct) (auto simp: Let_def)

text \<open>The contents of a batch in progress: the packets \<open>qs\<close>, in order.\<close>

definition holds :: "nat \<Rightarrow> bytes list \<Rightarrow> send_state \<Rightarrow> bool" where
  "holds cap qs st \<longleftrightarrow> batch st = concat (map entry qs) \<and> list_all packable qs
     \<and> (length (batch st) \<le> cap \<or> length qs \<le> 1)"

lemma entry_not_Nil: "entry p \<noteq> []"
  by (simp add: entry_def be16_bytes_def)

lemma length_entry: "length (entry p) = 2 + length p"
  by (simp add: entry_def)

lemma batch_Nil_iff: "holds cap qs st \<Longrightarrow> batch st = [] \<longleftrightarrow> qs = []"
  by (cases qs) (auto simp: holds_def entry_not_Nil)

lemma push_holds:
  assumes "holds cap qs st" "packable p"
  shows "if fst (push cap p st) then holds cap (qs @ [p]) (snd (push cap p st))
         else snd (push cap p st) = st \<and> qs \<noteq> []"
    and "frames (snd (push cap p st)) = frames st"
    and "batch st = [] \<Longrightarrow> fst (push cap p st)"
proof -
  have sz: "length p \<le> 65535" using assms(2) by (simp add: packable_def)
  have e: "push cap p st = (if length (batch st) + 2 + length p > cap \<and> batch st \<noteq> [] then (False, st)
      else (True, st\<lparr>batch := batch st @ entry p\<rparr>))"
    using sz by (simp add: push_def push_packed_def Let_def entry_def)
  note n = batch_Nil_iff [OF assms(1)]
  show "if fst (push cap p st) then holds cap (qs @ [p]) (snd (push cap p st))
         else snd (push cap p st) = st \<and> qs \<noteq> []"
    unfolding e using assms n by (auto simp: holds_def length_entry)
  show "frames (snd (push cap p st)) = frames st" "batch st = [] \<Longrightarrow> fst (push cap p st)"
    unfolding e by simp_all
qed

lemma holds_frame: "holds cap qs st \<Longrightarrow> unpack (batch st) = qs"
  by (simp add: holds_def unpack_entries)

definition good_frames :: "nat \<Rightarrow> nat \<Rightarrow> (nat \<times> bytes) list \<Rightarrow> bool" where
  "good_frames cap n fs \<longleftrightarrow> (\<forall>(i, f) \<in> set fs. i < n \<and> (length f \<le> cap \<or> (\<exists>p. f = entry p)))"

lemma flush_holds:
  assumes "holds cap qs st" "0 < n" "flush_with_backpressure n as st = Some (as', st')"
  shows "\<exists>fs. frames st' = frames st @ fs \<and> concat (map (\<lambda>f. unpack (snd f)) fs) = qs \<and> good_frames cap n fs
    \<and> holds cap [] st'"
proof (cases "batch st = []")
  case True
  then show ?thesis
    using assms batch_Nil_iff [OF assms(1)]
    by (intro exI [of _ "[]"]) (auto simp: flush_with_backpressure_def good_frames_def)
next
  case False
  then have "flush_loop n as 0 0 st = Some (as', st')" using assms by (simp add: flush_with_backpressure_def)
  from flush_loop_sends [OF this assms(2)] obtain i where
    i: "i < n" "frames st' = frames st @ [(i, batch st)]" "batch st' = []" by blast
  have "length (batch st) \<le> cap \<or> (\<exists>p. batch st = entry p)"
    using assms(1) False by (cases qs; cases "tl qs") (auto simp: holds_def)
  with i holds_frame [OF assms(1)] show ?thesis
    by (intro exI [of _ "[(i, batch st)]"]) (simp add: good_frames_def holds_def)
qed

lemma drain_holds:
  assumes "holds cap qs st" "0 < n" "list_all packable ps" "drain_ready cap n ps as st = Some (as', st')"
  shows "\<exists>fs rs. frames st' = frames st @ fs \<and> concat (map (\<lambda>f. unpack (snd f)) fs) @ rs = qs @ ps
    \<and> good_frames cap n fs \<and> holds cap rs st'"
  using assms
proof (induction ps arbitrary: qs "as" st)
  case Nil
  then show ?case by (intro exI [of _ "[]"] exI [of _ qs]) (simp add: good_frames_def)
next
  case (Cons p ps)
  define st1 where "st1 = st\<lparr>packets := sat_add64 (packets st) 1\<rparr>"
  have h1: "holds cap qs st1" "frames st1 = frames st" using Cons.prems(1) by (auto simp: st1_def holds_def)
  have pk: "packable p" "list_all packable ps" using Cons.prems(3) by simp_all
  note ph = push_holds [OF h1(1) pk(1)]
  show ?case
  proof (cases "fst (push cap p st1)")
    case True
    then have "drain_ready cap n ps as (snd (push cap p st1)) = Some (as', st')"
      using Cons.prems(4) by (simp add: st1_def Let_def case_prod_unfold)
    from Cons.IH [OF _ Cons.prems(2) pk(2) this, of "qs @ [p]"] ph True h1(2) show ?thesis by auto
  next
    case False
    then have st1: "snd (push cap p st1) = st1" using ph(1) by simp
    then obtain as2 st2 where f: "flush_with_backpressure n as st1 = Some (as2, st2)"
      and d: "drain_ready cap n ps as2 (snd (push cap p st2)) = Some (as', st')"
      using Cons.prems(4) False
      by (auto simp: st1_def [symmetric] Let_def case_prod_unfold split: option.splits)
    from flush_holds [OF h1(1) Cons.prems(2) f] obtain fs where
      fs: "frames st2 = frames st1 @ fs" "concat (map (\<lambda>f. unpack (snd f)) fs) = qs" "good_frames cap n fs" "holds cap [] st2"
      by blast
    note ph2 = push_holds [OF fs(4) pk(1)]
    have "holds cap ([] @ [p]) (snd (push cap p st2))" using ph2(1,3) fs(4) by (auto simp: holds_def split: if_splits)
    from Cons.IH [OF this Cons.prems(2) pk(2) d] obtain gs rs where
      "frames st' = frames (snd (push cap p st2)) @ gs" "concat (map (\<lambda>f. unpack (snd f)) gs) @ rs = [p] @ ps"
      "good_frames cap n gs" "holds cap rs st'" by auto
    with fs ph2(2) h1(2) show ?thesis
      by (intro exI [of _ "fs @ gs"] exI [of _ rs]) (auto simp: good_frames_def)
  qed
qed

lemma burst_frames:
  assumes "0 < n" "batch st = []" "list_all packable (first # rest)"
    and "send_burst cap n first rest as st = Some (as', st')"
  shows "\<exists>fs. frames st' = frames st @ fs \<and> concat (map (\<lambda>f. unpack (snd f)) fs) = first # rest
    \<and> (\<forall>(i, f) \<in> set fs. i < n \<and> (length f \<le> cap \<or> (\<exists>p. f = entry p))) \<and> batch st' = []"
proof -
  have h0: "holds cap [] st" using assms(2) by (simp add: holds_def)
  have pk: "packable first" "list_all packable rest" using assms(3) by simp_all
  define st1 where "st1 = (snd (push cap first st))\<lparr>packets := sat_add64 (packets (snd (push cap first st))) 1\<rparr>"
  note ph = push_holds [OF h0 pk(1)]
  have h1: "holds cap [first] st1" "frames st1 = frames st"
    using ph assms(2) by (auto simp: st1_def holds_def split: if_splits)
  obtain as2 st2 where d: "drain_ready cap n rest as st1 = Some (as2, st2)"
    and f: "flush_with_backpressure n as2 st2 = Some (as', st')"
    using assms(4) by (auto simp: send_burst_def Let_def st1_def [symmetric] split: option.splits)
  from drain_holds [OF h1(1) assms(1) pk(2) d] obtain fs rs where
    fs: "frames st2 = frames st1 @ fs" "concat (map (\<lambda>f. unpack (snd f)) fs) @ rs = [first] @ rest" "good_frames cap n fs"
    "holds cap rs st2" by blast
  from flush_holds [OF fs(4) assms(1) f] obtain gs where
    gs: "frames st' = frames st2 @ gs" "concat (map (\<lambda>f. unpack (snd f)) gs) = rs" "good_frames cap n gs" "holds cap [] st'"
    by blast
  show ?thesis
    using fs gs h1(2) by (intro exI [of _ "fs @ gs"]) (auto simp: good_frames_def holds_def)
qed

text \<open>A burst of packets that the send loop gets onto the carrier arrives complete and in
  order: unpacking the emitted frames gives exactly the packets, every frame goes to an existing
  track and is at most the frame ceiling unless it carries a single oversize packet, and the batch
  ends empty.\<close>

theorem burst_delivered_in_order:
  assumes "0 < n" "batch st = []" "list_all packable (first # rest)"
    and "send_burst cap n first rest as st = Some (as', st')"
  shows "\<exists>fs. frames st' = frames st @ fs \<and> concat (map (\<lambda>f. unpack (snd f)) fs) = first # rest
    \<and> (\<forall>(i, f) \<in> set fs. i < n \<and> (length f \<le> cap \<or> (\<exists>p. f = entry p))) \<and> batch st' = []"
  using assms by (rule burst_frames)

text \<open>C30. The send loop makes progress under backpressure: when the tracks accept often enough,
  however long they refuse in between, the burst is sent.\<close>

theorem burst_completes:
  assumes "length rest < length (filter (\<lambda>a. a) as)"
  shows "\<exists>as' st'. send_burst cap n first rest as st = Some (as', st')"
proof -
  have fl: "\<exists>as' st'. flush_with_backpressure n bs s = Some (as', st')
      \<and> length (filter (\<lambda>a. a) bs) \<le> Suc (length (filter (\<lambda>a. a) as'))" if "0 < length (filter (\<lambda>a. a) bs)" for bs s
  proof -
    have "True \<in> set bs" using that by (auto simp: filter_empty_conv)
    from flush_loop_live [OF this, of n 0 0 s] show ?thesis by (auto simp: flush_with_backpressure_def)
  qed
  have dr: "\<exists>as' st'. drain_ready cap n ps bs s = Some (as', st') \<and> length (filter (\<lambda>a. a) bs) \<le> length ps + length (filter (\<lambda>a. a) as')"
    if "length ps \<le> length (filter (\<lambda>a. a) bs)" for ps bs s
    using that
  proof (induction ps arbitrary: bs s)
    case (Cons p ps)
    let ?s = "s\<lparr>packets := sat_add64 (packets s) 1\<rparr>"
    show ?case
    proof (cases "fst (push cap p ?s)")
      case True
      have "drain_ready cap n (p # ps) bs s = drain_ready cap n ps bs (snd (push cap p ?s))"
        using True by (simp add: Let_def case_prod_unfold)
      moreover have "length ps \<le> length (filter (\<lambda>a. a) bs)" using Cons.prems by simp
      ultimately show ?thesis using Cons.IH [of bs "snd (push cap p ?s)"] by force
    next
      case False
      have "0 < length (filter (\<lambda>a. a) bs)" using Cons.prems by (metis Suc_le_lessD length_Cons less_zeroE not_gr_zero)
      from fl [OF this, of "snd (push cap p ?s)"] obtain as1 s1 where
        f: "flush_with_backpressure n bs (snd (push cap p ?s)) = Some (as1, s1)"
        "length (filter (\<lambda>a. a) bs) \<le> Suc (length (filter (\<lambda>a. a) as1))" by auto
      have "drain_ready cap n (p # ps) bs s = drain_ready cap n ps as1 (snd (push cap p s1))"
        using False f(1) by (simp add: Let_def case_prod_unfold)
      moreover have "length ps \<le> length (filter (\<lambda>a. a) as1)" using Cons.prems f(2) by simp
      ultimately show ?thesis using Cons.IH [of as1 "snd (push cap p s1)"] f(2) by force
    qed
  qed simp
  let ?s = "(snd (push cap first st))\<lparr>packets := sat_add64 (packets (snd (push cap first st))) 1\<rparr>"
  from dr [of rest "as" ?s] assms obtain as1 s1 where
    d: "drain_ready cap n rest as ?s = Some (as1, s1)" "length (filter (\<lambda>a. a) as) \<le> length rest + length (filter (\<lambda>a. a) as1)"
    by auto
  have "0 < length (filter (\<lambda>a. a) as1)" using d(2) assms by linarith
  from fl [OF this, of s1] d(1) show ?thesis
    by (auto simp: send_burst_def Let_def)
qed

definition idle_sender :: send_state where
  "idle_sender = \<lparr>batch = [], sent = 0, packets = 0, cumulative_waits = 0, next_track = 0, frames = []\<rparr>"

theorem burst_delivered_in_order_witness:
  "\<exists>as' st'. send_burst MAX_FRAME_BYTES 1 [69, 1] [[69, 2, 3]] [False, True] idle_sender = Some (as', st')
   \<and> concat (map (\<lambda>f. unpack (snd f)) (frames st')) = [[69, 1], [69, 2, 3]]"
proof -
  have "\<exists>as' st'. send_burst MAX_FRAME_BYTES 1 [69, 1] [[69, 2, 3]] [False, True] idle_sender = Some (as', st')"
    by (simp add: send_burst_def push_def push_packed_def flush_with_backpressure_def idle_sender_def
        MAX_FRAME_BYTES_def be16_bytes_def Let_def)
  then obtain as' st' where s: "send_burst MAX_FRAME_BYTES 1 [69, 1] [[69, 2, 3]] [False, True] idle_sender = Some (as', st')"
    by blast
  have "list_all packable [[69, 1], [69, 2, 3]]" by (simp add: packable_def)
  from burst_delivered_in_order [OF _ _ this s] s show ?thesis by (auto simp: idle_sender_def)
qed

theorem burst_completes_witness:
  "\<exists>as' st'. send_burst MAX_FRAME_BYTES 1 [69, 1] [[69, 2, 3]] [False, True, False, True] idle_sender = Some (as', st')"
  by (rule burst_completes) simp

end
