(* ===== verification/Icmpv6.thy ===== *)
theory Icmpv6
  imports Ip_Packet_Props
begin

text \<open>
  The IPv6 reject (\<open>ipv6.rs\<close>): the ICMPv6 Destination Unreachable that is written back into the
  TUN for every IPv6 packet, so that applications fall back to IPv4 at once. The module has its
  own copies of the byte helpers and of the checksum; the copies of the helpers are the shared
  ones, the checksum is modelled on its own.
\<close>

definition ICMPV6_NEXT_HDR :: u8 where "ICMPV6_NEXT_HDR = 58"

text \<open>Sum, odd byte, fold, complement.\<close>

definition checksum16 :: "bytes \<Rightarrow> u16" where
  "checksum16 data = (NOT (ucast (csum_fold (csum_words data 0)))) AND 0xffff"

text \<open>The bytes the ICMPv6 checksum covers: pseudo-header and message.\<close>

definition icmpv6_cksum_buf :: "bytes \<Rightarrow> nat \<Rightarrow> bytes" where
  "icmpv6_cksum_buf reply icmp_len =
     (let buf = replicate (40 + icmp_len) 0;
          buf = put_slice buf 0 (slice reply 8 24);
          buf = put_slice buf 16 (slice reply 24 40);
          buf = put_be32 buf 32 (of_nat icmp_len);
          buf = put_slice buf 39 [ICMPV6_NEXT_HDR]
      in put_slice buf 40 (slice reply 40 (40 + icmp_len)))"

definition build_icmpv6_dest_unreach :: "bytes \<Rightarrow> bytes option" where
  "build_icmpv6_dest_unreach offending =
     (if length offending < 40 then None
      else if offending ! 6 = ICMPV6_NEXT_HDR \<and> length offending \<ge> 41 \<and> offending ! 40 < 128 then None
      else
        let excerpt = min (length offending) 1232;
            icmp_len = 8 + excerpt;
            total = 40 + icmp_len;
            reply = replicate total 0;
            reply = put_slice reply 0 [0x60];
            reply = put_be16 reply 4 (of_nat icmp_len);
            reply = put_slice reply 6 [ICMPV6_NEXT_HDR];
            reply = put_slice reply 7 [64];
            reply = put_slice reply 8 (slice offending 24 40);
            reply = put_slice reply 24 (slice offending 8 24);
            reply = put_slice reply 40 [1];
            reply = put_slice reply 41 [0];
            reply = put_slice reply 48 (take excerpt offending);
            cksum = checksum16 (icmpv6_cksum_buf reply icmp_len)
        in Some (put_be16 reply 42 cksum))"

section \<open>The reply in closed form\<close>

lemma checksum16_eq: "length d \<le> 65536 \<Longrightarrow> checksum16 d = internet_checksum d"
proof -
  assume d: "length d \<le> 65536"
  have "65535 * ((length d + 1) div 2) \<le> 65535 * 32768" using d by simp
  then have "unat (csum_words d 0) = word_sum d"
    using word_sum_bound [of d] unat_csum_words [of 0 d] by simp
  then have "unat (checksum16 d) = 65535 - fold16 (word_sum d)"
    by (simp add: checksum16_def unat_not16 unat_ucast_fold)
  then show ?thesis using d by (simp add: word_unat_eq_iff unat_internet_checksum)
qed

definition icmp_reply :: "bytes \<Rightarrow> bytes \<Rightarrow> u16 \<Rightarrow> bytes \<Rightarrow> bytes" where
  "icmp_reply s d cs body = [0x60, 0, 0, 0] @ be16_bytes (of_nat (8 + length body)) @ [58, 64] @ s @ d
     @ [1, 0] @ be16_bytes cs @ [0, 0, 0, 0] @ body"

definition icmp_pseudo :: "bytes \<Rightarrow> bytes \<Rightarrow> u16 \<Rightarrow> bytes \<Rightarrow> bytes" where
  "icmp_pseudo s d cs body = s @ d @ be32_bytes (of_nat (8 + length body)) @ [0, 0, 0, 58]
     @ [1, 0] @ be16_bytes cs @ [0, 0, 0, 0] @ body"

lemma cksum_buf_eq:
  assumes "length s = 16" "length d = 16"
  shows "icmpv6_cksum_buf (icmp_reply s d cs body) (8 + length body) = icmp_pseudo s d cs body"
proof -
  let ?r = "icmp_reply s d cs body"
  have sl: "slice ?r 8 24 = s" "slice ?r 24 40 = d"
    "slice ?r 40 (40 + (8 + length body)) = [1, 0] @ be16_bytes cs @ [0, 0, 0, 0] @ body"
    using assms by (simp_all add: icmp_reply_def slice_def)
  have rep: "replicate (40 + (8 + length body)) (0 :: u8) = replicate 36 0 @ [0, 0, 0] @ [0] @ replicate (8 + length body) 0"
    by (simp flip: replicate_add replicate_Suc)
  show ?thesis
    unfolding icmpv6_cksum_buf_def sl Let_def rep
    using assms by (simp add: put_slice_def put_be32_slice icmp_pseudo_def ICMPV6_NEXT_HDR_def)
qed

lemma reply_eq:
  assumes "40 \<le> length p" "\<not> (p ! 6 = 58 \<and> 41 \<le> length p \<and> p ! 40 < 128)"
  defines "body \<equiv> take 1232 p" and "s \<equiv> slice p 24 40" and "d \<equiv> slice p 8 24"
  shows "build_icmpv6_dest_unreach p = Some (icmp_reply s d (checksum16 (icmp_pseudo s d 0 body)) body)"
proof -
  let ?n = "8 + length body"
  have l: "length s = 16" "length d = 16" "min (length p) 1232 = length body"
    "take (length body) p = body"
    using assms(1) by (auto simp: s_def d_def body_def min_def)
  define r where "r = icmp_reply s d 0 body"
  have fuse: "put_slice (put_slice (put_slice (put_slice (put_slice (put_slice (put_slice (put_be16
      (put_slice (replicate (40 + ?n) 0) 0 [0x60]) 4 (of_nat ?n)) 6 [ICMPV6_NEXT_HDR]) 7 [64]) 8 s) 24 d) 40 [1]) 41 [0]) 48 body = r"
  proof -
    have "replicate (40 + ?n) (0 :: u8) = [0] @ [0, 0, 0] @ replicate 4 0 @ replicate 32 0 @ [0, 0] @ replicate 6 0 @ replicate (length body) 0"
      by (simp flip: replicate_add replicate_Suc)
    moreover have "replicate 6 (0 :: u8) = [0, 0, 0, 0, 0, 0]" by (simp add: numeral_eq_Suc)
    ultimately show ?thesis
      using l by (simp add: put_slice_def put_be16_slice r_def icmp_reply_def ICMPV6_NEXT_HDR_def)
  qed
  have st: "put_be16 r 42 c = icmp_reply s d c body" for c
    using l by (simp add: r_def icmp_reply_def put_be16_slice put_slice_def)
  have "\<not> length p < 40" using assms(1) by simp
  then show ?thesis
    using assms(2) cksum_buf_eq [OF l(1,2), of 0 body]
    unfolding build_icmpv6_dest_unreach_def Let_def l s_def [symmetric] d_def [symmetric] fuse st
      r_def [symmetric]
    by (simp add: ICMPV6_NEXT_HDR_def st)
qed


lemma pseudo_verifies:
  assumes "length s = 16" "length d = 16" "length body \<le> 1232"
  shows "checksum16 (icmp_pseudo s d (checksum16 (icmp_pseudo s d 0 body)) body) = 0"
proof -
  let ?w = "word_sum (icmp_pseudo s d 0 body)" and ?c = "checksum16 (icmp_pseudo s d 0 body)"
  have len: "length (icmp_pseudo s d c body) \<le> 65536" for c using assms by (simp add: icmp_pseudo_def)
  have c: "unat ?c = 65535 - fold16 ?w"
    using len [of 0] by (simp add: checksum16_eq unat_internet_checksum)
  have ws: "word_sum (icmp_pseudo s d v body) = unat v + word_sum (icmp_pseudo s d 0 body)" for v
  proof -
    let ?h = "s @ d @ be32_bytes (of_nat (8 + length body)) @ [0, 0, 0, 58] @ [1, 0]"
    have "icmp_pseudo s d u body = ?h @ be16_bytes u @ [0, 0, 0, 0] @ body" for u by (simp add: icmp_pseudo_def)
    moreover have "even (length ?h)" using assms by simp
    ultimately show ?thesis
      by (simp add: word_sum_append del: append_assoc be16_bytes_numerals)
  qed
  have "word_sum (icmp_pseudo s d ?c body) = ?w + (65535 - fold16 ?w)"
    unfolding ws [of ?c] c by (rule add.commute)
  then show ?thesis
    using len [of ?c] by (simp add: checksum16_eq internet_checksum_0_iff fold16_complement)
qed

text \<open>Every IPv6 packet that is not an ICMPv6 error is answered with a well-formed ICMPv6
  Destination Unreachable of at most 1280 bytes: version 6, the length field right, the addresses
  exchanged, type 1 code 0, the start of the offending packet quoted, and a checksum that verifies
  over the pseudo-header. A reply is itself never answered, so two such stacks cannot loop.\<close>

theorem icmpv6_reject_wellformed:
  assumes "40 \<le> length p" "\<not> (p ! 6 = 58 \<and> 41 \<le> length p \<and> p ! 40 < 128)"
  shows "\<exists>r. build_icmpv6_dest_unreach p = Some r
    \<and> length r = 48 + min (length p) 1232 \<and> length r \<le> 1280
    \<and> drop_bit 4 (r ! 0) = 6 \<and> unat (be16 (slice r 4 6)) = length r - 40 \<and> r ! 6 = 58
    \<and> slice r 8 24 = slice p 24 40 \<and> slice r 24 40 = slice p 8 24
    \<and> r ! 40 = 1 \<and> r ! 41 = 0 \<and> drop 48 r = take 1232 p
    \<and> checksum16 (icmpv6_cksum_buf r (length r - 40)) = 0
    \<and> build_icmpv6_dest_unreach r = None"
proof -
  define body s d where "body = take 1232 p" and "s = slice p 24 40" and "d = slice p 8 24"
  define c where "c = checksum16 (icmp_pseudo s d 0 body)"
  define r where "r = icmp_reply s d c body"
  have l: "length s = 16" "length d = 16" "length body = min (length p) 1232"
    using assms(1) by (auto simp: s_def d_def body_def)
  have b: "build_icmpv6_dest_unreach p = Some r"
    using reply_eq [OF assms] by (simp add: r_def c_def s_def d_def body_def)
  have len: "length r = 48 + length body" using l by (simp add: r_def icmp_reply_def)
  have u: "unat (of_nat (8 + length body) :: u16) = 8 + length body"
    using l by (intro unat_of_nat_u16) simp
  have sl: "slice r 4 6 = be16_bytes (of_nat (8 + length body))" "slice r 8 24 = s" "slice r 24 40 = d" "drop 48 r = body"
    using l by (simp_all add: r_def icmp_reply_def slice_def)
  have nth: "r ! 0 = 0x60" "r ! 6 = 58" by (simp_all add: r_def icmp_reply_def be16_bytes_def)
  have "drop 40 r = [1, 0] @ be16_bytes c @ [0, 0, 0, 0] @ body" using l by (simp add: r_def icmp_reply_def)
  then have n40: "r ! 40 = 1" "r ! 41 = 0"
    using len nth_drop [of 40 r 0] nth_drop [of 40 r 1] by simp_all
  have ck: "checksum16 (icmpv6_cksum_buf r (length r - 40)) = 0"
    using cksum_buf_eq [OF l(1,2), of c body] pseudo_verifies [OF l(1,2), of body] l(3) len
    by (simp add: r_def c_def)
  have "build_icmpv6_dest_unreach r = None"
    using nth n40 len by (simp add: build_icmpv6_dest_unreach_def ICMPV6_NEXT_HDR_def)
  then show ?thesis
    using b len sl u nth n40 ck l(3)
    by (intro exI [of _ r]) (simp add: body_def s_def d_def)
qed

theorem icmpv6_reject_wellformed_witness:
  "\<exists>r. build_icmpv6_dest_unreach (replicate 60 0) = Some r \<and> length r = 108
     \<and> build_icmpv6_dest_unreach r = None"
proof -
  have z: "replicate 60 (0 :: u8) ! 6 = 0" by (rule nth_replicate) simp
  then have "\<not> (replicate 60 (0 :: u8) ! 6 = 58 \<and> 41 \<le> length (replicate 60 (0 :: u8)) \<and> replicate 60 (0 :: u8) ! 40 < 128)"
    by (simp only:) simp
  moreover have "40 \<le> length (replicate 60 (0 :: u8))" by simp
  ultimately show ?thesis
    using icmpv6_reject_wellformed [of "replicate 60 0"] by auto
qed

end
