(* ===== verification/Tun_Gateway.thy ===== *)
theory Tun_Gateway
  imports Builder_Props Dst_Filter
begin

text \<open>
  The kernel-TUN gateway of \<open>server/tun_gateway.rs\<close>: several peers share one TUN device, each
  under its own address \<open>10.8.0.X\<close>. Tunnels are numbered; \<open>g_alive\<close> says which of them still
  has a strong reference (so that \<open>Weak::upgrade\<close> succeeds), \<open>g_on_ip\<close> which lease the
  handler installed on it carries. \<open>g_tun\<close> logs the packets written to the device and
  \<open>g_sent\<close> the packets handed to \<open>LkTunnel::send_ip\<close>, oldest first.
\<close>

section \<open>State\<close>

definition LEASE_FIRST :: u8 where "LEASE_FIRST = 2"
definition LEASE_LAST :: u8 where "LEASE_LAST = 254"
definition POOL_SIZE :: nat where "POOL_SIZE = unat (LEASE_LAST - LEASE_FIRST + 1)"
definition CLIENT_TUN_OCTETS :: bytes where "CLIENT_TUN_OCTETS = [10, 8, 0, 2]"
definition SERVER_NET_PREFIX :: bytes where "SERVER_NET_PREFIX = [10, 8, 0]"

record tun_gateway =
  g_pool :: "nat option list"
  g_shutdown :: bool
  g_reading :: bool
  g_alive :: "nat \<Rightarrow> bool"
  g_on_ip :: "nat \<Rightarrow> u8 option"
  g_tun :: "bytes list"
  g_sent :: "(nat \<times> bytes) list"

definition attach :: "(nat \<Rightarrow> bool) \<Rightarrow> tun_gateway" where
  "attach alive = \<lparr>g_pool = replicate POOL_SIZE None, g_shutdown = False, g_reading = True,
     g_alive = alive, g_on_ip = (\<lambda>_. None), g_tun = [], g_sent = []\<rparr>"

section \<open>Peer to device\<close>

definition drop_outbound :: "bytes \<Rightarrow> bool" where
  "drop_outbound pkt =
     (if length pkt < 20 \<or> drop_bit 4 (pkt ! 0) \<noteq> 4 then True
      else let dst = Ipv4 (pkt ! 16) (pkt ! 17) (pkt ! 18) (pkt ! 19);
               os = octets dst in
        if os ! 0 = SERVER_NET_PREFIX ! 0 \<and> os ! 1 = SERVER_NET_PREFIX ! 1 then True
        else is_blocked_dst (StdV4 dst))"

definition lease_addr :: "u8 \<Rightarrow> bytes" where
  "lease_addr lease = [SERVER_NET_PREFIX ! 0, SERVER_NET_PREFIX ! 1, SERVER_NET_PREFIX ! 2, lease]"

text \<open>\<open>libc::write\<close> on a closed descriptor fails and is only logged.\<close>

definition tun_write :: "tun_gateway \<Rightarrow> bytes \<Rightarrow> tun_gateway" where
  "tun_write g buf = (if g_shutdown g then g else g\<lparr>g_tun := g_tun g @ [buf]\<rparr>)"

definition on_ip_handler :: "tun_gateway \<Rightarrow> u8 \<Rightarrow> bytes \<Rightarrow> tun_gateway" where
  "on_ip_handler g lease pkt =
     (if drop_outbound pkt then g
      else case rewrite_v4_src pkt (lease_addr lease) of
        (ok, buf) \<Rightarrow> if \<not> ok then g else tun_write g buf)"

section \<open>Leases\<close>

fun first_free :: "'a option list \<Rightarrow> nat option" where
  "first_free [] = None"
| "first_free (None # xs) = Some 0"
| "first_free (Some _ # xs) = map_option Suc (first_free xs)"

datatype snat_error = SnatPoolExhausted

definition gw_register :: "tun_gateway \<Rightarrow> nat \<Rightarrow> (snat_error + u8) \<times> tun_gateway" where
  "gw_register g t =
     (case first_free (g_pool g) of
        None \<Rightarrow> (Inl SnatPoolExhausted, g)
      | Some idx \<Rightarrow>
          let lease = of_nat idx + LEASE_FIRST in
          (Inr lease, g\<lparr>g_pool := (g_pool g)[idx := Some t], g_on_ip := (g_on_ip g)(t := Some lease)\<rparr>))"

text \<open>The first slot whose tunnel is alive and is \<open>t\<close>.\<close>

fun slot_of :: "(nat \<Rightarrow> bool) \<Rightarrow> nat \<Rightarrow> nat option list \<Rightarrow> nat option" where
  "slot_of alive t [] = None"
| "slot_of alive t (s # ss) =
     (case s of
        Some u \<Rightarrow> if alive u \<and> u = t then Some 0 else map_option Suc (slot_of alive t ss)
      | None \<Rightarrow> map_option Suc (slot_of alive t ss))"

definition gw_unregister :: "tun_gateway \<Rightarrow> nat \<Rightarrow> tun_gateway" where
  "gw_unregister g t =
     (case slot_of (g_alive g) t (g_pool g) of
        None \<Rightarrow> g
      | Some i \<Rightarrow> g\<lparr>g_pool := (g_pool g)[i := None], g_on_ip := (g_on_ip g)(t := None)\<rparr>)"

text \<open>\<open>close\<close> joins the read thread; \<open>Drop\<close> closes a gateway that is still open.\<close>

definition gw_close :: "tun_gateway \<Rightarrow> tun_gateway" where
  "gw_close g = (if g_shutdown g then g else g\<lparr>g_shutdown := True, g_reading := False\<rparr>)"

definition gw_drop :: "tun_gateway \<Rightarrow> tun_gateway" where
  "gw_drop g = (if \<not> g_shutdown g then gw_close g else g)"

section \<open>Device to peer\<close>

text \<open>What one turn of the read loop gets from the system: \<open>poll\<close> fails (\<open>True\<close>: interrupted),
  times out or reports data; \<open>read\<close> fails (\<open>True\<close>: interrupted or would block) or gives bytes,
  none of them when the descriptor is closed.\<close>

datatype read_result = ReadErr bool | ReadOk bytes
datatype poll_result = PollErr bool | PollTimeout | PollReady read_result

definition tun_packet :: "tun_gateway \<Rightarrow> bytes \<Rightarrow> tun_gateway" where
  "tun_packet g buf =
     (if length buf < 20 \<or> drop_bit 4 (buf ! 0) \<noteq> 4 then g
      else if slice buf 16 19 \<noteq> SERVER_NET_PREFIX then g
      else let lease = buf ! 19 in
        if \<not> (LEASE_FIRST \<le> lease \<and> lease \<le> LEASE_LAST) then g
        else let idx = unat (lease - LEASE_FIRST) in
          (case g_pool g ! idx of
             None \<Rightarrow> g
           | Some t \<Rightarrow>
               if \<not> g_alive g t then g
               else (case rewrite_v4_dst buf CLIENT_TUN_OCTETS of
                 (ok, pkt) \<Rightarrow> if \<not> ok then g else g\<lparr>g_sent := g_sent g @ [(t, pkt)]\<rparr>)))"

text \<open>One turn: the new state and whether the loop goes on.\<close>

fun read_turn :: "tun_gateway \<Rightarrow> poll_result \<Rightarrow> tun_gateway \<times> bool" where
  "read_turn g (PollErr interrupted) = (g, interrupted)"
| "read_turn g PollTimeout = (g, True)"
| "read_turn g (PollReady (ReadErr transient)) = (g, transient)"
| "read_turn g (PollReady (ReadOk buf)) = (if buf = [] then (g, False) else (tun_packet g buf, True))"

text \<open>The loop over the system's answers; it stops at shutdown or after a turn that breaks.\<close>

fun tun_read_loop :: "tun_gateway \<Rightarrow> poll_result list \<Rightarrow> tun_gateway" where
  "tun_read_loop g [] = g"
| "tun_read_loop g (r # rs) =
     (if g_shutdown g then g\<lparr>g_reading := False\<rparr>
      else case read_turn g r of
        (g', go) \<Rightarrow> if go then tun_read_loop g' rs else g'\<lparr>g_reading := False\<rparr>)"

section \<open>The lease pool\<close>

text \<open>What the gateway needs of the pool: a lease is handed out only when nobody holds it, and
  giving one out or taking one back changes no other.\<close>

locale lease_pool =
  fixes owner :: "'p \<Rightarrow> nat \<Rightarrow> 't option"
    and grant :: "'p \<Rightarrow> 't \<Rightarrow> (nat \<times> 'p) option"
    and revoke :: "'p \<Rightarrow> nat \<Rightarrow> 'p"
  assumes grant_free: "grant p t = Some (i, p') \<Longrightarrow> owner p i = None"
    and owner_grant: "grant p t = Some (i, p') \<Longrightarrow> owner p' j = (if j = i then Some t else owner p j)"
    and owner_revoke: "owner (revoke p i) j = (if j = i then None else owner p j)"
begin

text \<open>\<open>holds h p\<close>: every client that believes it has lease \<open>i\<close> owns it in the pool.\<close>

definition holds :: "('t \<Rightarrow> nat option) \<Rightarrow> 'p \<Rightarrow> bool" where
  "holds h p \<longleftrightarrow> (\<forall>t i. h t = Some i \<longrightarrow> owner p i = Some t)"

lemma holds_grant: "holds h p \<Longrightarrow> grant p t = Some (i, p') \<Longrightarrow> holds (h(t := Some i)) p'"
  unfolding holds_def by (auto simp: owner_grant dest: grant_free)

lemma holds_revoke:
  "holds h p \<Longrightarrow> owner p i = Some t \<Longrightarrow> holds (h(t := None)) (revoke p i)"
  unfolding holds_def owner_revoke by auto

lemma holds_less: "holds h p \<Longrightarrow> (\<And>t i. h' t = Some i \<Longrightarrow> h t = Some i) \<Longrightarrow> holds h' p"
  by (simp add: holds_def)

lemma holds_isolated: "holds h p \<Longrightarrow> h s = Some i \<Longrightarrow> h t = Some i \<Longrightarrow> s = t"
  unfolding holds_def by (metis option.inject)

end

definition slot_owner :: "'t option list \<Rightarrow> nat \<Rightarrow> 't option" where
  "slot_owner p i = (if i < length p then p ! i else None)"

definition slot_grant :: "'t option list \<Rightarrow> 't \<Rightarrow> (nat \<times> 't option list) option" where
  "slot_grant p t = map_option (\<lambda>i. (i, p[i := Some t])) (first_free p)"

lemma first_free_Some: "first_free p = Some i \<Longrightarrow> i < length p \<and> p ! i = None"
  by (induction p arbitrary: i rule: first_free.induct) auto

lemma first_free_None: "first_free p = None \<longleftrightarrow> None \<notin> set p"
  by (induction p rule: first_free.induct) auto

lemma slot_of_Some: "slot_of alive t p = Some i \<Longrightarrow> i < length p \<and> p ! i = Some t \<and> alive t"
  by (induction p arbitrary: i) (auto split: option.splits if_splits)

lemma slot_of_None: "slot_of alive t p = None \<Longrightarrow> alive t \<Longrightarrow> Some t \<notin> set p"
  by (induction p) (auto split: option.splits if_splits)

interpretation slots: lease_pool slot_owner slot_grant "\<lambda>p i. p[i := None]"
  by unfold_locales
    (auto simp: slot_owner_def slot_grant_def nth_list_update dest: first_free_Some split: if_splits)


section \<open>What the rewrite leaves alone\<close>

lemma nth_put_slice:
  assumes "i < length out" "off + length xs \<le> length out"
  shows "put_slice out off xs ! i = (if off \<le> i \<and> i < off + length xs then xs ! (i - off) else out ! i)"
  using assms by (auto simp: put_slice_def nth_append min_def)

lemma hd_put_slice: "0 < off \<Longrightarrow> off \<le> length out \<Longrightarrow> put_slice out off xs ! 0 = out ! 0"
  by (cases out; cases off) (auto simp: put_slice_def)

lemma slice_put_slice_apart:
  assumes "off + length xs \<le> length out" "b \<le> length out" "b \<le> off \<or> off + length xs \<le> a"
  shows "slice (put_slice out off xs) a b = slice out a b"
  by (rule nth_equalityI) (use assms in \<open>auto simp: nth_slice nth_put_slice\<close>)

lemma slice_put_slice_same:
  "off + length xs \<le> length out \<Longrightarrow> slice (put_slice out off xs) off (off + length xs) = xs"
  by (rule nth_equalityI) (auto simp: nth_slice nth_put_slice)

text \<open>With a header length of at least 20 bytes, a source rewrite that succeeds keeps the
  version byte and the destination and installs the new source.\<close>

definition ihl_ok :: "bytes \<Rightarrow> bool" where
  "ihl_ok pkt \<longleftrightarrow> 5 \<le> unat ((pkt ! 0) AND 0x0f)"

lemma rewrite_src_keeps:
  assumes "rewrite_v4_src pkt new = (True, buf)" "ihl_ok pkt" "length new = 4"
  shows "length buf = length pkt" "20 \<le> length pkt" "drop_bit 4 (pkt ! 0) = 4" "buf ! 0 = pkt ! 0"
    "slice buf 12 16 = new" "slice buf 16 20 = slice pkt 16 20"
proof -
  define ihl where "ihl = unat ((pkt ! 0) AND 0x0f) * 4"
  have ihl: "20 \<le> ihl" using assms(2) by (simp add: ihl_def ihl_ok_def)
  have len: "20 \<le> length pkt" and ver: "drop_bit 4 (pkt ! 0) = 4"
    using assms(1) by (auto simp: rewrite_v4_src_def rewrite_v4_addr_def Let_def split: if_splits)
  define q where "q = put_slice (put_be16 pkt 10 (csum_update_addr (be16 (slice pkt 10 12))
    [pkt ! 12, pkt ! 13, pkt ! 14, pkt ! 15] new)) 12 new"
  have q: "length q = length pkt" "q ! 0 = pkt ! 0" "slice q 12 16 = new" "slice q 16 20 = slice pkt 16 20"
    using len assms(3) slice_put_slice_same [of 12 new]
    by (simp_all add: q_def put_be16_slice hd_put_slice slice_put_slice_apart)
  have shape: "(buf = pkt \<and> slice pkt 12 16 = new) \<or> buf = q
      \<or> (\<exists>k v. buf = put_be16 q k v \<and> 20 \<le> k \<and> k + 2 \<le> length q)"
  proof (cases "[pkt ! 12, pkt ! 13, pkt ! 14, pkt ! 15] = new")
    case True
    then show ?thesis
      using assms(1) len four_nth [of 12 pkt]
      by (auto simp: rewrite_v4_src_def rewrite_v4_addr_def Let_def split: if_splits)
  next
    case False
    then show ?thesis
      using assms(1) ihl q(1)
      by (auto simp: rewrite_v4_src_def rewrite_v4_addr_def Let_def ihl_def [symmetric] q_def [symmetric]
          split: if_splits)
  qed
  have "length buf = length pkt \<and> buf ! 0 = pkt ! 0 \<and> slice buf 12 16 = new
      \<and> slice buf 16 20 = slice pkt 16 20"
    using shape q len by (auto simp: put_be16_slice hd_put_slice slice_put_slice_apart)
  then show "length buf = length pkt" "buf ! 0 = pkt ! 0" "slice buf 12 16 = new"
    "slice buf 16 20 = slice pkt 16 20" by simp_all
  show "20 \<le> length pkt" "drop_bit 4 (pkt ! 0) = 4" by (fact len ver)+
qed

section \<open>Reachable gateways\<close>

text \<open>Other threads interleave at the pool's lock: the shim registers live tunnels and drops
  them, peers send packets, the read thread turns, and somebody closes the gateway.\<close>

inductive gw_step :: "tun_gateway \<Rightarrow> tun_gateway \<Rightarrow> bool" where
  step_register: "g_alive g t \<Longrightarrow> gw_register g t = (r, g') \<Longrightarrow> gw_step g g'"
| step_unregister: "g_alive g t \<Longrightarrow> gw_step g (gw_unregister g t)"
| step_tunnel_gone: "gw_step g (g\<lparr>g_alive := (g_alive g)(t := False)\<rparr>)"
| step_peer_packet: "g_alive g t \<Longrightarrow> g_on_ip g t = Some lease \<Longrightarrow> gw_step g (on_ip_handler g lease pkt)"
| step_read: "g_reading g \<Longrightarrow> gw_step g (tun_read_loop g rs)"
| step_close: "gw_step g (gw_close g)"
| step_drop: "gw_step g (gw_drop g)"

inductive gw_reach :: "(nat \<Rightarrow> bool) \<Rightarrow> tun_gateway \<Rightarrow> bool" for alive where
  reach_attach: "gw_reach alive (attach alive)"
| reach_step: "gw_reach alive g \<Longrightarrow> gw_step g g' \<Longrightarrow> gw_reach alive g'"

definition lease_held :: "tun_gateway \<Rightarrow> nat \<Rightarrow> nat option" where
  "lease_held g t = map_option (\<lambda>l. unat (l - LEASE_FIRST)) (g_on_ip g t)"

text \<open>A packet on the device that the policy stands for: it goes to an allowed destination
  outside \<open>10.8.0.0/16\<close> and comes from a lease of the pool.\<close>

definition policed :: "bytes \<Rightarrow> bool" where
  "policed p \<longleftrightarrow> 20 \<le> length p
     \<and> \<not> is_blocked_v4 (Ipv4 (p ! 16) (p ! 17) (p ! 18) (p ! 19)) \<and> slice p 16 18 \<noteq> [10, 8]
     \<and> (\<exists>l. LEASE_FIRST \<le> l \<and> l \<le> LEASE_LAST \<and> slice p 12 16 = lease_addr l)"

definition gw_inv :: "tun_gateway \<Rightarrow> bool" where
  "gw_inv g \<longleftrightarrow> length (g_pool g) = POOL_SIZE
     \<and> slots.holds (lease_held g) (g_pool g)
     \<and> (\<forall>p \<in> set (g_tun g). ihl_ok p \<longrightarrow> policed p)"

lemma pool_size [simp]: "POOL_SIZE = 253"
  by (simp add: POOL_SIZE_def LEASE_FIRST_def LEASE_LAST_def)

lemma lease_index:
  assumes "i < 253"
  shows "unat ((of_nat i + LEASE_FIRST) - LEASE_FIRST :: u8) = i"
    "LEASE_FIRST \<le> of_nat i + LEASE_FIRST" "of_nat i + LEASE_FIRST \<le> LEASE_LAST"
  using assms
  by (simp_all add: LEASE_FIRST_def LEASE_LAST_def unat_of_nat word_le_nat_alt unat_word_ariths)

lemma lease_bounds:
  assumes "unat (l - LEASE_FIRST) < 253"
  shows "LEASE_FIRST \<le> l" "l \<le> LEASE_LAST"
  using lease_index(2,3) [OF assms] by simp_all

lemma inv_held:
  assumes "gw_inv g" "g_on_ip g t = Some l"
  shows "LEASE_FIRST \<le> l" "l \<le> LEASE_LAST" "g_pool g ! unat (l - LEASE_FIRST) = Some t"
proof -
  have "slot_owner (g_pool g) (unat (l - LEASE_FIRST)) = Some t"
    using assms by (simp add: gw_inv_def slots.holds_def lease_held_def)
  then have b: "unat (l - LEASE_FIRST) < 253" "g_pool g ! unat (l - LEASE_FIRST) = Some t"
    using assms(1) by (auto simp: slot_owner_def gw_inv_def split: if_splits)
  show "LEASE_FIRST \<le> l" "l \<le> LEASE_LAST" using lease_bounds [OF b(1)] by simp_all
  show "g_pool g ! unat (l - LEASE_FIRST) = Some t" by (fact b(2))
qed

lemma slice_nth4: "20 \<le> length p \<Longrightarrow> slice p 16 20 = [p ! 16, p ! 17, p ! 18, p ! 19]"
  using four_nth [of 16 p] by simp

lemma written_policed:
  assumes "\<not> drop_outbound pkt" "rewrite_v4_src pkt (lease_addr l) = (True, buf)" "ihl_ok buf"
    "LEASE_FIRST \<le> l" "l \<le> LEASE_LAST" "buf ! 0 = pkt ! 0"
  shows "policed buf"
proof -
  have "ihl_ok pkt" using assms(3,6) by (simp add: ihl_ok_def)
  note k = rewrite_src_keeps [OF assms(2) this]
  have la: "length (lease_addr l) = 4" by (simp add: lease_addr_def)
  have "drop_outbound buf = drop_outbound pkt"
    using k [OF la] slice_nth4 [of pkt] slice_nth4 [of buf] by (simp add: drop_outbound_def Let_def)
  then have "\<not> drop_outbound buf" using assms(1) by simp
  moreover have "slice buf 16 18 = [buf ! 16, buf ! 17]"
    using k(1,2) [OF la] by (intro nth_equalityI) (auto simp: nth_slice dest: less_2_cases)
  ultimately show ?thesis
    using k [OF la] assms(4,5)
    by (auto simp: policed_def drop_outbound_def SERVER_NET_PREFIX_def Let_def split: if_splits)
qed

lemma rewrite_version:
  assumes "rewrite_v4_src pkt new = (True, buf)" "length new = 4"
  shows "buf ! 0 = pkt ! 0"
proof -
  have len: "20 \<le> length pkt"
    using assms(1) by (auto simp: rewrite_v4_src_def rewrite_v4_addr_def Let_def split: if_splits)
  define q where "q = put_slice (put_be16 pkt 10 (csum_update_addr (be16 (slice pkt 10 12))
    [pkt ! 12, pkt ! 13, pkt ! 14, pkt ! 15] new)) 12 new"
  have q: "length q = length pkt" "q ! 0 = pkt ! 0"
    using len assms(2) by (simp_all add: q_def put_be16_slice hd_put_slice)
  have "buf = pkt \<or> buf = q \<or> (\<exists>k v. buf = put_be16 q k v \<and> 0 < k \<and> k \<le> length q)"
    using assms(1) q(1)
    by (auto simp: rewrite_v4_src_def rewrite_v4_addr_def Let_def q_def [symmetric] split: if_splits)
  then show ?thesis
    using q by (auto simp: put_be16_slice hd_put_slice)
qed

lemma tun_packet_frame [simp]:
  "g_pool (tun_packet g b) = g_pool g" "g_on_ip (tun_packet g b) = g_on_ip g"
  "g_tun (tun_packet g b) = g_tun g"
  by (auto simp: tun_packet_def Let_def split: option.splits prod.splits)

lemma read_turn_frame:
  "read_turn g r = (g', go) \<Longrightarrow>
     g_pool g' = g_pool g \<and> g_on_ip g' = g_on_ip g \<and> g_tun g' = g_tun g"
  by (induction g r rule: read_turn.induct) (auto split: if_splits)

lemma read_loop_frame:
  "g_pool (tun_read_loop g rs) = g_pool g \<and> g_on_ip (tun_read_loop g rs) = g_on_ip g
   \<and> g_tun (tun_read_loop g rs) = g_tun g"
  by (induction g rs rule: tun_read_loop.induct)
    (auto simp: read_turn_frame dest: read_turn_frame split: prod.splits)

lemma gw_inv_cong:
  "g_pool g' = g_pool g \<Longrightarrow> g_on_ip g' = g_on_ip g \<Longrightarrow> g_tun g' = g_tun g \<Longrightarrow> gw_inv g' = gw_inv g"
  by (simp add: gw_inv_def lease_held_def [abs_def])

lemma inv_register:
  assumes "gw_inv g" "gw_register g t = (r, g')"
  shows "gw_inv g'"
proof (cases "first_free (g_pool g)")
  case (Some i)
  then have g': "g' = g\<lparr>g_pool := (g_pool g)[i := Some t],
      g_on_ip := (g_on_ip g)(t := Some (of_nat i + LEASE_FIRST))\<rparr>"
    using assms(2) by (simp add: gw_register_def Let_def)
  have "i < 253" using first_free_Some [OF Some] assms(1) by (simp add: gw_inv_def)
  then have "lease_held g' = (lease_held g)(t := Some i)"
    using lease_index(1) [of i] by (auto simp: lease_held_def g')
  moreover have "slot_grant (g_pool g) t = Some (i, g_pool g')"
    using Some by (simp add: slot_grant_def g')
  ultimately show ?thesis
    using assms(1) slots.holds_grant [of "lease_held g" "g_pool g" t i "g_pool g'"]
    by (simp add: gw_inv_def g')
qed (use assms in \<open>simp add: gw_register_def\<close>)

lemma inv_unregister:
  assumes "gw_inv g"
  shows "gw_inv (gw_unregister g t)"
proof (cases "slot_of (g_alive g) t (g_pool g)")
  case (Some i)
  let ?g = "gw_unregister g t"
  have "lease_held ?g = (lease_held g)(t := None)"
    using Some by (auto simp: lease_held_def gw_unregister_def)
  moreover have "slot_owner (g_pool g) i = Some t"
    using slot_of_Some [OF Some] by (simp add: slot_owner_def)
  ultimately show ?thesis
    using assms slots.holds_revoke [of "lease_held g" "g_pool g" i t] Some
    by (simp add: gw_inv_def gw_unregister_def)
qed (use assms in \<open>simp add: gw_unregister_def\<close>)

lemma inv_peer_packet:
  assumes "gw_inv g" "g_on_ip g t = Some l"
  shows "gw_inv (on_ip_handler g l pkt)"
proof -
  have "gw_inv (tun_write g buf)" if "\<not> drop_outbound pkt" "rewrite_v4_src pkt (lease_addr l) = (True, buf)" for buf
  proof -
    have "buf ! 0 = pkt ! 0" using rewrite_version [OF that(2)] by (simp add: lease_addr_def)
    then have "ihl_ok buf \<longrightarrow> policed buf"
      using written_policed [OF that] inv_held [OF assms] by simp
    then show ?thesis
      using assms(1) by (auto simp: gw_inv_def tun_write_def lease_held_def [abs_def])
  qed
  then show ?thesis
    using assms(1) by (auto simp: on_ip_handler_def split: prod.splits)
qed

lemma inv_step: "gw_step g g' \<Longrightarrow> gw_inv g \<Longrightarrow> gw_inv g'"
proof (induction rule: gw_step.induct)
  case (step_tunnel_gone g t)
  then show ?case by (subst gw_inv_cong [of _ g]) simp_all
next
  case (step_read g rs)
  then show ?case using read_loop_frame [of g rs] gw_inv_cong [of "tun_read_loop g rs" g] by simp
next
  case (step_close g)
  then show ?case by (subst gw_inv_cong [of _ g]) (simp_all add: gw_close_def)
next
  case (step_drop g)
  then show ?case by (subst gw_inv_cong [of _ g]) (simp_all add: gw_drop_def gw_close_def)
qed (auto intro: inv_register inv_unregister inv_peer_packet)

lemma inv_attach: "gw_inv (attach alive)"
  by (simp add: gw_inv_def attach_def slots.holds_def lease_held_def)

lemma inv_reach: "gw_reach alive g \<Longrightarrow> gw_inv g"
  by (induction rule: gw_reach.induct) (auto intro: inv_attach inv_step)

section \<open>Properties\<close>

text \<open>C6. In every reachable gateway, under any interleaving of registrations, tunnels going
  away, peer packets, reads and close: a tunnel's handler carries a lease between 2 and 254
  whose pool slot is that tunnel's, so no two tunnels share a lease; and every packet written
  to the device whose header length field is at least 5 goes to a destination the policy
  allows, outside \<open>10.8.0.0/16\<close>, from a lease address of the pool.\<close>

theorem gateway_isolates_peers:
  assumes "gw_reach alive g"
  shows "(\<forall>t l. g_on_ip g t = Some l \<longrightarrow>
            2 \<le> l \<and> l \<le> 254 \<and> g_pool g ! unat (l - 2) = Some t)
       \<and> (\<forall>s t l. g_on_ip g s = Some l \<and> g_on_ip g t = Some l \<longrightarrow> s = t)
       \<and> (\<forall>p \<in> set (g_tun g). ihl_ok p \<longrightarrow> policed p)"
proof (intro conjI allI impI)
  note inv = inv_reach [OF assms]
  fix t l assume l: "g_on_ip g t = Some l"
  show "2 \<le> l" "l \<le> 254" "g_pool g ! unat (l - 2) = Some t"
    using inv_held [OF inv l] by (simp_all add: LEASE_FIRST_def LEASE_LAST_def)
next
  fix s t l assume "g_on_ip g s = Some l \<and> g_on_ip g t = Some l"
  then show "s = t"
    using inv_reach [OF assms] slots.holds_isolated [of "lease_held g" "g_pool g" s _ t]
    by (simp add: gw_inv_def lease_held_def)
next
  show "\<forall>p \<in> set (g_tun g). ihl_ok p \<longrightarrow> policed p"
    using inv_reach [OF assms] by (simp add: gw_inv_def)
qed

definition std_v4 :: "ip_addr \<Rightarrow> ipv4" where
  "std_v4 a = Ipv4 (v4_octets a ! 0) (v4_octets a ! 1) (v4_octets a ! 2) (v4_octets a ! 3)"

text \<open>The flows a peer may have: IPv4 ends, the far one allowed by the policy.\<close>

definition may_send :: "ip_addr \<Rightarrow> ip_addr \<Rightarrow> bool" where
  "may_send s d \<longleftrightarrow> is_v4 s \<and> is_v4 d \<and> wf_addr s \<and> wf_addr d
     \<and> \<not> is_blocked_v4 (std_v4 d)"

lemma built_dst:
  assumes "length s = 4" "length d = 4" "p = ipv4_hdr tot ident fo pr s d @ body"
  shows "20 \<le> length p \<and> p ! 0 = 0x45 \<and> p ! 16 = d ! 0 \<and> p ! 17 = d ! 1 \<and> p ! 18 = d ! 2 \<and> p ! 19 = d ! 3"
  using assms by (auto simp: ipv4_hdr_def hdr_bytes_def be16_bytes_def length_Suc_conv numeral_eq_Suc)

lemma outbound_passes:
  assumes "may_send s d" "p = ipv4_hdr tot ident fo pr (v4_octets s) (v4_octets d) @ body"
  shows "\<not> drop_outbound p"
proof -
  have l: "length (v4_octets s) = 4" "length (v4_octets d) = 4"
    using assms(1) by (simp_all add: may_send_def length_v4_octets)
  have "\<not> (v4_octets d ! 0 = 10 \<and> v4_octets d ! 1 = 8)"
    using assms(1) by (auto simp: may_send_def is_blocked_v4_def std_v4_def)
  then show ?thesis
    using built_dst [OF l assms(2)] assms(1)
    by (auto simp: drop_outbound_def may_send_def std_v4_def SERVER_NET_PREFIX_def Let_def)
qed

lemma handler_writes:
  assumes "may_send s d" "p = ipv4_hdr tot ident fo pr (v4_octets s) (v4_octets d) @ body"
    "rewrite_v4_addr p (lease_addr l) True = (True, q)" "\<not> g_shutdown g"
  shows "on_ip_handler g l p = g\<lparr>g_tun := g_tun g @ [q]\<rparr>"
  using outbound_passes [OF assms(1,2)] assms(3,4)
  by (simp add: on_ip_handler_def rewrite_v4_src_def tun_write_def)

lemma read_delivers:
  assumes "gw_inv g" "\<not> g_shutdown g" "g_alive g t" "g_on_ip g t = Some l" "length s = 4"
    "p = ipv4_hdr tot ident fo pr s (lease_addr l) @ body"
    "rewrite_v4_addr p CLIENT_TUN_OCTETS False = (True, q)"
  shows "g_sent (tun_read_loop g [PollReady (ReadOk p)]) = g_sent g @ [(t, q)]"
proof -
  have la: "length (lease_addr l) = 4" by (simp add: lease_addr_def)
  note f = built_dst [OF assms(5) la assms(6)]
  have "slice p 16 19 = [p ! 16, p ! 17, p ! 18]"
    using f by (intro nth_equalityI) (auto simp: nth_slice less_Suc_eq numeral_eq_Suc)
  then have pre: "slice p 16 19 = SERVER_NET_PREFIX"
    using f by (simp add: lease_addr_def SERVER_NET_PREFIX_def)
  have "p ! 19 = l" using f by (simp add: lease_addr_def)
  then have "tun_packet g p = g\<lparr>g_sent := g_sent g @ [(t, q)]\<rparr>"
    using f pre inv_held [OF assms(1,4)] assms(3,7)
    by (simp add: tun_packet_def Let_def rewrite_v4_dst_def)
  moreover have "p \<noteq> []" using f by auto
  ultimately show ?thesis using assms(2) by simp
qed

text \<open>C5. In a reachable open gateway a live tunnel with lease \<open>l\<close> is translated both ways: a TCP
  segment or UDP datagram to an allowed destination goes to the device as the same packet
  rebuilt with source \<open>10.8.0.l\<close>, and a packet the device reads for \<open>10.8.0.l\<close> goes to that
  tunnel, once, as the packet rebuilt with destination \<open>10.8.0.2\<close>.\<close>

theorem snat_both_ways:
  assumes "gw_reach alive g" "\<not> g_shutdown g" "g_alive g t" "g_on_ip g t = Some l"
    and "may_send (tb_src b) (tb_dst b)" "40 + length (tb_options b) + length (tb_payload b) \<le> 0xffff"
    and "may_send (ub_src u) (ub_dst u)" "28 + length (ub_payload u) \<le> 0xffff"
    and "is_v4 far" "wf_addr far"
  shows "g_tun (on_ip_handler g l (tcp_packet b))
           = g_tun g @ [tcp_packet (b\<lparr>tb_src := v4_from_bytes [10, 8, 0, l]\<rparr>)]
       \<and> g_tun (on_ip_handler g l (udp_packet u))
           = g_tun g @ [udp_packet (u\<lparr>ub_src := v4_from_bytes [10, 8, 0, l]\<rparr>)]
       \<and> g_sent (tun_read_loop g [PollReady (ReadOk
             (tcp_packet (b\<lparr>tb_src := far, tb_dst := v4_from_bytes [10, 8, 0, l]\<rparr>)))])
           = g_sent g @ [(t, tcp_packet (b\<lparr>tb_src := far, tb_dst := v4_from_bytes [10, 8, 0, 2]\<rparr>))]
       \<and> g_sent (tun_read_loop g [PollReady (ReadOk
             (udp_packet (u\<lparr>ub_src := far, ub_dst := v4_from_bytes [10, 8, 0, l]\<rparr>)))])
           = g_sent g @ [(t, udp_packet (u\<lparr>ub_src := far, ub_dst := v4_from_bytes [10, 8, 0, 2]\<rparr>))]"
proof (intro conjI)
  have la: "lease_addr l = [10, 8, 0, l]" by (simp add: lease_addr_def SERVER_NET_PREFIX_def)
  have cl: "CLIENT_TUN_OCTETS = [10, 8, 0, 2]" by (simp add: CLIENT_TUN_OCTETS_def)
  have lf: "length (v4_octets far) = 4" using assms(10) by (simp add: length_v4_octets)
  note inv = inv_reach [OF assms(1)]
  have tb: "is_v4 (tb_src b)" "is_v4 (tb_dst b)" "wf_addr (tb_src b)" "wf_addr (tb_dst b)"
    and ub: "is_v4 (ub_src u)" "is_v4 (ub_dst u)" "wf_addr (ub_src u)" "wf_addr (ub_dst u)"
    using assms(5,7) by (simp_all add: may_send_def)
  show "g_tun (on_ip_handler g l (tcp_packet b))
      = g_tun g @ [tcp_packet (b\<lparr>tb_src := v4_from_bytes [10, 8, 0, l]\<rparr>)]"
    using handler_writes [OF assms(5) tcp_packet_def _ assms(2), of l]
      tcp_packet_rewrite(1) [OF tb assms(6), of "lease_addr l"] by (simp add: la)
  show "g_tun (on_ip_handler g l (udp_packet u))
      = g_tun g @ [udp_packet (u\<lparr>ub_src := v4_from_bytes [10, 8, 0, l]\<rparr>)]"
    using handler_writes [OF assms(7) udp_packet_def _ assms(2), of l]
      udp_packet_rewrite(1) [OF ub assms(8), of "lease_addr l"] by (simp add: la)
  let ?b = "b\<lparr>tb_src := far, tb_dst := v4_from_bytes [10, 8, 0, l]\<rparr>"
  have "tcp_packet ?b = ipv4_hdr (of_nat (40 + length (tb_options ?b) + length (tb_payload ?b))) 0 0x4000 6
      (v4_octets far) (lease_addr l) @ tcp_segment ?b"
    by (subst tcp_packet_def) (simp add: la)
  from read_delivers [OF inv assms(2-4) lf this] tcp_packet_rewrite(2) [of ?b CLIENT_TUN_OCTETS]
  show "g_sent (tun_read_loop g [PollReady (ReadOk (tcp_packet ?b))])
      = g_sent g @ [(t, tcp_packet (b\<lparr>tb_src := far, tb_dst := v4_from_bytes [10, 8, 0, 2]\<rparr>))]"
    using assms(6,9,10) by (simp add: cl del: tun_read_loop.simps)
  let ?u = "u\<lparr>ub_src := far, ub_dst := v4_from_bytes [10, 8, 0, l]\<rparr>"
  have "udp_packet ?u = ipv4_hdr (of_nat (28 + length (ub_payload ?u))) 0 0x4000 17
      (v4_octets far) (lease_addr l) @ udp_segment ?u"
    by (subst udp_packet_def) (simp add: la)
  from read_delivers [OF inv assms(2-4) lf this] udp_packet_rewrite(2) [of ?u CLIENT_TUN_OCTETS]
  show "g_sent (tun_read_loop g [PollReady (ReadOk (udp_packet ?u))])
      = g_sent g @ [(t, udp_packet (u\<lparr>ub_src := far, ub_dst := v4_from_bytes [10, 8, 0, 2]\<rparr>))]"
    using assms(8,9,10) by (simp add: cl del: tun_read_loop.simps)
qed

text \<open>Registering a tunnel and losing it, \<open>n\<close> times.\<close>

fun churn :: "nat \<Rightarrow> tun_gateway" where
  "churn 0 = attach (\<lambda>_. True)"
| "churn (Suc n) = (let g = snd (gw_register (churn n) n) in g\<lparr>g_alive := (g_alive g)(n := False)\<rparr>)"

lemma first_free_full: "first_free (map Some xs @ ys) = map_option (\<lambda>i. length xs + i) (first_free ys)"
  by (induction xs) (auto simp: option.map_comp comp_def option.map_ident)

lemma churn_pool:
  "n \<le> 253 \<Longrightarrow> g_pool (churn n) = map Some [0..<n] @ replicate (253 - n) None
     \<and> (\<forall>t < n. \<not> g_alive (churn n) t)"
proof (induction n)
  case (Suc n)
  have "replicate (253 - n) None = None # replicate (253 - Suc n) (None :: nat option)"
    using Suc.prems by (simp flip: replicate_Suc add: Suc_diff_Suc)
  then show ?case
    using Suc by (auto simp: Let_def gw_register_def first_free_full list_update_append less_Suc_eq)
qed (simp add: attach_def)

text \<open>The pool does not reclaim the slot of a tunnel that was dropped without
  \<open>unregister\<close>: after 253 tunnels have come and gone, the next registration is refused though
  no slot belongs to a live tunnel.\<close>

theorem dropped_leases_exhaust_pool:
  "fst (gw_register (churn 253) 253) = Inl SnatPoolExhausted
   \<and> {t. Some t \<in> set (g_pool (churn 253)) \<and> g_alive (churn 253) t} = {}"
proof -
  have p: "g_pool (churn 253) = map Some [0..<253]" and a: "\<forall>t < 253. \<not> g_alive (churn 253) t"
    using churn_pool [of 253] by simp_all
  have "first_free (map Some [0..<253]) = None"
    using first_free_None [of "map Some [0..<253]"] by (simp only: set_map) blast
  then show ?thesis using p a by (auto simp: gw_register_def)
qed

definition short_ihl_packet :: bytes where
  "short_ihl_packet = [0x40, 0, 0, 20, 0, 0, 0, 0, 64, 6, 0, 0, 10, 8, 0, 2, 128, 0, 5, 6]"

text \<open>The policy is checked before the rewrite, and the rewrite trusts the header length
  field: a 20-byte packet to the allowed 128.0.5.6 whose field is 0 has its \<open>checksum\<close>
  fixed up inside the destination address, and reaches the device addressed to 127.255.5.6.\<close>

theorem short_ihl_escapes_policy:
  "\<not> drop_outbound short_ihl_packet
   \<and> (\<exists>p. g_tun (on_ip_handler (attach a) 3 short_ihl_packet) = [p]
        \<and> slice p 16 20 = [127, 255, 5, 6] \<and> drop_outbound p
        \<and> is_blocked_v4 (Ipv4 127 255 5 6))"
proof (intro conjI exI)
  show "\<not> drop_outbound short_ihl_packet" by code_simp
  have "rewrite_v4_src short_ihl_packet (lease_addr 3)
      = (True, [0x40, 0, 0, 20, 0, 0, 0, 0, 64, 6, 255, 254, 10, 8, 0, 3, 127, 255, 5, 6])"
    by code_simp
  then show "g_tun (on_ip_handler (attach a) 3 short_ihl_packet)
      = [[0x40, 0, 0, 20, 0, 0, 0, 0, 64, 6, 255, 254, 10, 8, 0, 3, 127, 255, 5, 6]]"
    using \<open>\<not> drop_outbound short_ihl_packet\<close>
    by (simp add: on_ip_handler_def tun_write_def attach_def)
qed code_simp+

section \<open>Witnesses\<close>

definition one_peer :: tun_gateway where
  "one_peer = snd (gw_register (attach (\<lambda>_. True)) 7)"

lemma one_peer_reach: "gw_reach (\<lambda>_. True) one_peer"
  by (rule reach_step [OF reach_attach step_register [of _ 7 "fst (gw_register (attach (\<lambda>_. True)) 7)"]])
    (simp_all add: one_peer_def attach_def)

lemma one_peer_state:
  "g_on_ip one_peer 7 = Some 2" "\<not> g_shutdown one_peer" "g_alive one_peer 7" "g_tun one_peer = []"
  "g_sent one_peer = []"
  using replicate_Suc [of 252 "None :: nat option"]
  by (simp_all add: one_peer_def gw_register_def attach_def Let_def LEASE_FIRST_def)

theorem gateway_isolates_peers_witness:
  "\<exists>g. gw_reach (\<lambda>_. True) g \<and> g_on_ip g 7 = Some 2 \<and> g_pool g ! 0 = Some 7
     \<and> {s. g_on_ip g s = Some 2} = {7}"
proof (intro exI conjI)
  note iso = gateway_isolates_peers [OF one_peer_reach]
  show "gw_reach (\<lambda>_. True) one_peer" "g_on_ip one_peer 7 = Some 2"
    by (fact one_peer_reach one_peer_state(1))+
  have "unat (2 - 2 :: u8) = 0" by simp
  then show "g_pool one_peer ! 0 = Some 7" using iso one_peer_state(1) by metis
  show "{s. g_on_ip one_peer s = Some 2} = {7}" using iso one_peer_state(1) by blast
qed

theorem snat_both_ways_witness:
  "g_tun (on_ip_handler one_peer 2 (tcp_packet sample_tcp)) = [tcp_packet sample_tcp]
   \<and> g_sent (tun_read_loop one_peer [PollReady (ReadOk
        (udp_packet (sample_udp\<lparr>ub_src := v4_from_bytes [1, 1, 1, 1], ub_dst := v4_from_bytes [10, 8, 0, 2]\<rparr>)))])
      = [(7, udp_packet (sample_udp\<lparr>ub_src := v4_from_bytes [1, 1, 1, 1], ub_dst := v4_from_bytes [10, 8, 0, 2]\<rparr>))]"
proof -
  have m: "may_send (tb_src sample_tcp) (tb_dst sample_tcp)" "may_send (ub_src sample_udp) (ub_dst sample_udp)"
    by code_simp+
  show ?thesis
    using snat_both_ways [OF one_peer_reach one_peer_state(2,3,1) m(1) _ m(2), of "v4_from_bytes [1, 1, 1, 1]"]
    by (simp add: sample_tcp_def sample_udp_def one_peer_state del: tun_read_loop.simps)
qed

end
