(* ===== verification/Transition.thy ===== *)
theory Transition
  imports Main
begin

text \<open>
  State machines whose tasks interleave: reachable states, what an inductive invariant gives on
  them, and invariants that look only at a view of the state, so that an operation outside the view
  keeps them.
\<close>

section \<open>Reachable states\<close>

inductive reachable :: "('s \<Rightarrow> bool) \<Rightarrow> ('s \<Rightarrow> 's \<Rightarrow> bool) \<Rightarrow> 's \<Rightarrow> bool" for init step where
  reach_init: "init s \<Longrightarrow> reachable init step s"
| reach_next: "reachable init step s \<Longrightarrow> step s t \<Longrightarrow> reachable init step t"

locale invariant_system =
  fixes init :: "'s \<Rightarrow> bool" and step :: "'s \<Rightarrow> 's \<Rightarrow> bool" and inv :: "'s \<Rightarrow> bool"
  assumes inv_init: "init s \<Longrightarrow> inv s"
    and inv_step: "inv s \<Longrightarrow> step s t \<Longrightarrow> inv t"
begin

lemma always: "reachable init step s \<Longrightarrow> inv s"
  by (induction rule: reachable.induct) (blast intro: inv_init inv_step)+

end

text \<open>Systems whose steps are operations, each a function of the state.\<close>

locale op_system =
  fixes init :: "'s \<Rightarrow> bool" and apply_op :: "'op \<Rightarrow> 's \<Rightarrow> 's" and inv :: "'s \<Rightarrow> bool"
  assumes op_init: "init s \<Longrightarrow> inv s"
    and op_keeps: "inv s \<Longrightarrow> inv (apply_op op s)"
begin

lemma after: "inv s \<Longrightarrow> inv (fold apply_op ops s)"
  by (induction ops arbitrary: s) (simp_all add: op_keeps)

end

sublocale op_system \<subseteq> invariant_system init "\<lambda>s t. \<exists>op. t = apply_op op s" inv
  by unfold_locales (auto intro: op_init op_keeps)

lemma reachable_fold:
  "reachable init (\<lambda>s t. \<exists>op. t = f op s) s \<Longrightarrow> reachable init (\<lambda>s t. \<exists>op. t = f op s) (fold f ops s)"
proof (induction ops arbitrary: s)
  case (Cons op ops)
  then have "reachable init (\<lambda>s t. \<exists>op. t = f op s) (f op s)" by (intro reach_next [OF Cons(2)] exI) simp
  then show ?case using Cons(1) by simp
qed simp

text \<open>Deterministic runs: operations applied one after the other, each counted.\<close>

locale run_invariant =
  fixes start :: 's and apply_op :: "'op \<Rightarrow> 's \<Rightarrow> 's" and limit :: nat and inv :: "nat \<Rightarrow> 's \<Rightarrow> bool"
  assumes start_inv: "inv 0 start"
    and op_inv: "inv n s \<Longrightarrow> Suc n < limit \<Longrightarrow> inv (Suc n) (apply_op op s)"
begin

lemma run: "length ops < limit \<Longrightarrow> inv (length ops) (fold apply_op ops start)"
proof (induction ops rule: rev_induct)
  case (snoc op ops)
  then show ?case using op_inv [of "length ops" "fold apply_op ops start" op] by simp
qed (simp add: start_inv)

end

section \<open>Views\<close>

locale framed_invariant =
  fixes view :: "'s \<Rightarrow> 'v" and inv :: "'s \<Rightarrow> bool"
  assumes frame: "view s = view t \<Longrightarrow> inv s = inv t"
begin

lemma keep: "inv s \<Longrightarrow> view t = view s \<Longrightarrow> inv t"
  using frame [of t s] by simp

end

end
