(* ===== verification/Client_Manager.thy ===== *)
theory Client_Manager
  imports Prelude Transition
begin

text \<open>
  The client half of \<open>manager.rs\<close>: the activation driver that gates the control channel, the
  manager with its single current call, and the watcher task that each call gets. Tunnels are
  numbered in the order of their creation. The watcher runs concurrently with \<open>place_call\<close>
  and the other watchers, so its handlers are split at the points where another thread can get
  in: the phase of a watcher says between which two of its actions it stands.
\<close>

type_synonym peer_id = string

section \<open>The activation driver\<close>

datatype mode = Client | Server

text \<open>\<open>sig_up\<close> says whether the weak reference to the signaling object still upgrades;
  \<open>pushes\<close> logs the calls of \<open>activate\<close> (\<open>True\<close>) and \<open>deactivate\<close> (\<open>False\<close>).\<close>

record activation_driver =
  server_mode :: bool
  foreground :: bool
  active :: int
  last_push :: bool
  sig_up :: bool
  pushes :: "bool list"

definition want :: "activation_driver \<Rightarrow> bool" where
  "want d = (if server_mode d then True else foreground d \<and> active d \<le> 0)"

definition reconcile :: "activation_driver \<Rightarrow> activation_driver" where
  "reconcile d =
     (if last_push d = want d then d
      else let d' = d\<lparr>last_push := want d\<rparr> in
        if sig_up d then d'\<lparr>pushes := pushes d @ [want d]\<rparr> else d')"

definition driver_new :: "bool \<Rightarrow> activation_driver" where
  "driver_new initial_fg = reconcile \<lparr>server_mode = False, foreground = initial_fg, active = 0,
     last_push = False, sig_up = True, pushes = []\<rparr>"

definition foreground_changed :: "bool \<Rightarrow> activation_driver \<Rightarrow> activation_driver" where
  "foreground_changed fg d = reconcile (d\<lparr>foreground := fg\<rparr>)"

definition set_mode :: "mode \<Rightarrow> activation_driver \<Rightarrow> activation_driver" where
  "set_mode m d = reconcile (d\<lparr>server_mode := (m = Server), active := 0\<rparr>)"

definition bump_session :: "int \<Rightarrow> activation_driver \<Rightarrow> activation_driver" where
  "bump_session delta d = reconcile (d\<lparr>active := max (active d + delta) 0\<rparr>)"

section \<open>The client manager\<close>

datatype session_event =
  SessionConnected peer_id nat
| SessionDisconnected peer_id
| SessionFailed peer_id

datatype event_kind = Connected | PeerJoined | PeerLeft | Disconnected | Error

datatype place_call_error = Rejected | NoPeer | NotAuthenticated | Transport string

record current_call =
  cc_peer :: peer_id
  cc_tunnel :: nat

datatype phase =
  Unwatched
| Waiting            \<comment> \<open>in \<open>events.recv\<close>\<close>
| Entered            \<comment> \<open>\<open>entered\<close> stored, before \<open>still_current\<close>\<close>
| Admitted           \<comment> \<open>still current, before \<open>bump_session(1)\<close>\<close>
| Bumped             \<comment> \<open>before the upgrade and the \<open>Connected\<close> event\<close>
| Cleared bool       \<comment> \<open>after \<open>clear_if_current\<close>, with its result\<close>
| Rebalanced bool    \<comment> \<open>after \<open>bump_session(-1)\<close>\<close>
| Ended

text \<open>\<open>cm_entered\<close> holds the \<open>entered\<close> flag of each call, \<open>cm_alive\<close> whether a strong
  reference to the tunnel remains, \<open>cm_disc\<close> the tunnels on which \<open>disconnect\<close> was called.
  The sink's events are logged with the tunnel whose watcher emitted them.\<close>

record client_manager =
  cm_driver :: activation_driver
  cm_current :: "current_call option"
  cm_entered :: "nat \<Rightarrow> bool"
  cm_alive :: "nat \<Rightarrow> bool"
  cm_phase :: "nat \<Rightarrow> phase"
  cm_peer :: "nat \<Rightarrow> peer_id"
  cm_sink :: "(nat \<times> session_event) list"
  cm_disc :: "nat list"
  cm_next :: nat

definition client_new :: "activation_driver \<Rightarrow> client_manager" where
  "client_new d = \<lparr>cm_driver = set_mode Client d, cm_current = None, cm_entered = (\<lambda>_. False),
     cm_alive = (\<lambda>_. False), cm_phase = (\<lambda>_. Unwatched), cm_peer = (\<lambda>_. []), cm_sink = [],
     cm_disc = [], cm_next = 0\<rparr>"

definition disconnect_call :: "current_call option \<Rightarrow> client_manager \<Rightarrow> client_manager" where
  "disconnect_call c m = (case c of None \<Rightarrow> m | Some c \<Rightarrow> m\<lparr>cm_disc := cm_disc m @ [cc_tunnel c]\<rparr>)"

definition client_drop :: "client_manager \<Rightarrow> client_manager" where
  "client_drop m = disconnect_call (cm_current m) (m\<lparr>cm_current := None\<rparr>)"

text \<open>The watcher is spawned on the tunnel's event stream; the stream of a fresh tunnel has
  not been taken.\<close>

definition spawn_client_watcher :: "peer_id \<Rightarrow> nat \<Rightarrow> client_manager \<Rightarrow> client_manager" where
  "spawn_client_watcher peer t m = m\<lparr>cm_phase := (cm_phase m)(t := Waiting), cm_peer := (cm_peer m)(t := peer)\<rparr>"

text \<open>\<open>transport\<close> is what the signaling layer answers.\<close>

definition place_call ::
  "peer_id \<Rightarrow> place_call_error option \<Rightarrow> client_manager \<Rightarrow> (place_call_error + unit) \<times> client_manager" where
  "place_call peer transport m =
     (case transport of
        Some e \<Rightarrow> (Inl e, m)
      | None \<Rightarrow>
          let tunnel = cm_next m;
              m1 = m\<lparr>cm_next := Suc tunnel, cm_alive := (cm_alive m)(tunnel := True),
                     cm_entered := (cm_entered m)(tunnel := False)\<rparr>;
              old = cm_current m1;
              m2 = disconnect_call old (m1\<lparr>cm_current := Some \<lparr>cc_peer = peer, cc_tunnel = tunnel\<rparr>\<rparr>)
          in (Inr (), spawn_client_watcher peer tunnel m2))"

definition client_ws_call_ended :: "peer_id \<Rightarrow> client_manager \<Rightarrow> client_manager" where
  "client_ws_call_ended peer m =
     (case cm_current m of
        None \<Rightarrow> m
      | Some c \<Rightarrow>
          if cc_peer c \<noteq> peer then m
          else if cm_entered m (cc_tunnel c) then m
          else disconnect_call (Some c) m)"

section \<open>The client watcher\<close>

definition still_current :: "nat \<Rightarrow> client_manager \<Rightarrow> bool" where
  "still_current t m =
     (case cm_current m of None \<Rightarrow> False | Some c \<Rightarrow> cm_alive m t \<and> cc_tunnel c = t)"

definition clear_if_current :: "nat \<Rightarrow> client_manager \<Rightarrow> bool \<times> client_manager" where
  "clear_if_current t m =
     (let matches = still_current t m in (matches, if matches then m\<lparr>cm_current := None\<rparr> else m))"

definition goto :: "nat \<Rightarrow> phase \<Rightarrow> client_manager \<Rightarrow> client_manager" where
  "goto t p m = m\<lparr>cm_phase := (cm_phase m)(t := p)\<rparr>"

definition emit :: "nat \<Rightarrow> session_event \<Rightarrow> client_manager \<Rightarrow> client_manager" where
  "emit t e m = m\<lparr>cm_sink := cm_sink m @ [(t, e)]\<rparr>"

definition bump :: "int \<Rightarrow> client_manager \<Rightarrow> client_manager" where
  "bump delta m = m\<lparr>cm_driver := bump_session delta (cm_driver m)\<rparr>"

text \<open>What the watcher does on an event (\<open>None\<close>: the stream has ended), up to the next point
  where another thread can get in.\<close>

definition watch_event :: "nat \<Rightarrow> event_kind option \<Rightarrow> client_manager \<Rightarrow> client_manager" where
  "watch_event t ev m =
     (case ev of
        None \<Rightarrow> goto t Ended m
      | Some Connected \<Rightarrow>
          if \<not> cm_entered m t then goto t Entered (m\<lparr>cm_entered := (cm_entered m)(t := True)\<rparr>) else m
      | Some Disconnected \<Rightarrow>
          (case clear_if_current t m of (was_current, m') \<Rightarrow> goto t (Cleared was_current) m')
      | Some _ \<Rightarrow> m)"

text \<open>The next action of a watcher inside a handler.\<close>

definition watch_step :: "nat \<Rightarrow> client_manager \<Rightarrow> client_manager" where
  "watch_step t m =
     (case cm_phase m t of
        Entered \<Rightarrow>
          if \<not> still_current t m
          then goto t Ended (if cm_alive m t then m\<lparr>cm_disc := cm_disc m @ [t]\<rparr> else m)
          else goto t Admitted m
      | Admitted \<Rightarrow> goto t Bumped (bump 1 m)
      | Bumped \<Rightarrow>
          if \<not> cm_alive m t then goto t Ended m
          else goto t Waiting (emit t (SessionConnected (cm_peer m t) t) m)
      | Cleared was_current \<Rightarrow>
          goto t (Rebalanced was_current) (if cm_entered m t then bump (- 1) m else m)
      | Rebalanced was_current \<Rightarrow>
          if \<not> was_current then goto t Ended m
          else if cm_entered m t then goto t Ended (emit t (SessionDisconnected (cm_peer m t)) m)
          else goto t Ended (emit t (SessionFailed (cm_peer m t)) m)
      | _ \<Rightarrow> m)"

section \<open>Reachable managers\<close>

text \<open>The manager's own operations, the watchers' actions, foreground changes, the signaling
  object going away, and the last reference to a tunnel that is not current going away.\<close>

inductive client_step :: "client_manager \<Rightarrow> client_manager \<Rightarrow> bool" where
  place: "client_step m (snd (place_call peer tr m))"
| ws_ended: "client_step m (client_ws_call_ended peer m)"
| drop_manager: "client_step m (client_drop m)"
| event: "cm_phase m t = Waiting \<Longrightarrow> client_step m (watch_event t ev m)"
| action: "client_step m (watch_step t m)"
| fg: "client_step m (m\<lparr>cm_driver := foreground_changed b (cm_driver m)\<rparr>)"
| signaling_gone: "client_step m (m\<lparr>cm_driver := (cm_driver m)\<lparr>sig_up := False\<rparr>\<rparr>)"
| tunnel_gone: "map_option cc_tunnel (cm_current m) \<noteq> Some t
    \<Longrightarrow> client_step m (m\<lparr>cm_alive := (cm_alive m)(t := False)\<rparr>)"

definition client_reach :: "bool \<Rightarrow> client_manager \<Rightarrow> bool" where
  "client_reach initial_fg = reachable (\<lambda>m. m = client_new (driver_new initial_fg)) client_step"

section \<open>The gate\<close>

fun alternates :: "bool \<Rightarrow> bool list \<Rightarrow> bool" where
  "alternates b [] = True"
| "alternates b (p # ps) = (p \<noteq> b \<and> alternates p ps)"

lemma alternates_snoc:
  "alternates b (ps @ [p]) \<longleftrightarrow> alternates b ps \<and> p \<noteq> last (b # ps)"
  by (induction b ps rule: alternates.induct) auto

definition pushed_ok :: "activation_driver \<Rightarrow> bool" where
  "pushed_ok d \<longleftrightarrow> alternates False (pushes d) \<and> (sig_up d \<longrightarrow> last (False # pushes d) = last_push d)"

lemma reconcile_frame [simp]:
  "server_mode (reconcile d) = server_mode d" "foreground (reconcile d) = foreground d"
  "active (reconcile d) = active d" "sig_up (reconcile d) = sig_up d" "want (reconcile d) = want d"
  "last_push (reconcile d) = want d"
  by (simp_all add: reconcile_def Let_def want_def)

lemma pushed_ok_reconcile: "pushed_ok d \<Longrightarrow> pushed_ok (reconcile d)"
  by (auto simp: pushed_ok_def reconcile_def Let_def alternates_snoc split: if_splits)

lemma pushed_ok_upd [simp]:
  "pushed_ok (d\<lparr>active := a\<rparr>) = pushed_ok d" "pushed_ok (d\<lparr>foreground := b\<rparr>) = pushed_ok d"
  "pushed_ok (d\<lparr>server_mode := c\<rparr>) = pushed_ok d"
  by (simp_all add: pushed_ok_def)

text \<open>What the driver keeps in client mode.\<close>

definition driver_ok :: "activation_driver \<Rightarrow> bool" where
  "driver_ok d \<longleftrightarrow> \<not> server_mode d \<and> 0 \<le> active d \<and> last_push d = want d \<and> pushed_ok d"

lemma driver_ok_bump: "driver_ok d \<Longrightarrow> driver_ok (bump_session delta d)"
  by (simp add: driver_ok_def bump_session_def pushed_ok_reconcile)

lemma driver_ok_foreground: "driver_ok d \<Longrightarrow> driver_ok (foreground_changed b d)"
  by (simp add: driver_ok_def foreground_changed_def pushed_ok_reconcile)

lemma driver_ok_start: "driver_ok (set_mode Client (driver_new b))"
  by (simp add: driver_ok_def set_mode_def driver_new_def pushed_ok_reconcile pushed_ok_def [of "\<lparr>server_mode = _, foreground = _, active = _, last_push = _, sig_up = _, pushes = _\<rparr>"])

lemma driver_ok_signaling_gone: "driver_ok d \<Longrightarrow> driver_ok (d\<lparr>sig_up := False\<rparr>)"
  by (simp add: driver_ok_def pushed_ok_def want_def)

lemma active_bump [simp]: "active (bump_session delta d) = max (active d + delta) 0"
  by (simp add: bump_session_def)

lemma active_foreground [simp]: "active (foreground_changed b d) = active d"
  by (simp add: foreground_changed_def)

section \<open>The calls that are up\<close>

text \<open>A call counts from the moment its watcher raised the session counter to the moment it
  lowers it.\<close>

definition up :: "client_manager \<Rightarrow> nat \<Rightarrow> bool" where
  "up m t \<longleftrightarrow> cm_phase m t = Bumped
     \<or> cm_entered m t \<and> (cm_phase m t = Waiting \<or> (\<exists>b. cm_phase m t = Cleared b))"

definition ups :: "client_manager \<Rightarrow> nat set" where
  "ups m = {t. t < cm_next m \<and> up m t}"

definition gate_ok :: "client_manager \<Rightarrow> bool" where
  "gate_ok m \<longleftrightarrow> driver_ok (cm_driver m) \<and> int (card (ups m)) \<le> active (cm_driver m)"

definition spawned_ok :: "client_manager \<Rightarrow> bool" where
  "spawned_ok m \<longleftrightarrow> (\<forall>t. t < cm_next m \<longleftrightarrow> cm_phase m t \<noteq> Unwatched)
     \<and> (\<forall>c. cm_current m = Some c \<longrightarrow> cc_tunnel c < cm_next m \<and> cm_alive m (cc_tunnel c)
          \<and> cm_peer m (cc_tunnel c) = cc_peer c)"

lemma finite_ups [simp]: "finite (ups m)"
  by (simp add: ups_def)

lemma gate_ok_less:
  "gate_ok m \<Longrightarrow> ups m' \<subseteq> ups m \<Longrightarrow> cm_driver m' = cm_driver m \<Longrightarrow> gate_ok m'"
  using card_mono [OF finite_ups, of "ups m'" m] by (simp add: gate_ok_def)

lemma gate_ok_more:
  assumes "gate_ok m" "ups m' \<subseteq> insert t (ups m)" "cm_driver m' = bump_session 1 (cm_driver m)"
  shows "gate_ok m'"
proof -
  have "card (ups m') \<le> Suc (card (ups m))"
    using card_mono [of "insert t (ups m)" "ups m'"] card_insert_le_m1 [of "Suc (card (ups m))" "ups m" t] assms(2)
    by (simp add: card_insert_if split: if_splits)
  then show ?thesis using assms(1,3) by (simp add: gate_ok_def driver_ok_bump)
qed

lemma gate_ok_one_less:
  assumes "gate_ok m" "t \<in> ups m" "ups m' \<subseteq> ups m - {t}" "cm_driver m' = bump_session (- 1) (cm_driver m)"
  shows "gate_ok m'"
proof -
  have "card (ups m') < card (ups m)"
    using assms(2,3) by (intro psubset_card_mono) auto
  then have "int (card (ups m')) \<le> active (cm_driver m) - 1" using assms(1) by (simp add: gate_ok_def)
  then show ?thesis using assms(1,4) by (simp add: gate_ok_def driver_ok_bump)
qed

lemmas watcher_defs = goto_def emit_def bump_def disconnect_call_def

lemma still_current_alive: "still_current t m \<Longrightarrow> cm_alive m t"
  by (simp add: still_current_def split: option.splits)

lemma gate_ok_watch_step:
  assumes "gate_ok m" "spawned_ok m"
  shows "gate_ok (watch_step t m)"
proof (cases "cm_phase m t")
  case Admitted
  then show ?thesis
    by (intro gate_ok_more [OF assms(1), of _ t])
      (auto simp: watch_step_def watcher_defs ups_def up_def split: if_splits)
next
  case (Cleared b)
  have t: "t < cm_next m" using assms(2) Cleared by (simp add: spawned_ok_def)
  show ?thesis
  proof (cases "cm_entered m t")
    case True
    then show ?thesis
      using Cleared t
      by (intro gate_ok_one_less [OF assms(1), of t])
        (auto simp: watch_step_def watcher_defs ups_def up_def split: if_splits)
  qed (use Cleared in \<open>intro gate_ok_less [OF assms(1)];
      auto simp: watch_step_def watcher_defs ups_def up_def split: if_splits\<close>)
qed (use assms(1) in \<open>auto intro!: gate_ok_less [OF assms(1)] simp: watch_step_def watcher_defs ups_def up_def split: if_splits\<close>)

lemma gate_ok_step:
  assumes "client_step m m'" "gate_ok m" "spawned_ok m"
  shows "gate_ok m'"
  using assms
proof (induction rule: client_step.induct)
  case (place m peer tr)
  then show ?case
    by (intro gate_ok_less [OF place(1)])
      (auto simp: place_call_def watcher_defs spawn_client_watcher_def Let_def ups_def up_def less_Suc_eq
        split: option.splits if_splits)
next
  case (event m t ev)
  then show ?case
    by (intro gate_ok_less [OF event(2)])
      (auto simp: watch_event_def watcher_defs clear_if_current_def Let_def ups_def up_def
        split: option.splits event_kind.splits if_splits)
next
  case (fg m b)
  then show ?case by (simp add: gate_ok_def driver_ok_foreground ups_def up_def)
next
  case (signaling_gone m)
  then show ?case by (simp add: gate_ok_def driver_ok_signaling_gone ups_def up_def)
next
  case (ws_ended m peer)
  then show ?case
    by (intro gate_ok_less [OF ws_ended(1)])
      (auto simp: client_ws_call_ended_def watcher_defs ups_def up_def split: option.splits)
next
  case (drop_manager m)
  then show ?case
    by (intro gate_ok_less [OF drop_manager(1)])
      (auto simp: client_drop_def watcher_defs ups_def up_def split: option.splits)
next
  case (tunnel_gone m t)
  then show ?case by (simp add: gate_ok_def ups_def up_def)
qed (rule gate_ok_watch_step)

lemma spawned_ok_step:
  assumes "client_step m m'" "spawned_ok m"
  shows "spawned_ok m'"
  using assms
proof (induction rule: client_step.induct)
  case (action m t)
  then show ?case
    by (cases "cm_phase m t") (auto simp: watch_step_def watcher_defs spawned_ok_def)
next
  case (place m peer tr)
  show ?case
  proof (cases tr)
    case None
    have f: "cm_next (snd (place_call peer tr m)) = Suc (cm_next m)"
      "cm_phase (snd (place_call peer tr m)) = (cm_phase m)(cm_next m := Waiting)"
      "cm_peer (snd (place_call peer tr m)) = (cm_peer m)(cm_next m := peer)"
      "cm_alive (snd (place_call peer tr m)) = (cm_alive m)(cm_next m := True)"
      "cm_current (snd (place_call peer tr m)) = Some \<lparr>cc_peer = peer, cc_tunnel = cm_next m\<rparr>"
      using None
      by (simp_all add: place_call_def watcher_defs spawn_client_watcher_def Let_def split: option.split)
    have "t < Suc (cm_next m) \<longleftrightarrow> t = cm_next m \<or> cm_phase m t \<noteq> Unwatched" for t
      using place by (auto simp: spawned_ok_def less_Suc_eq)
    then show ?thesis by (simp add: spawned_ok_def f)
  qed (use place in \<open>simp add: place_call_def\<close>)
qed (auto simp: client_ws_call_ended_def client_drop_def watch_event_def watcher_defs
    clear_if_current_def spawned_ok_def Let_def
    split: option.splits event_kind.splits)

lemma start_ok: "gate_ok (client_new (driver_new b)) \<and> spawned_ok (client_new (driver_new b))"
  using driver_ok_start [of b]
  by (auto simp: gate_ok_def spawned_ok_def client_new_def ups_def driver_ok_def)

section \<open>What the application hears\<close>

definition heard :: "client_manager \<Rightarrow> nat \<Rightarrow> session_event list" where
  "heard m t = map snd (filter (\<lambda>e. fst e = t) (cm_sink m))"

definition heard_ok :: "client_manager \<Rightarrow> nat \<Rightarrow> bool" where
  "heard_ok m t \<longleftrightarrow> (let p = cm_peer m t; up = [SessionConnected p t] in
     case cm_phase m t of
       Unwatched \<Rightarrow> heard m t = []
     | Waiting \<Rightarrow> heard m t = (if cm_entered m t then up else [])
     | Entered \<Rightarrow> cm_entered m t \<and> heard m t = []
     | Admitted \<Rightarrow> cm_entered m t \<and> heard m t = []
     | Bumped \<Rightarrow> cm_entered m t \<and> heard m t = []
     | Cleared _ \<Rightarrow> heard m t = (if cm_entered m t then up else [])
     | Rebalanced _ \<Rightarrow> heard m t = (if cm_entered m t then up else [])
     | Ended \<Rightarrow> heard m t \<in> {[], up, up @ [SessionDisconnected p], [SessionFailed p]})"

lemma heard_ok_cong:
  "cm_phase m' t = cm_phase m t \<Longrightarrow> cm_entered m' t = cm_entered m t \<Longrightarrow> cm_peer m' t = cm_peer m t
     \<Longrightarrow> heard m' t = heard m t \<Longrightarrow> heard_ok m' t = heard_ok m t"
  unfolding heard_ok_def by presburger

lemma heard_upd [simp]:
  "heard (m\<lparr>cm_phase := a\<rparr>) t = heard m t" "heard (m\<lparr>cm_entered := b\<rparr>) t = heard m t"
  "heard (m\<lparr>cm_current := c\<rparr>) t = heard m t" "heard (m\<lparr>cm_disc := d\<rparr>) t = heard m t"
  "heard (m\<lparr>cm_driver := e\<rparr>) t = heard m t" "heard (m\<lparr>cm_alive := f\<rparr>) t = heard m t"
  "heard (m\<lparr>cm_peer := g\<rparr>) t = heard m t" "heard (m\<lparr>cm_next := h\<rparr>) t = heard m t"
  "heard (m\<lparr>cm_sink := cm_sink m @ [(u, x)]\<rparr>) t = (if u = t then heard m t @ [x] else heard m t)"
  by (simp_all add: heard_def)

lemma heard_disconnect [simp]: "heard (disconnect_call c m) t = heard m t"
  by (simp add: disconnect_call_def split: option.split)

lemma disconnect_frame [simp]:
  "cm_phase (disconnect_call c m) = cm_phase m" "cm_entered (disconnect_call c m) = cm_entered m"
  "cm_peer (disconnect_call c m) = cm_peer m" "cm_sink (disconnect_call c m) = cm_sink m"
  "cm_next (disconnect_call c m) = cm_next m" "cm_current (disconnect_call c m) = cm_current m"
  by (simp_all add: disconnect_call_def split: option.split)

lemma heard_ok_watch_step: "heard_ok m u \<Longrightarrow> heard_ok (watch_step t m) u"
proof (cases "u = t")
  case True
  moreover assume "heard_ok m u"
  ultimately show ?thesis
    by (cases "cm_phase m t") (auto simp: watch_step_def goto_def emit_def bump_def heard_ok_def Let_def)
next
  case False
  assume "heard_ok m u"
  moreover have "heard_ok (watch_step t m) u = heard_ok m u"
    using False
    by (intro heard_ok_cong)
      (auto simp: watch_step_def goto_def emit_def bump_def split: phase.split)
  ultimately show ?thesis by simp
qed

lemma heard_ok_watch_event:
  assumes "cm_phase m t = Waiting" "heard_ok m u"
  shows "heard_ok (watch_event t ev m) u"
proof (cases "u = t")
  case True
  then show ?thesis
    using assms
    by (auto simp: watch_event_def goto_def clear_if_current_def heard_ok_def Let_def
        split: option.split event_kind.split)
next
  case False
  have "heard_ok (watch_event t ev m) u = heard_ok m u"
    using False
    by (intro heard_ok_cong)
      (auto simp: watch_event_def goto_def clear_if_current_def Let_def split: option.split event_kind.split)
  then show ?thesis using assms by simp
qed

lemma heard_ok_place:
  assumes "heard_ok m u" "spawned_ok m"
  shows "heard_ok (snd (place_call peer tr m)) u"
proof (cases tr)
  case None
  have new: "cm_phase m (cm_next m) = Unwatched" using assms(2) by (auto simp: spawned_ok_def)
  show ?thesis
  proof (cases "u = cm_next m")
    case True
    then show ?thesis
      using assms(1) new None
      by (simp add: place_call_def spawn_client_watcher_def Let_def heard_ok_def)
  next
    case False
    then have "heard_ok (snd (place_call peer tr m)) u = heard_ok m u"
      using None by (intro heard_ok_cong) (simp_all add: place_call_def spawn_client_watcher_def Let_def)
    then show ?thesis using assms(1) by simp
  qed
qed (use assms in \<open>simp add: place_call_def\<close>)

lemma heard_ok_step:
  assumes "client_step m m'" "heard_ok m u" "spawned_ok m"
  shows "heard_ok m' u"
  using assms
proof (induction rule: client_step.induct)
  case (ws_ended m peer)
  have "heard_ok (client_ws_call_ended peer m) u = heard_ok m u"
    by (intro heard_ok_cong) (simp_all add: client_ws_call_ended_def split: option.split)
  then show ?case using ws_ended by simp
next
  case (drop_manager m)
  have "heard_ok (client_drop m) u = heard_ok m u"
    by (intro heard_ok_cong) (simp_all add: client_drop_def)
  then show ?case using drop_manager by simp
next
  case (fg m b)
  then show ?case using heard_ok_cong [of "m\<lparr>cm_driver := _\<rparr>" u m] by simp
next
  case (signaling_gone m)
  then show ?case using heard_ok_cong [of "m\<lparr>cm_driver := _\<rparr>" u m] by simp
next
  case (tunnel_gone m t)
  then show ?case using heard_ok_cong [of "m\<lparr>cm_alive := _\<rparr>" u m] by simp
qed (simp_all add: heard_ok_place heard_ok_watch_event heard_ok_watch_step)

section \<open>One call at a time\<close>

definition winding_down :: "phase \<Rightarrow> bool" where
  "winding_down p \<longleftrightarrow> (case p of Cleared _ \<Rightarrow> True | Rebalanced _ \<Rightarrow> True | Ended \<Rightarrow> True | _ \<Rightarrow> False)"

definition one_call :: "client_manager \<Rightarrow> bool" where
  "one_call m \<longleftrightarrow> (\<forall>t < cm_next m.
     map_option cc_tunnel (cm_current m) = Some t \<or> t \<in> set (cm_disc m) \<or> winding_down (cm_phase m t))"

lemma one_call_watch_step: "one_call m \<Longrightarrow> one_call (watch_step t m)"
  by (cases "cm_phase m t")
    (auto simp: one_call_def watch_step_def goto_def emit_def bump_def winding_down_def)

lemma one_call_watch_event:
  "cm_phase m t = Waiting \<Longrightarrow> one_call m \<Longrightarrow> one_call (watch_event t ev m)"
  by (auto simp: one_call_def watch_event_def goto_def clear_if_current_def winding_down_def Let_def
      still_current_def split: option.split option.split_asm event_kind.split)

lemma one_call_step: "client_step m m' \<Longrightarrow> one_call m \<Longrightarrow> one_call m'"
proof (induction rule: client_step.induct)
  case (place m peer tr)
  then show ?case
    by (auto simp: one_call_def place_call_def disconnect_call_def spawn_client_watcher_def Let_def less_Suc_eq
        split: option.split)
next
  case (ws_ended m peer)
  then show ?case
    by (auto simp: one_call_def client_ws_call_ended_def disconnect_call_def split: option.split)
next
  case (drop_manager m)
  then show ?case
    by (auto simp: one_call_def client_drop_def disconnect_call_def split: option.split)
next
  case (event m t ev)
  then show ?case by (rule one_call_watch_event)
next
  case (action m t)
  then show ?case by (rule one_call_watch_step)
qed (simp_all add: one_call_def)

definition client_inv :: "client_manager \<Rightarrow> bool" where
  "client_inv m \<longleftrightarrow> gate_ok m \<and> spawned_ok m \<and> (\<forall>t. heard_ok m t) \<and> one_call m"

interpretation client: invariant_system "\<lambda>m. m = client_new (driver_new fg)" client_step client_inv for fg
proof
  fix m assume "m = client_new (driver_new fg)"
  then show "client_inv m"
    using start_ok [of fg] by (simp add: client_inv_def heard_ok_def heard_def client_new_def one_call_def)
next
  fix m m' assume "client_inv m" "client_step m m'"
  then show "client_inv m'"
    unfolding client_inv_def using gate_ok_step spawned_ok_step heard_ok_step one_call_step by blast
qed

lemma client_reach_inv: "client_reach b m \<Longrightarrow> client_inv m"
  unfolding client_reach_def by (rule client.always)

section \<open>Properties\<close>

text \<open>C9. Under every interleaving of \<open>place_call\<close>, the watchers, foreground changes and tunnels going
  away, the control channel is wanted exactly when the application is in the foreground and the
  session counter is zero; the counter covers every call that is up, so the channel stays down
  while a call is up; and the signaling layer never gets the same intent twice in a row.\<close>

theorem client_gate:
  assumes "client_reach initial_fg m"
  shows "(last_push (cm_driver m) \<longleftrightarrow> foreground (cm_driver m) \<and> active (cm_driver m) = 0)
       \<and> int (card {t. t < cm_next m \<and> up m t}) \<le> active (cm_driver m)
       \<and> (\<forall>t. up m t \<longrightarrow> \<not> last_push (cm_driver m))
       \<and> alternates False (pushes (cm_driver m))"
proof -
  have g: "driver_ok (cm_driver m)" "int (card (ups m)) \<le> active (cm_driver m)" and s: "spawned_ok m"
    using client_reach_inv [OF assms] by (simp_all add: client_inv_def gate_ok_def)
  have p: "last_push (cm_driver m) \<longleftrightarrow> foreground (cm_driver m) \<and> active (cm_driver m) = 0"
    using g(1) by (auto simp: driver_ok_def want_def)
  have "\<not> last_push (cm_driver m)" if "up m t" for t
  proof -
    have "t \<in> ups m" using that s by (auto simp: ups_def spawned_ok_def up_def)
    then have "0 < card (ups m)" by (auto simp: card_gt_0_iff)
    then show ?thesis using g(2) p by simp
  qed
  then show ?thesis using p g unfolding ups_def driver_ok_def pushed_ok_def by blast
qed

text \<open>C10. Each call is reported once and in order: whatever interleaves, the application hears for one
  tunnel nothing, a single \<open>Connected\<close>, \<open>Connected\<close> then \<open>Disconnected\<close>, or a single \<open>Failed\<close>,
  always with the peer that was called; and every tunnel but the current call's has been told to
  disconnect or is winding down, so no two calls stay up together.\<close>

theorem client_calls_reported:
  assumes "client_reach initial_fg m"
  shows "heard m t \<in> {[], [SessionConnected (cm_peer m t) t],
           [SessionConnected (cm_peer m t) t, SessionDisconnected (cm_peer m t)], [SessionFailed (cm_peer m t)]}
       \<and> (t < cm_next m \<longrightarrow> map_option cc_tunnel (cm_current m) = Some t
            \<or> t \<in> set (cm_disc m) \<or> winding_down (cm_phase m t))"
proof -
  have "heard_ok m t" "one_call m" using client_reach_inv [OF assms] by (simp_all add: client_inv_def)
  then show ?thesis
    by (cases "cm_phase m t") (auto simp: heard_ok_def one_call_def Let_def split: if_splits)
qed

text \<open>A dial that connects, one watcher action after the other, and the same dial superseded
  between the watcher's check and its counter update.\<close>

definition dialled :: client_manager where
  "dialled = snd (place_call ''bob'' None (client_new (driver_new True)))"

definition connected :: client_manager where
  "connected = watch_step 0 (watch_step 0 (watch_step 0 (watch_event 0 (Some Connected) dialled)))"

definition overtaken :: client_manager where
  "overtaken =
     (let m = watch_step 0 (watch_event 0 (Some Connected) dialled);
          m = snd (place_call ''bob'' None m);
          m = m\<lparr>cm_alive := (cm_alive m)(0 := False)\<rparr>;
          m = watch_step 0 (watch_step 0 m);
          m = watch_event 1 (Some Disconnected) m
      in watch_step 1 (watch_step 1 m))"

lemma reach_runs:
  shows reach_place: "client_reach b m \<Longrightarrow> client_reach b (snd (place_call peer tr m))"
    and reach_action: "client_reach b m \<Longrightarrow> client_reach b (watch_step t m)"
    and reach_event: "client_reach b m \<Longrightarrow> cm_phase m t = Waiting \<Longrightarrow> client_reach b (watch_event t ev m)"
    and reach_gone: "client_reach b m \<Longrightarrow> map_option cc_tunnel (cm_current m) \<noteq> Some t
      \<Longrightarrow> client_reach b (m\<lparr>cm_alive := (cm_alive m)(t := False)\<rparr>)"
  unfolding client_reach_def by (blast intro: reach_next client_step.intros)+

lemma dialled_reach: "client_reach True dialled"
  unfolding dialled_def by (rule reach_place) (simp add: client_reach_def reach_init)

lemma dialled_waiting: "cm_phase dialled 0 = Waiting"
  by code_simp

lemma connected_reach: "client_reach True connected"
  unfolding connected_def by (intro reach_action reach_event dialled_reach dialled_waiting)

lemma overtaken_reach: "client_reach True overtaken"
  unfolding overtaken_def Let_def
  by (intro reach_action reach_event reach_gone reach_place dialled_reach dialled_waiting; code_simp)

text \<open>The counter can lose a call. When a second \<open>place_call\<close> gets in between the first watcher's
  \<open>still_current\<close> and its upgrade of the tunnel, that watcher raises the counter and ends
  without lowering it: here no call is left and the application is in the foreground, and the
  control channel stays down. And \<open>set_mode\<close> does not shield the new mode from watchers of the
  old one: a late \<open>-1\<close> from before the switch reopens the channel while a new call is up.\<close>

theorem gate_accounting_gaps:
  "client_reach True overtaken \<and> cm_current overtaken = None \<and> cm_phase overtaken 0 = Ended
     \<and> cm_phase overtaken 1 = Ended \<and> cm_next overtaken = 2
     \<and> foreground (cm_driver overtaken) \<and> active (cm_driver overtaken) = 1
     \<and> \<not> last_push (cm_driver overtaken)
   \<and> last_push (bump_session (- 1) (bump_session 1 (set_mode Client (bump_session 1 (driver_new True)))))"
proof (intro conjI)
  show "client_reach True overtaken" by (rule overtaken_reach)
qed (code_simp)+

section \<open>Witnesses\<close>

theorem client_gate_witness:
  "up connected 0 \<and> active (cm_driver connected) = 1 \<and> \<not> last_push (cm_driver connected)
   \<and> pushes (cm_driver connected) = [True, False]"
proof -
  have "up connected 0" by (simp add: up_def) code_simp
  then have "\<not> last_push (cm_driver connected)"
    using client_gate [OF connected_reach] by blast
  then show ?thesis using \<open>up connected 0\<close> by simp code_simp
qed

theorem client_calls_reported_witness:
  "heard connected 0 = [SessionConnected ''bob'' 0]
   \<and> heard connected 0 \<in> {[], [SessionConnected (cm_peer connected 0) 0],
           [SessionConnected (cm_peer connected 0) 0, SessionDisconnected (cm_peer connected 0)],
           [SessionFailed (cm_peer connected 0)]}"
proof
  show "heard connected 0 = [SessionConnected ''bob'' 0]" by code_simp
qed (use client_calls_reported [OF connected_reach, of 0] in blast)

end
