(* ===== verification/Server_Manager.thy ===== *)
theory Server_Manager
  imports Client_Manager "HOL-Library.AList"
begin

text \<open>
  The server half of \<open>manager.rs\<close>: the registry of sessions by peer, the watcher of each tunnel,
  the admission decisions in flight and their cancellation. Tunnels and decisions are numbered.
  A step is what one task does between two points where it releases its lock or awaits.
\<close>

section \<open>State\<close>

datatype call_decision = Accept | Reject | SilentlyIgnore

text \<open>One call of \<open>InternalHandler::decide\<close>: in its \<open>select!\<close>, past it with a result, returned.\<close>

datatype decide_state =
  Undecided
| Deciding peer_id
| Resolved peer_id call_decision
| Decided call_decision

text \<open>Events are logged with the tunnel whose watcher emitted them, or none for those of
  \<open>on_ws_call_ended\<close>; \<open>sm_disc\<close> lists the tunnels on which \<open>disconnect\<close> was called.\<close>

record server_manager =
  sm_driver :: activation_driver
  sm_sessions :: "(peer_id \<times> nat) list"
  sm_admission :: bool
  sm_pending :: "(peer_id \<times> nat) list"
  sm_dec :: "nat \<Rightarrow> decide_state"
  sm_entered :: "nat \<Rightarrow> bool"
  sm_alive :: "nat \<Rightarrow> bool"
  sm_phase :: "nat \<Rightarrow> phase"
  sm_peer :: "nat \<Rightarrow> peer_id"
  sm_sink :: "(nat option \<times> session_event) list"
  sm_disc :: "nat list"
  sm_next :: nat

definition server_new :: "activation_driver \<Rightarrow> server_manager" where
  "server_new d = \<lparr>sm_driver = set_mode Server d, sm_sessions = [], sm_admission = False, sm_pending = [],
     sm_dec = (\<lambda>_. Undecided), sm_entered = (\<lambda>_. False), sm_alive = (\<lambda>_. False), sm_phase = (\<lambda>_. Unwatched),
     sm_peer = (\<lambda>_. []), sm_sink = [], sm_disc = [], sm_next = 0\<rparr>"

section \<open>Sessions\<close>

definition set_admission :: "server_manager \<Rightarrow> server_manager" where
  "set_admission m = m\<lparr>sm_admission := True\<rparr>"

definition server_disconnect :: "nat list \<Rightarrow> server_manager \<Rightarrow> server_manager" where
  "server_disconnect ts m = m\<lparr>sm_disc := sm_disc m @ ts\<rparr>"

text \<open>\<open>disconnect_all\<close>; the teardown task and \<open>Drop\<close> do the same.\<close>

definition disconnect_all :: "server_manager \<Rightarrow> server_manager" where
  "disconnect_all m = server_disconnect (map snd (sm_sessions m)) m"

definition kick :: "peer_id \<Rightarrow> server_manager \<Rightarrow> server_manager" where
  "kick peer m = (case map_of (sm_sessions m) peer of Some t \<Rightarrow> server_disconnect [t] m | None \<Rightarrow> m)"

definition spawn_server_watcher :: "peer_id \<Rightarrow> nat \<Rightarrow> server_manager \<Rightarrow> server_manager" where
  "spawn_server_watcher peer t m = m\<lparr>sm_phase := (sm_phase m)(t := Waiting), sm_peer := (sm_peer m)(t := peer)\<rparr>"

text \<open>One turn of the task that drains \<open>accepted_sessions\<close>.\<close>

definition accept_session :: "peer_id \<Rightarrow> server_manager \<Rightarrow> server_manager" where
  "accept_session peer m =
     (let tunnel = sm_next m;
          m1 = m\<lparr>sm_next := Suc tunnel, sm_alive := (sm_alive m)(tunnel := True)\<rparr>;
          old = map_of (sm_sessions m1) peer;
          m2 = m1\<lparr>sm_sessions := AList.update peer tunnel (sm_sessions m1)\<rparr>;
          m3 = (case old of Some t \<Rightarrow> server_disconnect [t] m2 | None \<Rightarrow> m2)
      in spawn_server_watcher peer tunnel m3)"

definition server_emit :: "nat option \<Rightarrow> session_event \<Rightarrow> server_manager \<Rightarrow> server_manager" where
  "server_emit t e m = m\<lparr>sm_sink := sm_sink m @ [(t, e)]\<rparr>"

definition server_goto :: "nat \<Rightarrow> phase \<Rightarrow> server_manager \<Rightarrow> server_manager" where
  "server_goto t p m = m\<lparr>sm_phase := (sm_phase m)(t := p)\<rparr>"

definition server_ws_call_ended :: "peer_id \<Rightarrow> server_manager \<Rightarrow> server_manager" where
  "server_ws_call_ended peer m =
     (if map_of (sm_sessions m) peer \<noteq> None then m
      else let was_pending = map_of (sm_pending m) peer \<noteq> None;
               m = m\<lparr>sm_pending := AList.delete peer (sm_pending m)\<rparr> in
        if was_pending then server_emit None (SessionFailed peer) m else m)"

text \<open>The watcher on an event of its tunnel (\<open>None\<close>: the stream has ended), and the event it emits
  after it has released the registry.\<close>

definition server_watch_event :: "nat \<Rightarrow> event_kind option \<Rightarrow> server_manager \<Rightarrow> server_manager" where
  "server_watch_event t ev m =
     (case ev of
        None \<Rightarrow> server_goto t Ended m
      | Some Connected \<Rightarrow>
          if \<not> sm_entered m t then
            let m = m\<lparr>sm_entered := (sm_entered m)(t := True)\<rparr> in
            if \<not> sm_alive m t then server_goto t Ended m
            else server_emit (Some t) (SessionConnected (sm_peer m t) t) m
          else m
      | Some Disconnected \<Rightarrow>
          let matches = (map_of (sm_sessions m) (sm_peer m t) = Some t \<and> sm_alive m t);
              m = (if matches then m\<lparr>sm_sessions := AList.delete (sm_peer m t) (sm_sessions m)\<rparr> else m)
          in server_goto t (Cleared matches) m
      | Some _ \<Rightarrow> m)"

definition server_watch_step :: "nat \<Rightarrow> server_manager \<Rightarrow> server_manager" where
  "server_watch_step t m =
     (case sm_phase m t of
        Cleared _ \<Rightarrow>
          server_goto t Ended
            (if sm_entered m t then server_emit (Some t) (SessionDisconnected (sm_peer m t)) m
             else server_emit (Some t) (SessionFailed (sm_peer m t)) m)
      | _ \<Rightarrow> m)"

section \<open>Decisions\<close>

definition set_dec :: "nat \<Rightarrow> decide_state \<Rightarrow> server_manager \<Rightarrow> server_manager" where
  "set_dec k d m = m\<lparr>sm_dec := (sm_dec m)(k := d)\<rparr>"

definition decide_begin :: "nat \<Rightarrow> peer_id \<Rightarrow> server_manager \<Rightarrow> server_manager" where
  "decide_begin k peer m =
     (if \<not> sm_admission m then set_dec k (Decided SilentlyIgnore) m
      else set_dec k (Deciding peer) (m\<lparr>sm_pending := AList.update peer k (sm_pending m)\<rparr>))"

text \<open>The \<open>select!\<close>: the decider's answer, or the cancel channel once its sender is gone from the
  table. Then the slot of the peer is cleared, whoever holds it.\<close>

definition cancelled :: "peer_id \<Rightarrow> nat \<Rightarrow> server_manager \<Rightarrow> bool" where
  "cancelled peer k m \<longleftrightarrow> map_of (sm_pending m) peer \<noteq> Some k"

definition decide_select :: "nat \<Rightarrow> call_decision option \<Rightarrow> server_manager \<Rightarrow> server_manager" where
  "decide_select k answer m =
     (case sm_dec m k of
        Deciding peer \<Rightarrow>
          (case answer of
             Some r \<Rightarrow> set_dec k (Resolved peer r) m
           | None \<Rightarrow> if cancelled peer k m then set_dec k (Resolved peer SilentlyIgnore) m else m)
      | _ \<Rightarrow> m)"

definition decide_end :: "nat \<Rightarrow> server_manager \<Rightarrow> server_manager" where
  "decide_end k m =
     (case sm_dec m k of
        Resolved peer r \<Rightarrow> set_dec k (Decided r) (m\<lparr>sm_pending := AList.delete peer (sm_pending m)\<rparr>)
      | _ \<Rightarrow> m)"

section \<open>Reachable managers\<close>

inductive server_step :: "server_manager \<Rightarrow> server_manager \<Rightarrow> bool" where
  admission: "server_step m (set_admission m)"
| accept: "server_step m (accept_session peer m)"
| all: "server_step m (disconnect_all m)"
| kick: "server_step m (kick peer m)"
| ws_ended: "server_step m (server_ws_call_ended peer m)"
| event: "sm_phase m t = Waiting \<Longrightarrow> server_step m (server_watch_event t ev m)"
| action: "server_step m (server_watch_step t m)"
| fg: "server_step m (m\<lparr>sm_driver := foreground_changed b (sm_driver m)\<rparr>)"
| signaling_gone: "server_step m (m\<lparr>sm_driver := (sm_driver m)\<lparr>sig_up := False\<rparr>\<rparr>)"
| tunnel_gone: "t \<notin> snd ` set (sm_sessions m) \<Longrightarrow> server_step m (m\<lparr>sm_alive := (sm_alive m)(t := False)\<rparr>)"
| decide: "sm_dec m k = Undecided \<Longrightarrow> server_step m (decide_begin k peer m)"
| select: "server_step m (decide_select k answer m)"
| decided: "server_step m (decide_end k m)"

definition server_reach :: "bool \<Rightarrow> server_manager \<Rightarrow> bool" where
  "server_reach initial_fg = reachable (\<lambda>m. m = server_new (driver_new initial_fg)) server_step"

section \<open>Invariant\<close>

definition registry_ok :: "server_manager \<Rightarrow> bool" where
  "registry_ok m \<longleftrightarrow>
     (\<forall>p t. map_of (sm_sessions m) p = Some t \<longrightarrow> t < sm_next m \<and> sm_peer m t = p \<and> sm_alive m t) \<and>
     (\<forall>t. t < sm_next m \<longrightarrow> map_of (sm_sessions m) (sm_peer m t) = Some t \<or> t \<in> set (sm_disc m) \<or>
        winding_down (sm_phase m t))"

fun dec_peer :: "decide_state \<Rightarrow> peer_id option" where
  "dec_peer (Deciding p) = Some p"
| "dec_peer (Resolved p r) = Some p"
| "dec_peer _ = None"

definition pending_ok :: "server_manager \<Rightarrow> bool" where
  "pending_ok m \<longleftrightarrow> (\<forall>p k. map_of (sm_pending m) p = Some k \<longrightarrow> dec_peer (sm_dec m k) = Some p)"

definition server_heard :: "server_manager \<Rightarrow> nat \<Rightarrow> session_event list" where
  "server_heard m t = map snd (filter (\<lambda>(u, e). u = Some t) (sm_sink m))"

definition server_heard_ok :: "server_manager \<Rightarrow> nat \<Rightarrow> bool" where
  "server_heard_ok m t \<longleftrightarrow>
     (let p = sm_peer m t; h = server_heard m t in
      case sm_phase m t of
        Unwatched \<Rightarrow> sm_next m \<le> t \<and> h = [] \<and> \<not> sm_entered m t
      | Ended \<Rightarrow> t < sm_next m \<and> h \<in> {[], [SessionConnected p t], [SessionConnected p t, SessionDisconnected p], [SessionFailed p]}
      | Waiting \<Rightarrow> t < sm_next m \<and> h = (if sm_entered m t then [SessionConnected p t] else [])
      | Cleared _ \<Rightarrow> t < sm_next m \<and> h = (if sm_entered m t then [SessionConnected p t] else [])
      | _ \<Rightarrow> False)"

definition gate_open :: "activation_driver \<Rightarrow> bool" where
  "gate_open d \<longleftrightarrow> server_mode d \<and> last_push d"

definition server_inv :: "server_manager \<Rightarrow> bool" where
  "server_inv m \<longleftrightarrow> gate_open (sm_driver m) \<and> registry_ok m \<and> pending_ok m \<and> (\<forall>t. server_heard_ok m t)"

lemmas server_ops = set_admission_def server_disconnect_def disconnect_all_def kick_def spawn_server_watcher_def
  accept_session_def server_emit_def server_goto_def server_ws_call_ended_def server_watch_event_def
  server_watch_step_def set_dec_def decide_begin_def decide_select_def decide_end_def

lemma gate_open_step: "server_step m m' \<Longrightarrow> gate_open (sm_driver m) \<Longrightarrow> gate_open (sm_driver m')"
  by (induction rule: server_step.induct)
    (auto simp: server_ops Let_def gate_open_def foreground_changed_def reconcile_def want_def
      split: option.split event_kind.split phase.split decide_state.split)

lemma registry_ok_accept:
  assumes "registry_ok m"
  shows "registry_ok (accept_session peer m)"
proof -
  let ?n = "sm_next m" and ?m' = "accept_session peer m"
  have f: "sm_sessions ?m' = AList.update peer ?n (sm_sessions m)" "sm_next ?m' = Suc ?n"
    "sm_peer ?m' = (sm_peer m)(?n := peer)" "sm_alive ?m' = (sm_alive m)(?n := True)"
    "sm_phase ?m' = (sm_phase m)(?n := Waiting)"
    "set (sm_disc ?m') = set (sm_disc m) \<union> set_option (map_of (sm_sessions m) peer)"
    by (auto simp: accept_session_def server_disconnect_def spawn_server_watcher_def Let_def split: option.split)
  have old: "map_of (sm_sessions m) p = Some t \<Longrightarrow> t < ?n \<and> sm_peer m t = p \<and> sm_alive m t" for p t
    using assms by (simp add: registry_ok_def)
  have "map_of (sm_sessions ?m') (sm_peer ?m' t) = Some t \<or> t \<in> set (sm_disc ?m') \<or> winding_down (sm_phase ?m' t)"
    if "t < Suc ?n" for t
  proof (cases "t = ?n")
    case False
    then have "map_of (sm_sessions m) (sm_peer m t) = Some t \<or> t \<in> set (sm_disc m) \<or> winding_down (sm_phase m t)"
      using assms that by (simp add: registry_ok_def)
    then show ?thesis using False by (auto simp: f update_conv')
  qed (simp add: f update_conv')
  moreover have "t < Suc ?n \<and> sm_peer ?m' t = p \<and> sm_alive ?m' t" if "map_of (sm_sessions ?m') p = Some t" for p t
    using that old [of p t] by (simp add: f update_conv' split: if_splits)
  ultimately show ?thesis by (simp add: registry_ok_def f)
qed

lemma registry_okI:
  "(\<And>p t. map_of (sm_sessions m) p = Some t \<Longrightarrow> t < sm_next m \<and> sm_peer m t = p \<and> sm_alive m t) \<Longrightarrow>
   (\<And>t. t < sm_next m \<Longrightarrow> map_of (sm_sessions m) (sm_peer m t) = Some t \<or> t \<in> set (sm_disc m) \<or> winding_down (sm_phase m t)) \<Longrightarrow>
   registry_ok m"
  by (simp add: registry_ok_def)

lemma registry_ok_event:
  assumes "registry_ok m" "t < sm_next m"
  shows "registry_ok (server_watch_event t ev m)"
proof -
  have old: "map_of (sm_sessions m) p = Some u \<Longrightarrow> u < sm_next m \<and> sm_peer m u = p \<and> sm_alive m u" for p u
    using assms(1) by (simp add: registry_ok_def)
  have w: "winding_down Ended" "winding_down (Cleared b)" for b by (simp_all add: winding_down_def)
  have ended: "registry_ok (server_goto t p (m\<lparr>sm_entered := x\<rparr>))" "registry_ok (server_goto t p m)" if "winding_down p" for p x
    using assms(1) that by (auto simp: registry_ok_def server_goto_def)
  have conn: "registry_ok (server_emit u e (m\<lparr>sm_entered := x\<rparr>))" for u e x
    using assms(1) by (simp add: registry_ok_def server_emit_def)
  have gone: "registry_ok (server_goto t (Cleared b) (m\<lparr>sm_sessions := AList.delete (sm_peer m t) (sm_sessions m)\<rparr>))"
    (is "registry_ok ?g") if "map_of (sm_sessions m) (sm_peer m t) = Some t" for b
  proof -
    have g: "sm_next ?g = sm_next m" "sm_peer ?g = sm_peer m" "sm_disc ?g = sm_disc m" "sm_alive ?g = sm_alive m"
      "map_of (sm_sessions ?g) = (map_of (sm_sessions m))(sm_peer m t := None)" "sm_phase ?g = (sm_phase m)(t := Cleared b)"
      by (simp_all add: server_goto_def delete_conv')
    show ?thesis
    proof (rule registry_okI, goal_cases)
      case (1 p u)
      then show ?case using old [of p u] by (simp add: g split: if_splits)
    next
      case (2 u)
      then have "map_of (sm_sessions m) (sm_peer m u) = Some u \<or> u \<in> set (sm_disc m) \<or> winding_down (sm_phase m u)"
        using assms(1) unfolding registry_ok_def g by blast
      then show ?case using that w(2) by (cases "u = t") (auto simp: g)
    qed
  qed
  show ?thesis
  proof (cases ev)
    case (Some e)
    then show ?thesis
      using assms(1) by (cases e) (simp_all add: server_watch_event_def Let_def w ended conn gone)
  qed (simp add: server_watch_event_def w ended)
qed

lemma registry_ok_quiet:
  assumes "registry_ok m" "sm_sessions m' = sm_sessions m" "sm_next m' = sm_next m" "sm_peer m' = sm_peer m"
    "sm_alive m' = sm_alive m" "set (sm_disc m) \<subseteq> set (sm_disc m')"
    "\<And>t. winding_down (sm_phase m t) \<Longrightarrow> winding_down (sm_phase m' t)"
  shows "registry_ok m'"
  using assms unfolding registry_ok_def by (metis subsetD)

lemma registry_ok_step:
  assumes "server_step m m'" "registry_ok m" "\<And>t. server_heard_ok m t"
  shows "registry_ok m'"
  using assms(1)
proof cases
  case (accept peer)
  then show ?thesis using registry_ok_accept [OF assms(2)] by simp
next
  case (event t ev)
  then have "t < sm_next m" using assms(3) [of t] by (simp add: server_heard_ok_def Let_def)
  then show ?thesis using registry_ok_event [OF assms(2)] event by simp
next
  case (tunnel_gone t)
  then have "map_of (sm_sessions m) p \<noteq> Some t" for p by (force dest: map_of_SomeD)
  then have "map_of (sm_sessions m) p = Some u \<Longrightarrow> u \<noteq> t" for p u by metis
  then show ?thesis using assms(2) tunnel_gone(1) by (simp add: registry_ok_def)
qed (rule registry_ok_quiet [OF assms(2)];
  auto simp: server_ops Let_def winding_down_def split: option.splits phase.splits decide_state.split)+

lemma pending_ok_step:
  assumes "server_step m m'" "pending_ok m"
  shows "pending_ok m'"
  using assms(1)
proof cases
  case (decide k peer)
  then have "map_of (sm_pending m) p \<noteq> Some k" for p
    using assms(2) unfolding pending_ok_def by (metis dec_peer.simps(3) option.distinct(1))
  then show ?thesis using decide assms(2) by (auto simp: pending_ok_def server_ops update_conv')
next
  case (select k answer)
  then have "dec_peer (sm_dec m' i) = dec_peer (sm_dec m i)" for i
    by (simp add: server_ops split: option.split decide_state.split)
  moreover have "sm_pending m' = sm_pending m" using select by (simp add: server_ops split: option.split decide_state.split)
  ultimately show ?thesis using assms(2) by (simp add: pending_ok_def)
next
  case (decided k)
  then show ?thesis using assms(2) by (cases "sm_dec m k") (fastforce simp: pending_ok_def server_ops delete_conv')+
next
  case (ws_ended peer)
  then show ?thesis using assms(2) by (auto simp: pending_ok_def server_ops Let_def delete_conv')
qed (use assms(2) in \<open>simp add: pending_ok_def server_ops Let_def split: option.split event_kind.split phase.split\<close>)+

lemma server_heard_emit [simp]:
  "server_heard (server_emit u e m) t = server_heard m t @ (if u = Some t then [e] else [])"
  by (auto simp: server_heard_def server_emit_def)

lemma server_heard_simps [simp]:
  "server_heard (server_goto u p m) t = server_heard m t" "server_heard (server_disconnect ts m) t = server_heard m t"
  "server_heard (spawn_server_watcher pr u m) t = server_heard m t" "server_heard (set_dec k d m) t = server_heard m t"
  "server_heard (m\<lparr>sm_sessions := x1\<rparr>) t = server_heard m t" "server_heard (m\<lparr>sm_entered := x2\<rparr>) t = server_heard m t"
  "server_heard (m\<lparr>sm_next := x3\<rparr>) t = server_heard m t" "server_heard (m\<lparr>sm_alive := x4\<rparr>) t = server_heard m t"
  "server_heard (m\<lparr>sm_pending := x5\<rparr>) t = server_heard m t" "server_heard (m\<lparr>sm_driver := x6\<rparr>) t = server_heard m t"
  "server_heard (m\<lparr>sm_admission := x7\<rparr>) t = server_heard m t"
  by (simp_all add: server_heard_def server_goto_def server_disconnect_def spawn_server_watcher_def set_dec_def)

lemma server_heard_quiet:
  assumes "server_heard_ok m t" "server_heard m' t = server_heard m t" "sm_phase m' t = sm_phase m t"
    "sm_peer m' t = sm_peer m t" "sm_entered m' t = sm_entered m t" "sm_next m' = sm_next m"
  shows "server_heard_ok m' t"
  using assms(1) unfolding server_heard_ok_def assms(2-6) .

lemma server_heard_accept:
  assumes "server_heard_ok m t"
  shows "server_heard_ok (accept_session peer m) t"
proof -
  let ?m' = "accept_session peer m"
  have f: "server_heard ?m' t = server_heard m t" "sm_phase ?m' = (sm_phase m)(sm_next m := Waiting)"
    "sm_peer ?m' = (sm_peer m)(sm_next m := peer)" "sm_entered ?m' = sm_entered m" "sm_next ?m' = Suc (sm_next m)"
    by (simp_all add: accept_session_def Let_def split: option.split)
      (simp_all add: server_disconnect_def spawn_server_watcher_def split: option.split)
  show ?thesis
  proof (cases "t = sm_next m")
    case True
    then show ?thesis using assms f by (simp add: server_heard_ok_def Let_def split: phase.splits)
  next
    case False
    then show ?thesis using assms by (auto simp: server_heard_ok_def Let_def f split: phase.splits)
  qed
qed

lemma server_heard_event:
  assumes "server_heard_ok m t" "sm_phase m u = Waiting"
  shows "server_heard_ok (server_watch_event u ev m) t"
proof (cases "u = t")
  case True
  then have h: "t < sm_next m" "server_heard m t = (if sm_entered m t then [SessionConnected (sm_peer m t) t] else [])"
    using assms by (simp_all add: server_heard_ok_def Let_def)
  show ?thesis
  proof (cases ev)
    case None
    then show ?thesis using True h by (simp add: server_watch_event_def server_heard_ok_def Let_def) (simp add: server_goto_def)
  next
    case (Some e)
    have "server_heard_ok (server_emit (Some t) (SessionConnected (sm_peer m t) t) (m\<lparr>sm_entered := (sm_entered m)(t := True)\<rparr>)) t"
      if "\<not> sm_entered m t"
      using True h assms(2) that by (simp add: server_heard_ok_def Let_def) (simp add: server_emit_def)
    moreover have "server_heard_ok (server_goto t Ended (m\<lparr>sm_entered := x\<rparr>)) t" for x
      using h by (simp add: server_heard_ok_def Let_def) (simp add: server_goto_def)
    moreover have "server_heard_ok (server_goto t (Cleared b) (m\<lparr>sm_sessions := x\<rparr>)) t" "server_heard_ok (server_goto t (Cleared b) m) t" for b x
      using h by (simp_all add: server_heard_ok_def Let_def) (simp_all add: server_goto_def)
    ultimately show ?thesis using True Some assms(1) by (cases e) (simp_all add: server_watch_event_def Let_def)
  qed
next
  case False
  show ?thesis
    by (rule server_heard_quiet [OF assms(1)]; insert False; cases ev)
      (simp_all add: server_watch_event_def Let_def split: event_kind.split,
       simp_all add: server_goto_def server_emit_def split: event_kind.split)
qed

lemma server_heard_action:
  assumes "server_heard_ok m t"
  shows "server_heard_ok (server_watch_step u m) t"
proof (cases "\<exists>b. sm_phase m u = Cleared b")
  case True
  show ?thesis
  proof (cases "u = t")
    case False
    show ?thesis
      by (rule server_heard_quiet [OF assms]; insert False True)
        (auto simp: server_watch_step_def server_goto_def server_emit_def server_heard_def)
  next
    case u: True
    then have "t < sm_next m" "server_heard m t = (if sm_entered m t then [SessionConnected (sm_peer m t) t] else [])"
      using assms True by (auto simp: server_heard_ok_def Let_def)
    then show ?thesis using True u
      by (auto simp: server_watch_step_def server_heard_ok_def Let_def server_goto_def server_emit_def server_heard_def)
  qed
next
  case False
  then show ?thesis using assms by (cases "sm_phase m u") (simp_all add: server_watch_step_def)
qed

lemma server_heard_step:
  assumes "server_step m m'" "server_heard_ok m t"
  shows "server_heard_ok m' t"
  using assms(1)
proof cases
  case (accept peer)
  then show ?thesis using server_heard_accept [OF assms(2)] by simp
next
  case (event u ev)
  then show ?thesis using server_heard_event [OF assms(2)] by simp
next
  case (action u)
  then show ?thesis using server_heard_action [OF assms(2)] by simp
qed (rule server_heard_quiet [OF assms(2)];
  simp add: server_heard_def server_ops Let_def split: option.split decide_state.split)+

interpretation server: invariant_system "\<lambda>m. m = server_new (driver_new fg)" server_step server_inv for fg
proof
  fix m assume "m = server_new (driver_new fg)"
  then show "server_inv m"
    by (simp add: server_inv_def server_new_def gate_open_def set_mode_def driver_new_def reconcile_def want_def Let_def
        registry_ok_def pending_ok_def server_heard_ok_def server_heard_def)
next
  fix m m' assume "server_inv m" "server_step m m'"
  then show "server_inv m'"
    using gate_open_step registry_ok_step pending_ok_step server_heard_step unfolding server_inv_def by metis
qed

lemma server_inv_reach: "server_reach fg m \<Longrightarrow> server_inv m"
  unfolding server_reach_def by (rule server.always)

section \<open>Property\<close>

text \<open>C11. In every interleaving of accepted calls, tunnel events, watchers, admission decisions and
  call-ended notices, the server keeps the control channel wanted; the registry maps a peer to a
  tunnel of that peer that is still alive; every other tunnel ever built has been told to disconnect
  or is winding down, so a peer never has two sessions that stay; the application hears for a tunnel
  nothing, \<open>Connected\<close>, \<open>Connected\<close> then \<open>Disconnected\<close>, or \<open>Failed\<close>, with its own peer; and the
  table of cancel handles holds only decisions still in progress, under the peer they decide on.\<close>

theorem server_sessions:
  assumes "server_reach fg m"
  shows "last_push (sm_driver m) \<and>
    (\<forall>p t. map_of (sm_sessions m) p = Some t \<longrightarrow> sm_peer m t = p \<and> sm_alive m t) \<and>
    (\<forall>t. t < sm_next m \<longrightarrow> map_of (sm_sessions m) (sm_peer m t) = Some t \<or> t \<in> set (sm_disc m) \<or> winding_down (sm_phase m t)) \<and>
    (\<forall>t. server_heard m t \<in> {[], [SessionConnected (sm_peer m t) t],
       [SessionConnected (sm_peer m t) t, SessionDisconnected (sm_peer m t)], [SessionFailed (sm_peer m t)]}) \<and>
    (\<forall>p k. map_of (sm_pending m) p = Some k \<longrightarrow> dec_peer (sm_dec m k) = Some p)"
proof -
  have inv: "gate_open (sm_driver m)" "registry_ok m" "pending_ok m" "server_heard_ok m t" for t
    using server_inv_reach [OF assms] by (simp_all add: server_inv_def)
  have "server_heard m t \<in> {[], [SessionConnected (sm_peer m t) t],
       [SessionConnected (sm_peer m t) t, SessionDisconnected (sm_peer m t)], [SessionFailed (sm_peer m t)]}" for t
    using inv(4) [of t] by (cases "sm_phase m t") (auto simp: server_heard_ok_def Let_def split: if_splits)
  then show ?thesis
    using inv(1-3) unfolding gate_open_def registry_ok_def pending_ok_def by blast
qed

text \<open>A peer that calls twice: the first tunnel is told to disconnect, the second is registered.\<close>

definition recalled :: server_manager where
  "recalled = accept_session ''bob'' (server_watch_event 0 (Some Connected)
     (accept_session ''bob'' (server_new (driver_new True))))"

lemma server_next: "server_reach fg m \<Longrightarrow> server_step m m' \<Longrightarrow> server_reach fg m'"
  unfolding server_reach_def by (rule reach_next)

lemma recalled_reach: "server_reach True recalled"
  unfolding recalled_def
  by (intro server_next [OF _ accept] server_next [OF _ event])
    (simp_all add: server_reach_def reach_init accept_session_def server_new_def spawn_server_watcher_def)

theorem server_sessions_witness:
  "last_push (sm_driver recalled) \<and> sm_sessions recalled = [(''bob'', 1)] \<and> sm_disc recalled = [0] \<and>
   server_heard recalled 0 = [SessionConnected ''bob'' 0] \<and> sm_next recalled = 2"
proof -
  have "last_push (sm_driver recalled)" using server_sessions [OF recalled_reach] by blast
  then show ?thesis
    by (simp add: recalled_def server_ops server_new_def server_heard_def Let_def)
qed

end
