(* ===== verification/Server_Daemon.thy ===== *)
theory Server_Daemon
  imports Server_Manager "HOL-Library.Word"
begin

text \<open>
  Server mode of the desktop daemon: \<open>ServerState\<close> of \<open>server.rs\<close> (admission lists, parked calls,
  connected clients, the pool of kernel TUN slots) and the parts of \<open>daemon.rs\<close> that drive it (the
  admission decider, the loop over session events, the task of each session). Calls of the decider
  and session tasks are numbered; each operation is what a task does between two awaits.
\<close>

section \<open>State\<close>

record parked_call =
  pc_deferred :: nat
  pc_name :: "string option"
  pc_received_at :: "64 word"

record active_client =
  ac_tunnel :: nat
  ac_name :: "string option"
  ac_connected_at :: "64 word"
  ac_slot :: "8 word option"

record server_state =
  sv_admission :: "peer_id list"
  sv_blacklist :: "peer_id list"
  sv_max_clients :: "32 word"
  sv_pending :: "(peer_id \<times> parked_call) list"
  sv_clients :: "(peer_id \<times> active_client) list"
  sv_kernel_slots :: "8 word list"

text \<open>The oneshot of a parked call, a call of the decider, a session task. \<open>sd_done\<close> is the map of
  the event loop: a session task wakes once its sender is no longer there.\<close>

datatype deferred = DeferredOpen | DeferredSent call_decision | DeferredDropped

datatype ask = NotAsked | AskParked peer_id | Answered call_decision | AskDropped

datatype session_task = NoTask | Starting peer_id nat | Serving peer_id | Over

record server_daemon = server_state +
  sd_deferred :: "nat \<Rightarrow> deferred"
  sd_asks :: "nat \<Rightarrow> ask"
  sd_done :: "(peer_id \<times> nat) list"
  sd_tasks :: "nat \<Rightarrow> session_task"
  sd_next :: nat
  sd_disc :: "nat list"

definition DEFAULT_MAX_CLIENTS :: "32 word" where "DEFAULT_MAX_CLIENTS = 5"
definition MAX_CLIENTS_LIMIT :: "32 word" where "MAX_CLIENTS_LIMIT = 253"
definition KERNEL_TUN_SLOT_LIMIT :: "8 word" where "KERNEL_TUN_SLOT_LIMIT = 254"

definition with_config :: "peer_id list \<Rightarrow> peer_id list \<Rightarrow> 32 word \<Rightarrow> server_daemon" where
  "with_config adm black maxc = \<lparr>sv_admission = adm, sv_blacklist = black,
     sv_max_clients = max 1 (min maxc MAX_CLIENTS_LIMIT), sv_pending = [], sv_clients = [],
     sv_kernel_slots = rev (map of_nat [0..<unat KERNEL_TUN_SLOT_LIMIT]),
     sd_deferred = (\<lambda>_. DeferredDropped), sd_asks = (\<lambda>_. NotAsked), sd_done = [], sd_tasks = (\<lambda>_. NoTask),
     sd_next = 0, sd_disc = []\<rparr>"

definition server_state_new :: server_daemon where
  "server_state_new = with_config [] [] DEFAULT_MAX_CLIENTS"

section \<open>Slots and lists\<close>

definition alloc_kernel_slot :: "server_daemon \<Rightarrow> 8 word option \<times> server_daemon" where
  "alloc_kernel_slot s =
     (if sv_kernel_slots s = [] then (None, s)
      else (Some (last (sv_kernel_slots s)), s\<lparr>sv_kernel_slots := butlast (sv_kernel_slots s)\<rparr>))"

definition release_kernel_slot :: "8 word \<Rightarrow> server_daemon \<Rightarrow> server_daemon" where
  "release_kernel_slot slot s =
     (if slot \<in> set (sv_kernel_slots s) then s else s\<lparr>sv_kernel_slots := sv_kernel_slots s @ [slot]\<rparr>)"

definition admission_add :: "peer_id \<Rightarrow> server_daemon \<Rightarrow> server_daemon" where
  "admission_add p s = (if p \<in> set (sv_admission s) then s else s\<lparr>sv_admission := sv_admission s @ [p]\<rparr>)"

definition admission_remove :: "peer_id \<Rightarrow> server_daemon \<Rightarrow> server_daemon" where
  "admission_remove p s = s\<lparr>sv_admission := filter (\<lambda>q. q \<noteq> p) (sv_admission s)\<rparr>"

definition blacklist_add :: "peer_id \<Rightarrow> server_daemon \<Rightarrow> server_daemon" where
  "blacklist_add p s = (if p \<in> set (sv_blacklist s) then s else s\<lparr>sv_blacklist := sv_blacklist s @ [p]\<rparr>)"

definition blacklist_remove :: "peer_id \<Rightarrow> server_daemon \<Rightarrow> server_daemon" where
  "blacklist_remove p s = s\<lparr>sv_blacklist := filter (\<lambda>q. q \<noteq> p) (sv_blacklist s)\<rparr>"

definition set_max_clients :: "32 word \<Rightarrow> server_daemon \<Rightarrow> server_daemon" where
  "set_max_clients n s = s\<lparr>sv_max_clients := max (min n MAX_CLIENTS_LIMIT) 1\<rparr>"

section \<open>Parked calls\<close>

definition close_deferred :: "nat list \<Rightarrow> server_daemon \<Rightarrow> server_daemon" where
  "close_deferred ds s =
     s\<lparr>sd_deferred := (\<lambda>d. if d \<in> set ds \<and> sd_deferred s d = DeferredOpen then DeferredDropped else sd_deferred s d)\<rparr>"

definition pending_park :: "peer_id \<Rightarrow> string option \<Rightarrow> nat \<Rightarrow> 64 word \<Rightarrow> server_daemon \<Rightarrow> server_daemon" where
  "pending_park p name d now s =
     (let entry = \<lparr>pc_deferred = d, pc_name = name, pc_received_at = now\<rparr>;
          s = (case map_of (sv_pending s) p of Some old \<Rightarrow> close_deferred [pc_deferred old] s | None \<Rightarrow> s)
      in s\<lparr>sv_pending := AList.update p entry (sv_pending s)\<rparr>)"

definition pending_resolve :: "peer_id \<Rightarrow> call_decision \<Rightarrow> server_daemon \<Rightarrow> server_daemon" where
  "pending_resolve p decision s =
     (case map_of (sv_pending s) p of
        None \<Rightarrow> s
      | Some e \<Rightarrow>
          let s = s\<lparr>sv_pending := AList.delete p (sv_pending s)\<rparr> in
          if sd_deferred s (pc_deferred e) = DeferredOpen
          then s\<lparr>sd_deferred := (sd_deferred s)(pc_deferred e := DeferredSent decision)\<rparr> else s)"

section \<open>Clients\<close>

definition client_count :: "server_daemon \<Rightarrow> nat" where
  "client_count s = length (sv_clients s)"

definition install_client :: "peer_id \<Rightarrow> nat \<Rightarrow> string option \<Rightarrow> 8 word option \<Rightarrow> 64 word \<Rightarrow> server_daemon \<Rightarrow> server_daemon" where
  "install_client p t name slot now s =
     s\<lparr>sv_clients := AList.update p \<lparr>ac_tunnel = t, ac_name = name, ac_connected_at = now, ac_slot = slot\<rparr> (sv_clients s)\<rparr>"

definition client_closed :: "active_client \<Rightarrow> server_daemon \<Rightarrow> server_daemon" where
  "client_closed c s =
     (let s = s\<lparr>sd_disc := sd_disc s @ [ac_tunnel c]\<rparr> in
      case ac_slot c of Some slot \<Rightarrow> release_kernel_slot slot s | None \<Rightarrow> s)"

definition remove_client :: "peer_id \<Rightarrow> server_daemon \<Rightarrow> server_daemon" where
  "remove_client p s =
     (case map_of (sv_clients s) p of
        None \<Rightarrow> s
      | Some c \<Rightarrow> client_closed c (s\<lparr>sv_clients := AList.delete p (sv_clients s)\<rparr>))"

definition clear_all :: "server_daemon \<Rightarrow> server_daemon" where
  "clear_all s =
     (let clients = sv_clients s;
          s = fold client_closed (map snd clients) (s\<lparr>sv_clients := []\<rparr>)
      in (close_deferred (map (pc_deferred \<circ> snd) (sv_pending s)) s)\<lparr>sv_pending := []\<rparr>)"

section \<open>The admission decider\<close>

definition set_ask :: "nat \<Rightarrow> ask \<Rightarrow> server_daemon \<Rightarrow> server_daemon" where
  "set_ask k a s = s\<lparr>sd_asks := (sd_asks s)(k := a)\<rparr>"

definition admission_decide :: "nat \<Rightarrow> peer_id \<Rightarrow> string option \<Rightarrow> 64 word \<Rightarrow> server_daemon \<Rightarrow> server_daemon" where
  "admission_decide k p name now s =
     (if p \<in> set (sv_blacklist s) then set_ask k (Answered Reject) s
      else if client_count s \<ge> unat (sv_max_clients s) then set_ask k (Answered SilentlyIgnore) s
      else if p \<in> set (sv_admission s) then set_ask k (Answered Accept) s
      else pending_park p name k now (set_ask k (AskParked p) (s\<lparr>sd_deferred := (sd_deferred s)(k := DeferredOpen)\<rparr>)))"

definition admission_wake :: "nat \<Rightarrow> bool \<Rightarrow> server_daemon \<Rightarrow> server_daemon" where
  "admission_wake k timed_out s =
     (case sd_asks s k of
        AskParked p \<Rightarrow>
          (case sd_deferred s k of
             DeferredSent d \<Rightarrow> set_ask k (Answered d) s
           | DeferredDropped \<Rightarrow> set_ask k (Answered SilentlyIgnore) s
           | DeferredOpen \<Rightarrow>
               if timed_out then set_ask k (Answered SilentlyIgnore) (pending_resolve p SilentlyIgnore s) else s)
      | _ \<Rightarrow> s)"

text \<open>The manager's \<open>select!\<close> drops a decider whose call has ended.\<close>

definition admission_drop :: "nat \<Rightarrow> server_daemon \<Rightarrow> server_daemon" where
  "admission_drop k s = (case sd_asks s k of AskParked p \<Rightarrow> set_ask k AskDropped s | _ \<Rightarrow> s)"

section \<open>Session events and tasks\<close>

definition set_task :: "nat \<Rightarrow> session_task \<Rightarrow> server_daemon \<Rightarrow> server_daemon" where
  "set_task n t s = s\<lparr>sd_tasks := (sd_tasks s)(n := t)\<rparr>"

fun on_session_event :: "session_event \<Rightarrow> server_daemon \<Rightarrow> server_daemon" where
  "on_session_event (SessionConnected p t) s =
     (let n = sd_next s in
      set_task n (Starting p t) (s\<lparr>sd_next := Suc n, sd_done := AList.update p n (sd_done s)\<rparr>))"
| "on_session_event (SessionDisconnected p) s = s\<lparr>sd_done := AList.delete p (sd_done s)\<rparr>"
| "on_session_event (SessionFailed p) s = pending_resolve p SilentlyIgnore s"

text \<open>What the device set-up gives in kernel mode, and whether the userspace NAT starts.\<close>

record nat_outcome =
  kernel_mode :: bool
  open_ok :: bool
  attach_ok :: bool
  start_ok :: bool

definition session_nat :: "nat_outcome \<Rightarrow> server_daemon \<Rightarrow> (bool \<times> 8 word option) \<times> server_daemon" where
  "session_nat e s =
     (if kernel_mode e then
        (case alloc_kernel_slot s of
           (Some k, s) \<Rightarrow>
             if open_ok e \<and> attach_ok e then ((True, Some k), s)
             else ((start_ok e, None), release_kernel_slot k s)
         | (None, s) \<Rightarrow> ((start_ok e, None), s))
      else ((start_ok e, None), s))"

definition session_start :: "nat \<Rightarrow> nat_outcome \<Rightarrow> string option \<Rightarrow> 64 word \<Rightarrow> server_daemon \<Rightarrow> server_daemon" where
  "session_start n e name now s =
     (case sd_tasks s n of
        Starting p t \<Rightarrow>
          (case session_nat e s of
             ((True, slot), s) \<Rightarrow> set_task n (Serving p) (install_client p t name slot now s)
           | ((False, slot), s) \<Rightarrow>
               let s = (case slot of Some k \<Rightarrow> release_kernel_slot k s | None \<Rightarrow> s) in
               set_task n Over (s\<lparr>sd_disc := sd_disc s @ [t]\<rparr>))
      | _ \<Rightarrow> s)"

definition session_wake :: "nat \<Rightarrow> server_daemon \<Rightarrow> server_daemon" where
  "session_wake n s =
     (case sd_tasks s n of
        Serving p \<Rightarrow> if map_of (sd_done s) p \<noteq> Some n then set_task n Over (remove_client p s) else s
      | _ \<Rightarrow> s)"

section \<open>Reachable daemons\<close>

inductive daemon_step :: "server_daemon \<Rightarrow> server_daemon \<Rightarrow> bool" where
  allow: "daemon_step s (admission_add p s)"
| disallow: "daemon_step s (admission_remove p s)"
| block: "daemon_step s (blacklist_add p s)"
| unblock: "daemon_step s (blacklist_remove p s)"
| cap: "daemon_step s (set_max_clients n s)"
| ask: "sd_asks s k = NotAsked \<Longrightarrow> daemon_step s (admission_decide k p name now s)"
| wake: "daemon_step s (admission_wake k timed_out s)"
| drop_ask: "daemon_step s (admission_drop k s)"
| resolve: "daemon_step s (pending_resolve p d s)"
| session_ev: "daemon_step s (on_session_event ev s)"
| start: "daemon_step s (session_start n e name now s)"
| over: "daemon_step s (session_wake n s)"
| clear: "daemon_step s (clear_all s)"

definition daemon_init :: "server_daemon \<Rightarrow> bool" where
  "daemon_init s \<longleftrightarrow> (\<exists>adm black maxc. s = with_config adm black maxc)"

definition daemon_reach :: "server_daemon \<Rightarrow> bool" where
  "daemon_reach = reachable daemon_init daemon_step"

section \<open>Slots have one owner\<close>

definition owns :: "server_daemon \<Rightarrow> peer_id \<Rightarrow> 8 word option" where
  "owns s p = Option.bind (map_of (sv_clients s) p) ac_slot"

definition pool_ok :: "8 word list \<Rightarrow> (peer_id \<Rightarrow> 8 word option) \<Rightarrow> bool" where
  "pool_ok free own \<longleftrightarrow> distinct free \<and> (\<forall>k \<in> set free. k < KERNEL_TUN_SLOT_LIMIT) \<and>
     (\<forall>p k. own p = Some k \<longrightarrow> k < KERNEL_TUN_SLOT_LIMIT \<and> k \<notin> set free) \<and>
     (\<forall>p q k. own p = Some k \<longrightarrow> own q = Some k \<longrightarrow> p = q)"

definition slots_inv :: "server_daemon \<Rightarrow> bool" where
  "slots_inv s \<longleftrightarrow> distinct (map fst (sv_clients s)) \<and> pool_ok (sv_kernel_slots s) (owns s)"

lemma pool_ok_forget: "pool_ok free own \<Longrightarrow> pool_ok free (own(p := None))"
  by (auto simp: pool_ok_def)

lemma pool_ok_release:
  "pool_ok free own \<Longrightarrow> k < KERNEL_TUN_SLOT_LIMIT \<Longrightarrow> (\<And>p. own p \<noteq> Some k) \<Longrightarrow>
     k \<notin> set free \<Longrightarrow> pool_ok (free @ [k]) own"
  by (auto simp: pool_ok_def)

lemma pool_ok_pop:
  assumes "pool_ok free own" "free \<noteq> []"
  shows "pool_ok (butlast free) own" "last free < KERNEL_TUN_SLOT_LIMIT" "own p \<noteq> Some (last free)"
    "last free \<notin> set (butlast free)"
proof -
  have "distinct (butlast free @ [last free])" using assms by (simp add: pool_ok_def)
  then show "last free \<notin> set (butlast free)" by simp
  show "pool_ok (butlast free) own" "last free < KERNEL_TUN_SLOT_LIMIT" "own p \<noteq> Some (last free)"
    using assms last_in_set [OF assms(2)] unfolding pool_ok_def by (blast intro: distinct_butlast dest: in_set_butlastD)+
qed

lemma pool_ok_take:
  "pool_ok free own \<Longrightarrow> k < KERNEL_TUN_SLOT_LIMIT \<Longrightarrow> (\<And>p. own p \<noteq> Some k) \<Longrightarrow> k \<notin> set free \<Longrightarrow>
     pool_ok free (own(p := Some k))"
  by (auto simp: pool_ok_def)

definition slots_view where
  "slots_view s = (sv_clients s, sv_kernel_slots s)"

interpretation slots_frame: framed_invariant slots_view slots_inv
  by unfold_locales (simp add: slots_view_def slots_inv_def owns_def [abs_def])

lemma slots_inv_view:
  "slots_inv s \<Longrightarrow> sv_clients s' = sv_clients s \<Longrightarrow> sv_kernel_slots s' = sv_kernel_slots s \<Longrightarrow> slots_inv s'"
  by (rule slots_frame.keep [of s]) (simp_all add: slots_view_def)

lemma release_fields [simp]:
  "sv_clients (release_kernel_slot k s) = sv_clients s"
  "sv_kernel_slots (release_kernel_slot k s) = (if k \<in> set (sv_kernel_slots s) then sv_kernel_slots s else sv_kernel_slots s @ [k])"
  "owns (release_kernel_slot k s) = owns s"
  by (simp_all add: release_kernel_slot_def owns_def fun_eq_iff)

lemma owns_install: "owns (install_client p t name slot now s) = (owns s)(p := slot)"
  by (auto simp: owns_def install_client_def update_conv' fun_eq_iff)

lemma slots_inv_install:
  assumes "slots_inv s" "\<And>k. slot = Some k \<Longrightarrow> k < KERNEL_TUN_SLOT_LIMIT \<and> k \<notin> set (sv_kernel_slots s) \<and> (\<forall>p. owns s p \<noteq> Some k)"
  shows "slots_inv (install_client p t name slot now s)"
proof -
  have "pool_ok (sv_kernel_slots s) ((owns s)(p := slot))"
    using assms by (cases slot) (auto simp: slots_inv_def pool_ok_forget intro: pool_ok_take)
  then show ?thesis
    using assms(1) owns_install [of p t name slot now s] by (simp add: slots_inv_def) (simp add: install_client_def distinct_update)
qed

lemma slots_inv_nat:
  assumes "slots_inv s" "session_nat e s = ((ok, slot), s')"
  shows "slots_inv s' \<and> (\<forall>k. slot = Some k \<longrightarrow> k < KERNEL_TUN_SLOT_LIMIT \<and> k \<notin> set (sv_kernel_slots s') \<and> (\<forall>p. owns s' p \<noteq> Some k))"
proof (cases "kernel_mode e \<and> sv_kernel_slots s \<noteq> []")
  case True
  let ?k = "last (sv_kernel_slots s)" and ?u = "s\<lparr>sv_kernel_slots := butlast (sv_kernel_slots s)\<rparr>"
  have pool: "pool_ok (sv_kernel_slots s) (owns s)" using assms(1) by (simp add: slots_inv_def)
  note pop = pool_ok_pop [OF pool conjunct2 [OF True]]
  have o: "owns ?u = owns s" by (simp add: owns_def fun_eq_iff)
  have u: "slots_inv ?u" using assms(1) pop(1) o by (simp add: slots_inv_def)
  show ?thesis
  proof (cases "open_ok e \<and> attach_ok e")
    case t: True
    then have "slot = Some ?k" "s' = ?u" using assms(2) True by (simp_all add: session_nat_def alloc_kernel_slot_def)
    then show ?thesis using u pop o by simp
  next
    case False
    then have "slot = None" "s' = release_kernel_slot ?k ?u" using assms(2) True by (auto simp: session_nat_def alloc_kernel_slot_def)
    moreover have "slots_inv (release_kernel_slot ?k ?u)"
      using u pool_ok_release [OF pop(1,2,3)] o by (simp add: slots_inv_def)
    ultimately show ?thesis by simp
  qed
next
  case False
  then have "slot = None" "s' = s" using assms(2) by (auto simp: session_nat_def alloc_kernel_slot_def split: if_splits)
  then show ?thesis using assms(1) by simp
qed

lemma slots_inv_start: "slots_inv s \<Longrightarrow> slots_inv (session_start n e name now s)"
proof (cases "sd_tasks s n")
  case (Starting p t)
  assume inv: "slots_inv s"
  obtain ok slot s' where n: "session_nat e s = ((ok, slot), s')" by (metis surj_pair)
  note r = slots_inv_nat [OF inv n]
  have none: "\<not> ok \<Longrightarrow> slot = None" using n by (auto simp: session_nat_def split: if_splits prod.splits option.splits)
  show ?thesis
  proof (cases ok)
    case True
    have "slots_inv (install_client p t name slot now s')" using slots_inv_install r by blast
    then have "slots_inv (set_task n (Serving p) (install_client p t name slot now s'))"
      by (rule slots_inv_view) (simp_all add: set_task_def)
    then show ?thesis using Starting n True by (simp add: session_start_def)
  next
    case False
    have "slots_inv (set_task n Over (s'\<lparr>sd_disc := sd_disc s' @ [t]\<rparr>))"
      by (rule slots_inv_view [of s']) (use r in \<open>simp_all add: set_task_def\<close>)
    then show ?thesis using Starting n False none by (simp add: session_start_def)
  qed
qed (simp_all add: session_start_def)

lemma slots_inv_remove:
  assumes "slots_inv s"
  shows "slots_inv (remove_client p s)"
proof (cases "map_of (sv_clients s) p")
  case (Some c)
  let ?u = "s\<lparr>sv_clients := AList.delete p (sv_clients s), sd_disc := sd_disc s @ [ac_tunnel c]\<rparr>"
  have o: "owns ?u = (owns s)(p := None)" by (auto simp: owns_def delete_conv' fun_eq_iff)
  have pool: "pool_ok (sv_kernel_slots s) (owns s)" using assms by (simp add: slots_inv_def)
  have u: "slots_inv ?u"
    using assms pool_ok_forget [OF pool] unfolding slots_inv_def o by (simp add: distinct_delete)
  have "slots_inv (release_kernel_slot k ?u)" if k: "ac_slot c = Some k" for k
  proof -
    have "owns s p = Some k" using Some k by (simp add: owns_def)
    then have "k < KERNEL_TUN_SLOT_LIMIT" "owns ?u q \<noteq> Some k" for q
      using pool unfolding o pool_ok_def by auto
    then show ?thesis using u pool_ok_release [of "sv_kernel_slots s" "owns ?u" k] by (simp add: slots_inv_def)
  qed
  then show ?thesis using Some u by (simp add: remove_client_def client_closed_def Let_def split: option.split)
qed (use assms in \<open>simp add: remove_client_def\<close>)

lemma fold_closed:
  "\<forall>c \<in> set cs. \<forall>k. ac_slot c = Some k \<longrightarrow> k < KERNEL_TUN_SLOT_LIMIT \<Longrightarrow> sv_clients s = [] \<Longrightarrow> slots_inv s \<Longrightarrow>
     slots_inv (fold client_closed cs s) \<and> sv_clients (fold client_closed cs s) = []"
proof (induction cs arbitrary: s)
  case (Cons c cs)
  have "owns t = (\<lambda>_. None)" if "sv_clients t = []" for t using that by (simp add: owns_def fun_eq_iff)
  then have "slots_inv (client_closed c s) \<and> sv_clients (client_closed c s) = []"
    using Cons(2,3,4) pool_ok_release [of "sv_kernel_slots s" "\<lambda>_. None"]
    by (simp add: client_closed_def Let_def slots_inv_def split: option.split)
  then show ?case using Cons by simp
qed simp

lemma slots_inv_clear:
  assumes "slots_inv s"
  shows "slots_inv (clear_all s)"
proof -
  have d: "distinct (map fst (sv_clients s))" and pool: "pool_ok (sv_kernel_slots s) (owns s)"
    using assms by (simp_all add: slots_inv_def)
  have "k < KERNEL_TUN_SLOT_LIMIT" if "(p, c) \<in> set (sv_clients s)" "ac_slot c = Some k" for p c k
  proof -
    have "owns s p = Some k" using that d by (simp add: owns_def)
    then show ?thesis using pool by (simp add: pool_ok_def)
  qed
  then have cs: "\<forall>c \<in> set (map snd (sv_clients s)). \<forall>k. ac_slot c = Some k \<longrightarrow> k < KERNEL_TUN_SLOT_LIMIT" by auto
  have "owns (s\<lparr>sv_clients := []\<rparr>) = (\<lambda>_. None)" by (simp add: owns_def fun_eq_iff)
  then have "slots_inv (s\<lparr>sv_clients := []\<rparr>)" using pool by (simp add: slots_inv_def pool_ok_def)
  then have "slots_inv (fold client_closed (map snd (sv_clients s)) (s\<lparr>sv_clients := []\<rparr>))"
    using fold_closed [OF cs] by simp
  then show ?thesis unfolding clear_all_def Let_def by (rule slots_inv_view) (simp_all add: close_deferred_def)
qed

lemma slots_inv_step:
  assumes "daemon_step s s'" "slots_inv s"
  shows "slots_inv s'"
  using assms(1)
proof cases
  case (start n e name now)
  then show ?thesis using slots_inv_start [OF assms(2)] by simp
next
  case (over n)
  have "slots_inv (set_task n Over (remove_client p s))" for p
    by (rule slots_inv_view [OF slots_inv_remove [OF assms(2)]]) (simp_all add: set_task_def)
  then show ?thesis using over assms(2) by (simp add: session_wake_def split: session_task.split)
next
  case clear
  then show ?thesis using slots_inv_clear [OF assms(2)] by simp
next
  case (session_ev ev)
  then show ?thesis
    by (intro slots_inv_view [OF assms(2)]; cases ev)
      (simp_all add: pending_resolve_def set_task_def Let_def split: option.split)
qed (rule slots_inv_view [OF assms(2)];
  simp add: admission_add_def admission_remove_def blacklist_add_def blacklist_remove_def set_max_clients_def
    admission_decide_def admission_wake_def admission_drop_def pending_resolve_def pending_park_def
    close_deferred_def set_ask_def Let_def split: option.split ask.split deferred.split)+

lemma slots_inv_start_config: "slots_inv (with_config adm black maxc)"
proof -
  have "inj_on (of_nat :: nat \<Rightarrow> 8 word) {0..<254}"
  proof (rule inj_onI)
    fix x y :: nat
    assume b: "x \<in> {0..<254}" "y \<in> {0..<254}" and "(of_nat x :: 8 word) = of_nat y"
    then have "unat (of_nat x :: 8 word) = unat (of_nat y :: 8 word)" by simp
    then show "x = y" using b by (simp add: unat_of_nat)
  qed
  then show ?thesis
    by (auto simp: slots_inv_def pool_ok_def with_config_def owns_def distinct_map KERNEL_TUN_SLOT_LIMIT_def
        word_less_nat_alt unat_of_nat)
qed

interpretation daemon: invariant_system daemon_init daemon_step slots_inv
  by unfold_locales (auto simp: daemon_init_def slots_inv_start_config intro: slots_inv_step)

lemma slots_inv_reach: "daemon_reach s \<Longrightarrow> slots_inv s"
  unfolding daemon_reach_def by (rule daemon.always)

lemma config_reach: "daemon_reach (with_config adm black maxc)"
  unfolding daemon_reach_def by (rule reach_init) (auto simp: daemon_init_def)

lemma daemon_next: "daemon_reach s \<Longrightarrow> daemon_step s t \<Longrightarrow> daemon_reach t"
  unfolding daemon_reach_def by (rule reach_next)

section \<open>Properties\<close>

text \<open>C12. However calls, sessions, their ends and mode switches interleave, no two clients use the
  same kernel TUN slot, a slot in use is not in the pool of free slots, and the pool holds no slot
  twice: two sessions never get the same device and subnet.\<close>

theorem kernel_slots_exclusive:
  assumes "daemon_reach s"
  shows "distinct (sv_kernel_slots s) \<and>
    (\<forall>p c k. map_of (sv_clients s) p = Some c \<and> ac_slot c = Some k \<longrightarrow>
       k < KERNEL_TUN_SLOT_LIMIT \<and> k \<notin> set (sv_kernel_slots s)) \<and>
    (\<forall>p q c d k. map_of (sv_clients s) p = Some c \<and> map_of (sv_clients s) q = Some d \<and>
       ac_slot c = Some k \<and> ac_slot d = Some k \<longrightarrow> p = q)"
proof -
  have pool: "pool_ok (sv_kernel_slots s) (owns s)" using slots_inv_reach [OF assms] by (simp add: slots_inv_def)
  have "map_of (sv_clients s) p = Some c \<Longrightarrow> ac_slot c = Some k \<Longrightarrow> owns s p = Some k" for p c k
    by (simp add: owns_def)
  then show ?thesis using pool unfolding pool_ok_def by metis
qed

text \<open>Sessions of \<open>bob\<close> and \<open>eve\<close> in kernel mode.\<close>

definition kernel_ok :: nat_outcome where
  "kernel_ok = \<lparr>kernel_mode = True, open_ok = True, attach_ok = True, start_ok = True\<rparr>"

definition two_sessions :: server_daemon where
  "two_sessions = session_start 1 kernel_ok None 0 (on_session_event (SessionConnected ''eve'' 1)
     (session_start 0 kernel_ok None 0 (on_session_event (SessionConnected ''bob'' 0) (with_config [] [] 5))))"

text \<open>All slots but the two that are handed out first.\<close>

definition later_slots :: "8 word list" where
  "later_slots = rev (map of_nat [2..<254])"

lemma initial_slots: "rev (map of_nat [0..<unat KERNEL_TUN_SLOT_LIMIT]) = later_slots @ [1, 0]"
proof -
  have "[0..<254] = 0 # 1 # [2..<254 :: nat]" by (simp only: upt_conv_Cons) (simp del: upt_rec_numeral add: upt_conv_Cons)
  then show ?thesis by (simp only: KERNEL_TUN_SLOT_LIMIT_def later_slots_def) (simp del: upt_rec_numeral)
qed

lemma later_slots_fresh: "0 \<notin> set later_slots" "1 \<notin> set later_slots"
proof -
  have "2 \<le> unat k" if "k \<in> set later_slots" for k
    using that by (auto simp: later_slots_def unat_of_nat simp del: upt_rec_numeral)
  from this [of 0] this [of 1] show "0 \<notin> set later_slots" "1 \<notin> set later_slots" by auto
qed

lemmas daemon_eval = with_config_def initial_slots later_slots_fresh session_start_def session_nat_def alloc_kernel_slot_def
  install_client_def set_task_def session_wake_def remove_client_def client_closed_def release_kernel_slot_def
  kernel_ok_def butlast_append Let_def

theorem kernel_slots_exclusive_witness:
  "map (\<lambda>(p, c). (p, ac_slot c)) (sv_clients two_sessions) = [(''bob'', Some 0), (''eve'', Some 1)] \<and>
   distinct (sv_kernel_slots two_sessions)"
proof -
  have "daemon_reach two_sessions"
    unfolding two_sessions_def
    by (intro daemon_next [OF _ daemon_step.start] daemon_next [OF _ daemon_step.session_ev] config_reach)
  from kernel_slots_exclusive [OF this] have "distinct (sv_kernel_slots two_sessions)" by blast
  moreover have "map (\<lambda>(p, c). (p, ac_slot c)) (sv_clients two_sessions) = [(''bob'', Some 0), (''eve'', Some 1)]"
    by (simp add: two_sessions_def daemon_eval)
  ultimately show ?thesis by simp
qed

text \<open>What the daemon does not guard against. A peer calls again while its first session is served:
  when the second session is installed before the task of the first one wakes, the first slot is
  lost with the replaced entry, and that task then removes and disconnects the second session. A
  late \<open>Disconnected\<close> of the first tunnel ends the second session. And the limit on clients is
  checked before a call is parked, so parked calls that the user accepts exceed it.\<close>

definition served_twice :: server_daemon where
  "served_twice = session_wake 0 (session_start 1 kernel_ok None 0 (on_session_event (SessionConnected ''bob'' 1)
     (session_start 0 kernel_ok None 0 (on_session_event (SessionConnected ''bob'' 0) (with_config [] [] 5)))))"

definition late_disconnect :: server_daemon where
  "late_disconnect = session_wake 1 (on_session_event (SessionDisconnected ''bob'')
     (session_start 1 kernel_ok None 0 (session_wake 0 (on_session_event (SessionConnected ''bob'' 1)
       (session_start 0 kernel_ok None 0 (on_session_event (SessionConnected ''bob'' 0) (with_config [] [] 5)))))))"

definition both_accepted :: server_daemon where
  "both_accepted = admission_wake 1 False (admission_wake 0 False (pending_resolve ''eve'' Accept (pending_resolve ''bob'' Accept
     (admission_decide 1 ''eve'' None 0 (admission_decide 0 ''bob'' None 0 (with_config [] [] 1))))))"

lemma recall_reach: "daemon_reach served_twice" "daemon_reach late_disconnect"
  unfolding served_twice_def late_disconnect_def
  by (intro daemon_next [OF _ daemon_step.start] daemon_next [OF _ daemon_step.session_ev]
      daemon_next [OF _ daemon_step.over] config_reach)+

text \<open>Re-calls and the client limit. In a reachable state after \<open>bob\<close> called twice, no client
  is left, the second tunnel was told to disconnect, and slot 0 is neither free nor used; a late
  \<open>Disconnected\<close> of the first tunnel ends the second session; and with a limit of one client two
  parked calls are both accepted.\<close>

theorem server_recall_gaps:
  "daemon_reach served_twice \<and> sv_clients served_twice = [] \<and> sd_disc served_twice = [1] \<and>
     0 \<notin> set (sv_kernel_slots served_twice) \<and>
   daemon_reach late_disconnect \<and> sv_clients late_disconnect = [] \<and> sd_disc late_disconnect = [0, 1] \<and>
   sv_max_clients both_accepted = 1 \<and> sd_asks both_accepted 0 = Answered Accept \<and> sd_asks both_accepted 1 = Answered Accept"
proof (intro conjI recall_reach)
  show "sv_clients served_twice = []" "sd_disc served_twice = [1]" "0 \<notin> set (sv_kernel_slots served_twice)"
    by (simp_all add: served_twice_def daemon_eval)
  show "sv_clients late_disconnect = []" "sd_disc late_disconnect = [0, 1]"
    by (simp_all add: late_disconnect_def daemon_eval)
  show "sv_max_clients both_accepted = 1" "sd_asks both_accepted 0 = Answered Accept" "sd_asks both_accepted 1 = Answered Accept"
    by (simp_all add: both_accepted_def daemon_eval admission_wake_def pending_resolve_def admission_decide_def
        pending_park_def set_ask_def client_count_def MAX_CLIENTS_LIMIT_def)
qed

end
