(* ===== verification/Proto_Wire.thy ===== *)
theory Proto_Wire
  imports Prelude
begin

text \<open>
  The protobuf wire format of the signaling client (\<open>bale-signaling/src/proto.rs\<close>). The writer
  is a byte buffer that every call extends; the reader is a buffer with a position, and every call
  returns its result, an error or a value, together with the reader, whose position moves on errors
  too. \<open>usize\<close> has 64 bits.
\<close>

section \<open>Writer\<close>

lemma varint_shift_less: "v AND NOT 0x7F \<noteq> (0 :: u64) \<Longrightarrow> unat (drop_bit 7 v) < unat v"
proof -
  assume "v AND NOT 0x7F \<noteq> 0"
  then have "v \<noteq> 0" by auto
  then have "0 < unat v" by (simp add: unat_gt_0)
  then show ?thesis by (simp add: unat_drop_bit)
qed

function varint_bytes :: "u64 \<Rightarrow> bytes" where
  "varint_bytes v =
     (if v AND NOT 0x7F \<noteq> 0
      then ucast ((v AND 0x7F) OR 0x80) # varint_bytes (drop_bit 7 v)
      else [ucast (v AND 0x7F)])"
  by pat_completeness auto
termination
  by (relation "measure unat") (simp_all add: varint_shift_less)

declare varint_bytes.simps [simp del]

type_synonym proto_writer = bytes

definition pw_new :: proto_writer where "pw_new = []"

definition pw_varint :: "u64 \<Rightarrow> proto_writer \<Rightarrow> proto_writer" where
  "pw_varint v w = w @ varint_bytes v"

definition pw_tag :: "u32 \<Rightarrow> u32 \<Rightarrow> proto_writer \<Rightarrow> proto_writer" where
  "pw_tag field wire w = pw_varint (push_bit 3 (ucast field) OR ucast wire) w"

definition pw_int32 :: "u32 \<Rightarrow> 32 word \<Rightarrow> proto_writer \<Rightarrow> proto_writer" where
  "pw_int32 field v w = pw_varint (ucast v) (pw_tag field 0 w)"

definition pw_int64 :: "u32 \<Rightarrow> 64 word \<Rightarrow> proto_writer \<Rightarrow> proto_writer" where
  "pw_int64 field v w = pw_varint v (pw_tag field 0 w)"

definition pw_bool :: "u32 \<Rightarrow> bool \<Rightarrow> proto_writer \<Rightarrow> proto_writer" where
  "pw_bool field v w = pw_varint (if v then 1 else 0) (pw_tag field 0 w)"

definition pw_bytes :: "u32 \<Rightarrow> bytes \<Rightarrow> proto_writer \<Rightarrow> proto_writer" where
  "pw_bytes field v w = pw_varint (of_nat (length v)) (pw_tag field 2 w) @ v"

text \<open>A \<open>&str\<close> is its UTF-8 bytes; \<open>str\<close> gives those of an ASCII literal.\<close>

definition str :: "string \<Rightarrow> bytes" where
  "str s = map of_char s"

definition pw_string :: "u32 \<Rightarrow> bytes \<Rightarrow> proto_writer \<Rightarrow> proto_writer" where
  "pw_string field v w = pw_bytes field v w"

section \<open>Reader\<close>

record proto_reader =
  r_buf :: bytes
  r_pos :: nat

datatype proto_error =
  Eof | UnsupportedWireType u32 | InvalidUtf8 | TruncatedLength nat nat

type_synonym 'a read = "(proto_error + 'a) \<times> proto_reader"

definition pr_new :: "bytes \<Rightarrow> proto_reader" where
  "pr_new b = \<lparr>r_buf = b, r_pos = 0\<rparr>"

definition has_more :: "proto_reader \<Rightarrow> bool" where
  "has_more r \<longleftrightarrow> r_pos r < length (r_buf r)"

definition remaining :: "proto_reader \<Rightarrow> bytes" where
  "remaining r = (if r_pos r < length (r_buf r) then drop (r_pos r) (r_buf r) else [])"

function varint_loop :: "u64 \<Rightarrow> nat \<Rightarrow> proto_reader \<Rightarrow> u64 read" where
  "varint_loop result shift r =
     (if r_pos r < length (r_buf r) then
        let b = r_buf r ! r_pos r;
            r = r\<lparr>r_pos := r_pos r + 1\<rparr>;
            result = result OR push_bit shift (ucast (b AND 0x7F)) in
        if b AND 0x80 = 0 then (Inr result, r)
        else let shift = shift + 7 in
          if shift \<ge> 64 then (Inl Eof, r) else varint_loop result shift r
      else (Inl Eof, r))"
  by pat_completeness auto
termination
  by (relation "measure (\<lambda>(result, shift, r). length (r_buf r) - r_pos r)") auto

declare varint_loop.simps [simp del]

definition pr_varint :: "proto_reader \<Rightarrow> u64 read" where
  "pr_varint r = varint_loop 0 0 r"

definition pr_tag :: "proto_reader \<Rightarrow> (u32 \<times> u32) read" where
  "pr_tag r = (case pr_varint r of
     (Inl e, r) \<Rightarrow> (Inl e, r)
   | (Inr v, r) \<Rightarrow> (Inr (ucast (drop_bit 3 v), ucast (v AND 7)), r))"

definition pr_advance :: "nat \<Rightarrow> proto_reader \<Rightarrow> unit read" where
  "pr_advance n r =
     (if r_pos r + n \<ge> 2 ^ 64 then (Inl Eof, r)
      else let e = r_pos r + n in
        if e > length (r_buf r) then (Inl (TruncatedLength n (length (r_buf r) - r_pos r)), r)
        else (Inr (), r\<lparr>r_pos := e\<rparr>))"

definition pr_bytes :: "proto_reader \<Rightarrow> bytes read" where
  "pr_bytes r = (case pr_varint r of
     (Inl e, r) \<Rightarrow> (Inl e, r)
   | (Inr v, r) \<Rightarrow>
       let len = unat v in
       if r_pos r + len \<ge> 2 ^ 64 then (Inl Eof, r)
       else let e = r_pos r + len in
         if e > length (r_buf r) then (Inl (TruncatedLength len (length (r_buf r) - r_pos r)), r)
         else (Inr (slice (r_buf r) (r_pos r) e), r\<lparr>r_pos := e\<rparr>))"

text \<open>\<open>std::str::from_utf8\<close>: well-formed UTF-8 (no overlong forms, no surrogates, nothing past
  U+10FFFF).\<close>

definition cont :: "u8 \<Rightarrow> bool" where
  "cont b \<longleftrightarrow> 0x80 \<le> b \<and> b \<le> 0xBF"

fun utf8_ok :: "bytes \<Rightarrow> bool" where
  "utf8_ok [] = True"
| "utf8_ok (a # r) =
     (if a < 0x80 then utf8_ok r
      else case r of
        [] \<Rightarrow> False
      | b # r \<Rightarrow>
          if 0xC2 \<le> a \<and> a \<le> 0xDF then cont b \<and> utf8_ok r
          else (case r of
            [] \<Rightarrow> False
          | c # r \<Rightarrow>
              if 0xE0 \<le> a \<and> a \<le> 0xEF
              then cont b \<and> cont c \<and> (a = 0xE0 \<longrightarrow> 0xA0 \<le> b) \<and> (a = 0xED \<longrightarrow> b \<le> 0x9F) \<and> utf8_ok r
              else (case r of
                [] \<Rightarrow> False
              | d # r \<Rightarrow>
                  0xF0 \<le> a \<and> a \<le> 0xF4 \<and> cont b \<and> cont c \<and> cont d
                  \<and> (a = 0xF0 \<longrightarrow> 0x90 \<le> b) \<and> (a = 0xF4 \<longrightarrow> b \<le> 0x8F) \<and> utf8_ok r)))"

definition pr_string :: "proto_reader \<Rightarrow> bytes read" where
  "pr_string r = (case pr_bytes r of
     (Inl e, r) \<Rightarrow> (Inl e, r)
   | (Inr b, r) \<Rightarrow> (if utf8_ok b then Inr b else Inl InvalidUtf8, r))"

definition pr_skip :: "u32 \<Rightarrow> proto_reader \<Rightarrow> unit read" where
  "pr_skip wire r =
     (if wire = 0 then (case pr_varint r of (Inl e, r) \<Rightarrow> (Inl e, r) | (Inr v, r) \<Rightarrow> (Inr (), r))
      else if wire = 1 then pr_advance 8 r
      else if wire = 2 then (case pr_varint r of (Inl e, r) \<Rightarrow> (Inl e, r) | (Inr v, r) \<Rightarrow> pr_advance (unat v) r)
      else if wire = 5 then pr_advance 4 r
      else (Inl (UnsupportedWireType wire), r))"

section \<open>Varints\<close>

lemma and_7f: "unat (v AND 0x7F :: u64) = unat v mod 128"
proof -
  have "v AND 0x7F = take_bit 7 v" by (simp add: take_bit_eq_mask mask_eq_exp_minus_1)
  then have "unat (v AND 0x7F) = take_bit 7 (unat v)" by (metis unsigned_take_bit_eq)
  then show ?thesis by (simp add: take_bit_eq_mod)
qed

lemma and_not_zero_iff: "v AND NOT m = (0 :: u64) \<longleftrightarrow> v = v AND m"
  by (auto simp: bit_eq_iff bit_simps)

lemma unat_ucast_8_64 [simp]: "unat (ucast (x :: u8) :: u64) = unat x"
  using unat_u8_less [of x] by (simp add: unsigned_ucast_eq take_bit_nat_eq_self)

lemma high_bits: "v AND NOT 0x7F = (0 :: u64) \<longleftrightarrow> unat v < 128"
proof -
  have "v AND NOT 0x7F = 0 \<longleftrightarrow> v = v AND 0x7F"
    by (rule and_not_zero_iff)
  also have "\<dots> \<longleftrightarrow> unat v = unat v mod 128" using and_7f [of v] by (metis word_unat_eq_iff)
  also have "\<dots> \<longleftrightarrow> unat v < 128" by (metis mod_less mod_less_divisor zero_less_numeral)
  finally show ?thesis .
qed

lemma byte_masks: "(0x7F :: u8) = mask 7" "(0x7F :: u64) = mask 7" "(0x80 :: u8) = 2 ^ 7" "(0x80 :: u64) = 2 ^ 7"
  by (simp_all add: mask_eq_exp_minus_1)

lemma low_byte:
  "unat (ucast (v AND 0x7F :: u64) :: u8) = unat v mod 128"
  "(ucast ((v AND 0x7F) OR 0x80 :: u64) :: u8) AND 0x7F = ucast (v AND 0x7F :: u64)"
  "(ucast ((v AND 0x7F) OR 0x80 :: u64) :: u8) AND 0x80 \<noteq> 0"
  "(ucast (v AND 0x7F :: u64) :: u8) AND 0x80 = 0"
  "(ucast (v AND 0x7F :: u64) :: u8) AND 0x7F = ucast (v AND 0x7F :: u64)"
proof -
  have "unat v mod 128 < 256" by (rule less_trans [of _ 128]) simp_all
  then show "unat (ucast (v AND 0x7F :: u64) :: u8) = unat v mod 128"
    by (simp add: unsigned_ucast_eq and_7f take_bit_nat_eq_self)
  show "(ucast ((v AND 0x7F) OR 0x80 :: u64) :: u8) AND 0x7F = ucast (v AND 0x7F :: u64)"
    unfolding byte_masks
    by (rule bit_word_eqI, unfold bit_and_iff bit_or_iff bit_ucast_iff bit_mask_iff bit_exp_iff) auto
  show "(ucast (v AND 0x7F :: u64) :: u8) AND 0x80 = 0"
    unfolding byte_masks
    by (rule bit_word_eqI, unfold bit_and_iff bit_or_iff bit_ucast_iff bit_mask_iff bit_exp_iff) auto
  show "(ucast (v AND 0x7F :: u64) :: u8) AND 0x7F = ucast (v AND 0x7F :: u64)"
    unfolding byte_masks
    by (rule bit_word_eqI, unfold bit_and_iff bit_or_iff bit_ucast_iff bit_mask_iff bit_exp_iff) auto
  have "bit ((ucast ((v AND 0x7F) OR 0x80 :: u64) :: u8) AND 0x80) 7"
    unfolding byte_masks bit_and_iff bit_or_iff bit_ucast_iff bit_mask_iff bit_exp_iff by simp
  then show "(ucast ((v AND 0x7F) OR 0x80 :: u64) :: u8) AND 0x80 \<noteq> 0" by auto
qed

text \<open>Accumulating the next group of seven bits.\<close>

lemma or_push:
  assumes "unat acc < 2 ^ s" "s < 64" "unat b * 2 ^ s < 2 ^ 64"
  shows "unat (acc OR push_bit s (ucast (b :: u8)) :: u64) = unat acc + unat b * 2 ^ s"
proof -
  have "acc AND push_bit s (ucast b) = (0 :: u64)"
  proof (rule bit_word_eqI)
    fix n assume "n < LENGTH(64)"
    have "\<not> bit acc n" if "s \<le> n"
    proof -
      have "take_bit s acc = acc"
        using assms(1,2) by (simp add: word_unat_eq_iff unsigned_take_bit_eq take_bit_nat_eq_self)
      then show ?thesis using that by (metis bit_take_bit_iff not_le)
    qed
    then show "bit (acc AND push_bit s (ucast b)) n \<longleftrightarrow> bit (0 :: u64) n"
      by (auto simp: bit_and_iff bit_push_bit_iff)
  qed
  then have "acc OR push_bit s (ucast b) = acc + push_bit s (ucast b :: u64)"
    by (simp add: disjunctive_add_eq_or)
  moreover have p: "unat (push_bit s (ucast b) :: u64) = unat b * 2 ^ s"
    using assms(3) by (subst unsigned_push_bit_eq) (simp add: push_bit_eq_mult take_bit_nat_eq_self)
  moreover have "unat acc + unat b * 2 ^ s < 2 ^ 64"
  proof -
    have e: "(2 :: nat) ^ 64 = 2 ^ (64 - s) * 2 ^ s" using assms(2) by (simp flip: power_add)
    have "unat b * 2 ^ s < 2 ^ (64 - s) * 2 ^ s" using assms(3) unfolding e .
    then have "unat b < 2 ^ (64 - s)" by (simp only: mult_less_cancel2)
    then have "Suc (unat b) * 2 ^ s \<le> 2 ^ (64 - s) * 2 ^ s" by (intro mult_le_mono1) simp
    then show ?thesis using assms(1) e by simp
  qed
  ultimately show ?thesis
    by (simp add: unat_word_ariths)
qed

text \<open>The reader takes back what the writer wrote, and nothing more.\<close>

lemma varint_loop_bytes:
  assumes "unat acc < 2 ^ s" "s < 64" "unat v * 2 ^ s < 2 ^ 64"
    and "drop (r_pos r) (r_buf r) = varint_bytes v @ post" 
  shows "\<exists>res. varint_loop acc s r = (Inr res, r\<lparr>r_pos := r_pos r + length (varint_bytes v)\<rparr>)
    \<and> unat res = unat acc + unat v * 2 ^ s"
  using assms
proof (induction v arbitrary: acc s r rule: varint_bytes.induct)
  case (1 v)
  have ne: "varint_bytes v \<noteq> []" by (simp add: varint_bytes.simps)
  then have lt: "r_pos r < length (r_buf r)" using 1(5) by (metis append_is_Nil_conv drop_all not_less)
  define b where "b = hd (varint_bytes v)"
  have b: "r_buf r ! r_pos r = b" using 1(5) ne lt by (simp add: b_def hd_append hd_drop_conv_nth [symmetric])
  have step: "varint_loop acc s r = (let res = acc OR push_bit s (ucast (b AND 0x7F)) in
      if b AND 0x80 = 0 then (Inr res, r\<lparr>r_pos := r_pos r + 1\<rparr>)
      else if s + 7 \<ge> 64 then (Inl Eof, r\<lparr>r_pos := r_pos r + 1\<rparr>)
      else varint_loop res (s + 7) (r\<lparr>r_pos := r_pos r + 1\<rparr>))"
    using lt b by (subst varint_loop.simps) (simp add: Let_def)
  let ?low = "ucast (v AND 0x7F) :: u8" and ?res = "acc OR push_bit s (ucast (ucast (v AND 0x7F) :: u8)) :: u64"
  have mod: "(unat v mod 128) * 2 ^ s < 2 ^ 64"
    using 1(4) by (meson le_less_trans mod_less_eq_dividend mult_le_mono1)
  have res: "unat ?res = unat acc + (unat v mod 128) * 2 ^ s"
    using or_push [OF 1(2,3), of ?low] mod by (simp add: low_byte)
  show ?case
  proof (cases "v AND NOT 0x7F = 0")
    case True
    then have v: "varint_bytes v = [?low]" by (subst varint_bytes.simps) simp
    have "unat v mod 128 = unat v" using True high_bits by simp
    then show ?thesis
      using step res v by (auto simp: b_def low_byte Let_def)
  next
    case False
    then have v: "varint_bytes v = ucast ((v AND 0x7F) OR 0x80) # varint_bytes (drop_bit 7 v)"
      by (subst varint_bytes.simps) simp
    have big: "128 \<le> unat v" using False high_bits by (metis not_le)
    have s7: "s + 7 < 64"
    proof (rule ccontr)
      assume "\<not> s + 7 < 64"
      then have "(2 :: nat) ^ 64 \<le> 2 ^ (s + 7)" by (intro power_increasing) simp_all
      also have "\<dots> \<le> unat v * 2 ^ s" using big by (simp add: power_add)
      finally show False using 1(4) by simp
    qed
    have res_less: "unat ?res < 2 ^ (s + 7)"
    proof -
      have "unat ?res < 2 ^ s + 127 * 2 ^ s"
        unfolding res using 1(2) by (intro add_less_le_mono mult_le_mono1) (simp_all add: less_Suc_eq_le [symmetric])
      then show ?thesis by (simp add: power_add)
    qed
    have dv: "unat (drop_bit 7 v) = unat v div 128" by (simp add: unat_drop_bit)
    have fits: "unat (drop_bit 7 v) * 2 ^ (s + 7) < 2 ^ 64"
    proof -
      have "unat v div 128 * 2 ^ (s + 7) = (unat v div 128 * 128) * 2 ^ s" by (simp add: power_add)
      also have "\<dots> \<le> unat v * 2 ^ s" by (intro mult_le_mono1) simp
      finally show ?thesis using 1(4) dv by simp
    qed
    have dr: "drop (r_pos (r\<lparr>r_pos := r_pos r + 1\<rparr>)) (r_buf (r\<lparr>r_pos := r_pos r + 1\<rparr>)) = varint_bytes (drop_bit 7 v) @ post"
      using 1(5) v by (simp add: drop_Suc drop_tl)
    from "1.IH" [OF False res_less s7 fits dr] obtain res' where
      IH: "varint_loop ?res (s + 7) (r\<lparr>r_pos := r_pos r + 1\<rparr>)
        = (Inr res', r\<lparr>r_pos := r_pos r + 1 + length (varint_bytes (drop_bit 7 v))\<rparr>)"
      "unat res' = unat ?res + unat (drop_bit 7 v) * 2 ^ (s + 7)" by auto
    have "unat res' = unat acc + unat v * 2 ^ s"
    proof -
      have split: "(m + q * 128) * 2 ^ s = m * 2 ^ s + q * 2 ^ (s + 7)" for m q :: nat
        by (simp add: power_add algebra_simps)
      show ?thesis
        unfolding IH(2) res dv using split [of "unat v mod 128" "unat v div 128"] by (simp only: mod_div_mult_eq add.assoc)
    qed
    then show ?thesis
      using step IH(1) v s7 by (simp add: b_def low_byte Let_def)
  qed
qed


lemma pr_varint_bytes:
  assumes "drop (r_pos r) (r_buf r) = varint_bytes v @ post"
  shows "pr_varint r = (Inr v, r\<lparr>r_pos := r_pos r + length (varint_bytes v)\<rparr>)"
proof -
  have "unat v * 2 ^ 0 < 2 ^ 64" using unsigned_less [of v, where ?'a = nat] by simp
  from varint_loop_bytes [OF _ _ this assms, of 0] show ?thesis
    by (auto simp: pr_varint_def word_unat_eq_iff)
qed

section \<open>Fields\<close>

lemma tag_parts:
  fixes field wire :: u32
  assumes "unat wire < 8"
  defines "v \<equiv> push_bit 3 (ucast field) OR ucast wire :: u64"
  shows "ucast (drop_bit 3 v) = field" "ucast (v AND 7) = wire"
proof -
  have w: "n < 3" if "bit wire n" for n
  proof (rule ccontr)
    assume "\<not> n < 3"
    have "take_bit 3 wire = wire"
      using assms(1) by (simp add: word_unat_eq_iff unsigned_take_bit_eq take_bit_nat_eq_self)
    then show False using that \<open>\<not> n < 3\<close> by (metis bit_take_bit_iff)
  qed
  have m: "(7 :: u64) = mask 3" by (simp add: mask_eq_exp_minus_1)
  show "ucast (drop_bit 3 v) = field"
    unfolding v_def by (rule bit_word_eqI) (auto simp: bit_simps dest: w)
  show "ucast (v AND 7) = wire"
    unfolding v_def m by (rule bit_word_eqI) (auto simp: bit_simps dest: w)
qed

lemma pr_tag_written:
  assumes "drop (r_pos r) (r_buf r) = pw_tag field wire [] @ post" "unat wire < 8"
  shows "pr_tag r = (Inr (field, wire), r\<lparr>r_pos := r_pos r + length (pw_tag field wire [])\<rparr>)"
  using pr_varint_bytes [of r "push_bit 3 (ucast field) OR ucast wire" post] assms tag_parts [OF assms(2)]
  by (simp add: pr_tag_def pw_tag_def pw_varint_def)

lemma drop_at: "drop (r_pos r) (r_buf r) = xs @ ys \<Longrightarrow> drop (r_pos r + length xs) (r_buf r) = ys"
  by (metis append_eq_conv_conj drop_drop add.commute)

text \<open>Where the reader can be after a call: inside the buffer, not before where it was.\<close>

definition moved :: "proto_reader \<Rightarrow> proto_reader \<Rightarrow> bool" where
  "moved r r' \<longleftrightarrow> r_buf r' = r_buf r \<and> r_pos r \<le> r_pos r' \<and> r_pos r' \<le> length (r_buf r)"

lemma varint_loop_moved:
  "r_pos r \<le> length (r_buf r) \<Longrightarrow> moved r (snd (varint_loop acc s r))
     \<and> (\<forall>v. fst (varint_loop acc s r) = Inr v \<longrightarrow> r_pos r < r_pos (snd (varint_loop acc s r)))"
proof (induction acc s r rule: varint_loop.induct)
  case (1 acc s r)
  show ?case
  proof (cases "r_pos r < length (r_buf r)")
    case True
    let ?b = "r_buf r ! r_pos r" and ?r = "r\<lparr>r_pos := r_pos r + 1\<rparr>"
    let ?acc = "acc OR push_bit s (ucast (?b AND 0x7F))"
    have step: "varint_loop acc s r = (if ?b AND 0x80 = 0 then (Inr ?acc, ?r)
        else if s + 7 \<ge> 64 then (Inl Eof, ?r) else varint_loop ?acc (s + 7) ?r)"
      using True by (subst varint_loop.simps) (simp add: Let_def)
    have "moved ?r (snd (varint_loop ?acc (s + 7) ?r))"
      if "\<not> ?b AND 0x80 = 0" "\<not> s + 7 \<ge> 64"
      using "1.IH" [OF True refl refl refl that(1) refl that(2)] True by simp
    then show ?thesis unfolding step using True by (auto simp: moved_def)
  next
    case False
    then have "varint_loop acc s r = (Inl Eof, r)" by (subst varint_loop.simps) simp
    then show ?thesis using "1.prems" by (simp add: moved_def)
  qed
qed

lemma pr_varint_moved:
  assumes "r_pos r \<le> length (r_buf r)"
  shows "moved r (snd (pr_varint r))" "fst (pr_varint r) = Inr v \<Longrightarrow> r_pos r < r_pos (snd (pr_varint r))"
  using varint_loop_moved [OF assms, of 0 0] by (simp_all add: pr_varint_def)

lemma pr_tag_moved:
  assumes "r_pos r \<le> length (r_buf r)"
  shows "moved r (snd (pr_tag r))" "fst (pr_tag r) = Inr x \<Longrightarrow> r_pos r < r_pos (snd (pr_tag r))"
  using pr_varint_moved [OF assms] by (auto simp: pr_tag_def split: prod.splits sum.splits)

lemma pr_advance_moved: "r_pos r \<le> length (r_buf r) \<Longrightarrow> moved r (snd (pr_advance n r))"
  by (simp add: pr_advance_def moved_def Let_def)

lemma moved_trans: "moved r s \<Longrightarrow> moved s t \<Longrightarrow> moved r t"
  by (auto simp: moved_def)

lemma moved_ok: "moved r s \<Longrightarrow> r_pos s \<le> length (r_buf s)"
  by (simp add: moved_def)

lemma pr_bytes_moved: "r_pos r \<le> length (r_buf r) \<Longrightarrow> moved r (snd (pr_bytes r))"
  using pr_varint_moved(1) [of r]
  by (auto simp: pr_bytes_def moved_def Let_def split: prod.splits sum.splits)

lemma pr_skip_moved: "r_pos r \<le> length (r_buf r) \<Longrightarrow> moved r (snd (pr_skip wire r))"
proof -
  assume r: "r_pos r \<le> length (r_buf r)"
  have "moved r (snd (pr_advance n s))" if "moved r s" for n s
    by (rule moved_trans [OF that pr_advance_moved [OF moved_ok [OF that]]])
  moreover have "moved r r" using r by (simp add: moved_def)
  ultimately show ?thesis
    using pr_varint_moved(1) [OF r] by (auto simp: pr_skip_def split: prod.splits sum.splits)
qed

text \<open>C35. The reader never leaves its buffer: from a position inside it, every operation, on
  success and on every error, ends inside it and not before where it started, whatever the bytes
  are; a tag that is read consumes at least one byte, so a loop over the fields of a message
  ends.\<close>

theorem reader_in_bounds:
  assumes "r_pos r \<le> length (r_buf r)"
  shows "moved r (snd (pr_varint r)) \<and> moved r (snd (pr_tag r)) \<and> moved r (snd (pr_bytes r))
    \<and> moved r (snd (pr_string r)) \<and> moved r (snd (pr_skip wire r))
    \<and> (fst (pr_tag r) = Inr x \<longrightarrow> r_pos r < r_pos (snd (pr_tag r)))"
proof -
  have "moved r (snd (pr_string r))"
    using pr_bytes_moved [OF assms] by (auto simp: pr_string_def split: prod.split sum.split)
  then show ?thesis
    using pr_varint_moved(1) [OF assms] pr_tag_moved [OF assms] pr_bytes_moved [OF assms] pr_skip_moved [OF assms]
    by blast
qed

theorem reader_in_bounds_witness:
  "moved (pr_new [0x0A, 0x0A, 1, 2]) (snd (pr_bytes (pr_new [0x0A, 0x0A, 1, 2])))"
  using reader_in_bounds [of "pr_new [0x0A, 0x0A, 1, 2]"] by (simp add: pr_new_def)


section \<open>Messages\<close>

text \<open>A message as a list of fields, written with the writer's calls and read with the loop that
  the consumers of the reader use: a tag, then the value of its wire type.\<close>

datatype pval = PVar u64 | PLen bytes

fun write_field :: "u32 \<times> pval \<Rightarrow> proto_writer \<Rightarrow> proto_writer" where
  "write_field (f, PVar v) w = pw_int64 f v w"
| "write_field (f, PLen b) w = pw_bytes f b w"

definition write_fields :: "(u32 \<times> pval) list \<Rightarrow> proto_writer" where
  "write_fields fs = fold write_field fs pw_new"

lemma read_less:
  assumes "has_more r" "pr_tag r = (Inr t, r1)"
  shows "moved r1 r2 \<Longrightarrow> length (r_buf r2) - r_pos r2 < length (r_buf r) - r_pos r"
    and "pr_varint r1 = (x, r2) \<Longrightarrow> moved r1 r2" "pr_bytes r1 = (y, r2) \<Longrightarrow> moved r1 r2"
    and "pr_skip w r1 = (z, r2) \<Longrightarrow> moved r1 r2"
proof -
  have r: "r_pos r \<le> length (r_buf r)" using assms(1) by (simp add: has_more_def)
  then have r1: "moved r r1" "r_pos r < r_pos r1" using pr_tag_moved(1) [OF r] pr_tag_moved(2) [OF r, of t] assms(2) by simp_all
  then show "moved r1 r2 \<Longrightarrow> length (r_buf r2) - r_pos r2 < length (r_buf r) - r_pos r"
    by (auto simp: moved_def)
  note ok = moved_ok [OF r1(1)]
  show "pr_varint r1 = (x, r2) \<Longrightarrow> moved r1 r2" "pr_bytes r1 = (y, r2) \<Longrightarrow> moved r1 r2"
    "pr_skip w r1 = (z, r2) \<Longrightarrow> moved r1 r2"
    using pr_varint_moved(1) [OF ok] pr_bytes_moved [OF ok] pr_skip_moved [OF ok, of w] by auto
qed

function read_fields :: "proto_reader \<Rightarrow> proto_error + (u32 \<times> pval) list" where
  "read_fields r =
     (if \<not> has_more r then Inr []
      else case pr_tag r of
        (Inl e, _) \<Rightarrow> Inl e
      | (Inr (f, w), r1) \<Rightarrow>
          if w = 0 then
            (case pr_varint r1 of
               (Inl e, _) \<Rightarrow> Inl e
             | (Inr v, r2) \<Rightarrow> (case read_fields r2 of Inl e \<Rightarrow> Inl e | Inr fs \<Rightarrow> Inr ((f, PVar v) # fs)))
          else if w = 2 then
            (case pr_bytes r1 of
               (Inl e, _) \<Rightarrow> Inl e
             | (Inr b, r2) \<Rightarrow> (case read_fields r2 of Inl e \<Rightarrow> Inl e | Inr fs \<Rightarrow> Inr ((f, PLen b) # fs)))
          else (case pr_skip w r1 of (Inl e, _) \<Rightarrow> Inl e | (Inr _, r2) \<Rightarrow> read_fields r2))"
  by pat_completeness auto
termination
  by (relation "measure (\<lambda>r. length (r_buf r) - r_pos r)")
     (simp, use read_less in \<open>(metis (no_types, lifting) in_measure)+\<close>)


declare read_fields.simps [simp del]

lemma write_field_app: "write_field c w = w @ write_field c []"
  by (cases c; cases "snd c") (simp_all add: pw_int64_def pw_bytes_def pw_tag_def pw_varint_def)

lemma fold_write: "fold write_field fs w = w @ concat (map (\<lambda>c. write_field c []) fs)"
  by (induction fs arbitrary: w) (simp, simp, rule write_field_app)

lemma varint_not_Nil: "varint_bytes v \<noteq> []"
  by (simp add: varint_bytes.simps)

text \<open>One written field, as the reader sees it: its tag, then its value by its wire type, or a
  skip over it, both ending at the next field.\<close>

fun wire :: "pval \<Rightarrow> u32" where
  "wire (PVar v) = 0"
| "wire (PLen b) = 2"

lemma varint_field_read:
  assumes "drop (r_pos r) (r_buf r) = pw_tag f w [] @ varint_bytes n @ rest" "unat w < 8"
  shows "has_more r" "pr_tag r = (Inr (f, w), r\<lparr>r_pos := r_pos r + length (pw_tag f w [])\<rparr>)"
    "pr_varint (r\<lparr>r_pos := r_pos r + length (pw_tag f w [])\<rparr>)
       = (Inr n, r\<lparr>r_pos := r_pos r + length (pw_tag f w []) + length (varint_bytes n)\<rparr>)"
proof -
  show "has_more r"
    using assms(1) varint_not_Nil [of n] by (auto simp: has_more_def not_less intro: ccontr)
  show "pr_tag r = (Inr (f, w), r\<lparr>r_pos := r_pos r + length (pw_tag f w [])\<rparr>)"
    by (rule pr_tag_written [OF assms])
  show "pr_varint (r\<lparr>r_pos := r_pos r + length (pw_tag f w [])\<rparr>)
      = (Inr n, r\<lparr>r_pos := r_pos r + length (pw_tag f w []) + length (varint_bytes n)\<rparr>)"
    using pr_varint_bytes [of "r\<lparr>r_pos := r_pos r + length (pw_tag f w [])\<rparr>" n rest] drop_at [OF assms(1)] by simp
qed

lemma field_read:
  assumes "drop (r_pos r) (r_buf r) = write_field (f, v) [] @ rest" "length (r_buf r) < 2 ^ 64"
  defines "r2 \<equiv> r\<lparr>r_pos := r_pos r + length (write_field (f, v) [])\<rparr>"
  shows "\<exists>r1. has_more r \<and> pr_tag r = (Inr (f, wire v), r1) \<and> pr_skip (wire v) r1 = (Inr (), r2)
    \<and> (case v of PVar n \<Rightarrow> pr_varint r1 = (Inr n, r2) | PLen b \<Rightarrow> pr_bytes r1 = (Inr b, r2))"
proof (cases v)
  case (PVar n)
  have "drop (r_pos r) (r_buf r) = pw_tag f 0 [] @ varint_bytes n @ rest"
    using assms(1) PVar by (simp add: pw_int64_def pw_varint_def)
  note v = varint_field_read [OF this, simplified]
  have "length (write_field (f, v) []) = length (pw_tag f 0 []) + length (varint_bytes n)"
    using PVar by (simp add: pw_int64_def pw_varint_def)
  then show ?thesis using PVar v by (simp add: r2_def pr_skip_def add.assoc)
next
  case (PLen b)
  let ?l = "varint_bytes (of_nat (length b))"
  have e: "drop (r_pos r) (r_buf r) = pw_tag f 2 [] @ ?l @ b @ rest"
    using assms(1) PLen by (simp add: pw_bytes_def pw_varint_def)
  note v = varint_field_read [OF e, simplified]
  let ?p = "r_pos r + length (pw_tag f 2 []) + length ?l"
  have d: "drop ?p (r_buf r) = b @ rest"
    using e by (metis add.assoc append.assoc drop_at length_append)
  have "length (drop (r_pos r) (r_buf r)) = length (pw_tag f 2 []) + length ?l + length b + length rest"
    unfolding e by simp
  then have fit: "?p + length b \<le> length (r_buf r)" using v(1) by (simp add: has_more_def)
  have u: "unat (of_nat (length b) :: u64) = length b"
    using fit assms(2) by (simp add: unat_of_nat)
  have len: "length (write_field (f, v) []) = length (pw_tag f 2 []) + length ?l + length b"
    using PLen by (simp add: pw_bytes_def pw_varint_def)
  have "pr_bytes (r\<lparr>r_pos := r_pos r + length (pw_tag f 2 [])\<rparr>) = (Inr b, r\<lparr>r_pos := ?p + length b\<rparr>)"
    using v u fit assms(2) d by (simp add: pr_bytes_def Let_def slice_def)
  moreover have "pr_skip 2 (r\<lparr>r_pos := r_pos r + length (pw_tag f 2 [])\<rparr>) = (Inr (), r\<lparr>r_pos := ?p + length b\<rparr>)"
    using v u fit assms(2) by (simp add: pr_skip_def pr_advance_def Let_def)
  ultimately show ?thesis using PLen v len by (simp add: r2_def add.assoc)
qed

lemma read_one:
  assumes "drop (r_pos r) (r_buf r) = write_field (f, v) [] @ rest" "length (r_buf r) < 2 ^ 64"
  shows "read_fields r = (case read_fields (r\<lparr>r_pos := r_pos r + length (write_field (f, v) [])\<rparr>) of
     Inl e \<Rightarrow> Inl e | Inr fs \<Rightarrow> Inr ((f, v) # fs))"
  using field_read [OF assms] by (subst read_fields.simps) (cases v; auto)

lemma read_all:
  "drop (r_pos r) (r_buf r) = concat (map (\<lambda>c. write_field c []) fs) \<Longrightarrow> length (r_buf r) < 2 ^ 64 \<Longrightarrow>
     read_fields r = Inr fs"
proof (induction fs arbitrary: r)
  case Nil
  then have "\<not> has_more r" by (simp add: has_more_def)
  then show ?case by (subst read_fields.simps) simp
next
  case (Cons c fs)
  obtain f v where c: "c = (f, v)" by (cases c)
  have e: "drop (r_pos r) (r_buf r) = write_field (f, v) [] @ concat (map (\<lambda>c. write_field c []) fs)"
    using Cons.prems(1) c by simp
  have "read_fields (r\<lparr>r_pos := r_pos r + length (write_field (f, v) [])\<rparr>) = Inr fs"
    by (rule Cons.IH) (use drop_at [OF e] Cons.prems(2) in simp_all)
  then show ?case using read_one [OF e Cons.prems(2)] c by simp
qed

text \<open>C34. Every message round-trips: the fields written in any number and order, with any field
  numbers, integer values and byte strings, are exactly the fields read back.\<close>

theorem message_roundtrip:
  assumes "length (write_fields fs) < 2 ^ 64"
  shows "read_fields (pr_new (write_fields fs)) = Inr fs"
  using read_all [of "pr_new (write_fields fs)" fs] assms
  by (simp add: pr_new_def write_fields_def fold_write pw_new_def)

theorem message_roundtrip_witness:
  "read_fields (pr_new (write_fields [(1, PVar 300), (52807, PLen [104, 105])])) = Inr [(1, PVar 300), (52807, PLen [104, 105])]"
proof -
  have "length (write_fields [(1, PVar 300), (52807, PLen [104, 105])]) = 9" by code_simp
  then show ?thesis using message_roundtrip [of "[(1, PVar 300), (52807, PLen [104, 105])]"] by simp
qed

end
