(* ===== verification/Grpc_Web.thy ===== *)
theory Grpc_Web
  imports Proto_Wire
begin

text \<open>
  The gRPC-web framing of the signaling client (\<open>bale-signaling/src/grpc_web.rs\<close>): the request
  frame and the parser of a response body, with its data and trailer frames. Text is its UTF-8
  bytes; the string functions of the standard library that the trailer parser calls are written
  out over bytes.
\<close>

section \<open>Strings\<close>

text \<open>\<open>String::from_utf8_lossy\<close>: every maximal ill-formed prefix becomes U+FFFD.\<close>

definition replacement :: bytes where "replacement = [0xEF, 0xBF, 0xBD]"

definition second_ok :: "u8 \<Rightarrow> u8 \<Rightarrow> bool" where
  "second_ok a b \<longleftrightarrow> cont b \<and> (a = 0xE0 \<longrightarrow> 0xA0 \<le> b) \<and> (a = 0xED \<longrightarrow> b \<le> 0x9F)
     \<and> (a = 0xF0 \<longrightarrow> 0x90 \<le> b) \<and> (a = 0xF4 \<longrightarrow> b \<le> 0x8F)"

text \<open>The number of bytes after a lead byte that continue its sequence, and how many it needs.\<close>

definition tail_need :: "u8 \<Rightarrow> nat" where
  "tail_need a = (if 0xC2 \<le> a \<and> a \<le> 0xDF then 1 else if 0xE0 \<le> a \<and> a \<le> 0xEF then 2
                  else if 0xF0 \<le> a \<and> a \<le> 0xF4 then 3 else 0)"

definition tail_have :: "u8 \<Rightarrow> bytes \<Rightarrow> nat" where
  "tail_have a r =
     (case r of [] \<Rightarrow> 0
      | b # r \<Rightarrow> if second_ok a b then Suc (length (takeWhile cont (take (tail_need a - 1) r))) else 0)"

function utf8_lossy :: "bytes \<Rightarrow> bytes" where
  "utf8_lossy [] = []"
| "utf8_lossy (a # r) =
     (if a < 0x80 then a # utf8_lossy r
      else if tail_need a = 0 then replacement @ utf8_lossy r
      else let n = tail_have a r in
        if n = tail_need a then a # take n r @ utf8_lossy (drop n r)
        else replacement @ utf8_lossy (drop n r))"
  by pat_completeness auto
termination
  by (relation "measure length") auto

text \<open>\<open>str::lines\<close>: split at line feeds, drop one carriage return before each, and no empty
  last line.\<close>

fun split_lf :: "bytes \<Rightarrow> bytes list" where
  "split_lf [] = [[]]"
| "split_lf (c # r) =
     (if c = 10 then [] # split_lf r
      else case split_lf r of l # ls \<Rightarrow> (c # l) # ls | [] \<Rightarrow> [[c]])"

definition strip_cr :: "bytes \<Rightarrow> bytes" where
  "strip_cr l = (if l \<noteq> [] \<and> last l = 13 then butlast l else l)"

definition str_lines :: "bytes \<Rightarrow> bytes list" where
  "str_lines s = (let ls = split_lf s; ended = butlast ls; rest = last ls
                  in map strip_cr ended @ (if rest = [] then [] else [rest]))"

text \<open>\<open>str::strip_prefix\<close> and \<open>str::trim\<close>; the white space of Unicode in UTF-8.\<close>

definition strip_prefix :: "bytes \<Rightarrow> bytes \<Rightarrow> bytes option" where
  "strip_prefix p s = (if take (length p) s = p then Some (drop (length p) s) else None)"

definition white_space :: "bytes list" where
  "white_space = [[9], [10], [11], [12], [13], [32], [0xC2, 0x85], [0xC2, 0xA0], [0xE1, 0x9A, 0x80],
     [0xE2, 0x80, 0x80], [0xE2, 0x80, 0x81], [0xE2, 0x80, 0x82], [0xE2, 0x80, 0x83], [0xE2, 0x80, 0x84],
     [0xE2, 0x80, 0x85], [0xE2, 0x80, 0x86], [0xE2, 0x80, 0x87], [0xE2, 0x80, 0x88], [0xE2, 0x80, 0x89],
     [0xE2, 0x80, 0x8A], [0xE2, 0x80, 0xA8], [0xE2, 0x80, 0xA9], [0xE2, 0x80, 0xAF], [0xE2, 0x81, 0x9F],
     [0xE3, 0x80, 0x80]]"

definition leading :: "bytes list \<Rightarrow> bytes \<Rightarrow> bytes option" where
  "leading ps s = List.find (\<lambda>p. take (length p) s = p) ps"

function trim_with :: "bytes list \<Rightarrow> bytes \<Rightarrow> bytes" where
  "trim_with ps s =
     (case leading ps s of
        Some p \<Rightarrow> if p = [] then s else trim_with ps (drop (length p) s)
      | None \<Rightarrow> s)"
  by pat_completeness auto
termination
proof (relation "measure (\<lambda>(ps, s). length s)", goal_cases)
  case (2 ps s p)
  then have "take (length p) s = p" by (auto simp: leading_def find_Some_iff)
  then have "length p \<le> length s" by (metis length_take min.cobounded1)
  then show ?case using 2 by (cases p) auto
qed simp

declare trim_with.simps [simp del]

definition str_trim :: "bytes \<Rightarrow> bytes" where
  "str_trim s = rev (trim_with (map rev white_space) (rev (trim_with white_space s)))"

text \<open>\<open>str::parse::<i32>\<close>: an optional sign, then at least one digit, in range.\<close>

definition digit :: "u8 \<Rightarrow> bool" where
  "digit c \<longleftrightarrow> 48 \<le> c \<and> c \<le> 57"

definition digits_value :: "bytes \<Rightarrow> int" where
  "digits_value ds = foldl (\<lambda>v c. 10 * v + (uint c - 48)) 0 ds"

definition parse_i32 :: "bytes \<Rightarrow> int option" where
  "parse_i32 s =
     (let (neg, ds) = (case s of c # r \<Rightarrow> if c = 45 then (True, r) else if c = 43 then (False, r) else (False, s)
                       | [] \<Rightarrow> (False, s)) in
      if ds = [] \<or> \<not> list_all digit ds then None
      else let v = (if neg then - digits_value ds else digits_value ds)
           in if - (2 ^ 31) \<le> v \<and> v < 2 ^ 31 then Some v else None)"

text \<open>\<open>to_string\<close> of decimal integers, which \<open>parse\<close> reads back.\<close>

fun dec_digits :: "nat \<Rightarrow> bytes" where
  "dec_digits n = (if n < 10 then [48 + of_nat n] else dec_digits (n div 10) @ [48 + of_nat (n mod 10)])"

declare dec_digits.simps [simp del]

definition i32_to_string :: "32 word \<Rightarrow> bytes" where
  "i32_to_string v = (if sint v < 0 then 45 # dec_digits (nat (- sint v)) else dec_digits (nat (sint v)))"

lemma digits_value_snoc: "digits_value (ds @ [c]) = 10 * digits_value ds + (uint c - 48)"
  by (simp add: digits_value_def)

lemma digit_char: "n < 10 \<Longrightarrow> digit (48 + of_nat n) \<and> uint (48 + of_nat n :: u8) = 48 + int n"
proof -
  assume "n < 10"
  then have "unat (48 + of_nat n :: u8) = 48 + n" by (simp add: unat_word_ariths unat_of_nat)
  then show ?thesis using \<open>n < 10\<close>
    by (simp add: digit_def word_le_nat_alt uint_nat)
qed

lemma dec_digits_ok: "list_all digit (dec_digits n) \<and> dec_digits n \<noteq> [] \<and> digits_value (dec_digits n) = int n"
proof (induction n rule: dec_digits.induct)
  case (1 n)
  show ?case
  proof (cases "n < 10")
    case True
    then show ?thesis using digit_char [of n] by (simp add: dec_digits.simps [of n] digits_value_def)
  next
    case False
    have "10 * int (n div 10) + int (n mod 10) = int n" by (simp add: zdiv_int zmod_int)
    then show ?thesis
      using False 1 [OF False] digit_char [of "n mod 10"] by (subst (1 2 3) dec_digits.simps) (simp add: digits_value_snoc)
  qed
qed

lemma parse_i32_to_string: "parse_i32 (i32_to_string v) = Some (sint v)"
proof -
  have r: "- (2 ^ 31) \<le> sint v" "sint v < 2 ^ 31" using sint_ge [of v] sint_lt [of v] by simp_all
  have "dec_digits n = c # r \<Longrightarrow> c \<noteq> 43 \<and> c \<noteq> 45" for n c r
    using dec_digits_ok [of n] by (auto simp: digit_def)
  then show ?thesis
    using r dec_digits_ok [of "nat (sint v)"] dec_digits_ok [of "nat (- sint v)"]
    by (cases "dec_digits (nat (sint v))") (auto simp: i32_to_string_def parse_i32_def Let_def)
qed

section \<open>Frames\<close>

datatype grpc_error =
    GrpcStatus int "bytes option"
  | GrpcLengthOverflow nat nat
  | GrpcTruncated nat nat

definition encode_frame :: "bytes \<Rightarrow> bytes" where
  "encode_frame payload = [0] @ be32_bytes (of_nat (length payload)) @ payload"

definition grpc_status_key :: bytes where
  "grpc_status_key = [0x67, 0x72, 0x70, 0x63, 0x2D, 0x73, 0x74, 0x61, 0x74, 0x75, 0x73, 0x3A]"

definition grpc_message_key :: bytes where
  "grpc_message_key = [0x67, 0x72, 0x70, 0x63, 0x2D, 0x6D, 0x65, 0x73, 0x73, 0x61, 0x67, 0x65, 0x3A]"

definition trailer_line :: "bytes \<Rightarrow> int \<times> bytes option \<Rightarrow> int \<times> bytes option" where
  "trailer_line line st =
     (case strip_prefix grpc_status_key line of
        Some rest \<Rightarrow> ((case parse_i32 (str_trim rest) of Some n \<Rightarrow> n | None \<Rightarrow> 0), snd st)
      | None \<Rightarrow>
          (case strip_prefix grpc_message_key line of
             Some rest \<Rightarrow> (fst st, Some (str_trim rest))
           | None \<Rightarrow> st))"

definition parse_trailer :: "bytes \<Rightarrow> int \<times> bytes option" where
  "parse_trailer frame = fold trailer_line (str_lines (utf8_lossy frame)) (0, None)"

function decode_loop :: "bytes \<Rightarrow> nat \<Rightarrow> bytes option \<Rightarrow> grpc_error + bytes" where
  "decode_loop body pos data =
     (if pos + 5 \<le> length body then
        let flag = body ! pos;
            len = unat (be32 (slice body (pos + 1) (pos + 5)));
            pos = pos + 5 in
        if pos + len \<ge> 2 ^ 64 then Inl (GrpcLengthOverflow len pos)
        else if pos + len > length body then Inl (GrpcTruncated len (length body - pos))
        else
          let frame = slice body pos (pos + len) in
          if flag AND 0x80 = 0 then decode_loop body (pos + len) (Some frame)
          else let (status, message) = parse_trailer frame in
            if status \<noteq> 0 then Inl (GrpcStatus status message)
            else decode_loop body (pos + len) data
      else Inr (case data of Some d \<Rightarrow> d | None \<Rightarrow> []))"
  by pat_completeness auto
termination
  by (relation "measure (\<lambda>(body, pos, data). length body - pos)") auto

declare decode_loop.simps [simp del]

definition decode_response :: "bytes \<Rightarrow> grpc_error + bytes" where
  "decode_response body = decode_loop body 0 None"

section \<open>Round trip and errors\<close>

definition trailer_frame :: "bytes \<Rightarrow> bytes" where
  "trailer_frame t = [0x80] @ be32_bytes (of_nat (length t)) @ t"

lemma decode_frame_at:
  assumes "drop pos body = [flag] @ be32_bytes (of_nat (length p)) @ p @ rest" "length p < 2 ^ 32"
    and "length body < 2 ^ 64" "pos \<le> length body"
  shows "decode_loop body pos data =
    (if flag AND 0x80 = 0 then decode_loop body (pos + 5 + length p) (Some p)
     else if fst (parse_trailer p) \<noteq> 0 then Inl (GrpcStatus (fst (parse_trailer p)) (snd (parse_trailer p)))
     else decode_loop body (pos + 5 + length p) data)"
proof -
  have len: "length body = pos + 5 + length p + length rest"
    using arg_cong [OF assms(1), of length] assms(4) by simp
  have fl: "body ! pos = flag" using assms(1) len by (metis Cons_eq_appendI append_Nil hd_drop_conv_nth list.sel(1)
    less_add_eq_less add.assoc less_add_same_cancel1 zero_less_numeral trans_less_add1)
  have sl: "slice body (pos + 1) (pos + 5) = be32_bytes (of_nat (length p))" "slice body (pos + 5) (pos + 5 + length p) = p"
  proof -
    have "drop (pos + 1) body = be32_bytes (of_nat (length p)) @ p @ rest" "drop (pos + 5) body = p @ rest"
    proof -
      show "drop (pos + 1) body = be32_bytes (of_nat (length p)) @ p @ rest"
        using assms(1) by (simp add: drop_Suc drop_tl)
      have "drop (pos + 5) body = drop 5 (drop pos body)" by (simp add: add.commute)
      then show "drop (pos + 5) body = p @ rest" using assms(1) by simp
    qed
    then show "slice body (pos + 1) (pos + 5) = be32_bytes (of_nat (length p))" "slice body (pos + 5) (pos + 5 + length p) = p"
      by (simp_all add: slice_def)
  qed
  have u: "unat (of_nat (length p) :: u32) = length p" using assms(2) by (simp add: unat_of_nat)
  show ?thesis
    by (subst decode_loop.simps) (use len fl sl u assms(3) in \<open>simp add: Let_def case_prod_unfold\<close>)
qed


lemma decode_end: "pos + 5 > length body \<Longrightarrow> decode_loop body pos data = Inr (case data of Some d \<Rightarrow> d | None \<Rightarrow> [])"
  by (subst decode_loop.simps) simp

lemma decode_two_frames:
  assumes "length p < 2 ^ 32" "length t < 2 ^ 32"
  shows "decode_response (encode_frame p @ trailer_frame t) =
    (if fst (parse_trailer t) = 0 then Inr p
     else Inl (GrpcStatus (fst (parse_trailer t)) (snd (parse_trailer t))))"
proof -
  let ?b = "encode_frame p @ trailer_frame t"
  have len: "length ?b = 10 + length p + length t" by (simp add: encode_frame_def trailer_frame_def)
  then have small: "length ?b < 2 ^ 64" using assms by simp
  have d1: "drop 0 ?b = [0] @ be32_bytes (of_nat (length p)) @ p @ trailer_frame t" by (simp add: encode_frame_def)
  have "length (encode_frame p) = 0 + 5 + length p" by (simp add: encode_frame_def)
  then have "drop (0 + 5 + length p) ?b = trailer_frame t" by (metis append_eq_conv_conj)
  then have d2: "drop (0 + 5 + length p) ?b = [0x80] @ be32_bytes (of_nat (length t)) @ t @ []"
    by (simp add: trailer_frame_def)
  have "decode_response ?b = decode_loop ?b (0 + 5 + length p) (Some p)"
    unfolding decode_response_def by (subst decode_frame_at [OF d1 assms(1) small]) simp_all
  also have "\<dots> = (if fst (parse_trailer t) \<noteq> 0 then Inl (GrpcStatus (fst (parse_trailer t)) (snd (parse_trailer t)))
     else decode_loop ?b (0 + 5 + length p + 5 + length t) (Some p))"
    by (subst decode_frame_at [OF d2 assms(2) small]) (simp_all add: len del: length_append)
  also have "decode_loop ?b (0 + 5 + length p + 5 + length t) (Some p) = Inr p"
    by (subst decode_end) (simp_all add: len del: length_append)
  finally show ?thesis by simp
qed

section \<open>Trailers\<close>

text \<open>A trailer as a server writes it: blanks, the status in decimal, and the message if there is one, each line
  ended by CR LF. gRPC percent-encodes messages, so they are printable ASCII.\<close>

definition trailer_text :: "nat \<Rightarrow> 32 word \<Rightarrow> bytes option \<Rightarrow> bytes" where
  "trailer_text k v msg = grpc_status_key @ replicate k 32 @ i32_to_string v @ [13, 10] @
     (case msg of None \<Rightarrow> [] | Some m \<Rightarrow> grpc_message_key @ replicate k 32 @ m @ [13, 10])"

definition printable :: "u8 \<Rightarrow> bool" where
  "printable c \<longleftrightarrow> 32 \<le> c \<and> c < 127"

definition message_ok :: "bytes \<Rightarrow> bool" where
  "message_ok m \<longleftrightarrow> list_all printable m \<and> (m = [] \<or> hd m \<noteq> 32 \<and> last m \<noteq> 32)"

lemma utf8_lossy_ascii: "list_all (\<lambda>c. c < 0x80) s \<Longrightarrow> utf8_lossy s = s"
  by (induction s) simp_all

lemma split_lf_line: "10 \<notin> set l \<Longrightarrow> split_lf (l @ 10 # r) = l # split_lf r"
  by (induction l) auto

lemma split_lf_nonempty: "split_lf s \<noteq> []"
  by (induction s) (auto split: list.split)

lemma str_lines_line: "10 \<notin> set l \<Longrightarrow> str_lines (l @ 13 # 10 # r) = l # str_lines r"
  using split_lf_line [of "l @ [13]" r] split_lf_nonempty [of r] by (simp add: str_lines_def Let_def strip_cr_def)

lemma str_lines_Nil: "str_lines [] = []"
  by (simp add: str_lines_def)

text \<open>Printable text that neither starts nor ends with a blank, after any number of blanks, is what trimming
  leaves.\<close>

lemma trim_stops:
  assumes "s = [] \<or> printable (hd s) \<and> hd s \<noteq> 32" "\<forall>p \<in> set ps. p \<noteq> [] \<and> \<not> (printable (hd p) \<and> hd p \<noteq> 32)"
  shows "trim_with ps s = s"
proof -
  have "leading ps s = None"
    using assms by (cases s) (force simp: leading_def find_None_iff neq_Nil_conv)+
  then show ?thesis by (subst trim_with.simps) simp
qed

lemma white_not_printable:
  "\<forall>p \<in> set white_space. p \<noteq> [] \<and> \<not> (printable (hd p) \<and> hd p \<noteq> 32)"
  "\<forall>p \<in> set (map rev white_space). p \<noteq> [] \<and> \<not> (printable (hd p) \<and> hd p \<noteq> 32)"
  by (simp_all add: white_space_def printable_def)

lemma trim_blanks: "trim_with white_space (replicate k 32 @ s) = trim_with white_space s"
proof (induction k)
  case (Suc k)
  have "leading white_space (32 # replicate k 32 @ s) = Some [32]" by (simp add: leading_def white_space_def)
  then show ?case using Suc by (subst trim_with.simps) simp
qed simp

lemma str_trim_message:
  assumes "message_ok m"
  shows "str_trim (replicate k 32 @ m) = m"
proof (cases "m = []")
  case True
  then show ?thesis
    using trim_stops [OF _ white_not_printable(1), of "[]"] trim_stops [OF _ white_not_printable(2), of "[]"] trim_blanks [of k "[]"]
    by (simp add: str_trim_def)
next
  case False
  then have "printable (hd m)" "hd m \<noteq> 32" "printable (last m)" "last m \<noteq> 32"
    using assms by (auto simp: message_ok_def list_all_iff)
  then have "trim_with white_space m = m" "trim_with (map rev white_space) (rev m) = rev m"
    using trim_stops [OF _ white_not_printable(1), of m] trim_stops [OF _ white_not_printable(2), of "rev m"] False
    by (simp_all add: hd_rev)
  then show ?thesis by (simp add: str_trim_def trim_blanks)
qed

lemma number_ok: "message_ok (i32_to_string v)"
proof -
  have d: "digit c \<Longrightarrow> printable c \<and> c \<noteq> 32" for c
    by (auto simp: digit_def printable_def word_le_nat_alt word_less_nat_alt)
  have l: "list_all digit (dec_digits n)" "dec_digits n \<noteq> []" for n using dec_digits_ok by blast+
  have "\<forall>c \<in> set (i32_to_string v). printable c \<and> c \<noteq> 32"
    using l d by (auto simp: i32_to_string_def list_all_iff printable_def)
  moreover have "i32_to_string v \<noteq> []" using l by (simp add: i32_to_string_def)
  ultimately show ?thesis by (simp add: message_ok_def list_all_iff)
qed

lemma parse_trailer_text:
  assumes "case msg of None \<Rightarrow> True | Some m \<Rightarrow> message_ok m"
  shows "parse_trailer (trailer_text k v msg) = (sint v, msg)"
proof -
  have p: "list_all printable (i32_to_string v)" "list_all printable grpc_status_key" "list_all printable grpc_message_key"
    "list_all printable (replicate k 32)"
    using number_ok by (simp_all add: message_ok_def grpc_status_key_def grpc_message_key_def printable_def list_all_iff)
  have m: "list_all printable m \<and> str_trim (replicate k 32 @ m) = m" if "msg = Some m" for m
    using assms that str_trim_message by (simp add: message_ok_def)
  have ascii: "list_all (\<lambda>c. c < 0x80) s" "10 \<notin> set s" if "list_all printable s" for s
    using that by (auto simp: list_all_iff printable_def dest: bspec intro: less_trans)
  have n: "str_trim (replicate k 32 @ i32_to_string v) = i32_to_string v" by (rule str_trim_message [OF number_ok])
  have s: "trailer_line (grpc_status_key @ replicate k 32 @ i32_to_string v) st = (sint v, snd st)" for st
    by (simp add: trailer_line_def strip_prefix_def n parse_i32_to_string)
  have g: "trailer_line (grpc_message_key @ replicate k 32 @ x) st = (fst st, Some (str_trim (replicate k 32 @ x)))" for x st
    by (simp add: trailer_line_def strip_prefix_def grpc_status_key_def grpc_message_key_def)
  have "utf8_lossy (trailer_text k v msg) = trailer_text k v msg"
    using p ascii(1) m by (intro utf8_lossy_ascii) (auto simp: trailer_text_def split: option.split)
  moreover have "str_lines (trailer_text k v msg) =
      (grpc_status_key @ replicate k 32 @ i32_to_string v) #
      (case msg of None \<Rightarrow> [] | Some m \<Rightarrow> [grpc_message_key @ replicate k 32 @ m])"
  proof -
    have "10 \<notin> set (grpc_status_key @ replicate k 32 @ i32_to_string v)" using p ascii(2) by simp
    moreover have "10 \<notin> set (grpc_message_key @ replicate k 32 @ x)" if "msg = Some x" for x
      using p ascii(2) m [OF that] by simp
    ultimately show ?thesis
      using str_lines_line [of "grpc_status_key @ replicate k 32 @ i32_to_string v"]
        str_lines_line [of "grpc_message_key @ replicate k 32 @ the msg" "[]"]
      by (cases msg) (simp_all add: trailer_text_def str_lines_Nil)
  qed
  ultimately show ?thesis using m by (cases msg) (simp_all add: parse_trailer_def s g)
qed

text \<open>C36. A response decodes to what the server framed. A data frame followed by the trailer of a status that
  fits in 32 bits, with or without a message of printable ASCII, gives the payload if the status is zero, and
  else the error with that status, sign included, and that message, whatever the payload was. Blanks before the
  number and the message do not matter; payload and trailer are shorter than 2^32 bytes.\<close>

theorem grpc_response_decodes:
  assumes "length p < 2 ^ 32" "length (trailer_text k v msg) < 2 ^ 32" "case msg of None \<Rightarrow> True | Some m \<Rightarrow> message_ok m"
  shows "decode_response (encode_frame p @ trailer_frame (trailer_text k v msg)) =
    (if v = 0 then Inr p else Inl (GrpcStatus (sint v) msg))"
proof -
  have "sint v = 0 \<longleftrightarrow> v = 0" using signed_word_eqI [of v 0] by auto
  then show ?thesis using decode_two_frames [OF assms(1,2)] parse_trailer_text [OF assms(3)] by simp
qed

theorem grpc_response_decodes_witness:
  "decode_response (encode_frame [8, 1] @ trailer_frame (trailer_text 1 14 (Some [0x62, 0x75, 0x73, 0x79]))) =
     Inl (GrpcStatus 14 (Some [0x62, 0x75, 0x73, 0x79]))
   \<and> decode_response (encode_frame [8, 1] @ trailer_frame (trailer_text 0 0 None)) = Inr [8, 1]"
proof -
  have l: "length (trailer_text 1 14 (Some [0x62, 0x75, 0x73, 0x79])) = 37" "length (trailer_text 0 0 None) = 15" by code_simp+
  have m: "message_ok [0x62, 0x75, 0x73, 0x79]" by code_simp
  show ?thesis
    using grpc_response_decodes [of "[8, 1]" 1 14 "Some [0x62, 0x75, 0x73, 0x79]"] grpc_response_decodes [of "[8, 1]" 0 0 None] l m
    by simp
qed

text \<open>A status that does not fit is read as zero, and the response as a success.\<close>

definition large_status :: bytes where
  "large_status = grpc_status_key @ [52, 50, 57, 52, 57, 54, 55, 50, 57, 54, 13, 10]"

lemma grpc_status_wraps_to_success: "decode_response (encode_frame [8, 1] @ trailer_frame large_status) = Inr [8, 1]"
proof -
  have "parse_trailer large_status = (0, None)" "length large_status = 24" by code_simp+
  then show ?thesis using decode_two_frames [of "[8, 1]" large_status] by simp
qed

end
