(* ===== verification/Socks5.thy ===== *)
theory Socks5
  imports Dst_Filter Grpc_Web
begin

text \<open>
  The proxy front ends and the relay end of \<open>socks5_quic.rs\<close>. A connection or stream is the
  list of the bytes that will still arrive before its end; a read gives the bytes and what is
  left, an I/O error is the kind of the \<open>io::Error\<close>. Name resolution and the dial are
  parameters: \<open>dns name port\<close> is what \<open>lookup_host\<close> gives, \<open>dial addr port\<close> the error of
  \<open>TcpStream::connect\<close> or \<open>None\<close>.
\<close>

section \<open>Constants and types\<close>

definition SOCKS_VER :: u8 where "SOCKS_VER = 0x05"
definition METHOD_NO_AUTH :: u8 where "METHOD_NO_AUTH = 0x00"
definition METHOD_NO_ACCEPTABLE :: u8 where "METHOD_NO_ACCEPTABLE = 0xFF"
definition CMD_CONNECT :: u8 where "CMD_CONNECT = 0x01"
definition RSV :: u8 where "RSV = 0x00"
definition ATYP_IPV4 :: u8 where "ATYP_IPV4 = 0x01"
definition ATYP_DOMAIN :: u8 where "ATYP_DOMAIN = 0x03"
definition ATYP_IPV6 :: u8 where "ATYP_IPV6 = 0x04"
definition REP_SUCCEEDED :: u8 where "REP_SUCCEEDED = 0x00"
definition REP_GENERAL_FAILURE :: u8 where "REP_GENERAL_FAILURE = 0x01"
definition REP_RULESET_BLOCKED :: u8 where "REP_RULESET_BLOCKED = 0x02"
definition REP_NETWORK_UNREACHABLE :: u8 where "REP_NETWORK_UNREACHABLE = 0x03"
definition REP_HOST_UNREACHABLE :: u8 where "REP_HOST_UNREACHABLE = 0x04"
definition REP_CONNECTION_REFUSED :: u8 where "REP_CONNECTION_REFUSED = 0x05"
definition REP_COMMAND_NOT_SUPPORTED :: u8 where "REP_COMMAND_NOT_SUPPORTED = 0x07"

lemmas socks_consts = SOCKS_VER_def METHOD_NO_AUTH_def METHOD_NO_ACCEPTABLE_def CMD_CONNECT_def RSV_def
  ATYP_IPV4_def ATYP_DOMAIN_def ATYP_IPV6_def
lemmas rep_consts = REP_SUCCEEDED_def REP_GENERAL_FAILURE_def REP_RULESET_BLOCKED_def
  REP_NETWORK_UNREACHABLE_def REP_HOST_UNREACHABLE_def REP_CONNECTION_REFUSED_def
  REP_COMMAND_NOT_SUPPORTED_def

datatype io_error = InvalidData | PermissionDenied | Unsupported | UnexpectedEof | NotFound
  | ConnectionRefused | HostUnreachable | NetworkUnreachable | OtherError

datatype target = TargetIp std_ip u16 | TargetDomain bytes u16

fun io_err_to_socks5_rep :: "io_error \<Rightarrow> u8" where
  "io_err_to_socks5_rep PermissionDenied = REP_RULESET_BLOCKED"
| "io_err_to_socks5_rep ConnectionRefused = REP_CONNECTION_REFUSED"
| "io_err_to_socks5_rep HostUnreachable = REP_HOST_UNREACHABLE"
| "io_err_to_socks5_rep NetworkUnreachable = REP_NETWORK_UNREACHABLE"
| "io_err_to_socks5_rep NotFound = REP_HOST_UNREACHABLE"
| "io_err_to_socks5_rep _ = REP_GENERAL_FAILURE"

text \<open>\<open>Ipv6Addr::from([u8; 16])\<close> and \<open>Ipv6Addr::octets\<close>.\<close>

fun v6_segments :: "bytes \<Rightarrow> u16 list" where
  "v6_segments (a # b # r) = be16 [a, b] # v6_segments r"
| "v6_segments _ = []"

definition v6_octets :: "u16 list \<Rightarrow> bytes" where
  "v6_octets s = concat (map be16_bytes s)"

section \<open>The target envelope\<close>

definition read_exact :: "nat \<Rightarrow> bytes \<Rightarrow> io_error + bytes \<times> bytes" where
  "read_exact n s = (if length s < n then Inl UnexpectedEof else Inr (take n s, drop n s))"

fun encode_target :: "target \<Rightarrow> bytes" where
  "encode_target (TargetIp (StdV4 a) p) = [ATYP_IPV4] @ octets a @ be16_bytes p"
| "encode_target (TargetIp (StdV6 a) p) = [ATYP_IPV6] @ v6_octets a @ be16_bytes p"
| "encode_target (TargetDomain d p) = [ATYP_DOMAIN, of_nat (length d)] @ d @ be16_bytes p"

definition read_port :: "bytes \<Rightarrow> io_error + u16 \<times> bytes" where
  "read_port s = (case read_exact 2 s of Inl e \<Rightarrow> Inl e | Inr (p, s) \<Rightarrow> Inr (be16 p, s))"

text \<open>The address and port after an address type; both readers share this part.\<close>

definition read_addr :: "u8 \<Rightarrow> bytes \<Rightarrow> io_error + target \<times> bytes" where
  "read_addr atyp s =
     (if atyp = ATYP_IPV4 then
        case read_exact 4 s of Inl e \<Rightarrow> Inl e | Inr (os, s) \<Rightarrow>
        (case read_port s of Inl e \<Rightarrow> Inl e | Inr (p, s) \<Rightarrow>
           Inr (TargetIp (StdV4 (Ipv4 (os ! 0) (os ! 1) (os ! 2) (os ! 3))) p, s))
      else if atyp = ATYP_IPV6 then
        case read_exact 16 s of Inl e \<Rightarrow> Inl e | Inr (os, s) \<Rightarrow>
        (case read_port s of Inl e \<Rightarrow> Inl e | Inr (p, s) \<Rightarrow> Inr (TargetIp (StdV6 (v6_segments os)) p, s))
      else if atyp = ATYP_DOMAIN then
        case read_exact 1 s of Inl e \<Rightarrow> Inl e | Inr (l, s) \<Rightarrow>
        (case read_exact (unat (l ! 0)) s of Inl e \<Rightarrow> Inl e | Inr (name, s) \<Rightarrow>
        (case read_port s of Inl e \<Rightarrow> Inl e | Inr (p, s) \<Rightarrow>
           if utf8_ok name then Inr (TargetDomain name p, s) else Inl InvalidData))
      else Inl InvalidData)"

definition read_target :: "bytes \<Rightarrow> io_error + target \<times> bytes" where
  "read_target s = (case read_exact 1 s of Inl e \<Rightarrow> Inl e | Inr (atyp, s) \<Rightarrow> read_addr (atyp ! 0) s)"

section \<open>The SOCKS5 front end\<close>

text \<open>The result and the bytes written back to the client.\<close>

definition read_socks5_request :: "bytes \<Rightarrow> (io_error + target \<times> bytes) \<times> bytes" where
  "read_socks5_request s =
     (case read_exact 2 s of
        Inl e \<Rightarrow> (Inl e, [])
      | Inr (hdr, s) \<Rightarrow>
          if hdr ! 0 \<noteq> SOCKS_VER then (Inl InvalidData, [])
          else (case read_exact (unat (hdr ! 1)) s of
              Inl e \<Rightarrow> (Inl e, [])
            | Inr (methods, s) \<Rightarrow>
                if METHOD_NO_AUTH \<notin> set methods
                then (Inl PermissionDenied, [SOCKS_VER, METHOD_NO_ACCEPTABLE])
                else let out = [SOCKS_VER, METHOD_NO_AUTH] in
                  (case read_exact 4 s of
                     Inl e \<Rightarrow> (Inl e, out)
                   | Inr (req, s) \<Rightarrow>
                       if req ! 0 \<noteq> SOCKS_VER then (Inl InvalidData, out)
                       else if req ! 1 \<noteq> CMD_CONNECT
                       then (Inl Unsupported,
                             out @ [SOCKS_VER, REP_COMMAND_NOT_SUPPORTED, RSV, ATYP_IPV4, 0, 0, 0, 0, 0, 0])
                       else (read_addr (req ! 3) s, out))))"

section \<open>The HTTP CONNECT front end\<close>

definition MAX_HTTP_HEAD :: nat where "MAX_HTTP_HEAD = 16 * 1024"

definition CRLF :: bytes where "CRLF = [13, 10]"

definition ends_with :: "bytes \<Rightarrow> bytes \<Rightarrow> bool" where
  "ends_with h e \<longleftrightarrow> length e \<le> length h \<and> drop (length h - length e) h = e"

fun read_head :: "bytes \<Rightarrow> bytes \<Rightarrow> io_error + bytes \<times> bytes" where
  "read_head head [] = Inl UnexpectedEof"
| "read_head head (b # s) =
     (let head = head @ [b] in
      if ends_with head (CRLF @ CRLF) then Inr (head, s)
      else if length head > MAX_HTTP_HEAD then Inl InvalidData
      else read_head head s)"

text \<open>\<open>head.windows(2).position(|w| w == b"\r\n")\<close>.\<close>

fun find_crlf :: "bytes \<Rightarrow> nat option" where
  "find_crlf (a # b # r) = (if a = 13 \<and> b = 10 then Some 0 else map_option Suc (find_crlf (b # r)))"
| "find_crlf _ = None"

text \<open>\<open>str::split\<close> at a one-byte separator: the pieces, at least one.\<close>

fun split_at :: "u8 \<Rightarrow> bytes \<Rightarrow> bytes list" where
  "split_at c [] = [[]]"
| "split_at c (x # xs) =
     (if x = c then [] # split_at c xs
      else case split_at c xs of p # ps \<Rightarrow> (x # p) # ps | [] \<Rightarrow> [[x]])"

definition to_ascii_lowercase :: "u8 \<Rightarrow> u8" where
  "to_ascii_lowercase c = (if 65 \<le> c \<and> c \<le> 90 then c + 32 else c)"

definition eq_ignore_ascii_case :: "bytes \<Rightarrow> bytes \<Rightarrow> bool" where
  "eq_ignore_ascii_case a b \<longleftrightarrow> map to_ascii_lowercase a = map to_ascii_lowercase b"

text \<open>\<open>str::find\<close> and \<open>str::rsplit_once\<close> for one byte; \<open>str::parse::<u16>\<close>.\<close>

fun find_byte :: "u8 \<Rightarrow> bytes \<Rightarrow> nat option" where
  "find_byte c [] = None"
| "find_byte c (x # xs) = (if x = c then Some 0 else map_option Suc (find_byte c xs))"

definition rsplit_once :: "u8 \<Rightarrow> bytes \<Rightarrow> (bytes \<times> bytes) option" where
  "rsplit_once c s = map_option (\<lambda>i. (take (length s - Suc i) s, drop (length s - i) s)) (find_byte c (rev s))"

definition parse_u16 :: "bytes \<Rightarrow> u16 option" where
  "parse_u16 s =
     (let ds = (case s of c # r \<Rightarrow> if c = 43 then r else s | [] \<Rightarrow> s) in
      if ds = [] \<or> \<not> list_all digit ds \<or> digits_value ds \<ge> 2 ^ 16 then None
      else Some (word_of_int (digits_value ds)))"

subsection \<open>Address literals\<close>

text \<open>\<open>str::parse::<IpAddr>\<close> of the standard library: a reader returns what it read and the rest,
  and \<open>None\<close> without consuming anything.\<close>

definition to_digit :: "nat \<Rightarrow> u8 \<Rightarrow> nat option" where
  "to_digit radix c =
     (let v = (if 48 \<le> c \<and> c \<le> 57 then unat c - 48
               else if 97 \<le> c \<and> c \<le> 122 then unat c - 87
               else if 65 \<le> c \<and> c \<le> 90 then unat c - 55 else 36)
      in if v < radix then Some v else None)"

fun read_digits :: "nat \<Rightarrow> bytes \<Rightarrow> nat list \<times> bytes" where
  "read_digits radix [] = ([], [])"
| "read_digits radix (c # s) =
     (case to_digit radix c of
        None \<Rightarrow> ([], c # s)
      | Some d \<Rightarrow> (case read_digits radix s of (ds, r) \<Rightarrow> (d # ds, r)))"

definition read_number :: "nat \<Rightarrow> nat \<Rightarrow> bool \<Rightarrow> nat \<Rightarrow> bytes \<Rightarrow> (nat \<times> bytes) option" where
  "read_number radix max_digits allow_zero_prefix max_value s =
     (case read_digits radix s of (ds, r) \<Rightarrow>
        if ds = [] \<or> length ds > max_digits then None
        else if \<not> allow_zero_prefix \<and> hd ds = 0 \<and> length ds > 1 then None
        else let v = foldl (\<lambda>v d. v * radix + d) 0 ds in if v > max_value then None else Some (v, r))"

definition read_separator :: "u8 \<Rightarrow> nat \<Rightarrow> (bytes \<Rightarrow> ('a \<times> bytes) option) \<Rightarrow> bytes \<Rightarrow> ('a \<times> bytes) option" where
  "read_separator sep i f s =
     (if i = 0 then f s else case s of c # r \<Rightarrow> if c = sep then f r else None | [] \<Rightarrow> None)"

fun read_octets :: "nat \<Rightarrow> nat \<Rightarrow> bytes \<Rightarrow> (u8 list \<times> bytes) option" where
  "read_octets 0 i s = Some ([], s)"
| "read_octets (Suc n) i s =
     (case read_separator 46 i (read_number 10 3 False 255) s of
        None \<Rightarrow> None
      | Some (v, r) \<Rightarrow> map_option (\<lambda>(os, r). (of_nat v # os, r)) (read_octets n (Suc i) r))"

definition read_ipv4_addr :: "bytes \<Rightarrow> (ipv4 \<times> bytes) option" where
  "read_ipv4_addr s =
     map_option (\<lambda>(os, r). (Ipv4 (os ! 0) (os ! 1) (os ! 2) (os ! 3), r)) (read_octets 4 0 s)"

text \<open>\<open>read_groups\<close> reads group \<open>i\<close> of at most \<open>i + n\<close>; the flag says that it ended with an
  embedded IPv4 address.\<close>

fun read_groups :: "nat \<Rightarrow> nat \<Rightarrow> bytes \<Rightarrow> u16 list \<times> bool \<times> bytes" where
  "read_groups 0 i s = ([], False, s)"
| "read_groups (Suc n) i s =
     (case (if n > 0 then read_separator 58 i read_ipv4_addr s else None) of
        Some (Ipv4 a b c d, r) \<Rightarrow> ([be16 [a, b], be16 [c, d]], True, r)
      | None \<Rightarrow>
          (case read_separator 58 i (read_number 16 4 True 0xffff) s of
             None \<Rightarrow> ([], False, s)
           | Some (g, r) \<Rightarrow> (case read_groups n (Suc i) r of (gs, v4, r) \<Rightarrow> (of_nat g # gs, v4, r))))"

definition read_ipv6_addr :: "bytes \<Rightarrow> (u16 list \<times> bytes) option" where
  "read_ipv6_addr s =
     (case read_groups 8 0 s of (head, head_ipv4, r) \<Rightarrow>
        if length head = 8 then Some (head, r)
        else if head_ipv4 then None
        else if take 2 r \<noteq> [58, 58] then None
        else case read_groups (8 - (length head + 1)) 0 (drop 2 r) of (tail, _, r) \<Rightarrow>
               Some (head @ replicate (8 - length head - length tail) 0 @ tail, r))"

definition parse_ip :: "bytes \<Rightarrow> std_ip option" where
  "parse_ip s =
     (case read_ipv4_addr s of
        Some (a, r) \<Rightarrow> if r = [] then Some (StdV4 a) else None
      | None \<Rightarrow> (case read_ipv6_addr s of
            Some (a, r) \<Rightarrow> if r = [] then Some (StdV6 a) else None
          | None \<Rightarrow> None))"

subsection \<open>The request\<close>

text \<open>Host and port of an authority; 443 when there is no port.\<close>

definition split_authority :: "bytes \<Rightarrow> io_error + bytes \<times> u16" where
  "split_authority authority =
     (case strip_prefix (str ''['') authority of
        Some rest \<Rightarrow>
          (case find_byte 93 rest of
             None \<Rightarrow> Inl InvalidData
           | Some close \<Rightarrow>
               let addr = take close rest; after = drop (close + 1) rest in
               if after = [] then Inr (addr, 443)
               else (case strip_prefix (str '':'') after of
                   None \<Rightarrow> Inl InvalidData
                 | Some p \<Rightarrow> (case parse_u16 p of None \<Rightarrow> Inl InvalidData | Some port \<Rightarrow> Inr (addr, port))))
      | None \<Rightarrow>
          (case rsplit_once 58 authority of
             Some (h, p) \<Rightarrow> (case parse_u16 p of None \<Rightarrow> Inl InvalidData | Some port \<Rightarrow> Inr (h, port))
           | None \<Rightarrow> Inr (authority, 443)))"

definition parse_authority :: "bytes \<Rightarrow> io_error + target" where
  "parse_authority authority =
     (case split_authority authority of
        Inl e \<Rightarrow> Inl e
      | Inr (host, port) \<Rightarrow>
          if host = [] then Inl InvalidData
          else if length host > 255 then Inl InvalidData
          else (case parse_ip host of
              Some ip \<Rightarrow> Inr (TargetIp ip port)
            | None \<Rightarrow> Inr (TargetDomain host port)))"

definition read_http_connect_request :: "bytes \<Rightarrow> io_error + target \<times> bytes" where
  "read_http_connect_request s =
     (case read_head [] s of
        Inl e \<Rightarrow> Inl e
      | Inr (head, s) \<Rightarrow>
          (case find_crlf head of
             None \<Rightarrow> Inl InvalidData
           | Some line_end \<Rightarrow>
               let line = take line_end head in
               if \<not> utf8_ok line then Inl InvalidData
               else (case split_at 32 line of
                   meth # rest \<Rightarrow>
                     if \<not> eq_ignore_ascii_case meth (str ''CONNECT'') then Inl Unsupported
                     else (case rest of
                         [] \<Rightarrow> Inl InvalidData
                       | authority # _ \<Rightarrow>
                           (case parse_authority authority of Inl e \<Rightarrow> Inl e | Inr t \<Rightarrow> Inr (t, s)))
                 | [] \<Rightarrow> Inl Unsupported)))"

definition http_connect_reply :: "u8 \<Rightarrow> bytes" where
  "http_connect_reply status =
     (if status = REP_SUCCEEDED then str ''HTTP/1.1 200 Connection Established'' @ CRLF @ CRLF
      else if status = REP_RULESET_BLOCKED then
        str ''HTTP/1.1 403 Forbidden'' @ CRLF @ str ''Connection: close'' @ CRLF @ CRLF
      else if status = REP_NETWORK_UNREACHABLE \<or> status = REP_HOST_UNREACHABLE then
        str ''HTTP/1.1 504 Gateway Timeout'' @ CRLF @ str ''Connection: close'' @ CRLF @ CRLF
      else str ''HTTP/1.1 502 Bad Gateway'' @ CRLF @ str ''Connection: close'' @ CRLF @ CRLF)"

datatype front_proto = Socks5 | HttpConnect

fun reply :: "front_proto \<Rightarrow> u8 \<Rightarrow> bytes" where
  "reply Socks5 status = [SOCKS_VER, status, RSV, ATYP_IPV4, 0, 0, 0, 0, 0, 0]"
| "reply HttpConnect status = http_connect_reply status"

section \<open>The relay end\<close>

text \<open>What the server side does with a stream: the address it dials, if any, the status byte it
  answers, if any, and the error it returns with. Once the dial has succeeded the two copy
  loops take over.\<close>

record relay =
  r_dialled :: "(std_ip \<times> u16) option"
  r_status :: "u8 option"
  r_error :: "io_error option"

definition resolve ::
  "bool \<Rightarrow> (bytes \<Rightarrow> u16 \<Rightarrow> (std_ip \<times> u16) list option) \<Rightarrow> target \<Rightarrow> io_error + std_ip \<times> u16" where
  "resolve ssrf_on dns t =
     (case t of
        TargetIp ip port \<Rightarrow> Inr (ip, port)
      | TargetDomain name port \<Rightarrow>
          (case dns name port of
             None \<Rightarrow> Inl NotFound
           | Some as \<Rightarrow>
               (case filter (\<lambda>a. \<not> ssrf_blocked ssrf_on (fst a)) as of
                  [] \<Rightarrow> Inl PermissionDenied
                | a # _ \<Rightarrow> Inr a)))"

definition handle_quic_stream ::
  "bool \<Rightarrow> (bytes \<Rightarrow> u16 \<Rightarrow> (std_ip \<times> u16) list option) \<Rightarrow> (std_ip \<Rightarrow> u16 \<Rightarrow> io_error option) \<Rightarrow> bytes \<Rightarrow> relay" where
  "handle_quic_stream ssrf_on dns dial s =
     (let failed = (\<lambda>d e. \<lparr>r_dialled = d, r_status = Some (io_err_to_socks5_rep e), r_error = Some e\<rparr>) in
      case read_target s of
        Inl e \<Rightarrow> \<lparr>r_dialled = None, r_status = None, r_error = Some e\<rparr>
      | Inr (t, s) \<Rightarrow>
          (case resolve ssrf_on dns t of
             Inl e \<Rightarrow> failed None e
           | Inr (ip, port) \<Rightarrow>
               if ssrf_blocked ssrf_on ip then failed None PermissionDenied
               else (case dial ip port of
                   None \<Rightarrow> \<lparr>r_dialled = Some (ip, port), r_status = Some REP_SUCCEEDED, r_error = None\<rparr>
                 | Some e \<Rightarrow> failed (Some (ip, port)) e)))"

text \<open>The client end after the handshake: the envelope goes out, and the status that comes back
  (a general failure when the stream dies) is reported in the client's dialect; only a success
  starts the copy loops.\<close>

definition dispatch_target :: "front_proto \<Rightarrow> u8 option \<Rightarrow> bytes \<times> bool" where
  "dispatch_target p status =
     (let status_byte = (case status of Some b \<Rightarrow> b | None \<Rightarrow> REP_GENERAL_FAILURE)
      in (reply p status_byte, status_byte = REP_SUCCEEDED))"

text \<open>A whole connection: the first byte selects the front end, the handshake gives the target,
  the target's envelope goes to the peer, and the peer's status is reported. The result is what
  the client is sent, the target that was dispatched and whether the copy loops start.\<close>

definition pump_socks5_conn :: "(bytes \<Rightarrow> u8 option) \<Rightarrow> bytes \<Rightarrow> bytes \<times> target option \<times> bool" where
  "pump_socks5_conn peer s =
     (case read_socks5_request s of
        (Inl e, out) \<Rightarrow>
          (out @ [SOCKS_VER, REP_GENERAL_FAILURE, RSV, ATYP_IPV4, 0, 0, 0, 0, 0, 0], None, False)
      | (Inr (t, _), out) \<Rightarrow>
          (case dispatch_target Socks5 (peer (encode_target t)) of (r, ok) \<Rightarrow> (out @ r, Some t, ok)))"

definition pump_http_connect :: "(bytes \<Rightarrow> u8 option) \<Rightarrow> bytes \<Rightarrow> bytes \<times> target option \<times> bool" where
  "pump_http_connect peer s =
     (case read_http_connect_request s of
        Inl e \<Rightarrow> (str ''HTTP/1.1 400 Bad Request'' @ CRLF @ str ''Connection: close'' @ CRLF @ CRLF, None, False)
      | Inr (t, _) \<Rightarrow>
          (case dispatch_target HttpConnect (peer (encode_target t)) of (r, ok) \<Rightarrow> (r, Some t, ok)))"

definition pump_conn :: "(bytes \<Rightarrow> u8 option) \<Rightarrow> bytes \<Rightarrow> bytes \<times> target option \<times> bool" where
  "pump_conn peer s =
     (if s = [] then ([], None, False)
      else if hd s = SOCKS_VER then pump_socks5_conn peer s else pump_http_connect peer s)"

section \<open>The envelope round trip\<close>

text \<open>The targets the envelope can carry.\<close>

fun target_ok :: "target \<Rightarrow> bool" where
  "target_ok (TargetIp (StdV4 a) p) = True"
| "target_ok (TargetIp (StdV6 a) p) = (length a = 8)"
| "target_ok (TargetDomain d p) = (length d \<le> 255 \<and> utf8_ok d)"

lemma v6_segments_octets: "v6_segments (v6_octets a) = a"
  by (induction a) (simp_all add: v6_octets_def be16_bytes_def be16_be16_bytes0 [unfolded be16_bytes_def])

lemma length_v6_octets [simp]: "length (v6_octets a) = 2 * length a"
  by (induction a) (simp_all add: v6_octets_def)

lemma read_exact_append [simp]: "n = length a \<Longrightarrow> read_exact n (a @ s) = Inr (a, s)"
  by (simp add: read_exact_def)

lemma read_port_append [simp]: "read_port (be16_bytes p @ s) = Inr (p, s)"
  by (simp add: read_port_def)

lemma read_exact_one [simp]: "read_exact (Suc 0) (a # s) = Inr ([a], s)"
  by (simp add: read_exact_def)

lemma envelope_roundtrip: "target_ok t \<Longrightarrow> read_target (encode_target t @ rest) = Inr (t, rest)"
proof (cases t rule: target_ok.cases)
  case (1 a p)
  then show ?thesis
    by (cases a) (simp add: read_target_def read_addr_def read_exact_def socks_consts)
next
  case (2 a p)
  moreover assume "target_ok t"
  ultimately show ?thesis
    by (simp add: read_target_def read_addr_def socks_consts v6_segments_octets)
next
  case (3 d p)
  moreover assume ok: "target_ok t"
  moreover have "unat (of_nat (length d) :: u8) = length d"
    using ok 3 by (simp add: unat_of_nat)
  ultimately show ?thesis
    by (simp add: read_target_def read_addr_def socks_consts)
qed

section \<open>Both front ends produce such targets\<close>

lemma length_v6_segments: "length (v6_segments b) = length b div 2"
  by (induction b rule: v6_segments.induct) auto

lemma read_exact_Inr: "read_exact n s = Inr (a, r) \<Longrightarrow> length a = n \<and> s = a @ r"
  by (auto simp: read_exact_def split: if_splits)

lemma read_addr_ok:
  assumes "read_addr atyp s = Inr (t, r)"
  shows "target_ok t"
proof -
  have "unat (l :: u8) \<le> 255" for l using unat_u8_le [of l] by simp
  then show ?thesis
    using assms
    by (auto simp: read_addr_def length_v6_segments split: if_splits sum.splits prod.splits dest!: read_exact_Inr)
qed

lemma read_groups_bound: "read_groups n i s = (gs, v4, r) \<Longrightarrow> length gs \<le> n"
  by (induction n i s arbitrary: gs v4 r rule: read_groups.induct)
    (auto split: option.splits prod.splits if_splits ipv4.splits)

lemma read_ipv6_length: "read_ipv6_addr s = Some (a, r) \<Longrightarrow> length a = 8"
  by (auto simp: read_ipv6_addr_def split: prod.splits if_splits dest!: read_groups_bound)

lemma cont_ascii: "c < 0x80 \<Longrightarrow> \<not> cont c"
  by (auto simp: cont_def dest: leD)

text \<open>What follows a lead byte, with the byte ranges abstracted.\<close>

lemma utf8_multi:
  assumes "\<not> a < 0x80"
  obtains two three and p q :: "u8 \<Rightarrow> bool" where "utf8_ok [a] = False"
    "\<And>b r. utf8_ok (a # b # r) = (cont b \<and> (if two then utf8_ok r else case r of [] \<Rightarrow> False
       | d # r \<Rightarrow> cont d \<and> (if three then p b \<and> utf8_ok r else case r of [] \<Rightarrow> False
       | e # r \<Rightarrow> cont e \<and> q b \<and> utf8_ok r)))"
proof
  show "utf8_ok [a] = False" using assms by simp
  show "utf8_ok (a # b # r) = (cont b \<and> (if 0xC2 \<le> a \<and> a \<le> 0xDF then utf8_ok r else case r of [] \<Rightarrow> False
       | d # r \<Rightarrow> cont d \<and> (if 0xE0 \<le> a \<and> a \<le> 0xEF then ((a = 0xE0 \<longrightarrow> 0xA0 \<le> b) \<and> (a = 0xED \<longrightarrow> b \<le> 0x9F)) \<and> utf8_ok r
           else case r of [] \<Rightarrow> False
       | e # r \<Rightarrow> cont e \<and> (0xF0 \<le> a \<and> a \<le> 0xF4 \<and> (a = 0xF0 \<longrightarrow> 0x90 \<le> b) \<and> (a = 0xF4 \<longrightarrow> b \<le> 0x8F)) \<and> utf8_ok r)))" for b r
    unfolding utf8_ok.simps(2) [of a] list.case if_not_P [OF assms]
    by (cases r; cases "tl r"; simp only: list.case list.sel if_bool_eq_conj; blast)
qed

declare utf8_ok.simps(2) [simp del]

lemma utf8_ok_append:
  assumes c: "c < 0x80"
  shows "utf8_ok (xs @ c # ys) \<Longrightarrow> utf8_ok xs \<and> utf8_ok ys"
proof (induction "length xs" arbitrary: xs rule: less_induct)
  case less
  note n = cont_ascii [OF c]
  have c_ys: "utf8_ok (c # ys) = utf8_ok ys" using c by (simp add: utf8_ok.simps(2))
  show ?case
  proof (cases xs)
    case (Cons a r)
    show ?thesis
    proof (cases "a < 0x80")
      case True
      then show ?thesis using less(1) [of r] less(2) Cons by (simp add: utf8_ok.simps(2) [of a])
    next
      case False
      show ?thesis
      proof (rule utf8_multi [OF False])
      fix two three and p q :: "u8 \<Rightarrow> bool"
      assume m: "utf8_ok [a] = False"
        "\<And>b r. utf8_ok (a # b # r) = (cont b \<and> (if two then utf8_ok r else case r of [] \<Rightarrow> False
           | d # r \<Rightarrow> cont d \<and> (if three then p b \<and> utf8_ok r else case r of [] \<Rightarrow> False
           | e # r \<Rightarrow> cont e \<and> q b \<and> utf8_ok r)))"
      consider "r = []" | b where "r = [b]" | b d where "r = [b, d]" | b d e t where "r = b # d # e # t"
        by (metis list.exhaust)
      then show ?thesis
      proof cases
        case 3
        then show ?thesis using less(1) [of "[d]"] less(2) Cons n c_ys by (cases two; cases three) (simp_all add: m)
      next
        case 4
        then show ?thesis
          using less(1) [of "d # e # t"] less(1) [of "e # t"] less(1) [of t] less(2) Cons
          by (cases two; cases three) (simp_all add: m)
      qed (use less(2) Cons n c_ys in \<open>cases two; cases three; simp add: m\<close>)+
      qed
    qed
  qed (use less(2) c_ys in simp)
qed

lemma split_at_first: "c \<notin> set xs \<Longrightarrow> split_at c (xs @ c # ys) = xs # split_at c ys"
  by (induction xs) auto

lemma split_at_none: "c \<notin> set xs \<Longrightarrow> split_at c xs = [xs]"
  by (induction xs) auto

lemma split_at_utf8: "utf8_ok s \<Longrightarrow> c < 0x80 \<Longrightarrow> p \<in> set (split_at c s) \<Longrightarrow> utf8_ok p"
proof (induction s rule: length_induct)
  case (1 s)
  show ?case
  proof (cases "c \<in> set s")
    case True
    then obtain xs ys where s: "s = xs @ c # ys" "c \<notin> set xs" using split_list_first by metis
    then have u: "utf8_ok xs" "utf8_ok ys" using utf8_ok_append [OF 1(3)] 1(2) by blast+
    have "p = xs \<or> p \<in> set (split_at c ys)" using 1(4) s by (simp add: split_at_first)
    moreover have "length ys < length s" using s by simp
    ultimately show ?thesis using 1(1,3) u by metis
  qed (use 1 in \<open>simp add: split_at_none\<close>)
qed

lemma find_byte_Some: "find_byte c s = Some i \<Longrightarrow> i < length s \<and> s = take i s @ c # drop (Suc i) s"
  by (induction s arbitrary: i) (auto split: if_splits)

lemma rsplit_once_Some:
  assumes "rsplit_once c s = Some (h, p)"
  shows "s = h @ c # p"
proof -
  obtain i where i: "find_byte c (rev s) = Some i" "h = take (length s - Suc i) s" "p = drop (length s - i) s"
    using assms by (auto simp: rsplit_once_def)
  from find_byte_Some [OF i(1)] have l: "i < length s" and
    "rev s = take i (rev s) @ c # drop (Suc i) (rev s)" by auto
  then have "s = rev (take i (rev s) @ c # drop (Suc i) (rev s))" by (metis rev_rev_ident)
  then show ?thesis using i(2,3) l by (simp add: rev_drop rev_take)
qed

lemma strip_one: "strip_prefix [c] s = Some r \<Longrightarrow> s = c # r"
  by (cases s) (auto simp: strip_prefix_def split: if_splits)

lemma str_bracket: "str ''['' = [91]" "str '':'' = [58]"
  by (simp_all add: str_def)

lemma split_authority_utf8:
  assumes "utf8_ok a" "split_authority a = Inr (h, p)"
  shows "utf8_ok h"
proof (cases "strip_prefix [91] a")
  case None
  then show ?thesis
    using assms utf8_ok_append [of 58 h]
    by (auto simp: split_authority_def str_bracket split: option.splits prod.splits dest!: rsplit_once_Some)
next
  case (Some rest)
  have rest: "utf8_ok rest" using strip_one [OF Some] assms(1) by (simp add: utf8_ok.simps(2))
  obtain close where "find_byte 93 rest = Some close" "h = take close rest"
    using assms(2) Some
    by (auto simp: split_authority_def str_bracket Let_def split: option.splits if_splits)
  then show ?thesis
    using find_byte_Some [of 93 rest close] utf8_ok_append [of 93 "take close rest" "drop (Suc close) rest"] rest
    by simp
qed

lemma parse_ip_ok: "parse_ip s = Some ip \<Longrightarrow> target_ok (TargetIp ip p)"
  by (auto simp: parse_ip_def split: option.splits prod.splits if_splits dest!: read_ipv6_length)

lemma parse_authority_ok:
  assumes "utf8_ok a" "parse_authority a = Inr t"
  shows "target_ok t"
proof -
  obtain h p where hp: "split_authority a = Inr (h, p)" "h \<noteq> []" "length h \<le> 255"
    "t = (case parse_ip h of Some ip \<Rightarrow> TargetIp ip p | None \<Rightarrow> TargetDomain h p)"
    using assms(2) by (auto simp: parse_authority_def split: sum.splits prod.splits if_splits option.splits)
  then show ?thesis
    using split_authority_utf8 [OF assms(1) hp(1)] parse_ip_ok by (auto split: option.split)
qed

lemma socks5_target_ok: "fst (read_socks5_request s) = Inr (t, r) \<Longrightarrow> target_ok t"
  by (auto simp: read_socks5_request_def Let_def split: sum.splits prod.splits if_splits intro: read_addr_ok)

lemma http_target_ok:
  assumes "read_http_connect_request s = Inr (t, r)"
  shows "target_ok t"
proof -
  obtain line meth authority more where "utf8_ok line" "split_at 32 line = meth # authority # more"
    "parse_authority authority = Inr t"
    using assms
    by (auto simp: read_http_connect_request_def Let_def split: sum.splits prod.splits option.splits if_splits list.splits)
  then show ?thesis
    using split_at_utf8 [of line 32 authority] parse_authority_ok by simp
qed

section \<open>Properties\<close>

lemma pump_target_ok: "pump_conn peer s = (out, Some t, go) \<Longrightarrow> target_ok t"
  using socks5_target_ok [of s t] http_target_ok [of s t]
  by (auto simp: pump_conn_def pump_socks5_conn_def pump_http_connect_def
      split: if_splits sum.splits prod.splits)

text \<open>Whatever a proxy client sends, over SOCKS5 or HTTP CONNECT, a target that the front end
  dispatches arrives at the peer unchanged: the peer's reader takes exactly the envelope off the
  stream and gives back the same address or name and port, and leaves what follows for the copy
  loop.\<close>

theorem dispatched_target_arrives:
  assumes "pump_conn peer s = (out, Some t, go)"
  shows "read_target (encode_target t @ payload) = Inr (t, payload)"
  by (rule envelope_roundtrip [OF pump_target_ok [OF assms]])

lemma rep_failure: "io_err_to_socks5_rep e \<noteq> REP_SUCCEEDED"
  by (cases e) (simp_all add: rep_consts)

lemma resolve_allowed_iff:
  "r_status (handle_quic_stream ssrf_on dns dial s) = Some REP_SUCCEEDED \<longleftrightarrow>
     (\<exists>t r ip p. read_target s = Inr (t, r) \<and> resolve ssrf_on dns t = Inr (ip, p)
        \<and> \<not> ssrf_blocked ssrf_on ip \<and> dial ip p = None)"
  using rep_failure [of PermissionDenied]
  by (auto simp: handle_quic_stream_def Let_def rep_failure split: sum.split prod.split option.split)

lemma dispatch_success: "dispatch_target p st = (r, go) \<Longrightarrow> go \<longleftrightarrow> st = Some REP_SUCCEEDED"
  by (cases st) (auto simp: dispatch_target_def rep_consts)

lemma pump_go: "pump_conn peer s = (out, Some t, go) \<Longrightarrow> go \<longleftrightarrow> peer (encode_target t) = Some REP_SUCCEEDED"
  by (auto simp: pump_conn_def pump_socks5_conn_def pump_http_connect_def dest!: dispatch_success
      split: if_splits sum.splits prod.splits)

text \<open>C7. The two ends together, with the guard on: a client's connection is opened exactly when the
  peer resolves the very target the client asked for to an address that the destination filter
  allows, and the dial succeeds; and whatever bytes reach the peer's end, it dials no address
  that the filter blocks.\<close>

theorem proxy_end_to_end:
  assumes "pump_conn (\<lambda>env. r_status (handle_quic_stream True dns dial env)) s = (out, Some t, go)"
  shows "(go \<longleftrightarrow> (\<exists>ip p. resolve True dns t = Inr (ip, p) \<and> \<not> is_blocked_dst ip \<and> dial ip p = None))
       \<and> (\<forall>env ip p. r_dialled (handle_quic_stream True dns dial env) = Some (ip, p) \<longrightarrow> \<not> is_blocked_dst ip)"
proof
  have "read_target (encode_target t) = Inr (t, [])"
    using envelope_roundtrip [OF pump_target_ok [OF assms], of "[]"] by simp
  then show "go \<longleftrightarrow> (\<exists>ip p. resolve True dns t = Inr (ip, p) \<and> \<not> is_blocked_dst ip \<and> dial ip p = None)"
    using pump_go [OF assms] by (simp add: resolve_allowed_iff ssrf_blocked_def)
  show "\<forall>env ip p. r_dialled (handle_quic_stream True dns dial env) = Some (ip, p) \<longrightarrow> \<not> is_blocked_dst ip"
    by (auto simp: handle_quic_stream_def Let_def ssrf_blocked_def split: sum.split prod.split option.split if_splits)
qed

section \<open>Witnesses\<close>

text \<open>A SOCKS5 client asks for port 443 of the name \<open>a.io\<close>, which resolves to a loopback address
  and a public one.\<close>

definition sample_dns_lookup :: "bytes \<Rightarrow> u16 \<Rightarrow> (std_ip \<times> u16) list option" where
  "sample_dns_lookup name port =
     (if name = [97, 46, 105, 111]
      then Some [(StdV4 (Ipv4 127 0 0 1), port), (StdV4 (Ipv4 93 184 216 34), port)] else None)"

definition sample_dial :: "std_ip \<Rightarrow> u16 \<Rightarrow> io_error option" where
  "sample_dial ip port = (if port = 443 then None else Some ConnectionRefused)"

definition sample_request :: bytes where
  "sample_request = [5, 1, 0, 5, 1, 0, 3, 4, 97, 46, 105, 111, 1, 187]"

theorem dispatched_target_arrives_witness:
  "read_target (encode_target (TargetDomain [97, 46, 105, 111] 443) @ [22, 3, 1])
     = Inr (TargetDomain [97, 46, 105, 111] 443, [22, 3, 1])"
proof -
  have "pump_conn (\<lambda>env. None) sample_request
      = ([5, 0, 5, 1, 0, 1, 0, 0, 0, 0, 0, 0], Some (TargetDomain [97, 46, 105, 111] 443), False)"
    by code_simp
  from dispatched_target_arrives [OF this] show ?thesis .
qed

theorem proxy_end_to_end_witness:
  "resolve True sample_dns_lookup (TargetDomain [97, 46, 105, 111] 443) = Inr (StdV4 (Ipv4 93 184 216 34), 443)
   \<and> (\<exists>ip p. resolve True sample_dns_lookup (TargetDomain [97, 46, 105, 111] 443) = Inr (ip, p)
        \<and> \<not> is_blocked_dst ip \<and> sample_dial ip p = None)"
proof
  show "resolve True sample_dns_lookup (TargetDomain [97, 46, 105, 111] 443)
     = Inr (StdV4 (Ipv4 93 184 216 34), 443)" by code_simp
  have "pump_conn (\<lambda>env. r_status (handle_quic_stream True sample_dns_lookup sample_dial env)) sample_request
      = ([5, 0, 5, 0, 0, 1, 0, 0, 0, 0, 0, 0], Some (TargetDomain [97, 46, 105, 111] 443), True)"
    by code_simp
  from proxy_end_to_end [OF this]
  show "\<exists>ip p. resolve True sample_dns_lookup (TargetDomain [97, 46, 105, 111] 443) = Inr (ip, p)
        \<and> \<not> is_blocked_dst ip \<and> sample_dial ip p = None" by simp
qed

end
