(* ===== verification/Proto_Fields.thy ===== *)
theory Proto_Fields
  imports Proto_Wire
begin

text \<open>
  The loop that every decoder of \<open>ws.rs\<close>, \<open>contacts.rs\<close> and \<open>auth.rs\<close> runs over a message,
  \<open>while r.has_more()\<close>: read a tag, act on the field by reading a value or skipping it, and go
  on, break or return. A decoder is then the action it takes for a field number and wire type.
  Each turn consumes at least the tag, so the loop ends on every input.
\<close>

section \<open>The field loop\<close>

text \<open>What the body does with a field, and how it continues with what was read.\<close>

datatype ('s, 'r) flow = Go 's | Done 'r

datatype ('s, 'r) act =
  Varint "proto_error + u64 \<Rightarrow> ('s, 'r) flow"
| Bytes "proto_error + bytes \<Rightarrow> ('s, 'r) flow"
| Str "proto_error + bytes \<Rightarrow> ('s, 'r) flow"
| Skip u32 "proto_error + unit \<Rightarrow> ('s, 'r) flow"

fun do_act :: "('s, 'r) act \<Rightarrow> proto_reader \<Rightarrow> ('s, 'r) flow \<times> proto_reader" where
  "do_act (Varint k) r = (case pr_varint r of (v, r) \<Rightarrow> (k v, r))"
| "do_act (Bytes k) r = (case pr_bytes r of (v, r) \<Rightarrow> (k v, r))"
| "do_act (Str k) r = (case pr_string r of (v, r) \<Rightarrow> (k v, r))"
| "do_act (Skip w k) r = (case pr_skip w r of (v, r) \<Rightarrow> (k v, r))"

lemma pr_string_moved: "r_pos r \<le> length (r_buf r) \<Longrightarrow> moved r (snd (pr_string r))"
  using pr_bytes_moved [of r] by (auto simp: pr_string_def split: prod.split sum.split)

lemma do_act_moved:
  assumes "r_pos r \<le> length (r_buf r)"
  shows "moved r (snd (do_act a r))"
proof (cases a)
  case (Skip w k)
  then show ?thesis using pr_skip_moved [OF assms, of w] by (auto split: prod.split)
qed (use pr_varint_moved(1) [OF assms] pr_bytes_moved [OF assms] pr_string_moved [OF assms] in \<open>auto split: prod.split\<close>)

function field_loop ::
  "(proto_error \<Rightarrow> 's \<Rightarrow> 'r) \<Rightarrow> (u32 \<Rightarrow> u32 \<Rightarrow> 's \<Rightarrow> ('s, 'r) act) \<Rightarrow> ('s \<Rightarrow> 'r) \<Rightarrow> 's \<Rightarrow> proto_reader \<Rightarrow> 'r" where
  "field_loop bad body fin s r =
     (if \<not> has_more r then fin s
      else case pr_tag r of
        (Inl e, _) \<Rightarrow> bad e s
      | (Inr (f, w), r1) \<Rightarrow>
          (case do_act (body f w s) r1 of
             (Go s', r2) \<Rightarrow> field_loop bad body fin s' r2
           | (Done x, _) \<Rightarrow> x))"
  by pat_completeness auto
termination
proof (relation "measure (\<lambda>(bad, body, fin, s, r). length (r_buf r) - r_pos r)", goal_cases)
  case (2 bad body fin s r x r1 t f w q r2 s')
  have t: "pr_tag r = (Inr (f, w), r1)" and more: "has_more r" and d: "do_act (body f w s) r1 = (q, r2)"
    using 2 by simp_all
  have "moved r r1" using pr_tag_moved(1) [of r] more t by (simp add: has_more_def)
  then have "moved r1 r2" using do_act_moved [of r1 "body f w s"] d moved_ok by fastforce
  then show ?case using read_less(1) [OF more t] by simp
qed simp

declare field_loop.simps [simp del]

text \<open>A message written field by field is fed to the body value by value; \<open>None\<close> when the body
  reads a field by another wire type than it was written with.\<close>

fun answer :: "('s, 'r) act \<Rightarrow> pval \<Rightarrow> ('s, 'r) flow option" where
  "answer (Varint k) (PVar v) = Some (k (Inr v))"
| "answer (Bytes k) (PLen b) = Some (k (Inr b))"
| "answer (Str k) (PLen b) = Some (k (if utf8_ok b then Inr b else Inl InvalidUtf8))"
| "answer (Skip w k) v = (if w = wire v then Some (k (Inr ())) else None)"
| "answer _ _ = None"

fun feed :: "(u32 \<Rightarrow> u32 \<Rightarrow> 's \<Rightarrow> ('s, 'r) act) \<Rightarrow> ('s \<Rightarrow> 'r) \<Rightarrow> 's \<Rightarrow> (u32 \<times> pval) list \<Rightarrow> 'r option" where
  "feed body fin s [] = Some (fin s)"
| "feed body fin s ((f, v) # fs) =
     (case answer (body f (wire v) s) v of
        None \<Rightarrow> None
      | Some (Go s') \<Rightarrow> feed body fin s' fs
      | Some (Done x) \<Rightarrow> Some x)"

lemma field_loop_feed:
  "drop (r_pos r) (r_buf r) = concat (map (\<lambda>c. write_field c []) fs) \<Longrightarrow> length (r_buf r) < 2 ^ 64 \<Longrightarrow>
     feed body fin s fs = Some x \<Longrightarrow> field_loop bad body fin s r = x"
proof (induction fs arbitrary: s r)
  case Nil
  then have "\<not> has_more r" by (simp add: has_more_def)
  then show ?case using Nil by (subst field_loop.simps) simp
next
  case (Cons c fs)
  obtain f v where c: "c = (f, v)" by fastforce
  let ?r2 = "r\<lparr>r_pos := r_pos r + length (write_field (f, v) [])\<rparr>"
  have d: "drop (r_pos r) (r_buf r) = write_field (f, v) [] @ concat (map (\<lambda>c. write_field c []) fs)"
    using Cons(2) c by simp
  obtain r1 where r1: "has_more r" "pr_tag r = (Inr (f, wire v), r1)" "pr_skip (wire v) r1 = (Inr (), ?r2)"
    "case v of PVar n \<Rightarrow> pr_varint r1 = (Inr n, ?r2) | PLen b \<Rightarrow> pr_bytes r1 = (Inr b, ?r2)"
    using field_read [OF d Cons(3)] by blast
  obtain nx where nx: "answer (body f (wire v) s) v = Some nx"
    using Cons(4) c by (auto split: option.splits)
  have act: "do_act (body f (wire v) s) r1 = (nx, ?r2)"
    using nx r1(3,4)
    by (cases "body f (wire v) s"; cases v) (auto simp: pr_string_def split: if_splits)
  show ?case
  proof (cases nx)
    case (Go s')
    have "feed body fin s' fs = Some x" using Cons(4) c nx Go by simp
    then have "field_loop bad body fin s' ?r2 = x"
      using Cons(1) [of ?r2 s'] drop_at [OF d] Cons(3) by simp
    then show ?thesis using r1(1,2) act Go by (subst field_loop.simps) simp
  next
    case (Done y)
    then show ?thesis using Cons(4) c nx r1(1,2) act by (subst field_loop.simps) simp
  qed
qed

lemma field_loop_written:
  "length (write_fields fs) < 2 ^ 64 \<Longrightarrow> feed body fin s fs = Some x \<Longrightarrow>
     field_loop bad body fin s (pr_new (write_fields fs)) = x"
  by (rule field_loop_feed) (simp_all add: pr_new_def write_fields_def fold_write pw_new_def)

section \<open>Invariants of the loop\<close>

fun flow_ok :: "('s \<Rightarrow> bool) \<Rightarrow> ('r \<Rightarrow> bool) \<Rightarrow> ('s, 'r) flow \<Rightarrow> bool" where
  "flow_ok P Q (Go s) = P s"
| "flow_ok P Q (Done x) = Q x"

fun act_ok :: "('s \<Rightarrow> bool) \<Rightarrow> ('r \<Rightarrow> bool) \<Rightarrow> ('s, 'r) act \<Rightarrow> bool" where
  "act_ok P Q (Varint k) = (\<forall>v. flow_ok P Q (k v))"
| "act_ok P Q (Bytes k) = (\<forall>v. flow_ok P Q (k v))"
| "act_ok P Q (Str k) = (\<forall>v. flow_ok P Q (k v))"
| "act_ok P Q (Skip w k) = (\<forall>v. flow_ok P Q (k v))"

lemma do_act_ok: "act_ok P Q a \<Longrightarrow> flow_ok P Q (fst (do_act a r))"
  by (cases a) (auto split: prod.split)

lemma field_loop_inv:
  assumes body: "\<And>f w s. P s \<Longrightarrow> act_ok P Q (body f w s)"
    and leave: "\<And>e s. P s \<Longrightarrow> Q (bad e s)" "\<And>s. P s \<Longrightarrow> Q (fin s)"
  shows "P s \<Longrightarrow> Q (field_loop bad body fin s r)"
  using assms
proof (induction bad body fin s r rule: field_loop.induct)
  case (1 bad body fin s r)
  show ?case
  proof (cases "has_more r")
    case True
    show ?thesis
    proof (cases "pr_tag r")
      case (Pair t r1)
      show ?thesis
      proof (cases t)
        case (Inr fw)
        obtain f w where fw: "fw = (f, w)" by fastforce
        obtain q r2 where q: "do_act (body f w s) r1 = (q, r2)" by fastforce
        have "flow_ok P Q q" using do_act_ok [OF 1(3) [OF 1(2)], of f w r1] q by simp
        then show ?thesis
          using 1 True Pair Inr fw q by (subst field_loop.simps) (cases q; simp)
      qed (use 1 True Pair in \<open>subst field_loop.simps, simp\<close>)
    qed
  qed (use 1 in \<open>subst field_loop.simps, simp\<close>)
qed

end
