(* ===== verification/Ws_Frames.thy ===== *)
theory Ws_Frames
  imports Proto_Fields Grpc_Web "HOL-Library.Multiset"
begin

text \<open>
  The message codecs of \<open>ws.rs\<close>: frame encoders and decoders, the call entity and its wrappers,
  the display name of a user, and the user id in a token. Strings are their UTF-8 bytes;
  \<open>i32\<close> and \<open>i64\<close> are words.
\<close>

section \<open>Reading helpers\<close>

text \<open>\<open>r.varint().unwrap_or(0)\<close>, \<open>r.string().unwrap_or("")\<close>, \<open>r.bytes().unwrap_or(&[])\<close>; a skip
  that breaks on error; and the strict forms, which return the error.\<close>

fun or_default :: "'a \<Rightarrow> 'e + 'a \<Rightarrow> 'a" where
  "or_default d (Inl e) = d"
| "or_default d (Inr v) = v"

definition skip_or :: "'r \<Rightarrow> u32 \<Rightarrow> 's \<Rightarrow> ('s, 'r) act" where
  "skip_or x w s = Skip w (\<lambda>v. case v of Inl e \<Rightarrow> Done x | Inr _ \<Rightarrow> Go s)"

fun strict :: "('a \<Rightarrow> ('s, proto_error + 'r) flow) \<Rightarrow> proto_error + 'a \<Rightarrow> ('s, proto_error + 'r) flow" where
  "strict k (Inl e) = Done (Inl e)"
| "strict k (Inr v) = k v"

definition skip_strict :: "u32 \<Rightarrow> 's \<Rightarrow> ('s, proto_error + 'r) act" where
  "skip_strict w s = Skip w (strict (\<lambda>_. Go s))"

section \<open>Frames\<close>

definition PROTO_VERSION :: "32 word" where "PROTO_VERSION = 1"
definition API_VERSION :: "64 word" where "API_VERSION = 151668"

definition encode_handshake :: bytes where
  "encode_handshake = pw_bytes 3 (pw_int64 2 API_VERSION (pw_int32 1 PROTO_VERSION pw_new)) pw_new"

definition encode_ping :: "32 word \<Rightarrow> bytes" where
  "encode_ping ping_idx = pw_bytes 2 (pw_int32 1 ping_idx pw_new) pw_new"

definition encode_rpc :: "bytes \<Rightarrow> bytes \<Rightarrow> bytes \<Rightarrow> 32 word \<Rightarrow> bytes" where
  "encode_rpc service meth payload idx =
     pw_bytes 1 (pw_int64 5 (scast idx) (pw_bytes 3 payload (pw_string 2 meth (pw_string 1 service pw_new)))) pw_new"

datatype server_frame =
  RpcOrPush bytes | PushContainer bytes | Terminate bytes | Pong bytes | Handshake bytes | Other u32 bytes

definition decode_server_frame :: "proto_reader \<Rightarrow> (proto_error + server_frame) \<times> proto_reader" where
  "decode_server_frame r =
     (case pr_tag r of
        (Inl e, r) \<Rightarrow> (Inl e, r)
      | (Inr (f, w), r) \<Rightarrow>
          if w = 2 then
            (case pr_bytes r of
               (Inl e, r) \<Rightarrow> (Inl e, r)
             | (Inr body, r) \<Rightarrow>
                 (Inr (if f = 1 then RpcOrPush body else if f = 2 then PushContainer body
                       else if f = 3 then Terminate body else if f = 4 then Pong body
                       else if f = 5 then Handshake body else Other f body), r))
          else (case pr_skip w r of (Inl e, r) \<Rightarrow> (Inl e, r) | (Inr _, r) \<Rightarrow> (Inr (Other f []), r)))"

record handshake_body =
  proto_version :: "32 word"
  api_version :: "64 word"

definition decode_handshake :: "bytes \<Rightarrow> proto_error + handshake_body" where
  "decode_handshake buf =
     field_loop (\<lambda>e s. Inl e)
       (\<lambda>f w h. if f = 1 then Varint (strict (\<lambda>v. Go (h\<lparr>proto_version := ucast v\<rparr>)))
          else if f = 2 then Varint (strict (\<lambda>v. Go (h\<lparr>api_version := v\<rparr>)))
          else skip_strict w h)
       Inr \<lparr>proto_version = 0, api_version = 0\<rparr> (pr_new buf)"

record rpc_response =
  idx :: "32 word"
  error :: "bytes option"
  payload :: "bytes option"

definition rpc_body :: "u32 \<Rightarrow> u32 \<Rightarrow> rpc_response \<Rightarrow> (rpc_response, proto_error + rpc_response) act" where
  "rpc_body f w m =
     (if f = 1 then Bytes (strict (\<lambda>b. Go (m\<lparr>error := Some b\<rparr>)))
      else if f = 2 then Bytes (strict (\<lambda>b. Go (m\<lparr>payload := Some b\<rparr>)))
      else if f = 3 then Varint (strict (\<lambda>v. Go (m\<lparr>idx := ucast v\<rparr>)))
      else skip_strict w m)"

definition decode_rpc_response :: "bytes \<Rightarrow> proto_error + rpc_response" where
  "decode_rpc_response buf =
     field_loop (\<lambda>e s. Inl e) rpc_body Inr \<lparr>idx = 0, error = None, payload = None\<rparr> (pr_new buf)"

record rpc_error =
  code :: "32 word"
  message :: bytes

definition decode_rpc_error :: "bytes \<Rightarrow> rpc_error" where
  "decode_rpc_error buf =
     field_loop (\<lambda>e s. s)
       (\<lambda>f w m. if f = 1 then Varint (\<lambda>v. Go (m\<lparr>code := ucast (or_default 0 v)\<rparr>))
          else if f = 2 then Str (\<lambda>v. Go (m\<lparr>message := or_default [] v\<rparr>))
          else skip_or m w m)
       id \<lparr>code = 0, message = []\<rparr> (pr_new buf)"

text \<open>\<open>str::contains\<close>.\<close>

fun contains :: "bytes \<Rightarrow> bytes \<Rightarrow> bool" where
  "contains p [] = (p = [])"
| "contains p (x # xs) = (take (length p) (x # xs) = p \<or> contains p xs)"

definition is_expected_subscribe_rotation :: "bytes option \<Rightarrow> bytes option \<Rightarrow> bool" where
  "is_expected_subscribe_rotation err pay =
     (case err of
        None \<Rightarrow> False
      | Some err_bytes \<Rightarrow>
          if pay \<noteq> None then False
          else let e = decode_rpc_error err_bytes in
            if code e = 4 then True
            else if code e = 2 then contains (str ''want <EOF>'') (message e)
            else if code e = 13 then contains (str ''cardinality violation'') (message e)
            else False)"

section \<open>Calls\<close>

definition parse_wrapped_string :: "bytes \<Rightarrow> bytes" where
  "parse_wrapped_string buf =
     field_loop (\<lambda>e s. [])
       (\<lambda>f w s. if f = 1 then Str (\<lambda>v. Done (or_default [] v)) else skip_or [] w s)
       (\<lambda>s. []) () (pr_new buf)"

record call_entity =
  call_id :: "64 word"
  token :: bytes
  room :: bytes
  url :: bytes
  is_livekit :: bool
  caller_id :: "64 word"
  video :: bool
  create_date :: "64 word"
  start_date :: "64 word"
  duration :: "32 word"
  discard_reason :: "32 word"

definition call_default :: call_entity where
  "call_default = \<lparr>call_id = 0, token = [], room = [], url = [], is_livekit = False, caller_id = 0,
     video = False, create_date = 0, start_date = 0, duration = 0, discard_reason = 0\<rparr>"

definition entity_body :: "u32 \<Rightarrow> u32 \<Rightarrow> call_entity \<Rightarrow> (call_entity, call_entity) act" where
  "entity_body f w c =
     (if f = 1 then Varint (\<lambda>v. Go (c\<lparr>call_id := or_default 0 v\<rparr>))
      else if f = 2 then Str (\<lambda>v. Go (c\<lparr>token := or_default [] v\<rparr>))
      else if f = 3 then Str (\<lambda>v. Go (c\<lparr>room := or_default [] v\<rparr>))
      else if f = 4 then Bytes (\<lambda>v. Go (c\<lparr>url := parse_wrapped_string (or_default [] v)\<rparr>))
      else if f = 5 then Varint (\<lambda>v. Go (c\<lparr>video := (or_default 0 v \<noteq> 0)\<rparr>))
      else if f = 6 then Varint (\<lambda>v. Go (c\<lparr>create_date := or_default 0 v\<rparr>))
      else if f = 7 then Varint (\<lambda>v. Go (c\<lparr>start_date := or_default 0 v\<rparr>))
      else if f = 8 then Varint (\<lambda>v. Go (c\<lparr>caller_id := or_default 0 v\<rparr>))
      else if f = 10 then Varint (\<lambda>v. Go (c\<lparr>duration := ucast (or_default 0 v)\<rparr>))
      else if f = 11 then Varint (\<lambda>v. Go (c\<lparr>discard_reason := ucast (or_default 0 v)\<rparr>))
      else if f = 12 then Varint (\<lambda>v. Go (c\<lparr>is_livekit := (or_default 0 v \<noteq> 0)\<rparr>))
      else skip_or c w c)"

definition parse_call_entity :: "bytes \<Rightarrow> call_entity" where
  "parse_call_entity buf = field_loop (\<lambda>e s. s) entity_body id call_default (pr_new buf)"

text \<open>The first varint in \<open>[100, i32::MAX]\<close>.\<close>

definition plausible_uid :: "64 word \<Rightarrow> bool" where
  "plausible_uid v \<longleftrightarrow> 100 \<le> sint v \<and> sint v \<le> 2147483647"

definition parse_participant_id :: "bytes \<Rightarrow> 64 word" where
  "parse_participant_id buf =
     field_loop (\<lambda>e s. s)
       (\<lambda>f w out.
          if w = 0 then Varint (\<lambda>v. let v = or_default 0 v in Go (if plausible_uid v \<and> out = 0 then v else out))
          else if w = 2 then Bytes (\<lambda>v. Go out)
          else skip_or out w out)
       id 0 (pr_new buf)"

definition parse_call_response :: "bytes \<Rightarrow> call_entity option" where
  "parse_call_response buf =
     (let fin = (\<lambda>(call, outer_caller_id). map_option (\<lambda>c.
            if caller_id c = 0 \<and> outer_caller_id \<noteq> 0 then c\<lparr>caller_id := outer_caller_id\<rparr> else c) call)
      in field_loop (\<lambda>e s. fin s)
           (\<lambda>f w s. case s of (call, outer_caller_id) \<Rightarrow>
              if f = 1 then Bytes (\<lambda>v. case v of Inl e \<Rightarrow> Done (fin s)
                | Inr b \<Rightarrow> Go (Some (parse_call_entity b), outer_caller_id))
              else if w = 2 \<and> outer_caller_id = 0 then Bytes (\<lambda>v. case v of Inl e \<Rightarrow> Done (fin s)
                | Inr b \<Rightarrow> Go (call, parse_participant_id b))
              else skip_or (fin s) w s)
           fin (None, 0) (pr_new buf))"

definition parse_call_ended :: "bytes \<Rightarrow> call_entity option" where
  "parse_call_ended buf =
     field_loop (\<lambda>e s. None)
       (\<lambda>f w s. if f = 1 \<and> w = 2
          then Bytes (\<lambda>v. Done (case v of Inl e \<Rightarrow> None | Inr b \<Rightarrow> Some (parse_call_entity b)))
          else skip_or None w s)
       (\<lambda>s. None) () (pr_new buf)"

text \<open>The inner scan gives the id when it returns and nothing when it ends or breaks, after which
  the outer loop goes on.\<close>

definition inner_call_id :: "bytes \<Rightarrow> 64 word option" where
  "inner_call_id inner =
     field_loop (\<lambda>e s. None)
       (\<lambda>f w s. if f = 1 \<and> w = 0 then Varint (\<lambda>v. Done (Some (or_default 0 v))) else skip_or None w s)
       (\<lambda>s. None) () (pr_new inner)"

definition parse_call_id :: "bytes \<Rightarrow> 64 word" where
  "parse_call_id buf =
     field_loop (\<lambda>e s. 0)
       (\<lambda>f w s. if f = 1 \<and> w = 0 then Varint (\<lambda>v. Done (or_default 0 v))
          else if f = 1 \<and> w = 2 then Bytes (\<lambda>v. case v of Inl e \<Rightarrow> Done 0
            | Inr inner \<Rightarrow> (case inner_call_id inner of Some i \<Rightarrow> Done i | None \<Rightarrow> Go s))
          else skip_or 0 w s)
       (\<lambda>s. 0) () (pr_new buf)"

definition parse_call_received :: "bytes \<Rightarrow> 64 word \<times> 64 word" where
  "parse_call_received buf =
     field_loop (\<lambda>e s. s)
       (\<lambda>f w s. case s of (call, caller) \<Rightarrow>
          if f = 1 \<and> w = 0 then Varint (\<lambda>v. Go (or_default 0 v, caller))
          else if w = 2 \<and> caller = 0 then Bytes (\<lambda>v. case v of Inl e \<Rightarrow> Done s
            | Inr b \<Rightarrow> Go (call, parse_participant_id b))
          else skip_or s w s)
       id (0, 0) (pr_new buf)"

section \<open>Users and tokens\<close>

definition nick_scan :: "bytes \<Rightarrow> bytes \<Rightarrow> bytes" where
  "nick_scan nick inner =
     field_loop (\<lambda>e s. s)
       (\<lambda>f w s. if f = 1 then Str (\<lambda>v. Go (or_default [] v)) else skip_or s w s)
       id nick (pr_new inner)"

definition parse_user_entity_name :: "bytes \<Rightarrow> bytes option" where
  "parse_user_entity_name buf =
     (let fin = (\<lambda>(name, nick). if name \<noteq> [] then Some name else if nick \<noteq> [] then Some nick else None)
      in field_loop (\<lambda>e s. fin s)
           (\<lambda>f w s. case s of (name, nick) \<Rightarrow>
              if f = 3 then Str (\<lambda>v. Go (or_default [] v, nick))
              else if f = 9 then Bytes (\<lambda>v. case v of Inl e \<Rightarrow> Done None
                | Inr inner \<Rightarrow> Go (name, nick_scan nick inner))
              else skip_or (fin s) w s)
           fin ([], []) (pr_new buf))"

definition parse_load_users_first_name :: "bytes \<Rightarrow> bytes option" where
  "parse_load_users_first_name buf =
     field_loop (\<lambda>e s. None)
       (\<lambda>f w s. if f = 1 then Bytes (\<lambda>v. Done (case v of Inl e \<Rightarrow> None | Inr b \<Rightarrow> parse_user_entity_name b))
          else skip_or None w s)
       (\<lambda>s. None) () (pr_new buf)"

definition b64_value :: "u8 \<Rightarrow> u32 option" where
  "b64_value c =
     (if 65 \<le> c \<and> c \<le> 90 then Some (ucast c - 65)
      else if 97 \<le> c \<and> c \<le> 122 then Some (ucast c - 97 + 26)
      else if 48 \<le> c \<and> c \<le> 57 then Some (ucast c - 48 + 52)
      else if c = 45 \<or> c = 43 then Some 62
      else if c = 95 \<or> c = 47 then Some 63
      else None)"

fun b64_loop :: "bytes \<Rightarrow> u32 \<Rightarrow> nat \<Rightarrow> bytes \<Rightarrow> bytes option" where
  "b64_loop out buf bits [] = Some out"
| "b64_loop out buf bits (c # s) =
     (if c = 61 then Some out
      else case b64_value c of
        None \<Rightarrow> None
      | Some v \<Rightarrow>
          let buf = push_bit 6 buf OR v; bits = bits + 6 in
          if bits \<ge> 8
          then b64_loop (out @ [ucast (drop_bit (bits - 8) buf AND 0xFF)]) buf (bits - 8) s
          else b64_loop out buf bits s)"

definition base64url_decode :: "bytes \<Rightarrow> bytes option" where
  "base64url_decode s = b64_loop [] 0 0 s"

text \<open>\<open>str::find\<close> of a pattern, and \<open>str::split\<close> at an ASCII character.\<close>

fun find_sub :: "bytes \<Rightarrow> bytes \<Rightarrow> nat option" where
  "find_sub p [] = (if p = [] then Some 0 else None)"
| "find_sub p (x # xs) = (if take (length p) (x # xs) = p then Some 0 else map_option Suc (find_sub p xs))"

fun split_on :: "u8 \<Rightarrow> bytes \<Rightarrow> bytes list" where
  "split_on c [] = [[]]"
| "split_on c (x # xs) =
     (if x = c then [] # split_on c xs
      else case split_on c xs of p # ps \<Rightarrow> (x # p) # ps | [] \<Rightarrow> [[x]])"

definition nth_piece :: "nat \<Rightarrow> 'a list \<Rightarrow> 'a option" where
  "nth_piece n xs = (if n < length xs then Some (xs ! n) else None)"

definition user_id_key :: bytes where
  "user_id_key = [34] @ str ''user_id'' @ [34]"

definition decode_jwt_user_id :: "bytes \<Rightarrow> int option" where
  "decode_jwt_user_id jwt =
     (case nth_piece 1 (split_on 46 jwt) of
        None \<Rightarrow> None
      | Some part \<Rightarrow>
          (case base64url_decode part of
             None \<Rightarrow> None
           | Some json \<Rightarrow>
               if \<not> utf8_ok json then None
               else (case find_sub user_id_key json of
                   None \<Rightarrow> None
                 | Some i \<Rightarrow>
                     (case nth_piece 1 (split_on 58 (drop (i + length user_id_key) json)) of
                        None \<Rightarrow> None
                      | Some after_colon \<Rightarrow>
                          let trimmed = trim_with white_space after_colon;
                              ds = takeWhile digit trimmed in
                          if ds = trimmed then None else parse_i32 ds))))"

section \<open>A call entity on the wire\<close>

text \<open>The fields of a call entity, and a message that carries them in any order among fields the
  client does not know.\<close>

definition bool_field :: "bool \<Rightarrow> pval" where
  "bool_field b = PVar (if b then 1 else 0)"

definition entity_fields :: "call_entity \<Rightarrow> (u32 \<times> pval) list" where
  "entity_fields c = [(1, PVar (call_id c)), (2, PLen (token c)), (3, PLen (room c)),
     (4, PLen (write_fields [(1, PLen (url c))])), (5, bool_field (video c)), (6, PVar (create_date c)),
     (7, PVar (start_date c)), (8, PVar (caller_id c)), (10, PVar (ucast (duration c))),
     (11, PVar (ucast (discard_reason c))), (12, bool_field (is_livekit c))]"

definition known_field :: "u32 \<Rightarrow> bool" where
  "known_field f \<longleftrightarrow> f \<in> set (map fst (entity_fields call_default))"

text \<open>The entity \<open>d\<close> with the fields of \<open>c\<close> whose number was sent.\<close>

definition merged :: "u32 set \<Rightarrow> call_entity \<Rightarrow> call_entity \<Rightarrow> call_entity" where
  "merged sent c d = d\<lparr>
     call_id := (if 1 \<in> sent then call_id c else call_id d), token := (if 2 \<in> sent then token c else token d),
     room := (if 3 \<in> sent then room c else room d), url := (if 4 \<in> sent then url c else url d),
     video := (if 5 \<in> sent then video c else video d),
     create_date := (if 6 \<in> sent then create_date c else create_date d),
     start_date := (if 7 \<in> sent then start_date c else start_date d),
     caller_id := (if 8 \<in> sent then caller_id c else caller_id d),
     duration := (if 10 \<in> sent then duration c else duration d),
     discard_reason := (if 11 \<in> sent then discard_reason c else discard_reason d),
     is_livekit := (if 12 \<in> sent then is_livekit c else is_livekit d)\<rparr>"

text \<open>A message carries an entity when every field of it the client knows has the entity's value and the
  fields left out have their defaults in it: \<open>callStarted\<close> leaves out the token, and a server may leave
  out any other.\<close>

definition carries :: "(u32 \<times> pval) list \<Rightarrow> call_entity \<Rightarrow> bool" where
  "carries fs c \<longleftrightarrow> set (filter (\<lambda>fv. known_field (fst fv)) fs) \<subseteq> set (entity_fields c) \<and>
     merged (set (map fst fs)) c call_default = c"

text \<open>The effect of one field on the entity being read.\<close>

definition put_field :: "u32 \<times> pval \<Rightarrow> call_entity \<Rightarrow> call_entity" where
  "put_field fv c = (case fv of (f, PVar v) \<Rightarrow>
        if f = 1 then c\<lparr>call_id := v\<rparr> else if f = 5 then c\<lparr>video := (v \<noteq> 0)\<rparr>
        else if f = 6 then c\<lparr>create_date := v\<rparr> else if f = 7 then c\<lparr>start_date := v\<rparr>
        else if f = 8 then c\<lparr>caller_id := v\<rparr> else if f = 10 then c\<lparr>duration := ucast v\<rparr>
        else if f = 11 then c\<lparr>discard_reason := ucast v\<rparr> else if f = 12 then c\<lparr>is_livekit := (v \<noteq> 0)\<rparr> else c
     | (f, PLen b) \<Rightarrow>
        if f = 2 then c\<lparr>token := b\<rparr> else if f = 3 then c\<lparr>room := b\<rparr>
        else if f = 4 then c\<lparr>url := parse_wrapped_string b\<rparr> else c)"

lemma entity_keys: "map fst (entity_fields c) = [1, 2, 3, 4, 5, 6, 7, 8, 10, 11, 12]"
  by (simp add: entity_fields_def)

lemma known_field_iff: "known_field f \<longleftrightarrow> f \<in> {1, 2, 3, 4, 5, 6, 7, 8, 10, 11, 12}"
  by (simp add: known_field_def entity_keys)

lemma put_unknown: "\<not> known_field f \<Longrightarrow> put_field (f, v) c = c"
  by (cases v) (simp_all add: put_field_def known_field_iff)

lemma put_simps [simp]:
  "put_field (1, PVar v) c = c\<lparr>call_id := v\<rparr>" "put_field (2, PLen b) c = c\<lparr>token := b\<rparr>"
  "put_field (3, PLen b) c = c\<lparr>room := b\<rparr>" "put_field (4, PLen b) c = c\<lparr>url := parse_wrapped_string b\<rparr>"
  "put_field (5, PVar v) c = c\<lparr>video := (v \<noteq> 0)\<rparr>" "put_field (6, PVar v) c = c\<lparr>create_date := v\<rparr>"
  "put_field (7, PVar v) c = c\<lparr>start_date := v\<rparr>" "put_field (8, PVar v) c = c\<lparr>caller_id := v\<rparr>"
  "put_field (10, PVar v) c = c\<lparr>duration := ucast v\<rparr>" "put_field (11, PVar v) c = c\<lparr>discard_reason := ucast v\<rparr>"
  "put_field (12, PVar v) c = c\<lparr>is_livekit := (v \<noteq> 0)\<rparr>"
  by (simp_all add: put_field_def)

lemma entity_step:
  assumes "(f, v) \<in> set (entity_fields c) \<or> \<not> known_field f" "utf8_ok (token c)" "utf8_ok (room c)"
  shows "answer (entity_body f (wire v) s) v = Some (Go (put_field (f, v) s))"
proof (cases "(f, v) \<in> set (entity_fields c)")
  case True
  then show ?thesis
    using assms(2,3) unfolding entity_fields_def bool_field_def by (auto simp: entity_body_def)
next
  case False
  then show ?thesis using assms(1) by (simp add: put_unknown entity_body_def known_field_iff skip_or_def)
qed

lemma feed_entity:
  assumes "\<forall>(f, v) \<in> set fs. (f, v) \<in> set (entity_fields c) \<or> \<not> known_field f"
    "utf8_ok (token c)" "utf8_ok (room c)"
  shows "feed entity_body id s fs = Some (fold put_field fs s)"
  using assms(1)
proof (induction fs arbitrary: s)
  case (Cons fv fs)
  then show ?case using entity_step [OF _ assms(2,3)] by (cases fv) auto
qed simp

lemma merged_empty: "merged {} c d = d"
  by (simp add: merged_def)

lemma wrapped_string_written:
  assumes "utf8_ok u" "length (write_fields [(1, PLen u)]) < 2 ^ 64"
  shows "parse_wrapped_string (write_fields [(1, PLen u)]) = u"
  unfolding parse_wrapped_string_def
  by (rule field_loop_written [OF assms(2)]) (simp add: assms(1))

lemma field_within: "(f, PLen b) \<in> set fs \<Longrightarrow> length b \<le> length (write_fields fs)"
proof -
  assume "(f, PLen b) \<in> set fs"
  then have "length (write_field (f, PLen b) []) \<le> length (concat (map (\<lambda>c. write_field c []) fs))"
    by (induction fs) auto
  then show ?thesis by (simp add: write_fields_def fold_write pw_new_def pw_bytes_def)
qed

lemma ucast_ucast_word32: "ucast (ucast (x :: 32 word) :: 64 word) = x"
  by (rule bit_word_eqI) (simp add: bit_simps)

lemma bool_bit: "((if b then 1 else 0 :: 64 word) \<noteq> 0) = b" "((if b then 1 else 0 :: 64 word) = 0) = (\<not> b)"
  by simp_all

lemma put_merged:
  assumes "(f, v) \<in> set (entity_fields c) \<or> \<not> known_field f"
    and "f = 4 \<Longrightarrow> parse_wrapped_string (write_fields [(1, PLen (url c))]) = url c"
  shows "merged sent c (put_field (f, v) d) = merged (insert f sent) c d"
proof (cases "known_field f")
  case True
  then have "(f, v) \<in> set (entity_fields c)" using assms(1) by blast
  then show ?thesis
    using assms(2) unfolding entity_fields_def bool_field_def
    by (auto simp: merged_def ucast_ucast_word32 bool_bit split del: if_split cong del: if_weak_cong)
next
  case False
  then show ?thesis by (simp add: put_unknown) (simp add: known_field_iff merged_def)
qed

lemma fold_put_merged:
  assumes "\<forall>(f, v) \<in> set fs. (f, v) \<in> set (entity_fields c) \<or> \<not> known_field f"
    and "4 \<in> set (map fst fs) \<Longrightarrow> parse_wrapped_string (write_fields [(1, PLen (url c))]) = url c"
  shows "merged sent c (fold put_field fs d) = merged (set (map fst fs) \<union> sent) c d"
  using assms
proof (induction fs arbitrary: d)
  case (Cons fv fs)
  obtain f v where fv: "fv = (f, v)" by (cases fv)
  have "merged (set (map fst fs) \<union> sent) c (put_field (f, v) d) = merged (insert f (set (map fst fs) \<union> sent)) c d"
    using Cons.prems by (intro put_merged) (auto simp: fv)
  then show ?case using Cons by (simp add: fv)
qed simp

lemma entity_read:
  assumes fields: "carries fs c"
    and utf8: "utf8_ok (token c)" "utf8_ok (room c)" "utf8_ok (url c)"
    and len: "length (write_fields fs) < 2 ^ 64"
  shows "parse_call_entity (write_fields fs) = c"
proof -
  have known: "\<forall>(f, v) \<in> set fs. (f, v) \<in> set (entity_fields c) \<or> \<not> known_field f"
    using fields by (auto simp: carries_def)
  have u: "parse_wrapped_string (write_fields [(1, PLen (url c))]) = url c" if "4 \<in> set (map fst fs)"
  proof -
    from that obtain v where v: "(4, v) \<in> set fs" by auto
    then have "(4, v) \<in> set (entity_fields c)" using known by (auto simp: known_field_iff)
    then have "(4, PLen (write_fields [(1, PLen (url c))])) \<in> set fs" using v by (simp add: entity_fields_def)
    then show ?thesis
      using field_within len utf8(3) by (intro wrapped_string_written) (auto intro: le_less_trans)
  qed
  have "feed entity_body id call_default fs = Some (fold put_field fs call_default)"
    using feed_entity known utf8 by blast
  moreover have "fold put_field fs call_default = c"
    using fold_put_merged [OF known u, of "{}" call_default] fields by (simp add: merged_empty carries_def)
  ultimately show ?thesis
    unfolding parse_call_entity_def using field_loop_written [OF len] by metis
qed

definition example_call :: call_entity where
  "example_call = call_default\<lparr>call_id := 77, token := [97, 98], room := [114], url := [119, 115],
     is_livekit := True, caller_id := 4242, video := False, discard_reason := 3\<rparr>"

end
