(* ===== verification/Ws_Client.thy ===== *)
theory Ws_Client
  imports Ws_Frames "HOL-Library.AList"
begin

text \<open>
  The WebSocket client of \<open>ws.rs\<close>: the shared \<open>WsClient\<close>, its RPC table, the rule engine that
  starts and stops the run loop, the frame handlers and the run loop itself. Threads interleave:
  each operation below is one section that the code runs without releasing a lock or awaiting.
  Oneshot channels, outbound queues and spawned run loops are numbered; the record \<open>ws_world\<close>
  extends the fields of \<open>WsClient\<close> by them and by what the client has done so far: frames queued,
  listeners called, RPC responses dispatched, run loops that ended by themselves.
\<close>

section \<open>State\<close>

record pending_rpc =
  service :: bytes
  meth :: bytes
  responder :: nat

datatype rpc_call_error = NotConnected | Canceled | Timeout | Rpc rpc_error

datatype unmatched_rpc_outcome =
  SubscribeRotation | SubscribeFailed "32 word" bytes | SubscribePush bytes | Dropped "32 word"

record ws_client =
  ready :: bool
  running :: bool
  user_disconnect :: bool
  manager_active :: bool
  foreground :: bool
  rpc_idx :: "32 word"
  pending :: "(32 word \<times> pending_rpc) list"
  send_tx :: "nat option"
  subscribe_idx :: "32 word"
  subscribe_backoff_ms :: "64 word"
  last_inbound_ts :: "64 word"
  ping_counter :: "32 word"
  on_call_received :: "nat list"
  on_call_ended :: "nat list"
  on_call_accepted :: "nat list"
  on_token_expired :: "nat option"
  on_version_mism :: "nat option"
  self_info :: "(32 word \<times> bytes option) option"
  name_cache :: "32 word \<rightharpoonup> bytes option"
  runloop_handle :: "nat option"
  access_token :: "bytes option"

text \<open>What listeners were called with, a oneshot channel, one \<open>rpc_call\<close> future, the run loop
  task.\<close>

datatype fired =
  CallReceived nat "64 word" "call_entity option"
| CallEnded nat "64 word" "32 word"
| CallAccepted nat "64 word"
| TokenExpiredFired nat
| VersionMismatchFired nat

datatype oneshot = Waiting | Filled "rpc_error + bytes" | Closed

datatype rpc_state =
  NotStarted
| Inserted bytes bytes bytes "32 word"
| Awaiting "32 word"
| Returned "32 word" "rpc_call_error + bytes"
| Abandoned "32 word"

datatype session_outcome = Disconnected | TokenExpired | VersionMismatch

datatype loop_phase =
  LoopTop | Connecting | InSession nat bool "proto_reader option" | Sleeping nat

record run_task =
  t_token :: bytes
  t_attempt :: nat
  t_phase :: loop_phase
  t_polling :: bool
  t_aborted :: bool

record ws_world = ws_client +
  oneshots :: "nat \<Rightarrow> oneshot"
  calls :: "nat \<Rightarrow> rpc_state"
  out_open :: "nat \<Rightarrow> bool"
  out_sent :: "(nat \<times> bytes) list"
  next_queue :: nat
  tasks :: "nat \<Rightarrow> run_task option"
  next_task :: nat
  owed :: nat
  tails :: nat
  resubs :: "nat list"
  fired_log :: "fired list"
  replies :: "(32 word \<times> (rpc_error + bytes)) list"
  quits :: "(nat \<times> session_outcome) list"

definition ws_new :: ws_world where
  "ws_new = \<lparr>ready = False, running = False, user_disconnect = False, manager_active = True,
     foreground = True, rpc_idx = 1, pending = [], send_tx = None, subscribe_idx = - 1,
     subscribe_backoff_ms = 0, last_inbound_ts = 0, ping_counter = 0, on_call_received = [],
     on_call_ended = [], on_call_accepted = [], on_token_expired = None, on_version_mism = None,
     self_info = None, name_cache = Map.empty, runloop_handle = None, access_token = None,
     oneshots = (\<lambda>_. Closed), calls = (\<lambda>_. NotStarted), out_open = (\<lambda>_. False), out_sent = [],
     next_queue = 0, tasks = (\<lambda>_. None), next_task = 0, owed = 0, tails = 0, resubs = [],
     fired_log = [], replies = [], quits = []\<rparr>"

section \<open>RPC\<close>

definition queue_send :: "nat \<Rightarrow> bytes \<Rightarrow> ws_world \<Rightarrow> bool \<times> ws_world" where
  "queue_send q frame s = (if out_open s q then (True, s\<lparr>out_sent := out_sent s @ [(q, frame)]\<rparr>) else (False, s))"

definition fetch_idx :: "ws_world \<Rightarrow> 32 word \<times> ws_world" where
  "fetch_idx s = (rpc_idx s, s\<lparr>rpc_idx := rpc_idx s + 1\<rparr>)"

definition remove_pending :: "32 word \<Rightarrow> ws_world \<Rightarrow> ws_world" where
  "remove_pending i s = s\<lparr>pending := AList.delete i (pending s)\<rparr>"

text \<open>\<open>rpc_call\<close> up to the pending entry; then the send; then what the await gives, a timeout or
  the state of the oneshot. A replaced entry's responder would be dropped with it.\<close>

definition drop_responder :: "pending_rpc option \<Rightarrow> ws_world \<Rightarrow> ws_world" where
  "drop_responder p s = (case p of None \<Rightarrow> s | Some p \<Rightarrow>
     (if oneshots s (responder p) = Waiting then s\<lparr>oneshots := (oneshots s)(responder p := Closed)\<rparr> else s))"

definition rpc_insert :: "nat \<Rightarrow> bytes \<Rightarrow> bytes \<Rightarrow> bytes \<Rightarrow> ws_world \<Rightarrow> ws_world" where
  "rpc_insert c svc mth pay s =
     (case fetch_idx s of (i, s) \<Rightarrow>
        let s = drop_responder (map_of (pending s) i) s in
        s\<lparr>oneshots := (oneshots s)(c := Waiting),
          pending := AList.update i \<lparr>service = svc, meth = mth, responder = c\<rparr> (pending s),
          calls := (calls s)(c := Inserted svc mth pay i)\<rparr>)"

definition rpc_return :: "nat \<Rightarrow> 32 word \<Rightarrow> rpc_call_error + bytes \<Rightarrow> ws_world \<Rightarrow> ws_world" where
  "rpc_return c i res s =
     (let s = drop_responder (map_of (pending s) i) s; s = remove_pending i s in
      s\<lparr>calls := (calls s)(c := Returned i res)\<rparr>)"

definition rpc_send :: "nat \<Rightarrow> bytes \<Rightarrow> bytes \<Rightarrow> bytes \<Rightarrow> 32 word \<Rightarrow> ws_world \<Rightarrow> ws_world" where
  "rpc_send c svc mth pay i s =
     (case send_tx s of
        None \<Rightarrow> rpc_return c i (Inl NotConnected) s
      | Some q \<Rightarrow>
          (case queue_send q (encode_rpc svc mth pay i) s of
             (False, s) \<Rightarrow> rpc_return c i (Inl NotConnected) s
           | (True, s) \<Rightarrow> s\<lparr>calls := (calls s)(c := Awaiting i)\<rparr>))"

definition rpc_finish :: "nat \<Rightarrow> 32 word \<Rightarrow> bool \<Rightarrow> ws_world \<Rightarrow> ws_world" where
  "rpc_finish c i timed_out s =
     (case oneshots s c of
        Waiting \<Rightarrow> if timed_out then rpc_return c i (Inl Timeout) s else s
      | Closed \<Rightarrow> rpc_return c i (Inl Canceled) s
      | Filled (Inl e) \<Rightarrow> rpc_return c i (Inl (Rpc e)) s
      | Filled (Inr b) \<Rightarrow> rpc_return c i (Inr b) s)"

definition rpc_outcome :: "rpc_response \<Rightarrow> rpc_error + bytes" where
  "rpc_outcome resp =
     (case error resp of
        Some err_bytes \<Rightarrow> Inl (decode_rpc_error err_bytes)
      | None \<Rightarrow> (case payload resp of Some buf \<Rightarrow> Inr buf | None \<Rightarrow> Inr []))"

definition dispatch_rpc_response :: "rpc_response \<Rightarrow> ws_world \<Rightarrow> unmatched_rpc_outcome \<times> ws_world" where
  "dispatch_rpc_response resp s0 =
     (let s = s0\<lparr>replies := replies s0 @ [(idx resp, rpc_outcome resp)]\<rparr> in
      case map_of (pending s) (idx resp) of
        Some p \<Rightarrow>
          (Dropped (idx resp),
           (remove_pending (idx resp) s)\<lparr>oneshots := (oneshots s)(responder p := Filled (rpc_outcome resp))\<rparr>)
      | None \<Rightarrow>
          (if idx resp = subscribe_idx s then
             if is_expected_subscribe_rotation (error resp) (payload resp) then SubscribeRotation
             else (case (payload resp, error resp) of
                 (Some b, None) \<Rightarrow> SubscribePush b
               | (_, Some err_bytes) \<Rightarrow> (let e = decode_rpc_error err_bytes in SubscribeFailed (code e) (message e))
               | (None, None) \<Rightarrow> Dropped (idx resp))
           else Dropped (idx resp), s))"

definition drain_pending :: "ws_world \<Rightarrow> ws_world" where
  "drain_pending s =
     (let cs = map (responder \<circ> snd) (pending s) in
      s\<lparr>pending := [], oneshots := (\<lambda>c. if c \<in> set cs \<and> oneshots s c = Waiting then Closed else oneshots s c)\<rparr>)"

definition set_subscribe_idx :: "32 word \<Rightarrow> ws_world \<Rightarrow> ws_world" where
  "set_subscribe_idx i s = s\<lparr>subscribe_idx := i\<rparr>"

definition install_sender :: "nat \<Rightarrow> ws_world \<Rightarrow> ws_world" where
  "install_sender q s = s\<lparr>send_tx := Some q\<rparr>"

definition clear_sender :: "ws_world \<Rightarrow> ws_world" where
  "clear_sender s = s\<lparr>send_tx := None\<rparr>"

section \<open>Listeners\<close>

definition fire :: "fired list \<Rightarrow> ws_world \<Rightarrow> ws_world" where
  "fire es s = s\<lparr>fired_log := fired_log s @ es\<rparr>"

definition fire_call_received :: "64 word \<Rightarrow> call_entity option \<Rightarrow> ws_world \<Rightarrow> ws_world" where
  "fire_call_received i call s = fire (map (\<lambda>cb. CallReceived cb i call) (on_call_received s)) s"

definition fire_call_ended :: "64 word \<Rightarrow> 32 word \<Rightarrow> ws_world \<Rightarrow> ws_world" where
  "fire_call_ended i reason s = fire (map (\<lambda>cb. CallEnded cb i reason) (on_call_ended s)) s"

definition fire_call_accepted :: "64 word \<Rightarrow> ws_world \<Rightarrow> ws_world" where
  "fire_call_accepted i s = fire (map (\<lambda>cb. CallAccepted cb i) (on_call_accepted s)) s"

definition fire_token_expired :: "ws_world \<Rightarrow> ws_world" where
  "fire_token_expired s = (case on_token_expired s of None \<Rightarrow> s | Some cb \<Rightarrow> fire [TokenExpiredFired cb] s)"

definition fire_version_mismatch :: "ws_world \<Rightarrow> ws_world" where
  "fire_version_mismatch s = (case on_version_mism s of None \<Rightarrow> s | Some cb \<Rightarrow> fire [VersionMismatchFired cb] s)"

definition set_ready :: "bool \<Rightarrow> ws_world \<Rightarrow> ws_world" where
  "set_ready b s = s\<lparr>ready := b\<rparr>"

definition is_attempting_connect :: "ws_world \<Rightarrow> bool" where
  "is_attempting_connect s \<longleftrightarrow> running s \<and> \<not> ready s"

section \<open>The rule engine\<close>

text \<open>A setter stores its input and, when it changed, goes on to \<open>evaluate\<close>: \<open>owed\<close> counts the
  threads between the two, \<open>tails\<close> those past the lock of a tear-down that have yet to clear the
  sender and drain.\<close>

definition set_token :: "bytes option \<Rightarrow> ws_world \<Rightarrow> ws_world" where
  "set_token t s =
     (let changed = (case (access_token s, t) of
          (Some a, Some b) \<Rightarrow> a \<noteq> b | (None, None) \<Rightarrow> False | _ \<Rightarrow> True)
      in s\<lparr>access_token := t, owed := owed s + (if changed then 1 else 0)\<rparr>)"

definition set_user_disconnect :: "bool \<Rightarrow> ws_world \<Rightarrow> ws_world" where
  "set_user_disconnect d s =
     s\<lparr>user_disconnect := d, owed := owed s + (if user_disconnect s \<noteq> d then 1 else 0)\<rparr>"

definition set_manager_active :: "bool \<Rightarrow> ws_world \<Rightarrow> ws_world" where
  "set_manager_active a s =
     s\<lparr>manager_active := a, owed := owed s + (if manager_active s \<noteq> a then 1 else 0)\<rparr>"

definition set_foreground :: "bool \<Rightarrow> ws_world \<Rightarrow> ws_world" where
  "set_foreground fg s = (if foreground s = fg then s else s\<lparr>foreground := fg\<rparr>)"

definition has_token :: "ws_world \<Rightarrow> bool" where
  "has_token s \<longleftrightarrow> access_token s \<noteq> None"

definition desired_up :: "ws_world \<Rightarrow> bool" where
  "desired_up s \<longleftrightarrow> has_token s \<and> \<not> user_disconnect s \<and> manager_active s"

text \<open>A task that ran to its end or was dropped has no entry; aborting one that is being polled
  takes effect at its next await.\<close>

definition is_finished :: "nat \<Rightarrow> ws_world \<Rightarrow> bool" where
  "is_finished h s \<longleftrightarrow> tasks s h = None"

definition abort_task :: "nat \<Rightarrow> ws_world \<Rightarrow> ws_world" where
  "abort_task h s = (case tasks s h of
       None \<Rightarrow> s
     | Some t \<Rightarrow> s\<lparr>tasks := (tasks s)(h := if t_polling t then Some (t\<lparr>t_aborted := True\<rparr>) else None)\<rparr>)"

definition reap :: "ws_world \<Rightarrow> ws_world" where
  "reap s = (case runloop_handle s of
       Some h \<Rightarrow> if is_finished h s then s\<lparr>runloop_handle := None, running := False, ready := False\<rparr> else s
     | None \<Rightarrow> s)"

definition spawn_run_loop :: "ws_world \<Rightarrow> ws_world" where
  "spawn_run_loop s =
     (let h = next_task s; tok = (case access_token s of Some t \<Rightarrow> t | None \<Rightarrow> []) in
      s\<lparr>running := True, runloop_handle := Some h, next_task := Suc h,
        tasks := (tasks s)(h := Some \<lparr>t_token = tok, t_attempt = 0, t_phase = LoopTop,
          t_polling = False, t_aborted = False\<rparr>)\<rparr>)"

definition evaluate :: "ws_world \<Rightarrow> ws_world" where
  "evaluate s0 =
     (let s = reap s0 in
      case (desired_up s, runloop_handle s) of
        (True, None) \<Rightarrow> spawn_run_loop s
      | (False, Some h) \<Rightarrow>
          (abort_task h (s\<lparr>running := False, ready := False, runloop_handle := None\<rparr>))\<lparr>tails := Suc (tails s)\<rparr>
      | _ \<Rightarrow> s)"

definition evaluate_tail :: "ws_world \<Rightarrow> ws_world" where
  "evaluate_tail s = drain_pending (clear_sender s)"

section \<open>Frame handlers\<close>

datatype handshake_result = HandshakeOk | HandshakeMismatch "32 word" "64 word"

definition handle_handshake_body :: "bytes \<Rightarrow> ws_world \<Rightarrow> handshake_result \<times> ws_world" where
  "handle_handshake_body body s =
     (case decode_handshake body of
        Inl e \<Rightarrow> (HandshakeOk, s)
      | Inr parsed \<Rightarrow>
          if proto_version parsed \<noteq> PROTO_VERSION \<or> api_version parsed \<noteq> API_VERSION
          then (HandshakeMismatch (proto_version parsed) (api_version parsed), s)
          else (HandshakeOk, set_ready True s))"

definition handle_rpc_frame :: "bytes \<Rightarrow> ws_world \<Rightarrow> (proto_error + unmatched_rpc_outcome) \<times> ws_world" where
  "handle_rpc_frame body s =
     (case decode_rpc_response body of
        Inl e \<Rightarrow> (Inl e, s)
      | Inr resp \<Rightarrow> (case dispatch_rpc_response resp s of (out, s) \<Rightarrow> (Inr out, s)))"

definition XC_CALL_STARTED :: u32 where "XC_CALL_STARTED = 52807"
definition XC_CALL_ACCEPTED :: u32 where "XC_CALL_ACCEPTED = 52808"
definition XC_CALL_ENDED :: u32 where "XC_CALL_ENDED = 52809"
definition XC_CALL_RECEIVED :: u32 where "XC_CALL_RECEIVED = 52810"

text \<open>The handlers of nested messages run callbacks from inside the field loop, so the client is
  the state of the loop, and an error leaves with the client as it then is.\<close>

type_synonym handled = "(proto_error + unit) \<times> ws_world"

definition or_fail :: "ws_world \<Rightarrow> ('a \<Rightarrow> (ws_world, handled) flow) \<Rightarrow> proto_error + 'a \<Rightarrow> (ws_world, handled) flow" where
  "or_fail s k v = (case v of Inl e \<Rightarrow> Done (Inl e, s) | Inr x \<Rightarrow> k x)"

definition nested :: "(bytes \<Rightarrow> ws_world \<Rightarrow> handled) \<Rightarrow> ws_world \<Rightarrow> bytes \<Rightarrow> (ws_world, handled) flow" where
  "nested h s b = (case h b s of (Inl e, s') \<Rightarrow> Done (Inl e, s') | (Inr _, s') \<Rightarrow> Go s')"

definition xc_started :: "bytes \<Rightarrow> ws_world \<Rightarrow> ws_world" where
  "xc_started raw s =
     (let call = parse_call_response raw in
      fire_call_received (case call of Some c \<Rightarrow> call_id c | None \<Rightarrow> 0) call s)"

definition xc_accepted :: "bytes \<Rightarrow> ws_world \<Rightarrow> ws_world" where
  "xc_accepted raw s = (case parse_call_response raw of Some c \<Rightarrow> fire_call_accepted (call_id c) s | None \<Rightarrow> s)"

definition xc_ended :: "bytes \<Rightarrow> ws_world \<Rightarrow> ws_world" where
  "xc_ended raw s =
     (let entity = parse_call_ended raw;
          i = (case entity of Some c \<Rightarrow> call_id c | None \<Rightarrow> parse_call_id raw);
          reason = (case entity of Some c \<Rightarrow> discard_reason c | None \<Rightarrow> 0) in
      if i \<noteq> 0 then fire_call_ended i reason s else s)"

definition xc_received :: "bytes \<Rightarrow> ws_world \<Rightarrow> ws_world" where
  "xc_received raw s =
     (case parse_call_received raw of (i, caller) \<Rightarrow>
        if i \<noteq> 0 then
          let stub = (if caller \<noteq> 0 then Some (call_default\<lparr>call_id := i, caller_id := caller\<rparr>) else None) in
          fire_call_received i stub s
        else s)"

definition xc_body :: "u32 \<Rightarrow> u32 \<Rightarrow> ws_world \<Rightarrow> (ws_world, handled) act" where
  "xc_body f w s =
     (if f = XC_CALL_STARTED then Bytes (or_fail s (\<lambda>raw. Go (xc_started raw s)))
      else if f = XC_CALL_ACCEPTED then Bytes (or_fail s (\<lambda>raw. Go (xc_accepted raw s)))
      else if f = XC_CALL_ENDED then Bytes (or_fail s (\<lambda>raw. Go (xc_ended raw s)))
      else if f = XC_CALL_RECEIVED then Bytes (or_fail s (\<lambda>raw. Go (xc_received raw s)))
      else Skip w (or_fail s (\<lambda>_. Go s)))"

definition dispatch_xc :: "bytes \<Rightarrow> ws_world \<Rightarrow> handled" where
  "dispatch_xc body s = field_loop (\<lambda>e s. (Inl e, s)) xc_body (\<lambda>s. (Inr (), s)) s (pr_new body)"

definition update_body :: "u32 \<Rightarrow> u32 \<Rightarrow> ws_world \<Rightarrow> (ws_world, handled) act" where
  "update_body f w s =
     (if f = 1 then Bytes (or_fail s (nested dispatch_xc s))
      else if f = 6 \<or> f = 7 then Bytes (or_fail s (\<lambda>_. Go s))
      else Skip w (or_fail s (\<lambda>_. Go s)))"

definition handle_update_body :: "bytes \<Rightarrow> ws_world \<Rightarrow> handled" where
  "handle_update_body body s = field_loop (\<lambda>e s. (Inl e, s)) update_body (\<lambda>s. (Inr (), s)) s (pr_new body)"

definition push_body :: "u32 \<Rightarrow> u32 \<Rightarrow> ws_world \<Rightarrow> (ws_world, handled) act" where
  "push_body f w s =
     (if f = 1 then Bytes (or_fail s (nested handle_update_body s))
      else Skip w (or_fail s (\<lambda>_. Go s)))"

definition handle_push_container :: "bytes \<Rightarrow> ws_world \<Rightarrow> handled" where
  "handle_push_container body s = field_loop (\<lambda>e s. (Inl e, s)) push_body (\<lambda>s. (Inr (), s)) s (pr_new body)"

section \<open>The run loop\<close>

definition subscribe :: "nat \<Rightarrow> ws_world \<Rightarrow> ws_world" where
  "subscribe q s =
     (case fetch_idx s of (i, s) \<Rightarrow>
        snd (queue_send q (encode_rpc (str ''bale.maviz.v1.MavizStream'') (str ''SubscribeToUpdates'') [] i)
          (set_subscribe_idx i s)))"

definition next_backoff :: "64 word \<Rightarrow> 64 word" where
  "next_backoff prev =
     (if prev = 0 then 1000
      else let doubled = (if 2 * unat prev < 2 ^ 64 then prev * 2 else - 1) in min doubled 30000)"

definition handle_frame :: "nat \<Rightarrow> server_frame \<Rightarrow> ws_world \<Rightarrow> bool \<times> ws_world" where
  "handle_frame q frame s =
     (case frame of
        Handshake body \<Rightarrow>
          (case handle_handshake_body body s of
             (HandshakeOk, s) \<Rightarrow> (False, subscribe q s)
           | (HandshakeMismatch _ _, s) \<Rightarrow> (True, s))
      | RpcOrPush body \<Rightarrow>
          (False, case handle_rpc_frame body s of
             (Inr SubscribeRotation, s) \<Rightarrow> subscribe q s
           | (Inr (SubscribePush pay), s) \<Rightarrow> snd (handle_update_body pay (s\<lparr>subscribe_backoff_ms := 0\<rparr>))
           | (Inr (SubscribeFailed c m), s) \<Rightarrow>
               s\<lparr>subscribe_backoff_ms := next_backoff (subscribe_backoff_ms s), resubs := resubs s @ [q]\<rparr>
           | (_, s) \<Rightarrow> s)
      | PushContainer body \<Rightarrow> (False, snd (handle_push_container body s))
      | _ \<Rightarrow> (False, s))"

text \<open>After a session: 3 s doubling up to 30 s before the next attempt.\<close>

definition reconnect_delay :: "nat \<Rightarrow> nat" where
  "reconnect_delay attempt = min (3 * 2 ^ min attempt 4) 30"

definition put_task :: "nat \<Rightarrow> run_task option \<Rightarrow> ws_world \<Rightarrow> ws_world" where
  "put_task h t s = s\<lparr>tasks := (tasks s)(h := t)\<rparr>"

definition session_done :: "nat \<Rightarrow> run_task \<Rightarrow> session_outcome \<Rightarrow> ws_world \<Rightarrow> ws_world" where
  "session_done h t out s0 =
     (let s = drain_pending (clear_sender (set_ready False s0)) in
      case out of
        TokenExpired \<Rightarrow> put_task h None (fire_token_expired (s\<lparr>quits := quits s @ [(h, out)]\<rparr>))
      | VersionMismatch \<Rightarrow> put_task h None (fire_version_mismatch (s\<lparr>quits := quits s @ [(h, out)]\<rparr>))
      | Disconnected \<Rightarrow>
          if \<not> running s then put_task h None s
          else put_task h (Some (t\<lparr>t_phase := Sleeping (reconnect_delay (t_attempt t)),
                 t_attempt := min (t_attempt t + 1) (2 ^ 32 - 1)\<rparr>)) s)"

definition loop_top :: "nat \<Rightarrow> run_task \<Rightarrow> ws_world \<Rightarrow> ws_world" where
  "loop_top h t s = (if running s then put_task h (Some (t\<lparr>t_phase := Connecting\<rparr>)) s else put_task h None s)"

text \<open>The connection attempt ends with a status of the upgrade response, or in a session.\<close>

definition connect_failed :: "nat \<Rightarrow> run_task \<Rightarrow> nat option \<Rightarrow> ws_world \<Rightarrow> ws_world" where
  "connect_failed h t status s =
     session_done h t (if status = Some 401 \<or> status = Some 403 then TokenExpired else Disconnected) s"

definition on_connected :: "nat \<Rightarrow> run_task \<Rightarrow> 64 word \<Rightarrow> ws_world \<Rightarrow> ws_world" where
  "on_connected h t now s =
     (let q = next_queue s;
          s = install_sender q (s\<lparr>next_queue := Suc q, out_open := (out_open s)(q := True)\<rparr>);
          s = s\<lparr>subscribe_backoff_ms := 0, last_inbound_ts := now\<rparr>;
          s = snd (queue_send q encode_handshake s) in
      put_task h (Some (t\<lparr>t_phase := InSession q False None\<rparr>)) s)"

definition inbound :: "nat \<Rightarrow> run_task \<Rightarrow> nat \<Rightarrow> bool \<Rightarrow> bytes \<Rightarrow> 64 word \<Rightarrow> ws_world \<Rightarrow> ws_world" where
  "inbound h t q mism bs now s =
     put_task h (Some (t\<lparr>t_phase := InSession q mism (Some (pr_new bs))\<rparr>)) (s\<lparr>last_inbound_ts := now\<rparr>)"

text \<open>One turn of the walk over an inbound message, and the check after its last frame.\<close>

definition next_frame :: "nat \<Rightarrow> run_task \<Rightarrow> nat \<Rightarrow> bool \<Rightarrow> proto_reader \<Rightarrow> ws_world \<Rightarrow> ws_world" where
  "next_frame h t q mism r s =
     (let message_done = (if mism then session_done h t VersionMismatch s
            else put_task h (Some (t\<lparr>t_phase := InSession q mism None\<rparr>)) s) in
      if \<not> has_more r then message_done
      else case decode_server_frame r of
        (Inl e, _) \<Rightarrow> message_done
      | (Inr frame, r') \<Rightarrow>
          (case handle_frame q frame s of (bad, s') \<Rightarrow>
             put_task h (Some (t\<lparr>t_phase := InSession q (mism \<or> bad) (Some r')\<rparr>)) s'))"

definition stream_ended :: "nat \<Rightarrow> run_task \<Rightarrow> nat option \<Rightarrow> ws_world \<Rightarrow> ws_world" where
  "stream_ended h t close_code s =
     session_done h t (if close_code = Some 4401 then TokenExpired else Disconnected) s"

text \<open>The liveness task, every 10 s: give up after 30 s of silence, else ping.\<close>

definition saturating_idle :: "64 word \<Rightarrow> 64 word \<Rightarrow> int" where
  "saturating_idle now since = max (- (2 ^ 63)) (min (2 ^ 63 - 1) (sint now - sint since))"

definition liveness_tick :: "nat \<Rightarrow> 64 word \<Rightarrow> ws_world \<Rightarrow> bool \<times> ws_world" where
  "liveness_tick q now s =
     (if saturating_idle now (last_inbound_ts s) > 30000 then (True, s)
      else let i = ping_counter s in
        (False, snd (queue_send q (encode_ping i) (s\<lparr>ping_counter := i + 1\<rparr>))))"

section \<open>RPC wrappers and the name cache\<close>

definition start_call_payload :: "32 word \<Rightarrow> 32 word \<Rightarrow> 64 word \<Rightarrow> bytes" where
  "start_call_payload peer_id peer_type rid =
     (let peer = pw_int32 2 peer_id (pw_int32 1 peer_type pw_new);
          lk_call = pw_int64 2 rid (pw_bytes 1 peer pw_new) in
      pw_bytes 6 lk_call (pw_int64 2 rid (pw_bytes 1 peer pw_new)))"

definition start_call :: "rpc_call_error + bytes \<Rightarrow> call_entity option" where
  "start_call res = (case res of Inr resp \<Rightarrow> parse_call_response resp | Inl _ \<Rightarrow> None)"

definition call_id_payload :: "64 word \<Rightarrow> bytes" where
  "call_id_payload i = pw_int64 1 i pw_new"

definition load_users_payload :: "32 word \<Rightarrow> bytes" where
  "load_users_payload uid = pw_bytes 1 (pw_int64 2 0 (pw_int32 1 uid pw_new)) pw_new"

text \<open>\<open>load_user_name\<close> before the RPC: the answer, or the payload to send; and after it.\<close>

definition load_user_name_lookup :: "32 word \<Rightarrow> ws_world \<Rightarrow> bytes option + bytes" where
  "load_user_name_lookup uid s =
     (if sint uid \<le> 0 then Inl None
      else case name_cache s uid of Some cached \<Rightarrow> Inl cached | None \<Rightarrow> Inr (load_users_payload uid))"

definition user_name_of :: "rpc_call_error + bytes \<Rightarrow> bytes option" where
  "user_name_of res = (case res of Inr b \<Rightarrow> parse_load_users_first_name b | Inl _ \<Rightarrow> None)"

definition load_user_name_done :: "32 word \<Rightarrow> rpc_call_error + bytes \<Rightarrow> ws_world \<Rightarrow> bytes option \<times> ws_world" where
  "load_user_name_done uid res s = (user_name_of res, s\<lparr>name_cache := (name_cache s)(uid \<mapsto> user_name_of res)\<rparr>)"

definition load_self_uid :: "ws_world \<Rightarrow> 32 word option" where
  "load_self_uid s = (case access_token s of None \<Rightarrow> None | Some t \<Rightarrow> map_option word_of_int (decode_jwt_user_id t))"

definition load_self_done :: "32 word \<Rightarrow> rpc_call_error + bytes \<Rightarrow> ws_world \<Rightarrow> (32 word \<times> bytes option) \<times> ws_world" where
  "load_self_done uid res s =
     (let info = (uid, user_name_of res) in (info, s\<lparr>self_info := Some info\<rparr>))"

definition cached_name :: "32 word \<Rightarrow> ws_world \<Rightarrow> bytes option" where
  "cached_name uid s = (case name_cache s uid of Some n \<Rightarrow> n | None \<Rightarrow> None)"

definition populate_names :: "(32 word \<times> bytes option) list \<Rightarrow> ws_world \<Rightarrow> ws_world" where
  "populate_names entries s =
     s\<lparr>name_cache := fold (\<lambda>(uid, n) cache. if sint uid \<le> 0 then cache else cache(uid \<mapsto> n)) entries (name_cache s)\<rparr>"

section \<open>Runs\<close>

text \<open>Everything that can happen next. An operation of a run loop runs only while its task is being
  polled; \<open>Wake\<close> and \<open>Park\<close> start and end a poll, and the end of an aborted task's poll drops it.\<close>

datatype ws_op =
  SetToken "bytes option" | SetUserDisconnect bool | SetManagerActive bool | SetForeground bool
| Evaluate | EvaluateTail
| AddOnCallReceived nat | AddOnCallEnded nat | AddOnCallAccepted nat | SetOnTokenExpired nat | SetOnVersionMismatch nat
| RpcInsert nat bytes bytes bytes | RpcSend nat | RpcFinish nat bool | RpcAbandon nat
| Wake nat | Park nat | LoopTopCheck nat | ConnectFailed nat "nat option" | Connected nat "64 word"
| Inbound nat bytes "64 word" | NextFrame nat | StreamEnded nat "nat option"
| QueueClosed nat | Resubscribe nat | LivenessTick nat "64 word"
| UserNameLoaded "32 word" "rpc_call_error + bytes" | SelfLoaded "32 word" "rpc_call_error + bytes"
| PopulateNames "(32 word \<times> bytes option) list"

definition polled :: "nat \<Rightarrow> (run_task \<Rightarrow> ws_world \<Rightarrow> ws_world) \<Rightarrow> ws_world \<Rightarrow> ws_world" where
  "polled h f s = (case tasks s h of Some t \<Rightarrow> if t_polling t then f t s else s | None \<Rightarrow> s)"

fun rpc_op :: "ws_op \<Rightarrow> ws_world \<Rightarrow> ws_world" where
  "rpc_op (RpcInsert c svc mth pay) s = (if calls s c = NotStarted then rpc_insert c svc mth pay s else s)"
| "rpc_op (RpcSend c) s = (case calls s c of Inserted svc mth pay i \<Rightarrow> rpc_send c svc mth pay i s | _ \<Rightarrow> s)"
| "rpc_op (RpcFinish c timed_out) s = (case calls s c of Awaiting i \<Rightarrow> rpc_finish c i timed_out s | _ \<Rightarrow> s)"
| "rpc_op (RpcAbandon c) s = (case calls s c of Awaiting i \<Rightarrow> s\<lparr>calls := (calls s)(c := Abandoned i)\<rparr> | _ \<Rightarrow> s)"
| "rpc_op _ s = s"

fun loop_op :: "ws_op \<Rightarrow> ws_world \<Rightarrow> ws_world" where
  "loop_op (Wake h) s = (case tasks s h of Some t \<Rightarrow> put_task h (Some (t\<lparr>t_polling := True\<rparr>)) s | None \<Rightarrow> s)"
| "loop_op (Park h) s = polled h (\<lambda>t. put_task h (if t_aborted t then None else Some (t\<lparr>t_polling := False\<rparr>))) s"
| "loop_op (LoopTopCheck h) s = polled h (\<lambda>t s. case t_phase t of
      LoopTop \<Rightarrow> loop_top h t s | Sleeping d \<Rightarrow> loop_top h t s | _ \<Rightarrow> s) s"
| "loop_op (ConnectFailed h status) s = polled h (\<lambda>t s. case t_phase t of
      Connecting \<Rightarrow> connect_failed h t status s | _ \<Rightarrow> s) s"
| "loop_op (Connected h now) s = polled h (\<lambda>t s. case t_phase t of Connecting \<Rightarrow> on_connected h t now s | _ \<Rightarrow> s) s"
| "loop_op (Inbound h bs now) s = polled h (\<lambda>t s. case t_phase t of
      InSession q mism None \<Rightarrow> inbound h t q mism bs now s | _ \<Rightarrow> s) s"
| "loop_op (NextFrame h) s = polled h (\<lambda>t s. case t_phase t of
      InSession q mism (Some r) \<Rightarrow> next_frame h t q mism r s | _ \<Rightarrow> s) s"
| "loop_op (StreamEnded h close_code) s = polled h (\<lambda>t s. case t_phase t of
      InSession q mism None \<Rightarrow> stream_ended h t close_code s | _ \<Rightarrow> s) s"
| "loop_op _ s = s"

fun ws_step :: "ws_op \<Rightarrow> ws_world \<Rightarrow> ws_world" where
  "ws_step (SetToken t) s = set_token t s"
| "ws_step (SetUserDisconnect d) s = set_user_disconnect d s"
| "ws_step (SetManagerActive a) s = set_manager_active a s"
| "ws_step (SetForeground fg) s = set_foreground fg s"
| "ws_step Evaluate s = (if owed s = 0 then s else (evaluate s)\<lparr>owed := owed s - 1\<rparr>)"
| "ws_step EvaluateTail s = (if tails s = 0 then s else (evaluate_tail s)\<lparr>tails := tails s - 1\<rparr>)"
| "ws_step (AddOnCallReceived cb) s = s\<lparr>on_call_received := on_call_received s @ [cb]\<rparr>"
| "ws_step (AddOnCallEnded cb) s = s\<lparr>on_call_ended := on_call_ended s @ [cb]\<rparr>"
| "ws_step (AddOnCallAccepted cb) s = s\<lparr>on_call_accepted := on_call_accepted s @ [cb]\<rparr>"
| "ws_step (SetOnTokenExpired cb) s = s\<lparr>on_token_expired := Some cb\<rparr>"
| "ws_step (SetOnVersionMismatch cb) s = s\<lparr>on_version_mism := Some cb\<rparr>"
| "ws_step (QueueClosed q) s = s\<lparr>out_open := (out_open s)(q := False)\<rparr>"
| "ws_step (Resubscribe q) s = (if q \<in> set (resubs s) then subscribe q (s\<lparr>resubs := remove1 q (resubs s)\<rparr>) else s)"
| "ws_step (LivenessTick q now) s = snd (liveness_tick q now s)"
| "ws_step (UserNameLoaded uid res) s = (if sint uid \<le> 0 then s else snd (load_user_name_done uid res s))"
| "ws_step (SelfLoaded uid res) s = snd (load_self_done uid res s)"
| "ws_step (PopulateNames entries) s = populate_names entries s"
| "ws_step op s = loop_op op (rpc_op op s)"

definition ws_run :: "ws_op list \<Rightarrow> ws_world" where
  "ws_run ops = fold ws_step ops ws_new"

end
