(* ===== verification/Ws_Rules.thy ===== *)
theory Ws_Rules
  imports Ws_Client Transition
begin

text \<open>
  What holds of the rule engine of the WebSocket client in every interleaving: there is at most one run
  loop that was not told to stop, its slot is occupied exactly when the inputs ask for a connection, and
  the loop in the slot is alive unless it ended by itself.
\<close>

section \<open>Handlers only call listeners\<close>

definition only_fired :: "ws_world \<Rightarrow> ws_world \<Rightarrow> bool" where
  "only_fired s s' \<longleftrightarrow> (\<exists>l. s' = s\<lparr>fired_log := l\<rparr>)"

lemma only_fired_refl [simp]: "only_fired s s"
  unfolding only_fired_def by (rule exI [of _ "fired_log s"]) simp

lemma only_fired_fire: "only_fired s t \<Longrightarrow> only_fired s (fire es t)"
  by (auto simp: only_fired_def fire_def)

lemma only_fired_calls:
  "only_fired s t \<Longrightarrow> only_fired s (fire_call_received i call t)"
  "only_fired s t \<Longrightarrow> only_fired s (fire_call_ended i reason t)"
  "only_fired s t \<Longrightarrow> only_fired s (fire_call_accepted i t)"
  "only_fired s t \<Longrightarrow> only_fired s (fire_token_expired t)"
  "only_fired s t \<Longrightarrow> only_fired s (fire_version_mismatch t)"
  by (auto simp: fire_call_received_def fire_call_ended_def fire_call_accepted_def fire_token_expired_def
      fire_version_mismatch_def only_fired_fire split: option.split)

lemma only_fired_xc:
  "only_fired s t \<Longrightarrow> only_fired s (xc_started raw t)" "only_fired s t \<Longrightarrow> only_fired s (xc_accepted raw t)"
  "only_fired s t \<Longrightarrow> only_fired s (xc_ended raw t)" "only_fired s t \<Longrightarrow> only_fired s (xc_received raw t)"
  by (auto simp: xc_started_def xc_accepted_def xc_ended_def xc_received_def Let_def only_fired_calls
      split: option.split prod.split)

lemma or_fail_ok:
  "P s \<Longrightarrow> (\<And>x. flow_ok P (P \<circ> snd) (k x)) \<Longrightarrow> flow_ok P (P \<circ> snd) (or_fail s k v)"
  by (cases v) (auto simp: or_fail_def)

lemma nested_ok: "P (snd (h b s)) \<Longrightarrow> flow_ok P (P \<circ> snd) (nested h s b)"
  by (auto simp: nested_def split: prod.split sum.split)

lemma loop_only_fired:
  assumes "\<And>f w t. only_fired s t \<Longrightarrow> act_ok (only_fired s) (only_fired s \<circ> snd) (body f w t)"
  shows "only_fired s t \<Longrightarrow>
    only_fired s (snd (field_loop (\<lambda>e s. (Inl e, s)) body (\<lambda>s. (Inr (), s)) t r :: handled))"
  using field_loop_inv [of "only_fired s" "only_fired s \<circ> snd" body "\<lambda>e s. (Inl e, s)" "\<lambda>s. (Inr (), s)" t r] assms
  by simp

lemma dispatch_xc_only_fired: "only_fired s t \<Longrightarrow> only_fired s (snd (dispatch_xc b t))"
  unfolding dispatch_xc_def by (rule loop_only_fired) (auto simp: xc_body_def or_fail_ok only_fired_xc)

lemma handle_update_only_fired: "only_fired s t \<Longrightarrow> only_fired s (snd (handle_update_body b t))"
  unfolding handle_update_body_def
  by (rule loop_only_fired) (auto simp: update_body_def or_fail_ok nested_ok dispatch_xc_only_fired)

lemma handle_push_only_fired: "only_fired s t \<Longrightarrow> only_fired s (snd (handle_push_container b t))"
  unfolding handle_push_container_def
  by (rule loop_only_fired) (auto simp: push_body_def or_fail_ok nested_ok handle_update_only_fired)

section \<open>The rule engine\<close>

definition rule_view where
  "rule_view s = (user_disconnect s, manager_active s, access_token s, running s, runloop_handle s,
     tasks s, next_task s, owed s, quits s)"

text \<open>The slot and \<open>running\<close> agree; a run loop that was not told to stop is the one in the slot; and
  once every setter has evaluated, there is one exactly when the inputs ask for it.\<close>

definition rule_inv :: "ws_world \<Rightarrow> bool" where
  "rule_inv s \<longleftrightarrow>
     (running s \<longleftrightarrow> runloop_handle s \<noteq> None) \<and>
     (\<forall>h t. tasks s h = Some t \<longrightarrow> \<not> t_aborted t \<longrightarrow> runloop_handle s = Some h) \<and>
     (owed s = 0 \<longrightarrow> (runloop_handle s \<noteq> None \<longleftrightarrow> desired_up s))"

interpretation rules: framed_invariant rule_view rule_inv
  by unfold_locales (simp add: rule_view_def rule_inv_def desired_up_def has_token_def)

lemmas rule_inv_view = rules.frame

lemma rule_view_only_fired: "only_fired s s' \<Longrightarrow> rule_view s' = rule_view s"
  by (auto simp: only_fired_def rule_view_def)

lemma rule_view_simps [simp]:
  "rule_view (snd (queue_send q b s)) = rule_view s" "rule_view (fire es s) = rule_view s"
  "rule_view (drop_responder p s) = rule_view s" "rule_view (remove_pending i s) = rule_view s"
  "rule_view (drain_pending s) = rule_view s" "rule_view (clear_sender s) = rule_view s"
  "rule_view (set_ready rd s) = rule_view s" "rule_view (set_subscribe_idx i s) = rule_view s"
  "rule_view (fire_token_expired s) = rule_view s" "rule_view (fire_version_mismatch s) = rule_view s"
  by (simp_all add: queue_send_def fire_def drop_responder_def remove_pending_def drain_pending_def
      clear_sender_def set_ready_def set_subscribe_idx_def fire_token_expired_def fire_version_mismatch_def
      rule_view_def Let_def split: option.split)

lemma rule_view_upd [simp]:
  "rule_view (s\<lparr>calls := x\<rparr>) = rule_view s" "rule_view (s\<lparr>oneshots := x2\<rparr>) = rule_view s"
  "rule_view (s\<lparr>pending := x3\<rparr>) = rule_view s" "rule_view (s\<lparr>rpc_idx := x4\<rparr>) = rule_view s"
  "rule_view (s\<lparr>out_sent := x5\<rparr>) = rule_view s" "rule_view (s\<lparr>subscribe_backoff_ms := x6\<rparr>) = rule_view s"
  "rule_view (s\<lparr>resubs := x7\<rparr>) = rule_view s" "rule_view (s\<lparr>replies := x8\<rparr>) = rule_view s"
  "rule_view (s\<lparr>next_queue := x9\<rparr>) = rule_view s" "rule_view (s\<lparr>out_open := x10\<rparr>) = rule_view s"
  "rule_view (s\<lparr>send_tx := x11\<rparr>) = rule_view s" "rule_view (s\<lparr>last_inbound_ts := x12\<rparr>) = rule_view s"
  "rule_view (s\<lparr>ping_counter := x13\<rparr>) = rule_view s" "rule_view (s\<lparr>name_cache := x14\<rparr>) = rule_view s"
  "rule_view (s\<lparr>self_info := x15\<rparr>) = rule_view s" "rule_view (s\<lparr>ready := x16\<rparr>) = rule_view s"
  "rule_view (s\<lparr>foreground := x17\<rparr>) = rule_view s" "rule_view (s\<lparr>tails := x18\<rparr>) = rule_view s"
  "rule_view (s\<lparr>on_call_received := x19\<rparr>) = rule_view s" "rule_view (s\<lparr>on_call_ended := x19\<rparr>) = rule_view s"
  "rule_view (s\<lparr>on_call_accepted := x19\<rparr>) = rule_view s" "rule_view (s\<lparr>on_token_expired := x20\<rparr>) = rule_view s"
  "rule_view (s\<lparr>on_version_mism := x20\<rparr>) = rule_view s"
  by (simp_all add: rule_view_def)

lemma rule_view_rpc [simp]:
  "rule_view (rpc_insert c svc mth pay s) = rule_view s" "rule_view (rpc_return c i res s) = rule_view s"
  by (simp_all add: rpc_insert_def rpc_return_def fetch_idx_def Let_def)

lemma rule_view_rpc_op: "rule_view (rpc_op op s) = rule_view s"
  by (cases op) (auto simp: rpc_send_def rpc_finish_def queue_send_def split: rpc_state.split option.split
      oneshot.split sum.split prod.split)

lemma rule_view_subscribe [simp]: "rule_view (subscribe q s) = rule_view s"
  by (simp add: subscribe_def fetch_idx_def)

lemma rule_view_dispatch [simp]: "rule_view (snd (dispatch_rpc_response resp s)) = rule_view s"
  by (simp add: dispatch_rpc_response_def Let_def split: option.split)

lemma rule_view_rpc_frame [simp]: "rule_view (snd (handle_rpc_frame b s)) = rule_view s"
proof (cases "decode_rpc_response b")
  case (Inr resp)
  obtain o' s' where "dispatch_rpc_response resp s = (o', s')" by fastforce
  then show ?thesis using rule_view_dispatch [of resp s] Inr by (simp add: handle_rpc_frame_def)
qed (simp add: handle_rpc_frame_def)

lemma rule_view_handshake [simp]: "rule_view (snd (handle_handshake_body b s)) = rule_view s"
  by (simp add: handle_handshake_body_def split: sum.split)

lemma rule_view_updates [simp]:
  "rule_view (snd (handle_update_body b s)) = rule_view s" "rule_view (snd (handle_push_container b s)) = rule_view s"
  by (simp_all add: rule_view_only_fired handle_update_only_fired handle_push_only_fired)

lemma rule_view_handle_frame [simp]: "rule_view (snd (handle_frame q frame s)) = rule_view s"
proof (cases frame)
  case (RpcOrPush b)
  obtain r s' where r: "handle_rpc_frame b s = (r, s')" by fastforce
  have "rule_view s' = rule_view s" using rule_view_rpc_frame [of b s] r by simp
  then show ?thesis using RpcOrPush r
    by (simp add: handle_frame_def split: sum.split unmatched_rpc_outcome.split)
next
  case (Handshake b)
  obtain r s' where r: "handle_handshake_body b s = (r, s')" by fastforce
  have "rule_view s' = rule_view s" using rule_view_handshake [of b s] r by simp
  then show ?thesis using Handshake r by (simp add: handle_frame_def split: handshake_result.split)
qed (simp_all add: handle_frame_def)

lemma rule_inv_put:
  "rule_inv s \<Longrightarrow> tasks s h = Some t \<Longrightarrow> t_aborted t' = t_aborted t \<Longrightarrow> rule_inv (put_task h (Some t') s)"
  "rule_inv s \<Longrightarrow> rule_inv (put_task h None s)"
  by (auto simp: rule_inv_def put_task_def desired_up_def has_token_def)

lemma tasks_view: "rule_view s' = rule_view s \<Longrightarrow> tasks s' = tasks s"
  by (simp add: rule_view_def)

lemma rule_inv_put_view:
  assumes "rule_inv s" "tasks s h = Some t" "rule_view s' = rule_view s"
  shows "t_aborted t' = t_aborted t \<Longrightarrow> rule_inv (put_task h (Some t') s')" "rule_inv (put_task h None s')"
  using assms rule_inv_put rule_inv_view [OF assms(3)] tasks_view [OF assms(3)] by simp_all

lemma quits_view:
  assumes "rule_view s' = rule_view s"
  shows "rule_view (fire_token_expired (s'\<lparr>quits := quits s' @ [x]\<rparr>)) = rule_view (s\<lparr>quits := quits s @ [x]\<rparr>)"
    and "rule_view (fire_version_mismatch (s'\<lparr>quits := quits s' @ [x]\<rparr>)) = rule_view (s\<lparr>quits := quits s @ [x]\<rparr>)"
  using assms by (simp_all, simp_all add: rule_view_def)

lemma cleared_view: "rule_view (drain_pending (clear_sender (set_ready False s))) = rule_view s"
  by simp

lemma rule_inv_quits [simp]: "rule_inv (s\<lparr>quits := qs\<rparr>) = rule_inv s"
  by (simp add: rule_inv_def desired_up_def has_token_def)

lemma rule_inv_quit:
  assumes "rule_inv s" "rule_view s' = rule_view (s\<lparr>quits := qs\<rparr>)"
  shows "rule_inv (put_task h None s')"
proof -
  have "rule_inv s'" using assms rule_inv_view by (metis rule_inv_quits)
  then show ?thesis by (rule rule_inv_put(2))
qed

lemma rule_inv_session_done:
  assumes "rule_inv s" "tasks s h = Some t"
  shows "rule_inv (session_done h t out s)"
  by (cases out) (simp_all add: session_done_def Let_def rule_inv_put_view [OF assms cleared_view]
      rule_inv_quit [OF assms(1) quits_view(1) [OF cleared_view]] rule_inv_quit [OF assms(1) quits_view(2) [OF cleared_view]])

lemma rule_inv_next_frame:
  assumes "rule_inv s" "tasks s h = Some t"
  shows "rule_inv (next_frame h t q mism r s)"
proof -
  have "rule_view s' = rule_view s" if "handle_frame q fr s = (b, s')" for fr b s'
    using rule_view_handle_frame [of q fr s] that by simp
  then show ?thesis
    by (auto simp: next_frame_def Let_def rule_inv_put_view [OF assms] rule_inv_session_done [OF assms]
        split: prod.split sum.split)
qed

lemma rule_inv_loop_op:
  assumes "rule_inv s"
  shows "rule_inv (loop_op op s)"
  using assms
  by (cases op) (auto simp: polled_def loop_top_def connect_failed_def on_connected_def inbound_def stream_ended_def
      Let_def rule_inv_put_view rule_inv_session_done rule_inv_next_frame install_sender_def
      intro: rule_inv_put split: option.split loop_phase.split)

lemma reap_desired: "desired_up (reap s) = desired_up s"
  by (simp add: reap_def desired_up_def has_token_def split: option.split)

lemma rule_inv_evaluate:
  assumes "rule_inv s"
  shows "rule_inv ((evaluate s)\<lparr>owed := n\<rparr>)"
proof -
  have r: "running (reap s) \<longleftrightarrow> runloop_handle (reap s) \<noteq> None"
    "tasks (reap s) h = Some t \<Longrightarrow> \<not> t_aborted t \<Longrightarrow> runloop_handle (reap s) = Some h" for h t
    using assms by (auto simp: rule_inv_def reap_def is_finished_def split: option.split)
  show ?thesis
  proof (cases "desired_up (reap s)"; cases "runloop_handle (reap s)")
    fix h assume "\<not> desired_up (reap s)" "runloop_handle (reap s) = Some h"
    then show ?thesis using r
      by (auto simp: evaluate_def Let_def abort_task_def rule_inv_def desired_up_def has_token_def
          split: option.splits if_splits)
  qed (use r in \<open>auto simp: evaluate_def Let_def spawn_run_loop_def rule_inv_def desired_up_def has_token_def\<close>)
qed

lemma rule_inv_step:
  assumes "rule_inv s"
  shows "rule_inv (ws_step op s)"
proof -
  have v: "rule_inv s'" if "rule_view s' = rule_view s" for s' using assms rule_inv_view that by blast
  have l: "rule_inv (loop_op op (rpc_op op s))" using rule_inv_loop_op v rule_view_rpc_op by blast
  show ?thesis
  proof (cases op)
    case (SetToken t)
    then show ?thesis using assms
      by (auto simp: set_token_def rule_inv_def desired_up_def has_token_def Let_def split: option.splits)
  next
    case (SetUserDisconnect d)
    then show ?thesis using assms by (auto simp: set_user_disconnect_def rule_inv_def desired_up_def has_token_def)
  next
    case (SetManagerActive a)
    then show ?thesis using assms by (auto simp: set_manager_active_def rule_inv_def desired_up_def has_token_def)
  next
    case Evaluate
    then show ?thesis using assms rule_inv_evaluate by simp
  qed (use assms l v in \<open>simp_all add: set_foreground_def evaluate_tail_def liveness_tick_def Let_def
      load_user_name_done_def load_self_done_def populate_names_def\<close>)
qed

interpretation rule_runs: run_invariant ws_new ws_step "Suc (length ops)" "\<lambda>_. rule_inv" for ops
proof
  show "rule_inv ws_new" by (simp add: ws_new_def rule_inv_def desired_up_def has_token_def)
qed (rule rule_inv_step)

lemma rule_inv_run: "rule_inv (ws_run ops)"
  using rule_runs.run [of ops ops] by (simp add: ws_run_def)

text \<open>The run loop of the handle in the slot is alive and was not told to stop, or it ended by itself on a
  rejected token or a version mismatch.\<close>

definition quit :: "(nat \<times> session_outcome) list \<Rightarrow> nat \<Rightarrow> bool" where
  "quit qs h \<longleftrightarrow> (h, TokenExpired) \<in> set qs \<or> (h, VersionMismatch) \<in> set qs"

definition loop_ok :: "(nat \<times> session_outcome) list \<Rightarrow> nat \<Rightarrow> run_task option \<Rightarrow> bool" where
  "loop_ok qs h x \<longleftrightarrow> (case x of Some t \<Rightarrow> \<not> t_aborted t | None \<Rightarrow> quit qs h)"

definition slot_inv :: "ws_world \<Rightarrow> bool" where
  "slot_inv s \<longleftrightarrow> (case runloop_handle s of None \<Rightarrow> True | Some h \<Rightarrow> loop_ok (quits s) h (tasks s h))"

interpretation slots: framed_invariant rule_view slot_inv
proof unfold_locales
  fix s t :: ws_world
  assume "rule_view s = rule_view t"
  then have "runloop_handle s = runloop_handle t" "quits s = quits t" "tasks s = tasks t" by (simp_all add: rule_view_def)
  then show "slot_inv s = slot_inv t" by (cases "runloop_handle t") (simp_all add: slot_inv_def)
qed

lemmas slot_inv_view = slots.frame

lemma loop_ok_mono: "loop_ok qs h x \<Longrightarrow> loop_ok (qs @ [q]) h x"
  by (auto simp: loop_ok_def quit_def split: option.splits)

lemma slot_put:
  assumes "slot_inv s"
  shows "runloop_handle s \<noteq> Some h \<Longrightarrow> slot_inv (put_task h x s)"
    and "tasks s h = Some t \<Longrightarrow> t_aborted t' = t_aborted t \<Longrightarrow> slot_inv (put_task h (Some t') s)"
    and "out = TokenExpired \<or> out = VersionMismatch \<Longrightarrow> slot_inv (put_task h None (s\<lparr>quits := quits s @ [(h, out)]\<rparr>))"
  using assms
  by (auto simp: slot_inv_def put_task_def loop_ok_mono split: option.splits)
    (auto simp: loop_ok_def quit_def)

text \<open>A run loop that finds \<open>running\<close> cleared, or that was told to stop, is not the one in the slot.\<close>

lemma stopped_not_in_slot:
  "rule_inv s \<Longrightarrow> \<not> running s \<Longrightarrow> runloop_handle s \<noteq> Some h"
  "slot_inv s \<Longrightarrow> tasks s h = Some t \<Longrightarrow> t_aborted t \<Longrightarrow> runloop_handle s \<noteq> Some h"
  by (auto simp: rule_inv_def slot_inv_def loop_ok_def)

lemma view_fields:
  assumes "rule_view s' = rule_view s"
  shows "running s' = running s" "runloop_handle s' = runloop_handle s"
  using assms by (simp_all add: rule_view_def)

lemma slot_put_view:
  assumes "rule_inv s" "slot_inv s" "tasks s h = Some t" "rule_view s' = rule_view s"
  shows "t_aborted t' = t_aborted t \<Longrightarrow> slot_inv (put_task h (Some t') s')"
    and "\<not> running s' \<Longrightarrow> slot_inv (put_task h None s')"
    and "t_aborted t \<Longrightarrow> slot_inv (put_task h None s')"
  using slot_put [where s = s' and h = h] slot_inv_view [OF assms(4)] tasks_view [OF assms(4)] view_fields [OF assms(4)]
    stopped_not_in_slot [of s] assms(1-3)
  by simp_all

lemma slot_put_quit:
  assumes "slot_inv s" "out = TokenExpired \<or> out = VersionMismatch"
    "rule_view s' = rule_view (s\<lparr>quits := quits s @ [(h, out)]\<rparr>)"
  shows "slot_inv (put_task h None s')"
proof -
  have "rule_view (put_task h None s') = rule_view (put_task h None (s\<lparr>quits := quits s @ [(h, out)]\<rparr>))"
    using assms(3) by (simp add: rule_view_def put_task_def)
  then show ?thesis using slot_inv_view slot_put(3) [OF assms(1,2)] by blast
qed

lemma slot_session_done:
  assumes "rule_inv s" "slot_inv s" "tasks s h = Some t"
  shows "slot_inv (session_done h t out s)"
  by (cases out) (simp_all add: session_done_def Let_def slot_put_view [OF assms cleared_view]
      slot_put_quit [OF assms(2) _ quits_view(1) [OF cleared_view]] slot_put_quit [OF assms(2) _ quits_view(2) [OF cleared_view]])

lemma slot_next_frame:
  assumes "rule_inv s" "slot_inv s" "tasks s h = Some t"
  shows "slot_inv (next_frame h t q mism r s)"
proof -
  have "rule_view s' = rule_view s" if "handle_frame q fr s = (b, s')" for fr b s'
    using rule_view_handle_frame [of q fr s] that by simp
  then show ?thesis
    by (auto simp: next_frame_def Let_def slot_put_view(1) [OF assms] slot_session_done [OF assms]
        split: prod.split sum.split)
qed

lemma slot_loop_op:
  assumes "rule_inv s" "slot_inv s"
  shows "slot_inv (loop_op op s)"
  using assms
  by (cases op) (auto simp: polled_def loop_top_def connect_failed_def on_connected_def inbound_def stream_ended_def
      Let_def slot_put_view(1) slot_session_done slot_next_frame install_sender_def
      intro: slot_put_view(2,3) split: option.split loop_phase.split)

lemma slot_evaluate: "slot_inv s \<Longrightarrow> slot_inv ((evaluate s)\<lparr>owed := n\<rparr>)"
proof -
  assume "slot_inv s"
  then have r: "slot_inv (reap s)" by (cases "runloop_handle s") (simp_all add: slot_inv_def reap_def)
  show ?thesis
  proof (cases "desired_up (reap s)"; cases "runloop_handle (reap s)")
    fix h assume "\<not> desired_up (reap s)" "runloop_handle (reap s) = Some h"
    then show ?thesis by (simp add: evaluate_def Let_def abort_task_def slot_inv_def split: option.split)
  qed (use r in \<open>simp_all add: evaluate_def Let_def spawn_run_loop_def slot_inv_def loop_ok_def\<close>)
qed

lemma slot_upd [simp]:
  "slot_inv (s\<lparr>access_token := x1\<rparr>) = slot_inv s" "slot_inv (s\<lparr>user_disconnect := x2\<rparr>) = slot_inv s"
  "slot_inv (s\<lparr>manager_active := x3\<rparr>) = slot_inv s" "slot_inv (s\<lparr>owed := x4\<rparr>) = slot_inv s"
  by (cases "runloop_handle s"; simp add: slot_inv_def)+

lemma slot_step:
  assumes "rule_inv s" "slot_inv s"
  shows "slot_inv (ws_step op s)"
proof -
  have v: "slot_inv s'" if "rule_view s' = rule_view s" for s' using assms(2) slot_inv_view that by blast
  have l: "slot_inv (loop_op op (rpc_op op s))"
    using slot_loop_op v rule_view_rpc_op rule_inv_view [OF rule_view_rpc_op] assms(1) by blast
  show ?thesis
  proof (cases op)
    case Evaluate
    then show ?thesis using assms slot_evaluate by simp
  qed (use assms l v in \<open>simp_all add: set_token_def set_user_disconnect_def set_manager_active_def set_foreground_def
      evaluate_tail_def liveness_tick_def Let_def load_user_name_done_def load_self_done_def populate_names_def\<close>)
qed

interpretation slot_runs: run_invariant ws_new ws_step "Suc (length ops)" "\<lambda>_ s. rule_inv s \<and> slot_inv s" for ops
proof
  show "rule_inv ws_new \<and> slot_inv ws_new" by (simp add: ws_new_def rule_inv_def slot_inv_def desired_up_def has_token_def)
qed (simp add: rule_inv_step slot_step)

lemma slot_inv_run: "slot_inv (ws_run ops)"
  using slot_runs.run [of ops ops] by (simp add: ws_run_def)

text \<open>C22. In every interleaving of setters, evaluations and run loops, \<open>running\<close> is set exactly
  while the slot holds a handle, and the only run loop that has not been told to stop is the one in the
  slot. The loop of the handle in the slot is alive and not told to stop, unless it ended by itself on a
  rejected token or a version mismatch. When no setter is between its store and its evaluation, the slot is
  occupied exactly when there is a token, the user has not disconnected and the manager is active; so with one
  of them missing every run loop left has been told to stop.\<close>

theorem ws_one_run_loop:
  "(running (ws_run ops) \<longleftrightarrow> runloop_handle (ws_run ops) \<noteq> None) \<and>
   (\<forall>h t. tasks (ws_run ops) h = Some t \<and> \<not> t_aborted t \<longrightarrow> runloop_handle (ws_run ops) = Some h) \<and>
   (\<forall>h. runloop_handle (ws_run ops) = Some h \<longrightarrow>
      (\<exists>t. tasks (ws_run ops) h = Some t \<and> \<not> t_aborted t) \<or>
      tasks (ws_run ops) h = None \<and>
        ((h, TokenExpired) \<in> set (quits (ws_run ops)) \<or> (h, VersionMismatch) \<in> set (quits (ws_run ops)))) \<and>
   (owed (ws_run ops) = 0 \<longrightarrow>
     (runloop_handle (ws_run ops) \<noteq> None \<longleftrightarrow>
        access_token (ws_run ops) \<noteq> None \<and> \<not> user_disconnect (ws_run ops) \<and> manager_active (ws_run ops)))"
proof -
  let ?s = "ws_run ops"
  have "(\<exists>t. tasks ?s h = Some t \<and> \<not> t_aborted t) \<or> tasks ?s h = None \<and>
      ((h, TokenExpired) \<in> set (quits ?s) \<or> (h, VersionMismatch) \<in> set (quits ?s))" if "runloop_handle ?s = Some h" for h
    using slot_inv_run [of ops] that by (cases "tasks ?s h") (simp_all add: slot_inv_def loop_ok_def quit_def)
  then show ?thesis using rule_inv_run [of ops] unfolding rule_inv_def desired_up_def has_token_def by blast
qed

definition up_ops :: "ws_op list" where
  "up_ops = [SetToken (Some [1]), Evaluate, Wake 0, LoopTopCheck 0]"

lemmas ws_eval = ws_run_def ws_new_def up_ops_def set_token_def evaluate_def reap_def desired_up_def has_token_def
  spawn_run_loop_def polled_def put_task_def loop_top_def set_manager_active_def abort_task_def is_finished_def
  on_connected_def install_sender_def queue_send_def inbound_def next_frame_def handle_frame_def
  set_ready_def subscribe_def fetch_idx_def set_subscribe_idx_def clear_sender_def drain_pending_def
  evaluate_tail_def connect_failed_def stream_ended_def session_done_def fire_token_expired_def
  reconnect_delay_def is_attempting_connect_def

theorem ws_one_run_loop_witness:
  "owed (ws_run (up_ops @ [SetManagerActive False, Evaluate])) = 0 \<and>
   runloop_handle (ws_run up_ops) = Some 0 \<and>
   runloop_handle (ws_run (up_ops @ [SetManagerActive False, Evaluate])) = None \<and>
   running (ws_run (up_ops @ [SetManagerActive False, Evaluate])) = False"
proof -
  have o: "owed (ws_run (up_ops @ [SetManagerActive False, Evaluate])) = 0"
    "manager_active (ws_run (up_ops @ [SetManagerActive False, Evaluate])) = False"
    and u: "tasks (ws_run up_ops) 0 = Some \<lparr>t_token = [1], t_attempt = 0, t_phase = Connecting, t_polling = True, t_aborted = False\<rparr>"
    by (simp_all add: ws_eval)
  then show ?thesis
    using ws_one_run_loop [of "up_ops @ [SetManagerActive False, Evaluate]"] ws_one_run_loop [of up_ops] by simp
qed

text \<open>A handshake frame with this client's versions, as the server answers it.\<close>

definition handshake_frame :: bytes where
  "handshake_frame = write_field (5, PLen (write_fields [(1, PVar 1), (2, PVar API_VERSION)])) []"

definition session_ops :: "ws_op list" where
  "session_ops = up_ops @ [Connected 0 5, Inbound 0 handshake_frame 6]"

lemma frame_written:
  assumes "length (write_field (f, PLen b) []) < 2 ^ 64"
  shows "has_more (pr_new (write_field (f, PLen b) []))"
    "\<exists>r. \<not> has_more r \<and> decode_server_frame (pr_new (write_field (f, PLen b) [])) =
      (Inr (if f = 1 then RpcOrPush b else if f = 2 then PushContainer b else if f = 3 then Terminate b
         else if f = 4 then Pong b else if f = 5 then Handshake b else Other f b), r)"
proof -
  let ?r = "pr_new (write_field (f, PLen b) [])"
  let ?r2 = "?r\<lparr>r_pos := r_pos ?r + length (write_field (f, PLen b) [])\<rparr>"
  have d: "drop (r_pos ?r) (r_buf ?r) = write_field (f, PLen b) [] @ []" by (simp add: pr_new_def)
  obtain r1 where r1: "has_more ?r" "pr_tag ?r = (Inr (f, 2), r1)" "pr_bytes r1 = (Inr b, ?r2)"
    using field_read [OF d] assms by (auto simp: pr_new_def)
  then show "has_more ?r" by simp
  have "\<not> has_more ?r2" by (simp add: has_more_def pr_new_def)
  then show "\<exists>r. \<not> has_more r \<and> decode_server_frame ?r =
      (Inr (if f = 1 then RpcOrPush b else if f = 2 then PushContainer b else if f = 3 then Terminate b
         else if f = 4 then Pong b else if f = 5 then Handshake b else Other f b), r)"
    using r1 by (auto simp: decode_server_frame_def)
qed

lemma handshake_written:
  "decode_handshake (write_fields [(1, PVar 1), (2, PVar API_VERSION)]) = Inr \<lparr>proto_version = 1, api_version = API_VERSION\<rparr>"
proof -
  have "length (write_fields [(1, PVar 1), (2, PVar API_VERSION)]) = 6" by code_simp
  then show ?thesis unfolding decode_handshake_def by (intro field_loop_written) simp_all
qed

lemma handshake_ok:
  "handle_handshake_body (write_fields [(1, PVar 1), (2, PVar API_VERSION)]) s = (HandshakeOk, s\<lparr>ready := True\<rparr>)"
  by (simp add: handle_handshake_body_def handshake_written set_ready_def PROTO_VERSION_def)

lemma handshake_read:
  "\<exists>r. \<not> has_more r \<and> decode_server_frame (pr_new handshake_frame) =
     (Inr (Handshake (write_fields [(1, PVar 1), (2, PVar API_VERSION)])), r)"
  "has_more (pr_new handshake_frame)"
proof -
  have "length (write_field (5, PLen (write_fields [(1, PVar 1), (2, PVar API_VERSION)])) []) = 8" by code_simp
  then show "has_more (pr_new handshake_frame)" "\<exists>r. \<not> has_more r \<and> decode_server_frame (pr_new handshake_frame) =
     (Inr (Handshake (write_fields [(1, PVar 1), (2, PVar API_VERSION)])), r)"
    using frame_written [of 5 "write_fields [(1, PVar 1), (2, PVar API_VERSION)]"] by (simp_all add: handshake_frame_def)
qed

text \<open>What the rule engine does not give. A token that changes while a run loop is alive is not
  used: the loop keeps the old one. After a rejected token the loop has ended, yet the client still
  reports a connection attempt. A handshake that a poll is processing while the connection is torn
  down leaves the client ready with no run loop. The late tail of a tear-down clears the sender of
  the next session. The reconnect delay goes on growing across a session that reached its handshake.\<close>

theorem ws_rule_gaps:
  "(let s = ws_run (up_ops @ [SetToken (Some [2]), Evaluate]) in
      owed s = 0 \<and> access_token s = Some [2] \<and> map_option t_token (tasks s 0) = Some [1] \<and> next_task s = 1) \<and>
   (let s = ws_run (up_ops @ [ConnectFailed 0 (Some 401)]) in
      tasks s 0 = None \<and> owed s = 0 \<and> is_attempting_connect s) \<and>
   (let s = ws_run (session_ops @ [SetManagerActive False, Evaluate, EvaluateTail, NextFrame 0, NextFrame 0, Park 0]) in
      ready s \<and> runloop_handle s = None \<and> tasks s 0 = None \<and> owed s = 0 \<and> tails s = 0) \<and>
   (let s = ws_run (session_ops @ [SetManagerActive False, Evaluate, SetManagerActive True, Evaluate, Wake 1,
        LoopTopCheck 1, Connected 1 9, EvaluateTail]) in
      map_option t_phase (tasks s 1) = Some (InSession 1 False None) \<and> out_open s 1 \<and> send_tx s = None) \<and>
   (let s = ws_run (up_ops @ [ConnectFailed 0 None, LoopTopCheck 0, Connected 0 5, Inbound 0 handshake_frame 6,
        NextFrame 0, NextFrame 0]) in
      ready s \<and> map_option t_phase (tasks (ws_step (StreamEnded 0 None) s) 0) = Some (Sleeping 6))"
proof -
  obtain r where r: "\<not> has_more r" "decode_server_frame (pr_new handshake_frame) =
     (Inr (Handshake (write_fields [(1, PVar 1), (2, PVar API_VERSION)])), r)"
    using handshake_read by blast
  show ?thesis by (simp add: ws_eval session_ops_def handshake_read(2) r handshake_ok Let_def)
qed

end
