(* ===== verification/Ws_Rpc.thy ===== *)
theory Ws_Rpc
  imports Ws_Rules
begin

text \<open>
  The RPC table of the WebSocket client. Indexes come from one 32-bit counter shared with the
  subscription; as long as it has not wrapped, the table holds the calls that wait for an answer and
  those whose future was dropped while it waited, nothing else, and a call returns only what a
  response to its own index carried.
\<close>

section \<open>Indexes\<close>

fun call_idx :: "rpc_state \<Rightarrow> 32 word option" where
  "call_idx NotStarted = None"
| "call_idx (Inserted svc mth pay i) = Some i"
| "call_idx (Awaiting i) = Some i"
| "call_idx (Returned i res) = Some i"
| "call_idx (Abandoned i) = Some i"

text \<open>The calls whose entry has not been taken out by \<open>rpc_call\<close> itself: those under way and those
  whose future was dropped, which leaves the entry to a response or to \<open>drain_pending\<close>.\<close>

fun unremoved :: "rpc_state \<Rightarrow> bool" where
  "unremoved NotStarted = False"
| "unremoved (Returned i res) = False"
| "unremoved _ = True"

text \<open>What a call may have returned, given the responses that were dispatched.\<close>

fun result_ok :: "(32 word \<times> (rpc_error + bytes)) list \<Rightarrow> rpc_state \<Rightarrow> bool" where
  "result_ok rs (Returned i (Inr b)) = ((i, Inr b) \<in> set rs)"
| "result_ok rs (Returned i (Inl (Rpc e))) = ((i, Inl e) \<in> set rs)"
| "result_ok rs _ = True"

definition waiting_idx :: "ws_world \<Rightarrow> nat \<Rightarrow> 32 word option" where
  "waiting_idx s c = (if unremoved (calls s c) \<and> oneshots s c = Waiting then call_idx (calls s c) else None)"

definition pend :: "ws_world \<Rightarrow> 32 word \<Rightarrow> nat option" where
  "pend s i = map_option responder (map_of (pending s) i)"

definition table_ok :: "ws_world \<Rightarrow> bool" where
  "table_ok s \<longleftrightarrow> distinct (map fst (pending s)) \<and> (\<forall>i c. pend s i = Some c \<longleftrightarrow> waiting_idx s c = Some i)"

definition idx_ok :: "nat \<Rightarrow> ws_world \<Rightarrow> bool" where
  "idx_ok n s \<longleftrightarrow>
     unat (rpc_idx s) \<le> Suc n \<and> (subscribe_idx s = - 1 \<or> subscribe_idx s < rpc_idx s) \<and>
     (\<forall>c i. call_idx (calls s c) = Some i \<longrightarrow> i < rpc_idx s \<and> i \<noteq> subscribe_idx s) \<and>
     (\<forall>c d i. call_idx (calls s c) = Some i \<longrightarrow> call_idx (calls s d) = Some i \<longrightarrow> c = d)"

definition reply_ok :: "ws_world \<Rightarrow> bool" where
  "reply_ok s \<longleftrightarrow>
     (\<forall>c out. oneshots s c = Filled out \<longrightarrow> (\<exists>i. call_idx (calls s c) = Some i \<and> (i, out) \<in> set (replies s))) \<and>
     (\<forall>c. result_ok (replies s) (calls s c))"

definition rpc_inv :: "nat \<Rightarrow> ws_world \<Rightarrow> bool" where
  "rpc_inv n s \<longleftrightarrow> table_ok s \<and> idx_ok n s \<and> reply_ok s"

lemma rpc_invD:
  assumes "rpc_inv n s"
  shows "table_ok s" "idx_ok n s" "reply_ok s"
  using assms by (simp_all add: rpc_inv_def)

lemma table_okD: "table_ok s \<Longrightarrow> pend s i = Some c \<longleftrightarrow> waiting_idx s c = Some i"
  by (simp add: table_ok_def)

lemma pend_cong: "pending s' = pending s \<Longrightarrow> pend s' = pend s"
  by (simp add: pend_def fun_eq_iff)

lemma waiting_cong: "calls s' = calls s \<Longrightarrow> oneshots s' = oneshots s \<Longrightarrow> waiting_idx s' = waiting_idx s"
  by (simp add: waiting_idx_def fun_eq_iff)

lemma waiting_call: "waiting_idx s c = Some i \<Longrightarrow> call_idx (calls s c) = Some i"
  by (simp add: waiting_idx_def split: if_splits)

definition rpc_view where
  "rpc_view s = (rpc_idx s, pending s, oneshots s, calls s, subscribe_idx s, replies s)"

interpretation rpcs: framed_invariant rpc_view "rpc_inv n" for n
  by unfold_locales
    (simp add: rpc_view_def rpc_inv_def table_ok_def idx_ok_def reply_ok_def pend_def waiting_idx_def)

lemmas rpc_inv_view = rpcs.frame

lemma rpc_inv_mono: "rpc_inv n s \<Longrightarrow> n \<le> m \<Longrightarrow> rpc_inv m s"
  by (auto simp: rpc_inv_def idx_ok_def)

lemma rpc_inv_keep: "rpc_inv n s \<Longrightarrow> rpc_view t = rpc_view s \<Longrightarrow> rpc_inv (Suc n) t"
  using rpc_inv_view [of t s n] rpc_inv_mono [of n t "Suc n"] by simp

lemma rpc_view_only_fired: "only_fired s s' \<Longrightarrow> rpc_view s' = rpc_view s"
  by (auto simp: only_fired_def rpc_view_def)

lemma rpc_view_simps [simp]:
  "rpc_view (snd (queue_send q b s)) = rpc_view s" "rpc_view (fire es s) = rpc_view s"
  "rpc_view (clear_sender s) = rpc_view s" "rpc_view (set_ready rd s) = rpc_view s"
  "rpc_view (fire_token_expired s) = rpc_view s" "rpc_view (fire_version_mismatch s) = rpc_view s"
  "rpc_view (put_task h t s) = rpc_view s" "rpc_view (reap s) = rpc_view s"
  "rpc_view (spawn_run_loop s) = rpc_view s" "rpc_view (abort_task h s) = rpc_view s"
  "rpc_view (snd (handle_update_body b s)) = rpc_view s" "rpc_view (snd (handle_push_container b s)) = rpc_view s"
  "rpc_view (snd (handle_handshake_body b s)) = rpc_view s"
  by (simp_all add: rpc_view_only_fired handle_update_only_fired handle_push_only_fired)
    (simp_all add: queue_send_def fire_def clear_sender_def set_ready_def fire_token_expired_def
      fire_version_mismatch_def put_task_def reap_def spawn_run_loop_def abort_task_def handle_handshake_body_def
      rpc_view_def Let_def split: option.split sum.split)

lemma rpc_view_upd [simp]:
  "rpc_view (s\<lparr>out_sent := x5\<rparr>) = rpc_view s" "rpc_view (s\<lparr>subscribe_backoff_ms := x6\<rparr>) = rpc_view s"
  "rpc_view (s\<lparr>resubs := x7\<rparr>) = rpc_view s" "rpc_view (s\<lparr>quits := x27\<rparr>) = rpc_view s" "rpc_view (s\<lparr>running := x8\<rparr>) = rpc_view s"
  "rpc_view (s\<lparr>next_queue := x9\<rparr>) = rpc_view s" "rpc_view (s\<lparr>out_open := x10\<rparr>) = rpc_view s"
  "rpc_view (s\<lparr>send_tx := x11\<rparr>) = rpc_view s" "rpc_view (s\<lparr>last_inbound_ts := x12\<rparr>) = rpc_view s"
  "rpc_view (s\<lparr>ping_counter := x13\<rparr>) = rpc_view s" "rpc_view (s\<lparr>name_cache := x14\<rparr>) = rpc_view s"
  "rpc_view (s\<lparr>self_info := x15\<rparr>) = rpc_view s" "rpc_view (s\<lparr>ready := x16\<rparr>) = rpc_view s"
  "rpc_view (s\<lparr>foreground := x17\<rparr>) = rpc_view s" "rpc_view (s\<lparr>tails := x18\<rparr>) = rpc_view s"
  "rpc_view (s\<lparr>on_call_received := x19\<rparr>) = rpc_view s" "rpc_view (s\<lparr>on_call_ended := x19\<rparr>) = rpc_view s"
  "rpc_view (s\<lparr>on_call_accepted := x19\<rparr>) = rpc_view s" "rpc_view (s\<lparr>on_token_expired := x20\<rparr>) = rpc_view s"
  "rpc_view (s\<lparr>on_version_mism := x20\<rparr>) = rpc_view s" "rpc_view (s\<lparr>owed := x18\<rparr>) = rpc_view s"
  "rpc_view (s\<lparr>user_disconnect := x16\<rparr>) = rpc_view s" "rpc_view (s\<lparr>manager_active := x16\<rparr>) = rpc_view s"
  "rpc_view (s\<lparr>access_token := x21\<rparr>) = rpc_view s" "rpc_view (s\<lparr>runloop_handle := x20\<rparr>) = rpc_view s"
  by (simp_all add: rpc_view_def)

section \<open>The table under each operation\<close>

lemma idx_succ:
  assumes "unat (i :: 32 word) \<le> Suc n" "n < 2 ^ 32 - 2"
  shows "unat (i + 1) = Suc (unat i)" "i < i + 1" "i \<noteq> - 1"
proof -
  have "Suc (unat i) < 2 ^ 32" using assms by simp
  then show u: "unat (i + 1) = Suc (unat i)" by (simp add: unat_word_ariths(1))
  then show "i < i + 1" by (simp add: word_less_nat_alt)
  show "i \<noteq> - 1" using u by (metis add.left_inverse unat_0 nat.distinct(1))
qed

lemma idx_fresh: "idx_ok n s \<Longrightarrow> call_idx (calls s c) \<noteq> Some (rpc_idx s)"
  by (auto simp: idx_ok_def)

lemma pend_fresh:
  assumes "rpc_inv n s"
  shows "map_of (pending s) (rpc_idx s) = None"
proof (cases "map_of (pending s) (rpc_idx s)")
  case (Some p)
  then have "pend s (rpc_idx s) = Some (responder p)" by (simp add: pend_def)
  then show ?thesis
    using table_okD [OF rpc_invD(1) [OF assms]] waiting_call idx_fresh [OF rpc_invD(2) [OF assms]] by blast
qed

lemma idx_okD:
  assumes "idx_ok n s" "n < 2 ^ 32 - 2"
  shows "unat (rpc_idx s + 1) \<le> Suc (Suc n)" "rpc_idx s < rpc_idx s + 1"
    "call_idx (calls s c) = Some i \<Longrightarrow> i < rpc_idx s + 1" "subscribe_idx s \<noteq> rpc_idx s"
proof -
  have b: "unat (rpc_idx s) \<le> Suc n" using assms by (simp add: idx_ok_def)
  note i = idx_succ [OF b assms(2)]
  then show "unat (rpc_idx s + 1) \<le> Suc (Suc n)" "rpc_idx s < rpc_idx s + 1" using b by simp_all
  then show "call_idx (calls s c) = Some i \<Longrightarrow> i < rpc_idx s + 1"
    using assms(1) unfolding idx_ok_def by (meson less_trans)
  show "subscribe_idx s \<noteq> rpc_idx s" using assms(1) i(3) by (auto simp: idx_ok_def)
qed

lemma rpc_inv_subscribe:
  assumes "rpc_inv n s" "n < 2 ^ 32 - 2"
  shows "rpc_inv (Suc n) (subscribe q s)"
proof -
  let ?s = "s\<lparr>rpc_idx := rpc_idx s + 1, subscribe_idx := rpc_idx s\<rparr>"
  note inv = rpc_invD [OF assms(1)]
  have "idx_ok (Suc n) ?s"
    using inv(2) idx_okD [OF inv(2) assms(2)] idx_fresh [OF inv(2)] by (auto simp: idx_ok_def)
  moreover have "table_ok ?s"
    using inv(1) pend_cong [of ?s s] waiting_cong [of ?s s] by (simp add: table_ok_def)
  moreover have "reply_ok ?s" using inv(3) by (simp add: reply_ok_def)
  ultimately have "rpc_inv (Suc n) ?s" by (simp add: rpc_inv_def)
  moreover have "rpc_view (subscribe q s) = rpc_view ?s"
    by (simp add: subscribe_def fetch_idx_def set_subscribe_idx_def)
  ultimately show ?thesis using rpc_inv_view by blast
qed

lemma rpc_inv_insert:
  assumes "rpc_inv n s" "n < 2 ^ 32 - 2" "calls s c = NotStarted"
  shows "rpc_inv (Suc n) (rpc_insert c svc mth pay s)"
proof -
  note inv = rpc_invD [OF assms(1)]
  note ix = idx_okD [OF inv(2) assms(2)] idx_fresh [OF inv(2)]
  let ?p = "\<lparr>service = svc, meth = mth, responder = c\<rparr>"
  let ?s = "s\<lparr>rpc_idx := rpc_idx s + 1, oneshots := (oneshots s)(c := Waiting),
    pending := AList.update (rpc_idx s) ?p (pending s), calls := (calls s)(c := Inserted svc mth pay (rpc_idx s))\<rparr>"
  have e: "rpc_insert c svc mth pay s = ?s"
    using pend_fresh [OF assms(1)] by (simp add: rpc_insert_def fetch_idx_def drop_responder_def)
  have pd: "pend ?s = (pend s)(rpc_idx s := Some c)"
    by (auto simp: pend_def update_conv)
  have w: "waiting_idx ?s = (waiting_idx s)(c := Some (rpc_idx s))" by (auto simp: waiting_idx_def)
  have "waiting_idx s c = None" "waiting_idx s d \<noteq> Some (rpc_idx s)" for d
    using assms(3) ix(5) by (auto simp: waiting_idx_def)
  then have "table_ok ?s"
    using inv(1) unfolding table_ok_def pd w by (auto simp: distinct_update)
  moreover have "idx_ok (Suc n) ?s"
    using inv(2) ix by (auto simp: idx_ok_def)
  moreover have "reply_ok ?s" using inv(3) assms(3) by (auto simp: reply_ok_def)
  ultimately show ?thesis unfolding e rpc_inv_def by blast
qed

text \<open>Taking call \<open>c\<close>, which waits under \<open>i\<close> if at all, off the table.\<close>

lemma table_remove:
  assumes "table_ok s" "idx_ok n s" "call_idx (calls s c) = Some i"
    and t: "pending t = AList.delete i (pending s)" "waiting_idx t = (waiting_idx s)(c := None)"
  shows "table_ok t"
proof -
  have pd: "pend t = (pend s)(i := None)" by (auto simp: pend_def t(1) delete_conv')
  have "waiting_idx s d = Some i \<Longrightarrow> d = c" for d
    using assms(2,3) waiting_call [of s d i] unfolding idx_ok_def by blast
  moreover have "waiting_idx s c = Some j \<Longrightarrow> j = i" for j using waiting_call [of s c j] assms(3) by simp
  ultimately show ?thesis
    using assms(1) unfolding table_ok_def pd t by (auto simp: distinct_delete)
qed

lemma pend_responder:
  assumes "rpc_inv n s" "map_of (pending s) i = Some p"
  shows "waiting_idx s (responder p) = Some i"
  using table_okD [OF rpc_invD(1) [OF assms(1)], of i "responder p"] assms(2) by (simp add: pend_def)

lemma idx_ok_calls:
  assumes "idx_ok n s" "call_idx (calls s c) = call_idx st" "calls t = (calls s)(c := st)"
    "rpc_idx t = rpc_idx s" "subscribe_idx t = subscribe_idx s"
  shows "idx_ok n t"
proof -
  have "call_idx (calls t d) = call_idx (calls s d)" for d using assms(2,3) by simp
  then show ?thesis using assms(1,4,5) by (simp add: idx_ok_def)
qed

lemma rpc_inv_return:
  assumes inv: "rpc_inv n s" and c: "call_idx (calls s c) = Some i"
    and res: "result_ok (replies s) (Returned i res)"
  shows "rpc_inv n (rpc_return c i res s)"
proof -
  let ?t = "rpc_return c i res s"
  note I = rpc_invD [OF inv]
  have own: "waiting_idx s d = Some i \<Longrightarrow> d = c" for d
    using I(2) c waiting_call [of s d i] unfolding idx_ok_def by blast
  have one: "oneshots ?t d = oneshots s d \<or> d = c \<and> oneshots ?t d = Closed" for d
    using pend_responder [OF inv, of i] own
    by (auto simp: rpc_return_def drop_responder_def remove_pending_def Let_def split: option.split)
  have f: "pending ?t = AList.delete i (pending s)" "calls ?t = (calls s)(c := Returned i res)" "replies ?t = replies s"
    "rpc_idx ?t = rpc_idx s" "subscribe_idx ?t = subscribe_idx s"
    by (simp_all add: rpc_return_def drop_responder_def remove_pending_def Let_def split: option.split)
  have "waiting_idx ?t = (waiting_idx s)(c := None)"
    using one by (simp add: waiting_idx_def f fun_eq_iff) (metis oneshot.distinct(3))
  then have "table_ok ?t" using table_remove [OF I(1,2) c f(1)] by blast
  moreover have "idx_ok n ?t" by (rule idx_ok_calls [OF I(2) _ f(2,4,5)]) (simp add: c)
  moreover have "reply_ok ?t"
    using I(3) one c res unfolding reply_ok_def f by (metis call_idx.simps(4) fun_upd_apply oneshot.distinct(5))
  ultimately show ?thesis by (simp add: rpc_inv_def)
qed

lemma rpc_inv_state:
  assumes inv: "rpc_inv n s" and c: "unremoved (calls s c)" "unremoved st" "call_idx (calls s c) = call_idx st"
  shows "rpc_inv n (s\<lparr>calls := (calls s)(c := st)\<rparr>)"
proof -
  let ?t = "s\<lparr>calls := (calls s)(c := st)\<rparr>"
  note I = rpc_invD [OF inv]
  have "waiting_idx ?t = waiting_idx s" using c by (auto simp: waiting_idx_def fun_eq_iff)
  then have "table_ok ?t" using I(1) pend_cong [of ?t s] by (simp add: table_ok_def)
  moreover have "idx_ok n ?t" by (rule idx_ok_calls [OF I(2) c(3)]) simp_all
  moreover have "result_ok (replies s) st" using c(2) by (cases st) auto
  then have "reply_ok ?t" using I(3) c(3) by (simp add: reply_ok_def) metis
  ultimately show ?thesis by (simp add: rpc_inv_def)
qed

lemma result_ok_mono: "result_ok rs st \<Longrightarrow> result_ok (rs @ [x]) st"
  by (induction rs st rule: result_ok.induct) auto

lemma rpc_inv_dispatch:
  assumes inv: "rpc_inv n s"
  shows "rpc_inv n (snd (dispatch_rpc_response resp s))"
proof -
  note I = rpc_invD [OF inv]
  let ?u = "s\<lparr>replies := replies s @ [(idx resp, rpc_outcome resp)]\<rparr>"
  have r: "reply_ok ?u"
    using I(3) result_ok_mono unfolding reply_ok_def by (simp add: fun_eq_iff) metis
  show ?thesis
  proof (cases "map_of (pending s) (idx resp)")
    case None
    have "rpc_inv n ?u"
      using r I(1,2) pend_cong [of ?u s] waiting_cong [of ?u s] by (simp add: rpc_inv_def table_ok_def idx_ok_def)
    then show ?thesis using None by (simp add: dispatch_rpc_response_def)
  next
    case (Some p)
    let ?c = "responder p"
    let ?t = "snd (dispatch_rpc_response resp s)"
    have t: "?t = ?u\<lparr>pending := AList.delete (idx resp) (pending s),
        oneshots := (oneshots s)(?c := Filled (rpc_outcome resp))\<rparr>"
      using Some by (simp add: dispatch_rpc_response_def remove_pending_def Let_def)
    have c: "call_idx (calls s ?c) = Some (idx resp)" using pend_responder [OF inv Some] waiting_call by blast
    have "table_ok ?t"
      by (rule table_remove [OF I(1,2) c]) (auto simp: t waiting_idx_def fun_eq_iff)
    moreover have "idx_ok n ?t" using I(2) by (simp add: t idx_ok_def)
    moreover have "reply_ok ?t" using r c by (auto simp: t reply_ok_def)
    ultimately show ?thesis by (simp add: rpc_inv_def)
  qed
qed

lemma rpc_inv_drain:
  assumes inv: "rpc_inv n s"
  shows "rpc_inv n (drain_pending s)"
proof -
  note I = rpc_invD [OF inv]
  have "waiting_idx (drain_pending s) c = None" for c
  proof (cases "waiting_idx s c")
    case (Some i)
    then have "pend s i = Some c" using table_okD [OF I(1)] by simp
    then have "c \<in> (responder \<circ> snd) ` set (pending s)" by (force simp: pend_def dest: map_of_SomeD)
    then show ?thesis by (auto simp: waiting_idx_def drain_pending_def Let_def)
  qed (auto simp: waiting_idx_def drain_pending_def Let_def split: if_splits; cases "calls s c"; simp)
  then have "table_ok (drain_pending s)" by (simp add: table_ok_def pend_def drain_pending_def Let_def)
  moreover have "idx_ok n (drain_pending s)" using I(2) by (simp add: idx_ok_def drain_pending_def Let_def)
  moreover have "reply_ok (drain_pending s)" using I(3) by (auto simp: reply_ok_def drain_pending_def Let_def)
  ultimately show ?thesis by (simp add: rpc_inv_def)
qed

section \<open>Every run\<close>

lemma rpc_inv_rpc_op:
  assumes inv: "rpc_inv n s" and n: "n < 2 ^ 32 - 2"
  shows "rpc_inv (Suc n) (rpc_op op s)"
proof (cases "\<exists>c svc mth pay. op = RpcInsert c svc mth pay")
  case True
  then show ?thesis using rpc_inv_insert [OF inv n] rpc_inv_mono [OF inv] by auto
next
  case False
  have send: "rpc_inv n (rpc_send c svc mth pay i s)" if "calls s c = Inserted svc mth pay i" for c svc mth pay i
  proof -
    have v: "rpc_inv n (s\<lparr>out_sent := l\<rparr>)" for l using rpc_inv_view [of "s\<lparr>out_sent := l\<rparr>" s] inv by simp
    show ?thesis
      using that rpc_inv_return [OF inv] rpc_inv_state [OF v, of _ c "Awaiting i"]
      by (simp add: rpc_send_def queue_send_def split: option.split)
  qed
  have finish: "rpc_inv n (rpc_finish c i b s)" if "calls s c = Awaiting i" for c i b
  proof -
    have "oneshots s c = Filled out \<Longrightarrow> (i, out) \<in> set (replies s)" for out
      using rpc_invD(3) [OF inv] that unfolding reply_ok_def by fastforce
    then show ?thesis
      using that inv rpc_inv_return [OF inv, of c i] by (simp add: rpc_finish_def split: oneshot.split sum.split)
  qed
  have "rpc_inv n (rpc_op op s)"
    using False inv send finish rpc_inv_state [OF inv]
    by (cases op) (auto split: rpc_state.split)
  then show ?thesis by (rule rpc_inv_mono) simp
qed

lemma rpc_inv_handle_frame:
  assumes inv: "rpc_inv n s" and n: "n < 2 ^ 32 - 2"
  shows "rpc_inv (Suc n) (snd (handle_frame q frame s))"
proof -
  show ?thesis
  proof (cases frame)
    case (RpcOrPush b)
    obtain r t where r: "handle_rpc_frame b s = (r, t)" by fastforce
    have t: "rpc_inv n t"
    proof (cases "decode_rpc_response b")
      case (Inr resp)
      obtain out u where "dispatch_rpc_response resp s = (out, u)" by fastforce
      then show ?thesis using rpc_inv_dispatch [OF inv, of resp] Inr r by (simp add: handle_rpc_frame_def)
    qed (use inv r in \<open>simp add: handle_rpc_frame_def\<close>)
    then show ?thesis
      using RpcOrPush r rpc_inv_subscribe [OF t n] rpc_inv_keep [OF t]
      by (simp add: handle_frame_def split: sum.split unmatched_rpc_outcome.split)
  next
    case (Handshake b)
    obtain r t where r: "handle_handshake_body b s = (r, t)" by fastforce
    then have "rpc_view t = rpc_view s" using rpc_view_simps(13) [of b s] by simp
    then have t: "rpc_inv n t" using inv rpc_inv_view by blast
    then show ?thesis
      using Handshake r rpc_inv_subscribe [OF t n] rpc_inv_mono [OF t]
      by (simp add: handle_frame_def split: handshake_result.split)
  qed (use rpc_inv_keep [OF inv] in \<open>simp_all add: handle_frame_def\<close>)
qed

lemma rpc_inv_session_done: "rpc_inv n s \<Longrightarrow> rpc_inv n (session_done h t out s)"
proof -
  assume "rpc_inv n s"
  then have "rpc_inv n (clear_sender (set_ready False s))" using rpc_inv_view [of "clear_sender (set_ready False s)" s] by simp
  note d = rpc_inv_drain [OF this]
  have "rpc_view (session_done h t out s) = rpc_view (drain_pending (clear_sender (set_ready False s)))"
    by (cases out) (simp_all add: session_done_def Let_def)
  from rpc_inv_view [OF this] d show ?thesis by simp
qed

lemma rpc_inv_loop_op:
  assumes inv: "rpc_inv n s" and n: "n < 2 ^ 32 - 2"
  shows "rpc_inv (Suc n) (loop_op op s)"
proof -
  note keep = rpc_inv_keep [OF inv]
  note sess = rpc_inv_mono [OF rpc_inv_session_done [OF inv], of "Suc n"]
  have frame: "rpc_inv (Suc n) (next_frame h t q mism r s)" for h t q mism r
  proof -
    have "rpc_inv (Suc n) (put_task h x u)" if "handle_frame q fr s = (b, u)" for fr b u x
      using rpc_inv_handle_frame [OF inv n, of q fr] that rpc_inv_view [of "put_task h x u" u] by simp
    then show ?thesis
      by (auto simp: next_frame_def Let_def sess keep split: prod.split sum.split)
  qed
  have conn: "rpc_view (on_connected h t now s) = rpc_view s" "rpc_view (inbound h t q m bs now s) = rpc_view s"
    "rpc_view (loop_top h t s) = rpc_view s" for h t now q m bs
    by (simp_all add: on_connected_def inbound_def loop_top_def install_sender_def Let_def)
  have "rpc_inv (Suc n) (polled h f s)" if "\<And>t. rpc_inv (Suc n) (f t s)" for h f
    using that keep by (simp add: polled_def split: option.split)
  then show ?thesis
    by (cases op) (simp_all add: keep conn sess frame connect_failed_def stream_ended_def split: option.split loop_phase.split)
qed

lemma rpc_inv_step:
  assumes inv: "rpc_inv n s" and n: "Suc n < 2 ^ 32 - 2"
  shows "rpc_inv (Suc n) (ws_step op s)"
proof -
  have n': "n < 2 ^ 32 - 2" using n by simp
  note keep = rpc_inv_keep [OF inv]
  have e: "rpc_view (evaluate s) = rpc_view s"
    by (simp add: evaluate_def Let_def split: prod.split bool.split option.split)
  have tail: "rpc_inv (Suc n) ((evaluate_tail s)\<lparr>tails := k\<rparr>)" for k
  proof -
    have "rpc_inv n (clear_sender s)" using inv rpc_inv_view [of "clear_sender s" s] by simp
    then have "rpc_inv n (evaluate_tail s)" unfolding evaluate_tail_def by (rule rpc_inv_drain)
    then show ?thesis using rpc_inv_view [of "(evaluate_tail s)\<lparr>tails := k\<rparr>"] rpc_inv_mono by simp
  qed
  have sub: "rpc_inv (Suc n) (subscribe q (s\<lparr>resubs := l\<rparr>))" for q l
    using rpc_inv_subscribe [OF _ n'] inv rpc_inv_view [of "s\<lparr>resubs := l\<rparr>" s] by simp
  have rpc: "rpc_inv (Suc n) (loop_op op (rpc_op op s))"
    using rpc_inv_rpc_op [OF inv n', of op] rpc_inv_loop_op [OF inv n', of op]
    by (cases op) (simp_all)
  show ?thesis
    by (cases op) (use rpc in \<open>simp_all add: keep e tail sub set_token_def set_user_disconnect_def set_manager_active_def
      set_foreground_def liveness_tick_def Let_def load_user_name_done_def load_self_done_def populate_names_def\<close>)
qed

interpretation rpc_runs: run_invariant ws_new ws_step "2 ^ 32 - 2" rpc_inv
proof
  show "rpc_inv 0 ws_new"
    by (simp add: ws_new_def rpc_inv_def table_ok_def idx_ok_def reply_ok_def pend_def waiting_idx_def)
qed (rule rpc_inv_step)

lemma rpc_inv_run: "length ops < 2 ^ 32 - 2 \<Longrightarrow> rpc_inv (length ops) (ws_run ops)"
  unfolding ws_run_def by (rule rpc_runs.run)

text \<open>The future of a call dropped while it waits leaves its entry behind: nobody waits for it, and only
  a response to its index or the end of the session takes it out.\<close>

lemma unremoved_iff:
  "unremoved st \<and> call_idx st = Some i \<longleftrightarrow>
     (\<exists>svc mth pay. st = Inserted svc mth pay i) \<or> st = Awaiting i \<or> st = Abandoned i"
  by (cases st) auto

lemma abandoned_entry_stays:
  "calls (ws_run (up_ops @ [Connected 0 5, RpcInsert 7 [1] [2] [3], RpcSend 7, RpcAbandon 7])) 7 = Abandoned 1 \<and>
   map_option responder
     (map_of (pending (ws_run (up_ops @ [Connected 0 5, RpcInsert 7 [1] [2] [3], RpcSend 7, RpcAbandon 7]))) 1) = Some 7"
  by (simp add: ws_eval rpc_insert_def rpc_send_def drop_responder_def Let_def)

text \<open>C8. In every interleaving of fewer than 2^32 - 2 operations, the table maps an index to a call
  exactly if the call has this index, no answer was put in its channel, and either it is under way
  (entered, or sent and waiting) or its future was dropped while it waited: no entry outlives a call
  that returned, and every waiting call can be answered. No two calls have the same index, none has
  the index of the subscription; and a call returns a payload, or a server error, only if a response
  to its index carried it.\<close>

theorem rpc_table_exact:
  assumes "length ops < 2 ^ 32 - 2"
  shows "(\<forall>i c. map_option responder (map_of (pending (ws_run ops)) i) = Some c \<longleftrightarrow>
        oneshots (ws_run ops) c = Waiting \<and>
        ((\<exists>svc mth pay. calls (ws_run ops) c = Inserted svc mth pay i) \<or> calls (ws_run ops) c = Awaiting i \<or>
         calls (ws_run ops) c = Abandoned i)) \<and>
    (\<forall>c d i. call_idx (calls (ws_run ops) c) = Some i \<and> call_idx (calls (ws_run ops) d) = Some i \<longrightarrow> c = d) \<and>
    (\<forall>c. call_idx (calls (ws_run ops) c) \<noteq> Some (subscribe_idx (ws_run ops))) \<and>
    (\<forall>c i b. calls (ws_run ops) c = Returned i (Inr b) \<longrightarrow> (i, Inr b) \<in> set (replies (ws_run ops))) \<and>
    (\<forall>c i e. calls (ws_run ops) c = Returned i (Inl (Rpc e)) \<longrightarrow> (i, Inl e) \<in> set (replies (ws_run ops)))"
proof -
  note I = rpc_invD [OF rpc_inv_run [OF assms]]
  have "map_option responder (map_of (pending (ws_run ops)) i) = Some c \<longleftrightarrow>
        oneshots (ws_run ops) c = Waiting \<and>
        ((\<exists>svc mth pay. calls (ws_run ops) c = Inserted svc mth pay i) \<or> calls (ws_run ops) c = Awaiting i \<or>
         calls (ws_run ops) c = Abandoned i)" for i c
    using table_okD [OF I(1), of i c] unfolding pend_def waiting_idx_def unremoved_iff [symmetric]
    by (auto split: if_splits)
  moreover have "calls (ws_run ops) c = Returned i (Inr b) \<Longrightarrow> (i, Inr b) \<in> set (replies (ws_run ops))"
    "calls (ws_run ops) c = Returned i (Inl (Rpc e)) \<Longrightarrow> (i, Inl e) \<in> set (replies (ws_run ops))" for c i b e
    using I(3) unfolding reply_ok_def by (metis result_ok.simps(1), metis result_ok.simps(2))
  ultimately show ?thesis using I(2) unfolding idx_ok_def by blast
qed

definition call_ops :: "ws_op list" where
  "call_ops = up_ops @ [Connected 0 5, RpcInsert 7 [1] [2] [3], RpcSend 7, RpcInsert 8 [1] [2] [4], RpcFinish 7 True]"

theorem rpc_table_exact_witness:
  "calls (ws_run call_ops) 7 = Returned 1 (Inl Timeout) \<and> calls (ws_run call_ops) 8 = Inserted [1] [2] [4] 2 \<and>
   map_option responder (map_of (pending (ws_run call_ops)) 2) = Some 8 \<and>
   map_option responder (map_of (pending (ws_run call_ops)) 1) \<noteq> Some 7"
proof -
  have e: "calls (ws_run call_ops) 7 = Returned 1 (Inl Timeout)" "calls (ws_run call_ops) 8 = Inserted [1] [2] [4] 2"
    "oneshots (ws_run call_ops) 8 = Waiting"
    by (simp_all add: call_ops_def ws_eval rpc_insert_def rpc_send_def rpc_finish_def rpc_return_def drop_responder_def
        remove_pending_def Let_def)
  have "length call_ops < 2 ^ 32 - 2" by (simp add: call_ops_def up_ops_def)
  from rpc_table_exact [OF this] e show ?thesis by simp
qed

section \<open>An incoming call\<close>









end
