(* ===== verification/Contacts.thy ===== *)
theory Contacts
  imports Ws_Frames
begin

text \<open>
  The contact messages of \<open>contacts.rs\<close> and the paging of \<open>list_contacts\<close> in \<open>signaling.rs\<close>: the
  response decoders, the merge of a user batch, and the cursor, a decimal offset into the list.
\<close>

section \<open>Users\<close>

record user_peer_ref =
  pr_uid :: "32 word"
  pr_hash :: "64 word"

record user_entity =
  u_id :: "32 word"
  u_name :: bytes
  u_nick :: bytes
  u_phone :: bytes
  u_hash :: "64 word"

definition user_default :: user_entity where
  "user_default = \<lparr>u_id = 0, u_name = [], u_nick = [], u_phone = [], u_hash = 0\<rparr>"

text \<open>\<open>parse\<close> of a cursor.\<close>

definition parse_usize :: "bytes \<Rightarrow> nat option" where
  "parse_usize s =
     (let ds = (case s of c # r \<Rightarrow> if c = 43 then r else s | [] \<Rightarrow> s) in
      if ds = [] \<or> \<not> list_all digit ds then None
      else if digits_value ds < 2 ^ 64 then Some (nat (digits_value ds)) else None)"

definition display_name :: "user_entity \<Rightarrow> bytes" where
  "display_name u = (if u_name u \<noteq> [] then u_name u else if u_nick u \<noteq> [] then u_nick u else i32_to_string (u_id u))"

section \<open>Decoders\<close>

definition skip_on :: "u32 \<Rightarrow> 's \<Rightarrow> ('s, 'r) act" where
  "skip_on w s = Skip w (\<lambda>_. Go s)"

definition decode_wrapped :: "bytes \<Rightarrow> bytes" where
  "decode_wrapped buf =
     field_loop (\<lambda>e s. [])
       (\<lambda>f w s. if f = 1 then Str (\<lambda>v. Done (or_default [] v)) else skip_or [] w s)
       (\<lambda>s. []) () (pr_new buf)"

definition user_body :: "u32 \<Rightarrow> u32 \<Rightarrow> user_entity \<Rightarrow> (user_entity, user_entity) act" where
  "user_body f w e =
     (if f = 1 then Varint (\<lambda>v. Go (e\<lparr>u_id := ucast (or_default 0 v)\<rparr>))
      else if f = 2 then Varint (\<lambda>v. Go (e\<lparr>u_hash := or_default 0 v\<rparr>))
      else if f = 3 then Str (\<lambda>v. Go (e\<lparr>u_name := or_default [] v\<rparr>))
      else if f = 9 then Bytes (\<lambda>v. Go (e\<lparr>u_nick := decode_wrapped (or_default [] v)\<rparr>))
      else skip_on w e)"

definition decode_user_entity :: "bytes \<Rightarrow> user_entity" where
  "decode_user_entity buf = field_loop (\<lambda>e s. s) user_body id user_default (pr_new buf)"

definition decode_user_peer_ref :: "bytes \<Rightarrow> user_peer_ref" where
  "decode_user_peer_ref buf =
     field_loop (\<lambda>e s. s)
       (\<lambda>f w p. if f = 1 then Varint (\<lambda>v. Go (p\<lparr>pr_uid := ucast (or_default 0 v)\<rparr>))
          else if f = 2 then Varint (\<lambda>v. Go (p\<lparr>pr_hash := or_default 0 v\<rparr>))
          else skip_on w p)
       id \<lparr>pr_uid = 0, pr_hash = 0\<rparr> (pr_new buf)"

type_synonym found = "user_entity list \<times> user_peer_ref list"

definition push_user :: "found \<Rightarrow> ('e + bytes) \<Rightarrow> found" where
  "push_user s v = (case v of Inr b \<Rightarrow> (fst s @ [decode_user_entity b], snd s) | Inl _ \<Rightarrow> s)"

definition push_peer :: "found \<Rightarrow> ('e + bytes) \<Rightarrow> found" where
  "push_peer s v = (case v of Inr b \<Rightarrow> (fst s, snd s @ [decode_user_peer_ref b]) | Inl _ \<Rightarrow> s)"

definition contacts_body :: "u32 \<Rightarrow> u32 \<Rightarrow> found \<Rightarrow> (found, found) act" where
  "contacts_body f w s =
     (if f = 1 then Bytes (\<lambda>v. Go (push_user s v))
      else if f = 3 then Bytes (\<lambda>v. Go (push_peer s v))
      else skip_on w s)"

definition decode_get_contacts_response :: "bytes \<Rightarrow> found" where
  "decode_get_contacts_response buf = field_loop (\<lambda>e s. s) contacts_body id ([], []) (pr_new buf)"

definition decode_users_response :: "bytes \<Rightarrow> user_entity list" where
  "decode_users_response buf =
     field_loop (\<lambda>e s. s)
       (\<lambda>f w out. if f = 1 then Bytes (\<lambda>v. Go (case v of Inr b \<Rightarrow> out @ [decode_user_entity b] | Inl _ \<Rightarrow> out))
          else skip_or out w out)
       id [] (pr_new buf)"

definition decode_raw_search :: "u32 \<Rightarrow> u32 \<Rightarrow> bytes \<Rightarrow> found" where
  "decode_raw_search user_field peer_field buf =
     field_loop (\<lambda>e s. s)
       (\<lambda>f w s. if f = user_field then Bytes (\<lambda>v. Go (push_user s v))
          else if f = peer_field then Bytes (\<lambda>v. Go (push_peer s v))
          else skip_or s w s)
       id ([], []) (pr_new buf)"

definition build_load_users_request :: "user_peer_ref list \<Rightarrow> bytes" where
  "build_load_users_request peers =
     concat (map (\<lambda>p. pw_bytes 1 (pw_int64 2 (pr_hash p) (pw_int32 1 (pr_uid p) pw_new)) pw_new) peers)"

text \<open>The merge of a batch: the hash of the reference that was asked for, if there is one.\<close>

definition load_users_merge :: "user_peer_ref list \<Rightarrow> user_entity list \<Rightarrow> user_entity list" where
  "load_users_merge peers users =
     map (\<lambda>u. case find (\<lambda>p. pr_uid p = u_id u) peers of Some p \<Rightarrow> u\<lparr>u_hash := pr_hash p\<rparr> | None \<Rightarrow> u) users"

text \<open>The digits of a phone number that \<open>import_contact_by_phone\<close> sends.\<close>

definition import_payload :: "bytes \<Rightarrow> bytes" where
  "import_payload phone =
     (let ds = filter digit phone;
          n = (if ds = [] \<or> \<not> digits_value ds < 2 ^ 63 then 0 else word_of_int (digits_value ds))
      in pw_bytes 1 (pw_int64 1 n pw_new) pw_new)"

text \<open>Phone numbers of full users.\<close>

definition i64_to_string :: "64 word \<Rightarrow> bytes" where
  "i64_to_string v = (if sint v < 0 then 45 # dec_digits (nat (- sint v)) else dec_digits (nat (sint v)))"

definition decode_long_value :: "64 word \<Rightarrow> bytes \<Rightarrow> 64 word" where
  "decode_long_value long sub =
     field_loop (\<lambda>e s. s)
       (\<lambda>f w v. if f = 1 then Varint (\<lambda>x. Go (or_default 0 x)) else skip_or v w v)
       id long (pr_new sub)"

record contact_info =
  ci_ty :: "32 word"
  ci_string :: bytes
  ci_long :: "64 word"

definition extract_phone_from_contact_info :: "bytes \<Rightarrow> bytes" where
  "extract_phone_from_contact_info buf =
     (let c = field_loop (\<lambda>e s. s)
       (\<lambda>f w c. if f = 1 then Varint (\<lambda>v. Go (c\<lparr>ci_ty := ucast (or_default 0 v)\<rparr>))
          else if f = 2 then Bytes (\<lambda>v. Go (c\<lparr>ci_string := decode_wrapped (or_default [] v)\<rparr>))
          else if f = 3 then Bytes (\<lambda>v. Go (c\<lparr>ci_long := decode_long_value (ci_long c) (or_default [] v)\<rparr>))
          else skip_on w c)
       id \<lparr>ci_ty = 0, ci_string = [], ci_long = 0\<rparr> (pr_new buf)
      in if ci_ty c \<noteq> 0 then []
           else if ci_string c \<noteq> [] then ci_string c
           else if ci_long c \<noteq> 0 then i64_to_string (ci_long c)
           else [])"

definition decode_full_user_phone :: "bytes \<Rightarrow> 32 word \<times> bytes" where
  "decode_full_user_phone buf =
     field_loop (\<lambda>e s. s)
       (\<lambda>f w s. if f = 1 then Varint (\<lambda>v. Go (ucast (or_default 0 v), snd s))
          else if f = 2 then Bytes (\<lambda>v. Go (if snd s = []
            then (case v of Inr b \<Rightarrow> (fst s, extract_phone_from_contact_info b) | Inl _ \<Rightarrow> s) else s))
          else skip_on w s)
       id (0, []) (pr_new buf)"

definition decode_full_users_phones :: "bytes \<Rightarrow> 32 word \<rightharpoonup> bytes" where
  "decode_full_users_phones buf =
     field_loop (\<lambda>e s. s)
       (\<lambda>f w out. if f \<noteq> 1 then skip_on w out
          else Bytes (\<lambda>v. case v of
              Inl _ \<Rightarrow> Done out
            | Inr b \<Rightarrow> (case decode_full_user_phone b of (uid, phone) \<Rightarrow>
                Go (if sint uid > 0 \<and> phone \<noteq> [] then out(uid \<mapsto> phone) else out))))
       id Map.empty (pr_new buf)"

section \<open>Requests\<close>

text \<open>
  A gRPC-web call over an HTTP client that is not part of the repository: \<open>http url cookie body\<close> is
  what \<open>reqwest\<close> returns, \<open>None\<close> when the request or the read of the body fails, otherwise the
  status, the text of the reply in characters and its bytes.
\<close>

type_synonym http_client = "string \<Rightarrow> bytes option \<Rightarrow> bytes \<Rightarrow> (16 word \<times> nat list \<times> bytes) option"

datatype call_error = HttpStatus "16 word" "nat list" | HttpFailed | BadResponse grpc_error

definition grpc_url :: "string \<Rightarrow> string \<Rightarrow> string \<Rightarrow> string" where
  "grpc_url host service mth = ''https://'' @ host @ ''/'' @ service @ ''/'' @ mth"

definition grpc_call ::
  "http_client \<Rightarrow> string \<Rightarrow> string \<Rightarrow> string \<Rightarrow> bytes \<Rightarrow> bytes option \<Rightarrow> call_error + bytes" where
  "grpc_call http host service mth pay access_token =
     (case http (grpc_url host service mth) access_token (encode_frame pay) of
        None \<Rightarrow> Inl HttpFailed
      | Some (status, txt, body) \<Rightarrow>
          if status < 200 \<or> 300 \<le> status then Inl (HttpStatus status (take 200 txt))
          else (case decode_response body of Inl e \<Rightarrow> Inl (BadResponse e) | Inr b \<Rightarrow> Inr b))"

definition users_call :: "http_client \<Rightarrow> bytes \<Rightarrow> string \<Rightarrow> bytes \<Rightarrow> call_error + bytes" where
  "users_call http tok mth pay =
     grpc_call http ''next-ws.bale.ai'' ''bale.users.v1.Users'' mth pay (Some tok)"

definition get_contact_peers :: "http_client \<Rightarrow> bytes \<Rightarrow> call_error + found" where
  "get_contact_peers http tok =
     map_sum id decode_get_contacts_response (users_call http tok ''GetContacts'' (pw_string 1 [] pw_new))"

definition load_users_batch :: "http_client \<Rightarrow> bytes \<Rightarrow> user_peer_ref list \<Rightarrow> call_error + user_entity list" where
  "load_users_batch http tok peers =
     (if peers = [] then Inr []
      else map_sum id (load_users_merge peers \<circ> decode_users_response)
             (users_call http tok ''LoadUsers'' (build_load_users_request peers)))"

definition resolve_with_load :: "http_client \<Rightarrow> bytes \<Rightarrow> found \<Rightarrow> call_error + user_entity list" where
  "resolve_with_load http tok found =
     (if fst found \<noteq> [] then Inr (fst found) else if snd found = [] then Inr []
      else load_users_batch http tok (snd found))"

definition import_contact_by_phone :: "http_client \<Rightarrow> bytes \<Rightarrow> bytes \<Rightarrow> call_error + user_entity list" where
  "import_contact_by_phone http tok phone =
     (case users_call http tok ''ImportContacts'' (import_payload phone) of
        Inl e \<Rightarrow> Inl e
      | Inr buf \<Rightarrow> resolve_with_load http tok (decode_raw_search 1 4 buf))"

definition search_contacts_by_name :: "http_client \<Rightarrow> bytes \<Rightarrow> bytes \<Rightarrow> call_error + user_entity list" where
  "search_contacts_by_name http tok query =
     (case users_call http tok ''SearchContacts'' (pw_string 1 query pw_new) of
        Inl e \<Rightarrow> Inl e
      | Inr buf \<Rightarrow> resolve_with_load http tok (decode_raw_search 1 2 buf))"

definition remove_contact_rpc :: "http_client \<Rightarrow> bytes \<Rightarrow> 32 word \<Rightarrow> 64 word \<Rightarrow> call_error + unit" where
  "remove_contact_rpc http tok uid access_hash =
     map_sum id (\<lambda>_. ()) (users_call http tok ''RemoveContact'' (pw_int64 2 access_hash (pw_int32 1 uid pw_new)))"

section \<open>Pages\<close>

definition saturating_add_usize :: "nat \<Rightarrow> nat \<Rightarrow> nat" where
  "saturating_add_usize a b = min (a + b) (2 ^ 64 - 1)"

definition contact_page :: "user_entity list \<Rightarrow> bytes option \<Rightarrow> nat \<Rightarrow> user_entity list \<times> bytes option" where
  "contact_page users cursor limit =
     (let start = (case cursor of Some c \<Rightarrow> (case parse_usize c of Some n \<Rightarrow> n | None \<Rightarrow> 0) | None \<Rightarrow> 0);
          fin = min (saturating_add_usize start limit) (length users);
          first = min start (length users)
      in (take (fin - first) (drop first users), if fin < length users then Some (dec_digits fin) else None))"

text \<open>A caller that follows the cursors; \<open>None\<close> when it has not come to the last page in \<open>n\<close> requests.\<close>

fun walk_pages :: "nat \<Rightarrow> user_entity list \<Rightarrow> nat \<Rightarrow> bytes option \<Rightarrow> user_entity list option" where
  "walk_pages 0 users limit cursor = None"
| "walk_pages (Suc n) users limit cursor =
     (case contact_page users cursor limit of
        (page, None) \<Rightarrow> Some page
      | (page, Some c) \<Rightarrow> map_option ((@) page) (walk_pages n users limit (Some c)))"

section \<open>Decimal round trip\<close>

lemma dec_digits_not_plus: "dec_digits n = c # r \<Longrightarrow> c \<noteq> 43"
  using dec_digits_ok [of n] by (auto simp: digit_def)

lemma parse_dec_digits: "n < 2 ^ 64 \<Longrightarrow> parse_usize (dec_digits n) = Some n"
  using dec_digits_ok [of n] dec_digits_not_plus [of n]
  by (cases "dec_digits n") (auto simp: parse_usize_def Let_def)

section \<open>A contact list on the wire\<close>

definition user_fields :: "user_entity \<Rightarrow> (u32 \<times> pval) list" where
  "user_fields u = [(1, PVar (ucast (u_id u))), (2, PVar (u_hash u)), (3, PLen (u_name u)),
     (9, PLen (write_fields [(1, PLen (u_nick u))]))]"

definition contacts_message :: "user_entity list \<Rightarrow> bytes" where
  "contacts_message us = write_fields (map (\<lambda>u. (1, PLen (write_fields (user_fields u)))) us)"

definition plain_user :: "user_entity \<Rightarrow> bool" where
  "plain_user u \<longleftrightarrow> utf8_ok (u_name u) \<and> utf8_ok (u_nick u) \<and> u_phone u = []"

lemma user_read:
  assumes "plain_user u" "length (write_fields (user_fields u)) < 2 ^ 64"
  shows "decode_user_entity (write_fields (user_fields u)) = u"
proof -
  let ?nick = "write_fields [(1, PLen (u_nick u))]"
  have "length ?nick < 2 ^ 64"
    using field_within [of 9 ?nick "user_fields u"] assms(2) by (simp add: user_fields_def)
  then have "decode_wrapped ?nick = u_nick u"
    unfolding decode_wrapped_def using assms(1) by (intro field_loop_written) (simp_all add: plain_user_def)
  then have "feed user_body id user_default (user_fields u) = Some u"
    using assms(1) by (cases u) (simp add: user_fields_def user_body_def user_default_def plain_user_def ucast_ucast_word32)
  then show ?thesis unfolding decode_user_entity_def by (rule field_loop_written [OF assms(2)])
qed

lemma feed_contacts:
  assumes "\<And>u. u \<in> set us \<Longrightarrow> decode_user_entity (write_fields (user_fields u)) = u"
  shows "feed contacts_body id s (map (\<lambda>u. (1, PLen (write_fields (user_fields u)))) us) = Some (fst s @ us, snd s)"
  using assms
proof (induction us arbitrary: s)
  case (Cons u us)
  then show ?case using Cons(1) [of "push_user s (Inr (write_fields (user_fields u)))"]
    by (simp add: contacts_body_def push_user_def)
qed simp

lemma contacts_read:
  assumes "list_all plain_user us" "length (contacts_message us) < 2 ^ 64"
  shows "decode_get_contacts_response (contacts_message us) = (us, [])"
proof -
  have "length (write_fields (user_fields u)) < 2 ^ 64" if "u \<in> set us" for u
    using field_within [of 1 "write_fields (user_fields u)" "map (\<lambda>u. (1, PLen (write_fields (user_fields u)))) us"]
      that assms(2) by (auto simp: contacts_message_def)
  then have "decode_user_entity (write_fields (user_fields u)) = u" if "u \<in> set us" for u
    using that assms(1) user_read by (auto simp: list_all_iff)
  then have "feed contacts_body id ([], []) (map (\<lambda>u. (1, PLen (write_fields (user_fields u)))) us) = Some (us, [])"
    using feed_contacts [of us "([], [])"] by simp
  then show ?thesis
    unfolding decode_get_contacts_response_def contacts_message_def
    using assms(2) by (intro field_loop_written) (simp_all add: contacts_message_def)
qed

section \<open>Walking the pages\<close>

lemma page_at:
  assumes "start \<le> length us" "length us < 2 ^ 64"
  shows "contact_page us (Some (dec_digits start)) limit =
    (take limit (drop start us), if start + limit < length us then Some (dec_digits (start + limit)) else None)"
  using assms parse_dec_digits [of start]
  by (auto simp: contact_page_def Let_def saturating_add_usize_def min_def)

lemma walk_from:
  "start \<le> length us \<Longrightarrow> length us < 2 ^ 64 \<Longrightarrow> 0 < limit \<Longrightarrow> length us - start < n \<Longrightarrow>
     walk_pages n us limit (Some (dec_digits start)) = Some (drop start us)"
proof (induction n arbitrary: start)
  case (Suc n)
  show ?case
  proof (cases "start + limit < length us")
    case True
    then have "walk_pages n us limit (Some (dec_digits (start + limit))) = Some (drop (start + limit) us)"
      using Suc by simp
    moreover have "take limit (drop start us) @ drop (start + limit) us = drop start us"
      by (metis append_take_drop_id drop_drop add.commute)
    ultimately show ?thesis using Suc True page_at [of start us limit] by simp
  next
    case False
    then show ?thesis using Suc page_at [of start us limit] by simp
  qed
qed simp

text \<open>C40. A contact list that the server sends is decoded user by user, and a client that asks for
  pages of any positive size and follows the cursors gets every user once, in the order of the
  list, after at most one request per user and one more.\<close>

theorem contact_pages_complete:
  assumes "list_all plain_user us" "length (contacts_message us) < 2 ^ 64" "length us < 2 ^ 64" "0 < limit"
  shows "walk_pages (Suc (length us)) (fst (decode_get_contacts_response (contacts_message us))) limit None = Some us"
proof -
  have "contact_page us None limit = contact_page us (Some (dec_digits 0)) limit"
    using parse_dec_digits [of 0] by (simp add: contact_page_def)
  then have "walk_pages (Suc (length us)) us limit None = walk_pages (Suc (length us)) us limit (Some (dec_digits 0))"
    by simp
  then show ?thesis using walk_from [of 0 us limit "Suc (length us)"] assms contacts_read [OF assms(1,2)] by simp
qed

definition three_users :: "user_entity list" where
  "three_users = [\<lparr>u_id = 7, u_name = [97], u_nick = [], u_phone = [], u_hash = 1\<rparr>,
     \<lparr>u_id = 8, u_name = [], u_nick = [98], u_phone = [], u_hash = 2\<rparr>, \<lparr>u_id = 9, u_name = [], u_nick = [], u_phone = [], u_hash = 3\<rparr>]"

theorem contact_pages_complete_witness:
  "walk_pages 4 (fst (decode_get_contacts_response (contacts_message three_users))) 2 None = Some three_users"
proof -
  have "list_all plain_user three_users" by code_simp
  moreover have "length (contacts_message three_users) = 38" by code_simp
  moreover have "length three_users = 3" by (simp add: three_users_def)
  ultimately show ?thesis using contact_pages_complete [of three_users 2] by simp
qed

end
