(* ===== verification/Bale_Signaling.thy ===== *)
theory Bale_Signaling
  imports Server_Manager Ws_Rpc Contacts
begin

text \<open>
  \<open>BaleSignaling\<close> of \<open>signaling.rs\<close>, between the WebSocket client and the tunnel managers: peers and
  their handles, contacts, incoming calls with their per-call task, call bookkeeping, the callbacks
  of the client, and the setters that feed its rule engine. A \<open>PeerId\<close> is an \<open>Arc\<close> compared by
  pointer, here a number; \<open>bs_peers\<close> is what the pointers point to. The WebSocket client is the
  \<open>ws_world\<close> of the client theory, and what its RPCs return is an input. The tasks of incoming calls
  are numbered and split at their awaits.
\<close>

section \<open>State\<close>

type_synonym peer_handle = nat

record bale_peer =
  bp_uid :: "32 word"
  bp_access_hash :: "64 word"
  bp_display_name :: "bytes option"

datatype end_reason = EndRejected | CallerHangup | EndTimeout | NetworkDrop | Other_reason "32 word"

datatype signaling_event = AuthExpired | ProtocolObsolete | CallEndedEvent peer_handle end_reason | ContactsChanged

text \<open>\<open>SignalingError\<close>; a \<open>Transport\<close> error keeps what its text is made of.\<close>

datatype signaling_error = SigNotAuthenticated | SigNotConnected | SigNotSupported | SigTransport call_error | NotABaleUid

record transport_session =
  ts_url :: bytes
  ts_token :: bytes
  ts_peer :: peer_handle

text \<open>One \<open>on_incoming_call\<close>: in \<open>decide\<close> with the peer and the name it is asked about, in
  \<open>accept_call\<close>, in \<open>discard_call\<close>, returned.\<close>

datatype incoming_task =
  NoIncoming
| AwaitDecide "64 word" call_entity peer_handle "bytes option"
| AwaitAccept "64 word" call_entity peer_handle
| AwaitDiscard "64 word"
| Handled

record bale_signaling =
  bs_ws :: ws_world
  bs_store :: "bytes option"
  bs_contacts :: "user_entity list option"
  bs_peer_cache :: "32 word \<rightharpoonup> peer_handle"
  bs_peers :: "peer_handle \<rightharpoonup> bale_peer"
  bs_next_peer :: nat
  bs_events :: "signaling_event list"
  bs_handler :: bool
  bs_active :: "(64 word \<times> peer_handle) list"
  bs_in_flight :: "64 word list"
  bs_consumer :: bool
  bs_accepted :: "transport_session list"
  bs_teardown :: "64 word"
  bs_tasks :: "nat \<Rightarrow> incoming_task"

definition signaling_new :: "bytes option \<Rightarrow> bale_signaling" where
  "signaling_new store = \<lparr>bs_ws = ws_step (SetOnVersionMismatch 0) (ws_step (SetOnTokenExpired 0)
       (ws_step (AddOnCallEnded 0) (ws_step (AddOnCallReceived 0) ws_new))),
     bs_store = store, bs_contacts = None, bs_peer_cache = Map.empty, bs_peers = Map.empty, bs_next_peer = 0,
     bs_events = [], bs_handler = False, bs_active = [], bs_in_flight = [], bs_consumer = False, bs_accepted = [],
     bs_teardown = 0, bs_tasks = (\<lambda>_. NoIncoming)\<rparr>"

section \<open>Connection\<close>

definition with_ws :: "(ws_world \<Rightarrow> ws_world) \<Rightarrow> bale_signaling \<Rightarrow> bale_signaling" where
  "with_ws f s = s\<lparr>bs_ws := f (bs_ws s)\<rparr>"

definition access_token_str :: "bale_signaling \<Rightarrow> signaling_error + bytes" where
  "access_token_str s =
     (case bs_store s of Some b \<Rightarrow> if utf8_ok b then Inr b else Inl SigNotAuthenticated | None \<Rightarrow> Inl SigNotAuthenticated)"

definition auto_load_token :: "bale_signaling \<Rightarrow> bale_signaling" where
  "auto_load_token s =
     (case bs_store s of Some b \<Rightarrow> if utf8_ok b then with_ws (set_token (Some b)) s else s | None \<Rightarrow> s)"

definition is_connect_requested :: "bale_signaling \<Rightarrow> bool" where
  "is_connect_requested s \<longleftrightarrow> has_token (bs_ws s) \<and> \<not> user_disconnect (bs_ws s)"

definition is_authenticated :: "bale_signaling \<Rightarrow> bool" where
  "is_authenticated s \<longleftrightarrow> bs_store s \<noteq> None"

definition signaling_connect :: "bale_signaling \<Rightarrow> (signaling_error + unit) \<times> bale_signaling" where
  "signaling_connect s =
     (case access_token_str s of
        Inl e \<Rightarrow> (Inl e, s)
      | Inr t \<Rightarrow> (Inr (), with_ws (set_token (Some t)) (with_ws (set_user_disconnect False) s)))"

definition signaling_disconnect :: "bale_signaling \<Rightarrow> bale_signaling" where
  "signaling_disconnect s = with_ws (set_user_disconnect True) (s\<lparr>bs_teardown := bs_teardown s + 1\<rparr>)"

definition sign_out :: "bale_signaling \<Rightarrow> bale_signaling" where
  "sign_out s = (with_ws (set_token None) (s\<lparr>bs_teardown := bs_teardown s + 1\<rparr>))\<lparr>bs_store := None\<rparr>"

definition emit_event :: "signaling_event \<Rightarrow> bale_signaling \<Rightarrow> bale_signaling" where
  "emit_event e s = s\<lparr>bs_events := bs_events s @ [e]\<rparr>"

definition on_token_expired_cb :: "bale_signaling \<Rightarrow> bale_signaling" where
  "on_token_expired_cb s = emit_event AuthExpired (with_ws (set_token None) (s\<lparr>bs_store := None\<rparr>))"

definition on_version_mismatch_cb :: "bale_signaling \<Rightarrow> bale_signaling" where
  "on_version_mismatch_cb s = emit_event ProtocolObsolete s"

definition activate :: "bale_signaling \<Rightarrow> bale_signaling" where
  "activate s = with_ws (set_manager_active True) s"

definition deactivate :: "bale_signaling \<Rightarrow> bale_signaling" where
  "deactivate s = with_ws (set_manager_active False) s"

section \<open>Peers\<close>

definition intern_peer :: "32 word \<Rightarrow> 64 word \<Rightarrow> bytes option \<Rightarrow> bale_signaling \<Rightarrow> peer_handle \<times> bale_signaling" where
  "intern_peer uid hash name s =
     (let s = (case name of
            Some n \<Rightarrow> if n \<noteq> [] then with_ws (populate_names [(uid, Some n)]) s else s
          | None \<Rightarrow> s)
      in case bs_peer_cache s uid of
           Some existing \<Rightarrow> (existing, s)
         | None \<Rightarrow>
             let p = bs_next_peer s in
             (p, s\<lparr>bs_next_peer := Suc p,
                   bs_peers := (bs_peers s)(p \<mapsto> \<lparr>bp_uid = uid, bp_access_hash = hash, bp_display_name = name\<rparr>),
                   bs_peer_cache := (bs_peer_cache s)(uid \<mapsto> p)\<rparr>))"

text \<open>The id text of a handle that \<open>intern_peer\<close> has made. No other handle is passed in: \<open>[]\<close> for one
  that does not exist.\<close>

definition id_str :: "bale_signaling \<Rightarrow> peer_handle \<Rightarrow> bytes" where
  "id_str s p = (case bs_peers s p of Some b \<Rightarrow> i32_to_string (bp_uid b) | None \<Rightarrow> [])"

definition peer_uid :: "bale_signaling \<Rightarrow> peer_handle \<Rightarrow> 32 word option" where
  "peer_uid s p = map_option word_of_int (parse_i32 (id_str s p))"

definition resolve_peer :: "bytes \<Rightarrow> bale_signaling \<Rightarrow> peer_handle option \<times> bale_signaling" where
  "resolve_peer txt s =
     (case parse_i32 txt of
        None \<Rightarrow> (None, s)
      | Some uid \<Rightarrow> (case intern_peer (word_of_int uid) 0 None s of (p, s) \<Rightarrow> (Some p, s)))"

definition whoami :: "bale_signaling \<Rightarrow> peer_handle option \<times> bale_signaling" where
  "whoami s =
     (case self_info (bs_ws s) of
        None \<Rightarrow> (None, s)
      | Some (uid, name) \<Rightarrow> (case intern_peer uid 0 name s of (p, s) \<Rightarrow> (Some p, s)))"

definition peer_display_name :: "peer_handle \<Rightarrow> bale_signaling \<Rightarrow> bytes option" where
  "peer_display_name p s = (case peer_uid s p of None \<Rightarrow> None | Some uid \<Rightarrow> cached_name uid (bs_ws s))"

text \<open>\<open>fetch_display_name\<close> with what the LoadUsers RPC answers when it is sent.\<close>

definition fetch_display_name ::
  "rpc_call_error + bytes \<Rightarrow> peer_handle \<Rightarrow> bale_signaling \<Rightarrow> bytes option \<times> bale_signaling" where
  "fetch_display_name reply p s =
     (case peer_display_name p s of
        Some n \<Rightarrow> (Some n, s)
      | None \<Rightarrow>
          (case peer_uid s p of
             None \<Rightarrow> (None, s)
           | Some uid \<Rightarrow>
               (case load_user_name_lookup uid (bs_ws s) of
                  Inl n \<Rightarrow> (n, s)
                | Inr _ \<Rightarrow> (case load_user_name_done uid reply (bs_ws s) of (n, w) \<Rightarrow> (n, s\<lparr>bs_ws := w\<rparr>)))))"

section \<open>Contacts\<close>

definition load_full_contact_list ::
  "http_client \<Rightarrow> bytes \<Rightarrow> bale_signaling \<Rightarrow> (signaling_error + user_entity list) \<times> bale_signaling" where
  "load_full_contact_list http tok s =
     (case bs_contacts s of
        Some cached \<Rightarrow> (Inr cached, s)
      | None \<Rightarrow>
          (case get_contact_peers http tok of
             Inl e \<Rightarrow> (Inl (SigTransport e), s)
           | Inr (inline, peers) \<Rightarrow>
               (case (if peers \<noteq> [] then load_users_batch http tok peers else Inr inline) of
                  Inl e \<Rightarrow> (Inl (SigTransport e), s)
                | Inr users \<Rightarrow>
                    (Inr users,
                     (with_ws (populate_names (map (\<lambda>u. (u_id u, if display_name u = [] then None else Some (display_name u))) users)) s)
                       \<lparr>bs_contacts := Some users\<rparr>))))"

fun intern_users :: "user_entity list \<Rightarrow> bale_signaling \<Rightarrow> peer_handle list \<times> bale_signaling" where
  "intern_users [] s = ([], s)"
| "intern_users (u # us) s =
     (case intern_peer (u_id u) (u_hash u) (Some (display_name u)) s of (p, s) \<Rightarrow>
      case intern_users us s of (ps, s) \<Rightarrow> (p # ps, s))"

definition contacts_found ::
  "http_client \<Rightarrow> bytes \<Rightarrow> bytes option \<Rightarrow> bale_signaling \<Rightarrow> (signaling_error + user_entity list) \<times> bale_signaling" where
  "contacts_found http tok query s =
     (case query of
        Some q \<Rightarrow> if q \<noteq> [] then (map_sum SigTransport id (search_contacts_by_name http tok q), s)
                  else load_full_contact_list http tok s
      | None \<Rightarrow> load_full_contact_list http tok s)"

definition list_contacts ::
  "http_client \<Rightarrow> bytes option \<Rightarrow> bytes option \<Rightarrow> nat \<Rightarrow> bale_signaling
     \<Rightarrow> (signaling_error + peer_handle list \<times> bytes option) \<times> bale_signaling" where
  "list_contacts http query cursor limit s =
     (case access_token_str s of
        Inl e \<Rightarrow> (Inl e, s)
      | Inr tok \<Rightarrow>
          (case contacts_found http tok query s of
             (Inl e, s) \<Rightarrow> (Inl e, s)
           | (Inr users, s) \<Rightarrow>
               (case contact_page users cursor limit of (page, nxt) \<Rightarrow>
                case intern_users page s of (ps, s) \<Rightarrow> (Inr (ps, nxt), s))))"

definition search_contact_by_phone ::
  "http_client \<Rightarrow> bytes \<Rightarrow> bale_signaling \<Rightarrow> (signaling_error + peer_handle list) \<times> bale_signaling" where
  "search_contact_by_phone http phone s =
     (case access_token_str s of
        Inl e \<Rightarrow> (Inl e, s)
      | Inr tok \<Rightarrow>
          (case import_contact_by_phone http tok phone of
             Inl e \<Rightarrow> (Inl (SigTransport e), s)
           | Inr users \<Rightarrow> (case intern_users users (s\<lparr>bs_contacts := None\<rparr>) of (ps, s) \<Rightarrow> (Inr ps, s))))"

text \<open>The access hash that \<open>remove_contact\<close> sends for a user.\<close>

definition cached_access_hash :: "32 word \<Rightarrow> bale_signaling \<Rightarrow> 64 word" where
  "cached_access_hash uid s =
     (case bs_contacts s of
        None \<Rightarrow> 0
      | Some users \<Rightarrow> (case find (\<lambda>u. u_id u = uid) users of Some u \<Rightarrow> u_hash u | None \<Rightarrow> 0))"

definition remove_contact ::
  "http_client \<Rightarrow> peer_handle \<Rightarrow> bale_signaling \<Rightarrow> (signaling_error + unit) \<times> bale_signaling" where
  "remove_contact http p s =
     (case access_token_str s of
        Inl e \<Rightarrow> (Inl e, s)
      | Inr tok \<Rightarrow>
          (case peer_uid s p of
             None \<Rightarrow> (Inl NotABaleUid, s)
           | Some uid \<Rightarrow>
               (case remove_contact_rpc http tok uid (cached_access_hash uid s) of
                  Inl e \<Rightarrow> (Inl (SigTransport e), s)
                | Inr () \<Rightarrow> (Inr (), s\<lparr>bs_contacts := None\<rparr>))))"

section \<open>Calls\<close>

definition set_incoming :: "nat \<Rightarrow> incoming_task \<Rightarrow> bale_signaling \<Rightarrow> bale_signaling" where
  "set_incoming k t s = s\<lparr>bs_tasks := (bs_tasks s)(k := t)\<rparr>"

text \<open>The end of a task drops its guard.\<close>

definition incoming_done :: "nat \<Rightarrow> 64 word \<Rightarrow> bale_signaling \<Rightarrow> bale_signaling" where
  "incoming_done k i s = set_incoming k Handled (s\<lparr>bs_in_flight := filter (\<lambda>j. j \<noteq> i) (bs_in_flight s)\<rparr>)"

definition on_incoming_call :: "nat \<Rightarrow> 64 word \<Rightarrow> call_entity option \<Rightarrow> bale_signaling \<Rightarrow> bale_signaling" where
  "on_incoming_call k i call s =
     (case call of
        None \<Rightarrow> set_incoming k Handled s
      | Some c \<Rightarrow>
          if caller_id c = 0 then set_incoming k Handled s
          else if sint (caller_id c) > 2147483647 \<or> sint (caller_id c) < 0 then set_incoming k Handled s
          else if i \<in> set (bs_in_flight s) then set_incoming k Handled s
          else
            (case intern_peer (ucast (caller_id c)) 0 None (s\<lparr>bs_in_flight := i # bs_in_flight s\<rparr>) of (p, s) \<Rightarrow>
             if \<not> bs_handler s then incoming_done k i s
             else set_incoming k (AwaitDecide i c p (peer_display_name p s)) s))"

definition incoming_decided :: "nat \<Rightarrow> call_decision \<Rightarrow> bale_signaling \<Rightarrow> bale_signaling" where
  "incoming_decided k d s =
     (case bs_tasks s k of
        AwaitDecide i c p name \<Rightarrow>
          (case d of
             Accept \<Rightarrow> set_incoming k (AwaitAccept i c p) s
           | Reject \<Rightarrow> set_incoming k (AwaitDiscard i) s
           | SilentlyIgnore \<Rightarrow> incoming_done k i s)
      | _ \<Rightarrow> s)"

definition incoming_accepted :: "nat \<Rightarrow> call_entity option \<Rightarrow> bale_signaling \<Rightarrow> bale_signaling" where
  "incoming_accepted k accepted s =
     (case bs_tasks s k of
        AwaitAccept i c p \<Rightarrow>
          (case accepted of
             None \<Rightarrow> incoming_done k i s
           | Some a \<Rightarrow>
               if \<not> (is_livekit c \<or> is_livekit a) \<or> token a = [] then incoming_done k i s
               else
                 let s = s\<lparr>bs_active := AList.update i p (bs_active s)\<rparr>;
                     transport = \<lparr>ts_url = url a, ts_token = token a, ts_peer = p\<rparr>;
                     s = (if bs_consumer s then s\<lparr>bs_accepted := bs_accepted s @ [transport]\<rparr> else s)
                 in incoming_done k i s)
      | _ \<Rightarrow> s)"

definition incoming_discarded :: "nat \<Rightarrow> bale_signaling \<Rightarrow> bale_signaling" where
  "incoming_discarded k s = (case bs_tasks s k of AwaitDiscard i \<Rightarrow> incoming_done k i s | _ \<Rightarrow> s)"

definition map_discard_reason :: "32 word \<Rightarrow> end_reason" where
  "map_discard_reason reason = Other_reason reason"

definition on_call_ended_internal :: "64 word \<Rightarrow> 32 word \<Rightarrow> bale_signaling \<Rightarrow> bale_signaling" where
  "on_call_ended_internal i reason s =
     (case map_of (bs_active s) i of
        None \<Rightarrow> s
      | Some p \<Rightarrow>
          emit_event (CallEndedEvent p (map_discard_reason reason)) (s\<lparr>bs_active := AList.delete i (bs_active s)\<rparr>))"

text \<open>\<open>place_call\<close> with what \<open>start_call\<close> returned.\<close>

definition signaling_place_call ::
  "peer_handle \<Rightarrow> call_entity option \<Rightarrow> bale_signaling \<Rightarrow> (place_call_error + transport_session) \<times> bale_signaling" where
  "signaling_place_call p started s =
     (case peer_uid s p of
        None \<Rightarrow> (Inl NoPeer, s)
      | Some uid \<Rightarrow>
          (case started of
             None \<Rightarrow> (Inl (Transport ''startCall returned no entity''), s)
           | Some c \<Rightarrow>
               if \<not> is_livekit c \<or> token c = [] then (Inl (Transport ''startCall reply had no LiveKit credentials''), s)
               else (Inr \<lparr>ts_url = url c, ts_token = token c, ts_peer = p\<rparr>,
                     s\<lparr>bs_active := AList.update (call_id c) p (bs_active s)\<rparr>)))"

definition set_incoming_handler :: "bale_signaling \<Rightarrow> bale_signaling" where
  "set_incoming_handler s = s\<lparr>bs_handler := True\<rparr>"

definition accepted_sessions :: "bale_signaling \<Rightarrow> bale_signaling" where
  "accepted_sessions s = s\<lparr>bs_consumer := True, bs_accepted := []\<rparr>"

section \<open>Runs\<close>

text \<open>Everything that can happen next: an operation of an application or a manager, a callback of the
  client, a step of a call's task, a step of the client, a token saved by a sign-in.\<close>

datatype sig_op =
  WsOp ws_op | SaveToken bytes | AutoLoad | Connect | Disconnect | SignOut | TokenExpired | VersionMismatch
| Activate | Deactivate | SetHandler | AcceptedSessions
| Resolve bytes | WhoAmI | FetchName "rpc_call_error + bytes" peer_handle
| ListContacts http_client "bytes option" "bytes option" nat | SearchPhone http_client bytes
| RemoveContact http_client peer_handle
| CallReceived nat "64 word" "call_entity option" | Decided_op nat call_decision | Accepted_op nat "call_entity option"
| Discarded nat | CallEnded_op "64 word" "32 word" | PlaceCall peer_handle "call_entity option"

fun sig_step :: "sig_op \<Rightarrow> bale_signaling \<Rightarrow> bale_signaling" where
  "sig_step (WsOp op) s = with_ws (ws_step op) s"
| "sig_step (SaveToken b) s = s\<lparr>bs_store := Some b\<rparr>"
| "sig_step AutoLoad s = auto_load_token s"
| "sig_step Connect s = snd (signaling_connect s)"
| "sig_step Disconnect s = signaling_disconnect s"
| "sig_step SignOut s = sign_out s"
| "sig_step TokenExpired s = on_token_expired_cb s"
| "sig_step VersionMismatch s = on_version_mismatch_cb s"
| "sig_step Activate s = activate s"
| "sig_step Deactivate s = deactivate s"
| "sig_step SetHandler s = set_incoming_handler s"
| "sig_step AcceptedSessions s = accepted_sessions s"
| "sig_step (Resolve txt) s = snd (resolve_peer txt s)"
| "sig_step WhoAmI s = snd (whoami s)"
| "sig_step (FetchName reply p) s = snd (fetch_display_name reply p s)"
| "sig_step (ListContacts http query cursor limit) s = snd (list_contacts http query cursor limit s)"
| "sig_step (SearchPhone http phone) s = snd (search_contact_by_phone http phone s)"
| "sig_step (RemoveContact http p) s = snd (remove_contact http p s)"
| "sig_step (CallReceived k i call) s = (if bs_tasks s k = NoIncoming then on_incoming_call k i call s else s)"
| "sig_step (Decided_op k d) s = incoming_decided k d s"
| "sig_step (Accepted_op k reply) s = incoming_accepted k reply s"
| "sig_step (Discarded k) s = incoming_discarded k s"
| "sig_step (CallEnded_op i reason) s = on_call_ended_internal i reason s"
| "sig_step (PlaceCall p started) s = snd (signaling_place_call p started s)"

abbreviation signaling_reach :: "bale_signaling \<Rightarrow> bool" where
  "signaling_reach \<equiv> reachable (\<lambda>s. \<exists>store. s = signaling_new store) (\<lambda>s t. \<exists>op. t = sig_step op s)"

section \<open>Handles\<close>

definition event_peers :: "signaling_event list \<Rightarrow> peer_handle list" where
  "event_peers es = concat (map (\<lambda>e. case e of CallEndedEvent p _ \<Rightarrow> [p] | _ \<Rightarrow> []) es)"

fun task_peers :: "incoming_task \<Rightarrow> peer_handle set" where
  "task_peers (AwaitDecide i c p n) = {p}"
| "task_peers (AwaitAccept i c p) = {p}"
| "task_peers _ = {}"

text \<open>Every handle that the managers, the application or a task can hold.\<close>

definition handed_out :: "bale_signaling \<Rightarrow> peer_handle set" where
  "handed_out s = snd ` set (bs_active s) \<union> ts_peer ` set (bs_accepted s) \<union> set (event_peers (bs_events s))
     \<union> (\<Union>k. task_peers (bs_tasks s k))"

definition peers_ok :: "bale_signaling \<Rightarrow> bool" where
  "peers_ok s \<longleftrightarrow> (\<forall>uid p. bs_peer_cache s uid = Some p \<longleftrightarrow> (\<exists>b. bs_peers s p = Some b \<and> bp_uid b = uid))
     \<and> (\<forall>p b. bs_peers s p = Some b \<longrightarrow> p < bs_next_peer s)"

fun task_call :: "incoming_task \<Rightarrow> 64 word option" where
  "task_call (AwaitDecide i c p n) = Some i"
| "task_call (AwaitAccept i c p) = Some i"
| "task_call (AwaitDiscard i) = Some i"
| "task_call _ = None"

definition tasks_ok :: "bale_signaling \<Rightarrow> bool" where
  "tasks_ok s \<longleftrightarrow> (\<forall>i. i \<in> set (bs_in_flight s) \<longleftrightarrow> (\<exists>k. task_call (bs_tasks s k) = Some i))
     \<and> (\<forall>k l i. task_call (bs_tasks s k) = Some i \<longrightarrow> task_call (bs_tasks s l) = Some i \<longrightarrow> k = l)"

definition signaling_inv :: "bale_signaling \<Rightarrow> bool" where
  "signaling_inv s \<longleftrightarrow> peers_ok s \<and> tasks_ok s \<and> handed_out s \<subseteq> dom (bs_peers s)"

definition call_view :: "bale_signaling \<Rightarrow> (64 word \<times> peer_handle) list \<times> 64 word list \<times> transport_session list
    \<times> (nat \<Rightarrow> incoming_task) \<times> peer_handle list \<times> bool" where
  "call_view s = (bs_active s, bs_in_flight s, bs_accepted s, bs_tasks s, event_peers (bs_events s), bs_handler s)"

text \<open>A step that makes handles at most, and leaves the calls alone.\<close>

definition only_interns :: "bale_signaling \<Rightarrow> bale_signaling \<Rightarrow> bool" where
  "only_interns s t \<longleftrightarrow> (peers_ok s \<longrightarrow> peers_ok t \<and> bs_peers s \<subseteq>\<^sub>m bs_peers t) \<and> call_view t = call_view s"

lemma only_interns_refl [simp, intro]: "only_interns s s"
  by (simp add: only_interns_def)

lemma only_interns_trans [trans]: "only_interns s t \<Longrightarrow> only_interns t u \<Longrightarrow> only_interns s u"
  by (auto simp: only_interns_def intro: map_le_trans)

lemma same_peers:
  assumes "bs_peers t = bs_peers s" "bs_peer_cache t = bs_peer_cache s" "bs_next_peer t = bs_next_peer s"
    "call_view t = call_view s"
  shows "only_interns s t"
  using assms by (simp add: only_interns_def peers_ok_def)

lemma with_ws_interns [simp]: "only_interns s (with_ws f s)"
  by (rule same_peers) (simp_all add: with_ws_def call_view_def)

lemma with_ws_sel [simp]:
  "bs_peers (with_ws f s) = bs_peers s" "bs_peer_cache (with_ws f s) = bs_peer_cache s"
  "bs_next_peer (with_ws f s) = bs_next_peer s" "call_view (with_ws f s) = call_view s"
  "peers_ok (with_ws f s) = peers_ok s"
  by (simp_all add: with_ws_def call_view_def peers_ok_def)

lemma mint_ok:
  assumes "peers_ok s" "bs_peer_cache s uid = None" "bp_uid b = uid"
  shows "peers_ok (s\<lparr>bs_next_peer := Suc (bs_next_peer s), bs_peers := (bs_peers s)(bs_next_peer s \<mapsto> b),
      bs_peer_cache := (bs_peer_cache s)(uid \<mapsto> bs_next_peer s)\<rparr>) \<and>
    bs_peers s \<subseteq>\<^sub>m (bs_peers s)(bs_next_peer s \<mapsto> b)"
proof -
  have fresh: "bs_peers s (bs_next_peer s) = None"
    using assms(1) by (cases "bs_peers s (bs_next_peer s)") (auto simp: peers_ok_def)
  have "bs_peers s p = Some c \<Longrightarrow> bp_uid c \<noteq> uid" for p c
    using assms(1,2) by (force simp: peers_ok_def)
  then show ?thesis
    using assms fresh by (auto simp: peers_ok_def map_le_def dom_def less_Suc_eq)
qed

lemma intern_peer_keeps:
  assumes "intern_peer uid hash name s = (p, t)"
  shows "only_interns s t" "peers_ok s \<Longrightarrow> p \<in> dom (bs_peers t)" "peers_ok s \<Longrightarrow> bs_peer_cache t uid = Some p"
proof -
  define u where "u = (case name of Some n \<Rightarrow> if n \<noteq> [] then with_ws (populate_names [(uid, Some n)]) s else s | None \<Rightarrow> s)"
  have u: "only_interns s u" "peers_ok u = peers_ok s" by (auto simp: u_def split: option.split)
  have t: "(case bs_peer_cache u uid of Some existing \<Rightarrow> (existing, u)
         | None \<Rightarrow> (bs_next_peer u, u\<lparr>bs_next_peer := Suc (bs_next_peer u),
                   bs_peers := (bs_peers u)(bs_next_peer u \<mapsto> \<lparr>bp_uid = uid, bp_access_hash = hash, bp_display_name = name\<rparr>),
                   bs_peer_cache := (bs_peer_cache u)(uid \<mapsto> bs_next_peer u)\<rparr>)) = (p, t)"
    using assms unfolding intern_peer_def Let_def u_def .
  have "only_interns u t"
    using t mint_ok [of u uid "\<lparr>bp_uid = uid, bp_access_hash = hash, bp_display_name = name\<rparr>"]
    by (auto simp: only_interns_def call_view_def split: option.splits)
  then show "only_interns s t" using u(1) only_interns_trans by blast
  show "p \<in> dom (bs_peers t)" if "peers_ok s"
    using t that u(2) by (auto simp: peers_ok_def split: option.splits)
  show "bs_peer_cache t uid = Some p" if "peers_ok s"
    using t by (auto split: option.splits)
qed

lemma intern_users_keeps: "intern_users us s = (ps, t) \<Longrightarrow> only_interns s t"
proof (induction us arbitrary: s ps)
  case (Cons u us)
  obtain p v where v: "intern_peer (u_id u) (u_hash u) (Some (display_name u)) s = (p, v)" by fastforce
  then obtain qs where "intern_users us v = (qs, t)" using Cons(2) by (auto split: prod.splits)
  then show ?case using Cons(1) intern_peer_keeps(1) [OF v] only_interns_trans by blast
qed simp

fun call_op :: "sig_op \<Rightarrow> bool" where
  "call_op SetHandler = True"
| "call_op AcceptedSessions = True"
| "call_op (CallReceived k i call) = True"
| "call_op (Decided_op k d) = True"
| "call_op (Accepted_op k reply) = True"
| "call_op (Discarded k) = True"
| "call_op (CallEnded_op i reason) = True"
| "call_op (PlaceCall p started) = True"
| "call_op _ = False"

lemma event_peers_snoc [simp]:
  "event_peers (es @ [e]) = event_peers es @ (case e of CallEndedEvent p _ \<Rightarrow> [p] | _ \<Rightarrow> [])"
  by (simp add: event_peers_def)

lemma list_contacts_keeps: "only_interns s (snd (list_contacts http query cursor limit s))"
proof -
  have found: "only_interns s t" if "contacts_found http tok query s = (r, t)" for tok r t
    using that unfolding contacts_found_def load_full_contact_list_def
    by (auto split: option.splits if_splits sum.splits prod.splits intro!: same_peers simp: call_view_def with_ws_def)
  then show ?thesis
    unfolding list_contacts_def
    by (auto split: sum.split prod.split dest!: intern_users_keeps intro: only_interns_trans)
qed

lemma search_phone_keeps: "only_interns s (snd (search_contact_by_phone http phone s))"
proof -
  have "only_interns s (s\<lparr>bs_contacts := None\<rparr>)" by (rule same_peers) (simp_all add: call_view_def)
  then show ?thesis
    unfolding search_contact_by_phone_def
    by (auto split: sum.split prod.split dest!: intern_users_keeps intro: only_interns_trans)
qed

lemma quiet_op: "\<not> call_op op \<Longrightarrow> only_interns s (sig_step op s)"
proof (cases op)
  case (Resolve n)
  then show ?thesis by (auto simp: resolve_peer_def split: option.split prod.split dest: intern_peer_keeps(1))
next
  case WhoAmI
  then show ?thesis by (auto simp: whoami_def split: option.split prod.split dest: intern_peer_keeps(1))
next
  case (FetchName reply p)
  then show ?thesis
    by (auto simp: fetch_display_name_def call_view_def split: option.split sum.split prod.split intro!: same_peers)
next
  case (RemoveContact http p)
  then show ?thesis
    by (auto simp: remove_contact_def call_view_def split: option.split sum.split unit.split intro!: same_peers)
qed (auto simp: list_contacts_keeps search_phone_keeps auto_load_token_def signaling_connect_def signaling_disconnect_def
    sign_out_def on_token_expired_cb_def on_version_mismatch_cb_def emit_event_def activate_def deactivate_def
    call_view_def with_ws_def split: option.split sum.split intro!: same_peers)

lemma only_interns_inv:
  assumes "only_interns s t" "signaling_inv s"
  shows "signaling_inv t"
proof -
  have "handed_out t = handed_out s" "tasks_ok t = tasks_ok s"
    using assms(1) by (simp_all add: only_interns_def call_view_def handed_out_def tasks_ok_def)
  moreover have "dom (bs_peers s) \<subseteq> dom (bs_peers t)" "peers_ok t"
    using assms by (simp_all add: only_interns_def signaling_inv_def map_le_implies_dom_le)
  ultimately show ?thesis using assms(2) unfolding signaling_inv_def by blast
qed

section \<open>Calls keep the invariant\<close>

lemma retask:
  assumes "tasks_ok s" "task_call t = task_call (bs_tasks s k)"
  shows "tasks_ok (set_incoming k t s)"
proof -
  have "task_call (bs_tasks (set_incoming k t s) l) = task_call (bs_tasks s l)" for l
    using assms(2) by (simp add: set_incoming_def)
  then show ?thesis using assms(1) by (simp add: tasks_ok_def) (simp add: set_incoming_def)
qed

lemma done_ok:
  assumes "tasks_ok s" "task_call (bs_tasks s k) = Some i"
  shows "tasks_ok (incoming_done k i s)"
proof -
  have at: "task_call (bs_tasks (incoming_done k i s) l) = Some j \<longleftrightarrow> j \<noteq> i \<and> task_call (bs_tasks s l) = Some j" for l j
    using assms by (auto simp: incoming_done_def set_incoming_def tasks_ok_def)
  show ?thesis
    using assms(1) unfolding tasks_ok_def at by (simp add: incoming_done_def set_incoming_def) blast
qed

lemma started_ok:
  assumes "tasks_ok s" "task_call (bs_tasks s k) = None" "i \<notin> set (bs_in_flight s)" "task_call t = Some i"
  shows "tasks_ok (set_incoming k t (s\<lparr>bs_in_flight := i # bs_in_flight s\<rparr>))"
proof -
  have at: "task_call (bs_tasks (set_incoming k t (s\<lparr>bs_in_flight := i # bs_in_flight s\<rparr>)) l) = Some j \<longleftrightarrow>
      (l = k \<and> j = i) \<or> (j \<noteq> i \<and> task_call (bs_tasks s l) = Some j)" for l j
    using assms by (auto simp: set_incoming_def tasks_ok_def)
  show ?thesis
    using assms(1,3) unfolding tasks_ok_def at by (simp add: set_incoming_def) blast
qed

lemma drop_handles:
  assumes "signaling_inv s" "tasks_ok t" "handed_out t \<subseteq> handed_out s \<union> dom (bs_peers s)"
    "bs_peers t = bs_peers s" "bs_peer_cache t = bs_peer_cache s" "bs_next_peer t = bs_next_peer s"
  shows "signaling_inv t"
proof -
  have "peers_ok t = peers_ok s" using assms(4-6) by (simp add: peers_ok_def)
  moreover have "handed_out t \<subseteq> dom (bs_peers t)" using assms(1,3,4) by (auto simp: signaling_inv_def)
  ultimately show ?thesis using assms(1,2) by (simp add: signaling_inv_def)
qed

lemma handed_out_cases:
  "p \<in> handed_out s \<longleftrightarrow> p \<in> snd ` set (bs_active s) \<or> p \<in> ts_peer ` set (bs_accepted s)
     \<or> p \<in> set (event_peers (bs_events s)) \<or> (\<exists>k. p \<in> task_peers (bs_tasks s k))"
  by (auto simp: handed_out_def)

lemma done_handles: "handed_out (incoming_done k i s) \<subseteq> handed_out s"
  by (auto simp: handed_out_cases incoming_done_def set_incoming_def split: if_splits)

lemma done_sel [simp]:
  "bs_peers (incoming_done k i s) = bs_peers s" "bs_peer_cache (incoming_done k i s) = bs_peer_cache s"
  "bs_next_peer (incoming_done k i s) = bs_next_peer s"
  by (simp_all add: incoming_done_def set_incoming_def)

lemma done_inv: "signaling_inv s \<Longrightarrow> task_call (bs_tasks s k) = Some i \<Longrightarrow> signaling_inv (incoming_done k i s)"
  using drop_handles [of s "incoming_done k i s"] done_ok [of s k i] done_handles [of k i s]
  by (auto simp: signaling_inv_def)

lemma task_handle: "signaling_inv s \<Longrightarrow> p \<in> task_peers (bs_tasks s k) \<Longrightarrow> p \<in> dom (bs_peers s)"
  unfolding signaling_inv_def handed_out_def by blast

lemma set_incoming_handles: "handed_out (set_incoming k t s) \<subseteq> handed_out s \<union> task_peers t"
  by (auto simp: handed_out_cases set_incoming_def split: if_splits)

lemma set_incoming_inv:
  assumes "signaling_inv s" "task_call t = task_call (bs_tasks s k)" "task_peers t \<subseteq> dom (bs_peers s)"
  shows "signaling_inv (set_incoming k t s)"
proof (rule drop_handles [OF assms(1)])
  show "tasks_ok (set_incoming k t s)" using assms retask by (simp add: signaling_inv_def)
  show "handed_out (set_incoming k t s) \<subseteq> handed_out s \<union> dom (bs_peers s)"
    using assms(3) set_incoming_handles [of k t s] by blast
qed (simp_all add: set_incoming_def)

lemma decided_inv: "signaling_inv s \<Longrightarrow> signaling_inv (incoming_decided k d s)"
  using task_handle [of s _ k]
  by (auto simp: incoming_decided_def split: incoming_task.split call_decision.split intro!: set_incoming_inv done_inv)

lemma track_inv:
  assumes "signaling_inv s" "p \<in> dom (bs_peers s)" "set accepted \<subseteq> set (bs_accepted s) \<union> {x. ts_peer x = p}"
  shows "signaling_inv (s\<lparr>bs_active := AList.update i p (bs_active s), bs_accepted := accepted\<rparr>)"
proof (rule drop_handles [OF assms(1)])
  show "tasks_ok (s\<lparr>bs_active := AList.update i p (bs_active s), bs_accepted := accepted\<rparr>)"
    using assms(1) by (simp add: signaling_inv_def tasks_ok_def)
  have "snd ` set (AList.update i p xs) \<subseteq> insert p (snd ` set xs)" for xs :: "(64 word \<times> nat) list"
    by (induction xs) auto
  then have "snd ` set (AList.update i p (bs_active s)) \<subseteq> handed_out s \<union> dom (bs_peers s)"
    using assms(2) unfolding handed_out_def by blast
  moreover have "ts_peer ` set accepted \<subseteq> handed_out s \<union> dom (bs_peers s)"
    using assms(2,3) unfolding handed_out_def by blast
  moreover have "set (event_peers (bs_events s)) \<subseteq> handed_out s" "(\<Union>k. task_peers (bs_tasks s k)) \<subseteq> handed_out s"
    unfolding handed_out_def by blast+
  ultimately show "handed_out (s\<lparr>bs_active := AList.update i p (bs_active s), bs_accepted := accepted\<rparr>)
      \<subseteq> handed_out s \<union> dom (bs_peers s)"
    by (simp add: handed_out_def [of "s\<lparr>bs_active := AList.update i p (bs_active s), bs_accepted := accepted\<rparr>"] le_supI1)
qed simp_all

lemma accepted_inv:
  assumes "signaling_inv s"
  shows "signaling_inv (incoming_accepted k reply s)"
proof (cases "bs_tasks s k")
  case (AwaitAccept i c p)
  then have p: "p \<in> dom (bs_peers s)" using task_handle [OF assms, of p k] by simp
  define t where "t a = s\<lparr>bs_active := AList.update i p (bs_active s),
      bs_accepted := (if bs_consumer s then bs_accepted s @ [\<lparr>ts_url = url a, ts_token = token a, ts_peer = p\<rparr>]
        else bs_accepted s)\<rparr>" for a :: call_entity
  have "signaling_inv (t a)" for a unfolding t_def using assms p by (rule track_inv) auto
  then have "signaling_inv (incoming_done k i (t a))" for a using AwaitAccept by (simp add: done_inv t_def)
  moreover have "incoming_accepted k (Some a) s =
      (if \<not> (is_livekit c \<or> is_livekit a) \<or> token a = [] then incoming_done k i s else incoming_done k i (t a))" for a
    by (simp add: incoming_accepted_def AwaitAccept t_def)
  moreover have "incoming_accepted k None s = incoming_done k i s" by (simp add: incoming_accepted_def AwaitAccept)
  ultimately show ?thesis using AwaitAccept assms done_inv [of s k i] by (cases reply) simp_all
qed (use assms in \<open>simp_all add: incoming_accepted_def\<close>)

lemma tasks_ok_cong: "bs_in_flight t = bs_in_flight s \<Longrightarrow> bs_tasks t = bs_tasks s \<Longrightarrow> tasks_ok t = tasks_ok s"
  by (simp add: tasks_ok_def)

text \<open>A call that passes the guards: the state after its peer is interned.\<close>

lemma ringing_inv:
  assumes "signaling_inv s" "bs_tasks s k = NoIncoming" and fresh: "i \<notin> set (bs_in_flight s)"
    and intern: "intern_peer uid 0 None (s\<lparr>bs_in_flight := i # bs_in_flight s\<rparr>) = (p, t)"
  shows "signaling_inv (incoming_done k i t)" and "signaling_inv (set_incoming k (AwaitDecide i c p n) t)"
proof -
  let ?s = "s\<lparr>bs_in_flight := i # bs_in_flight s\<rparr>" and ?ask = "AwaitDecide i c p n"
  have "peers_ok ?s" using assms(1) by (simp add: signaling_inv_def peers_ok_def)
  then have t: "peers_ok t" "dom (bs_peers s) \<subseteq> dom (bs_peers t)" "call_view t = call_view ?s" "p \<in> dom (bs_peers t)"
    using intern_peer_keeps [OF intern] by (auto simp: only_interns_def dest: map_le_implies_dom_le)
  define u where "u = t\<lparr>bs_in_flight := bs_in_flight s\<rparr>"
  have same: "handed_out u = handed_out t" "bs_peers u = bs_peers t" by (simp_all add: u_def handed_out_def)
  have "handed_out u = handed_out s" "tasks_ok u = tasks_ok s" "peers_ok u = peers_ok t" "bs_peers u = bs_peers t"
    using t(3) by (simp_all add: u_def call_view_def handed_out_def tasks_ok_def peers_ok_def)
  then have u: "signaling_inv u" using assms(1) t(1,2) by (simp add: signaling_inv_def) (rule order_trans, auto)
  have "filter (\<lambda>j. j \<noteq> i) (bs_in_flight s) = bs_in_flight s" using fresh by (auto simp: filter_id_conv)
  then have ended: "incoming_done k i t = set_incoming k Handled u"
    using t(3) by (simp add: incoming_done_def set_incoming_def u_def call_view_def)
  show "signaling_inv (incoming_done k i t)"
    unfolding ended using u t(3) assms(2) by (simp add: set_incoming_inv u_def call_view_def)
  show "signaling_inv (set_incoming k ?ask t)"
  proof (rule drop_handles [OF u])
    have "tasks_ok (set_incoming k ?ask ?s)"
      using assms fresh by (intro started_ok) (simp_all add: signaling_inv_def)
    then show "tasks_ok (set_incoming k ?ask t)"
      using tasks_ok_cong [of "set_incoming k ?ask t" "set_incoming k ?ask ?s"] t(3)
      by (simp add: set_incoming_def call_view_def)
    show "handed_out (set_incoming k ?ask t) \<subseteq> handed_out u \<union> dom (bs_peers u)"
      using same t(4) set_incoming_handles [of k ?ask t] by auto
  qed (simp_all add: set_incoming_def u_def)
qed

lemma received_inv:
  assumes "signaling_inv s" "bs_tasks s k = NoIncoming"
  shows "signaling_inv (on_incoming_call k i call s)"
proof -
  have "signaling_inv (set_incoming k Handled s)" using assms by (simp add: set_incoming_inv)
  then show ?thesis
    unfolding on_incoming_call_def using ringing_inv [OF assms] by (auto split: option.split prod.split)
qed

lemma ended_inv:
  assumes "signaling_inv s"
  shows "signaling_inv (on_call_ended_internal i reason s)"
proof (cases "map_of (bs_active s) i")
  case (Some p)
  then have p: "p \<in> snd ` set (bs_active s)" by (force dest: map_of_SomeD)
  show ?thesis
  proof (rule drop_handles [OF assms])
    show "handed_out (on_call_ended_internal i reason s) \<subseteq> handed_out s \<union> dom (bs_peers s)"
      using p by (force simp: on_call_ended_internal_def Some handed_out_cases emit_event_def AList.delete_eq)
  qed (use assms in \<open>simp_all add: on_call_ended_internal_def Some emit_event_def signaling_inv_def tasks_ok_def\<close>)
qed (simp add: on_call_ended_internal_def assms)

lemma peer_uid_minted: "bs_peers s p = Some b \<Longrightarrow> peer_uid s p = Some (bp_uid b)"
  by (simp add: peer_uid_def id_str_def parse_i32_to_string)

lemma peer_uid_known: "peer_uid s p = Some uid \<Longrightarrow> p \<in> dom (bs_peers s)"
  by (auto simp: peer_uid_def id_str_def parse_i32_def split: option.splits)

lemma place_inv: "signaling_inv s \<Longrightarrow> signaling_inv (snd (signaling_place_call p started s))"
  using track_inv [of s p "bs_accepted s"] peer_uid_known [of s p]
  by (auto simp: signaling_place_call_def split: option.split)

lemma subscribe_inv:
  assumes "signaling_inv s"
  shows "signaling_inv (set_incoming_handler s)" "signaling_inv (accepted_sessions s)"
proof -
  show "signaling_inv (set_incoming_handler s)"
    by (rule drop_handles [OF assms])
      (use assms in \<open>simp_all add: set_incoming_handler_def tasks_ok_def signaling_inv_def handed_out_def\<close>)
  show "signaling_inv (accepted_sessions s)"
    by (rule drop_handles [OF assms])
      (use assms in \<open>auto simp: accepted_sessions_def tasks_ok_def signaling_inv_def handed_out_cases\<close>)
qed

lemma call_op_inv:
  assumes "call_op op" "signaling_inv s"
  shows "signaling_inv (sig_step op s)"
proof (cases op)
  case (Discarded k)
  then show ?thesis using assms(2) by (auto simp: incoming_discarded_def done_inv split: incoming_task.split)
qed (use assms in \<open>simp_all add: decided_inv accepted_inv received_inv ended_inv place_inv subscribe_inv\<close>)

interpretation signaling: op_system "\<lambda>s. \<exists>store. s = signaling_new store" sig_step signaling_inv
proof unfold_locales
  show "\<exists>store. s = signaling_new store \<Longrightarrow> signaling_inv s" for s
    by (auto simp: signaling_inv_def signaling_new_def peers_ok_def tasks_ok_def handed_out_def event_peers_def)
  show "signaling_inv s \<Longrightarrow> signaling_inv (sig_step op s)" for s op
    using only_interns_inv quiet_op call_op_inv by blast
qed

section \<open>Properties\<close>

lemma step_keeps_peers:
  assumes "signaling_inv s"
  shows "bs_peers s \<subseteq>\<^sub>m bs_peers (sig_step op s)"
proof (cases "call_op op")
  case False
  then show ?thesis using quiet_op [of op s] assms by (simp add: only_interns_def signaling_inv_def)
next
  case True
  have received: "bs_peers s \<subseteq>\<^sub>m bs_peers (on_incoming_call k i call s)" for k i call
  proof -
    have "peers_ok (s\<lparr>bs_in_flight := i # bs_in_flight s\<rparr>)" using assms by (simp add: signaling_inv_def peers_ok_def)
    then have "bs_peers s \<subseteq>\<^sub>m bs_peers t"
      if "intern_peer uid 0 None (s\<lparr>bs_in_flight := i # bs_in_flight s\<rparr>) = (p, t)" for uid p t
      using intern_peer_keeps(1) [OF that] by (simp add: only_interns_def)
    then show ?thesis by (auto simp: on_incoming_call_def set_incoming_def split: option.split prod.split)
  qed
  show ?thesis
    using True received
    by (cases op) (auto simp: set_incoming_handler_def accepted_sessions_def incoming_decided_def incoming_accepted_def
        incoming_discarded_def on_call_ended_internal_def emit_event_def signaling_place_call_def set_incoming_def Let_def
        split: incoming_task.split call_decision.split option.split)
qed

text \<open>C38. Peers have one identity. Whatever the application, the managers, the WebSocket client and the server do,
  every peer handle that is held for a call, a session or an event was made by \<open>intern_peer\<close>; the text of a
  handle resolves to the handle itself, without a change of the state; two handles with one text are one
  handle; and no later step takes a handle away or changes its text or its user id.\<close>

theorem peer_handles_unique:
  assumes "signaling_reach s"
  shows "handed_out s \<subseteq> dom (bs_peers s) \<and>
    (p \<in> dom (bs_peers s) \<longrightarrow>
       resolve_peer (id_str s p) s = (Some p, s) \<and>
       (\<forall>q. q \<in> dom (bs_peers s) \<and> id_str s q = id_str s p \<longrightarrow> q = p) \<and>
       p \<in> dom (bs_peers (sig_step op s)) \<and> id_str (sig_step op s) p = id_str s p \<and>
       map_option bp_uid (bs_peers (sig_step op s) p) = map_option bp_uid (bs_peers s p))"
proof -
  have inv: "signaling_inv s" using assms by (rule signaling.always)
  have r: "resolve_peer (id_str s p) s = (Some p, s)" if p: "p \<in> dom (bs_peers s)" for p
  proof -
    obtain b where b: "bs_peers s p = Some b" using p by auto
    then have "bs_peer_cache s (bp_uid b) = Some p" using inv by (auto simp: signaling_inv_def peers_ok_def)
    then show ?thesis using b by (simp add: resolve_peer_def id_str_def parse_i32_to_string intern_peer_def)
  qed
  have "q = p" if "p \<in> dom (bs_peers s)" "q \<in> dom (bs_peers s)" "id_str s q = id_str s p" for q
    using r [OF that(1)] r [OF that(2)] that(3) by simp
  moreover have "bs_peers (sig_step op s) p = bs_peers s p" if "p \<in> dom (bs_peers s)"
    using step_keeps_peers [OF inv, of op] that by (metis map_le_def)
  then have "p \<in> dom (bs_peers s) \<Longrightarrow> p \<in> dom (bs_peers (sig_step op s)) \<and> id_str (sig_step op s) p = id_str s p \<and>
      map_option bp_uid (bs_peers (sig_step op s) p) = map_option bp_uid (bs_peers s p)"
    by (simp add: id_str_def domIff)
  moreover have "handed_out s \<subseteq> dom (bs_peers s)" using inv by (simp add: signaling_inv_def)
  ultimately show ?thesis using r by blast
qed

text \<open>C37. A call that the server announces more than once is never handled by two tasks at a time:
  \<open>in_flight_calls\<close> holds exactly the calls of the tasks that have not returned, and each of them has
  one such task.\<close>

theorem one_task_per_call:
  assumes "signaling_reach s"
  shows "(i \<in> set (bs_in_flight s) \<longleftrightarrow> (\<exists>k. task_call (bs_tasks s k) = Some i)) \<and>
    (task_call (bs_tasks s k) = Some i \<longrightarrow> task_call (bs_tasks s l) = Some i \<longrightarrow> k = l)"
  using signaling.always [OF assms] unfolding signaling_inv_def tasks_ok_def by blast

text \<open>A run: a call from user 42 is announced twice, accepted, and ended.\<close>

definition caller :: "64 word \<Rightarrow> call_entity" where
  "caller i = \<lparr>call_id = i, token = [], room = [], url = [], is_livekit = False, caller_id = 42, video = False,
     create_date = 0, start_date = 0, duration = 0, discard_reason = 0\<rparr>"

definition credentials :: "64 word \<Rightarrow> bool \<Rightarrow> call_entity" where
  "credentials i lk = (caller i)\<lparr>token := [1], is_livekit := lk\<rparr>"

definition sig_run :: "sig_op list \<Rightarrow> bale_signaling" where
  "sig_run ops = fold sig_step ops (signaling_new None)"

lemma sig_run_reach: "signaling_reach (sig_run ops)"
  unfolding sig_run_def by (intro reachable_fold reach_init) blast

definition ringing :: "sig_op list" where
  "ringing = [SetHandler, AcceptedSessions, CallReceived 0 9 (Some (caller 9)), CallReceived 1 9 (Some (caller 9))]"

lemmas run_simps = sig_run_def ringing_def signaling_new_def set_incoming_handler_def accepted_sessions_def
  on_incoming_call_def caller_def intern_peer_def Let_def set_incoming_def peer_display_name_def
  incoming_decided_def incoming_accepted_def incoming_done_def on_call_ended_internal_def emit_event_def credentials_def

theorem peer_handles_unique_witness:
  "0 \<in> handed_out (sig_run ringing) \<and> id_str (sig_run ringing) 0 = [52, 50] \<and>
   resolve_peer [52, 50] (sig_run ringing) = (Some 0, sig_run ringing) \<and>
   id_str (sig_step (Resolve [55]) (sig_run ringing)) 0 = [52, 50]"
proof -
  have "0 \<in> task_peers (bs_tasks (sig_run ringing) 0)" by (simp add: run_simps)
  then have h: "0 \<in> handed_out (sig_run ringing)" by (auto simp: handed_out_def)
  have i: "id_str (sig_run ringing) 0 = [52, 50]"
    by (simp add: run_simps id_str_def i32_to_string_def dec_digits.simps)
  note t = peer_handles_unique [OF sig_run_reach [of ringing], of 0 "Resolve [55]"]
  have "0 \<in> dom (bs_peers (sig_run ringing))" using h t by blast
  then show ?thesis using h i t by simp
qed

theorem one_task_per_call_witness:
  "9 \<in> set (bs_in_flight (sig_run ringing)) \<and> (\<exists>k. task_call (bs_tasks (sig_run ringing) k) = Some 9) \<and>
   task_call (bs_tasks (sig_run ringing) 0) = Some 9 \<and> task_call (bs_tasks (sig_run ringing) 1) = None"
proof -
  have a: "9 \<in> set (bs_in_flight (sig_run ringing))" "task_call (bs_tasks (sig_run ringing) 0) = Some 9"
    "bs_tasks (sig_run ringing) 1 = Handled"
    by (simp_all add: run_simps)
  show ?thesis using a one_task_per_call [OF sig_run_reach [of ringing], of 9 0 1] by auto
qed

text \<open>Where the signaling falls short of its comments. (a) A call that the caller ends while the
  decision about it is pending produces no event, so the managers do not hear of it and the decision
  stays open. (b) A call announced again after its task has returned is decided and accepted a second
  time: two sessions for one call. (c) A call announced without the LiveKit flag, as the
  \<open>callReceived\<close> stub is, is dropped after it was accepted unless the reply restates the flag. (d)
  \<open>remove_contact\<close> sends the access hash 0 while the list is not cached, as before the first listing
  and after every removal and every search by phone.\<close>

theorem signaling_gaps:
  "(let s = sig_run (ringing @ [CallEnded_op 9 0]) in bs_events s = [] \<and> task_call (bs_tasks s 0) = Some 9) \<and>
   (let again = [CallReceived 2 9 (Some (caller 9)), Decided_op 2 Accept, Accepted_op 2 (Some (credentials 9 True))];
        s = sig_run (ringing @ [Decided_op 0 Accept, Accepted_op 0 (Some (credentials 9 True))] @ again)
    in length (bs_accepted s) = 2 \<and> bs_active s = [(9, 0)]) \<and>
   (let s = sig_run (ringing @ [Decided_op 0 Accept, Accepted_op 0 (Some (credentials 9 False))])
    in bs_tasks s 0 = Handled \<and> bs_accepted s = [] \<and> bs_active s = []) \<and>
   bs_contacts (sig_run ringing) = None \<and> cached_access_hash 42 (sig_run ringing) = 0"
  by (intro conjI; simp add: run_simps cached_access_hash_def)

end
