(* ===== verification/Events_Sink.thy ===== *)
theory Events_Sink
  imports Transition
begin

text \<open>
  \<open>EventsSink\<close> of \<open>lk-signaling\<close>: one list of senders behind a lock, an unbounded channel per
  subscriber. A channel is numbered; \<open>es_got\<close> is everything sent into it, \<open>es_open\<close> whether its
  receiver is alive. The signaling and the managers keep the log of what they emitted; the property
  says what a subscriber sees of that log.
\<close>

record 'e events_sink =
  es_subs :: "nat list"
  es_next :: nat
  es_open :: "nat \<Rightarrow> bool"
  es_got :: "nat \<Rightarrow> 'e list"

definition sink_new :: "'e events_sink" where
  "sink_new = \<lparr>es_subs = [], es_next = 0, es_open = (\<lambda>_. False), es_got = (\<lambda>_. [])\<rparr>"

definition sink_subscribe :: "'e events_sink \<Rightarrow> nat \<times> 'e events_sink" where
  "sink_subscribe s =
     (let r = es_next s in
      (r, s\<lparr>es_next := Suc r, es_open := (es_open s)(r := True), es_subs := es_subs s @ [r]\<rparr>))"

text \<open>\<open>send\<close>: whether the receiver is alive, and the event in its channel if it is.\<close>

definition channel_send :: "nat \<Rightarrow> 'e \<Rightarrow> 'e events_sink \<Rightarrow> bool \<times> 'e events_sink" where
  "channel_send r ev s = (if es_open s r then (True, s\<lparr>es_got := (es_got s)(r := es_got s r @ [ev])\<rparr>) else (False, s))"

fun retain_sends :: "'e \<Rightarrow> nat list \<Rightarrow> 'e events_sink \<Rightarrow> nat list \<times> 'e events_sink" where
  "retain_sends ev [] s = ([], s)"
| "retain_sends ev (r # rs) s =
     (case channel_send r ev s of (ok, s) \<Rightarrow>
      case retain_sends ev rs s of (kept, s) \<Rightarrow> (if ok then r # kept else kept, s))"

definition sink_emit :: "'e \<Rightarrow> 'e events_sink \<Rightarrow> 'e events_sink" where
  "sink_emit ev s = (case retain_sends ev (es_subs s) s of (kept, s) \<Rightarrow> s\<lparr>es_subs := kept\<rparr>)"

definition drop_receiver :: "nat \<Rightarrow> 'e events_sink \<Rightarrow> 'e events_sink" where
  "drop_receiver r s = s\<lparr>es_open := (es_open s)(r := False)\<rparr>"

section \<open>Runs\<close>

datatype 'e sink_op = Emit 'e | Subscribe | DropReceiver nat

fun sink_step :: "'e sink_op \<Rightarrow> 'e events_sink \<Rightarrow> 'e events_sink" where
  "sink_step (Emit ev) s = sink_emit ev s"
| "sink_step Subscribe s = snd (sink_subscribe s)"
| "sink_step (DropReceiver r) s = drop_receiver r s"

definition sink_run :: "'e sink_op list \<Rightarrow> 'e events_sink" where
  "sink_run ops = fold sink_step ops sink_new"

fun emitted :: "'e sink_op list \<Rightarrow> 'e list" where
  "emitted [] = []"
| "emitted (Emit ev # ops) = ev # emitted ops"
| "emitted (_ # ops) = emitted ops"

section \<open>Lossless fan-out\<close>

definition sink_inv :: "'e events_sink \<Rightarrow> bool" where
  "sink_inv s \<longleftrightarrow> distinct (es_subs s) \<and> (\<forall>r. es_open s r \<longrightarrow> r \<in> set (es_subs s)) \<and> (\<forall>r\<in>set (es_subs s). r < es_next s)
     \<and> (\<forall>r. es_next s \<le> r \<longrightarrow> es_got s r = [])"

lemma retain_sends_eq:
  assumes "distinct rs" "retain_sends ev rs s = (kept, t)"
  shows "kept = filter (es_open s) rs"
    and "t = s\<lparr>es_got := (\<lambda>r. if r \<in> set rs \<and> es_open s r then es_got s r @ [ev] else es_got s r)\<rparr>"
  using assms
proof (induction rs arbitrary: s kept)
  case (Cons r rs)
  { case 1
    then show ?case using Cons.IH(1) by (fastforce simp: channel_send_def split: prod.splits if_splits) }
  { case 2
    let ?u = "snd (channel_send r ev s)"
    obtain ks where ks: "retain_sends ev rs ?u = (ks, t)" using 2 by (auto split: prod.splits)
    have "t = ?u\<lparr>es_got := (\<lambda>q. if q \<in> set rs \<and> es_open ?u q then es_got ?u q @ [ev] else es_got ?u q)\<rparr>"
      using Cons.IH(2) [OF _ ks] 2(1) by simp
    moreover have "es_open ?u = es_open s" by (simp add: channel_send_def)
    ultimately show ?case using 2(1) by (cases s) (auto simp: channel_send_def fun_eq_iff) }
qed simp_all

lemma emit_eq:
  assumes "sink_inv s"
  shows "sink_emit ev s = s\<lparr>es_subs := filter (es_open s) (es_subs s),
      es_got := (\<lambda>r. if es_open s r then es_got s r @ [ev] else es_got s r)\<rparr>"
proof -
  obtain kept t where t: "retain_sends ev (es_subs s) s = (kept, t)" by fastforce
  have "(r \<in> set (es_subs s) \<and> es_open s r) = es_open s r" for r using assms by (auto simp: sink_inv_def)
  then show ?thesis
    using retain_sends_eq [OF _ t] assms by (simp add: sink_emit_def t sink_inv_def)
qed

lemma sink_step_inv: "sink_inv s \<Longrightarrow> sink_inv (sink_step op s)"
proof (cases op)
  case (Emit ev)
  assume inv: "sink_inv s"
  then show ?thesis using emit_eq [OF inv] Emit by (fastforce simp: sink_inv_def)
qed (auto simp: sink_inv_def sink_subscribe_def drop_receiver_def Let_def less_Suc_eq)

interpretation sink: op_system "\<lambda>s. s = sink_new" sink_step sink_inv
  by unfold_locales (auto simp: sink_step_inv, simp add: sink_inv_def sink_new_def)

lemma open_receiver_gets:
  "sink_inv s \<Longrightarrow> es_open s r \<Longrightarrow> DropReceiver r \<notin> set ops \<Longrightarrow>
     es_open (fold sink_step ops s) r \<and> es_got (fold sink_step ops s) r = es_got s r @ emitted ops"
proof (induction ops arbitrary: s)
  case (Cons op ops)
  have "es_open (sink_step op s) r \<and> es_got (sink_step op s) r = es_got s r @ emitted [op]"
    using Cons(2-4) emit_eq [OF Cons(2)]
    by (cases op) (auto simp: sink_subscribe_def drop_receiver_def Let_def)
  moreover have "emitted (op # ops) = emitted [op] @ emitted ops" by (cases op) simp_all
  ultimately show ?case using Cons(1) [of "sink_step op s"] Cons(2,4) sink_step_inv [of s op] by simp
qed simp

lemma closed_receiver_gets:
  "sink_inv s \<Longrightarrow> \<not> es_open s r \<Longrightarrow> r < es_next s \<Longrightarrow> es_got (fold sink_step ops s) r = es_got s r"
proof (induction ops arbitrary: s)
  case (Cons op ops)
  have "\<not> es_open (sink_step op s) r \<and> r < es_next (sink_step op s) \<and> es_got (sink_step op s) r = es_got s r"
    using Cons(2-4) emit_eq [OF Cons(2)]
    by (cases op) (auto simp: sink_subscribe_def drop_receiver_def Let_def)
  then show ?case using Cons(1) [of "sink_step op s"] Cons(2) sink_step_inv [of s op] by simp
qed simp

text \<open>C39. A subscriber sees every event emitted after it subscribed, once and in the order of the
  emits, however many others subscribe and go away, until its receiver is dropped; after that nothing
  more reaches its channel, and the next emit prunes its sender.\<close>

theorem events_lossless:
  assumes r_def: "r = es_next (sink_run pre)" and "DropReceiver r \<notin> set mid"
  shows "es_got (sink_run (pre @ Subscribe # mid)) r = emitted mid \<and>
    es_got (sink_run (pre @ Subscribe # mid @ DropReceiver r # post)) r = emitted mid \<and>
    r \<notin> set (es_subs (sink_run (pre @ Subscribe # mid @ [DropReceiver r, Emit ev])))"
proof -
  define s where "s = sink_step Subscribe (sink_run pre)"
  have "sink_inv (sink_run pre)" unfolding sink_run_def by (intro sink.after sink.op_init refl)
  then have s: "sink_inv s" "es_open s r" "es_got s r = []" "r < es_next s"
    using sink_step_inv [of "sink_run pre" Subscribe] by (simp_all add: s_def r_def sink_subscribe_def Let_def sink_inv_def)
  have t: "es_open (fold sink_step mid s) r" "es_got (fold sink_step mid s) r = emitted mid"
    using open_receiver_gets [OF s(1,2) assms(2)] s(3) by simp_all
  define u where "u = drop_receiver r (fold sink_step mid s)"
  have i: "sink_inv (fold sink_step mid s)" using s(1) by (rule sink.after)
  then have u: "sink_inv u" "\<not> es_open u r" "r < es_next u"
    using t(1) sink_step_inv [OF i, of "DropReceiver r"] by (auto simp: u_def drop_receiver_def sink_inv_def)
  have "es_got (fold sink_step post u) r = emitted mid"
    using closed_receiver_gets [OF u, of post] t(2) by (simp add: u_def drop_receiver_def)
  moreover have "r \<notin> set (es_subs (sink_emit ev u))" using emit_eq [OF u(1), of ev] u(2) by simp
  moreover have "sink_run (pre @ Subscribe # ops) = fold sink_step ops s" for ops by (simp add: sink_run_def s_def)
  ultimately show ?thesis using t(2) by (simp add: u_def)
qed

theorem events_lossless_witness:
  "es_got (sink_run ([Subscribe, Emit (1::nat)] @ Subscribe # [Emit 2, DropReceiver 0, Emit 3])) 1 = [2, 3] \<and>
   es_got (sink_run ([Subscribe, Emit (1::nat)] @ Subscribe # [Emit 2, DropReceiver 0, Emit 3] @ DropReceiver 1 # [Emit 4])) 1 = [2, 3] \<and>
   1 \<notin> set (es_subs (sink_run ([Subscribe, Emit (1::nat)] @ Subscribe # [Emit 2, DropReceiver 0, Emit 3] @ [DropReceiver 1, Emit 4])))"
proof -
  have r: "es_next (sink_run [Subscribe, Emit (1::nat)]) = 1"
    by (simp add: sink_run_def sink_new_def sink_subscribe_def sink_emit_def channel_send_def Let_def)
  note t = events_lossless [of 1 "[Subscribe, Emit (1::nat)]" "[Emit 2, DropReceiver 0, Emit 3]" "[Emit 4]" 4]
  show ?thesis using r t by simp
qed

end
