(* ===== verification/Tun_Bridge.thy ===== *)
theory Tun_Bridge
  imports Icmpv6 Transition
begin

text \<open>
  The bridge between a TUN device and a tunnel (\<open>tun.rs\<close>). The device is an oracle: every operation
  gets the results that its \<open>read\<close> and \<open>write\<close> calls return, a write beyond them would block; the
  tunnel's \<open>send_ip\<close> is an oracle too. \<open>tb_queued\<close> collects the packets taken into the queue,
  \<open>tb_written\<close> the bytes the device took, \<open>tb_sent\<close> the packets handed to \<open>send_ip\<close>.
\<close>

section \<open>Model\<close>

datatype tun_format = RawIp | UtunAfHeader

datatype inject_status = Accepted | QueueFull

datatype write_result = Wrote nat | WriteBlocks | WriteInterrupted | WriteError

datatype tun_read = ReadBytes bytes | ReadBlocks | ReadInterrupted | ReadError

definition MAX_PENDING_TX_PKTS :: nat where "MAX_PENDING_TX_PKTS = 4096"

definition UTUN_HEADER_LEN :: nat where "UTUN_HEADER_LEN = 4"

record tun_bridge =
  tb_pending :: "bytes list"
  tb_paused :: bool
  tb_format :: tun_format
  tb_interest :: "bool \<times> bool"
  tb_rx :: "64 word \<times> 64 word"
  tb_wakes :: nat
  tb_errors :: nat
  tb_queued :: "bytes list"
  tb_written :: bytes
  tb_sent :: "bytes list"

definition attach_with_format :: "tun_format \<Rightarrow> tun_bridge" where
  "attach_with_format fmt = \<lparr>tb_pending = [], tb_paused = False, tb_format = fmt, tb_interest = (True, False),
     tb_rx = (0, 0), tb_wakes = 0, tb_errors = 0, tb_queued = [], tb_written = [], tb_sent = []\<rparr>"

text \<open>\<open>AF_INET\<close> is 2; \<open>AF_INET6\<close> is 30 on macOS, the only system that uses the header.\<close>

definition af_for_ip :: "bytes \<Rightarrow> u32" where
  "af_for_ip ip = (case ip of b # _ \<Rightarrow> if drop_bit 4 b = 4 then 2 else if drop_bit 4 b = 6 then 30 else 2 | [] \<Rightarrow> 2)"

definition wrap_for_wire :: "bytes \<Rightarrow> tun_format \<Rightarrow> bytes" where
  "wrap_for_wire ip fmt = (case fmt of RawIp \<Rightarrow> ip | UtunAfHeader \<Rightarrow> be32_bytes (af_for_ip ip) @ ip)"

definition unwrap_from_wire :: "bytes \<Rightarrow> tun_format \<Rightarrow> bytes" where
  "unwrap_from_wire wire fmt =
     (case fmt of RawIp \<Rightarrow> wire
      | UtunAfHeader \<Rightarrow> if length wire \<le> UTUN_HEADER_LEN then [] else drop UTUN_HEADER_LEN wire)"

text \<open>The pair is the interest in reading and in writing that the reactor has.\<close>

definition refresh_interest_with_pending :: "tun_bridge \<Rightarrow> tun_bridge" where
  "refresh_interest_with_pending b = b\<lparr>tb_interest := (\<not> tb_paused b, True)\<rparr>"

definition refresh_interest :: "tun_bridge \<Rightarrow> tun_bridge" where
  "refresh_interest b =
     b\<lparr>tb_interest := (case (\<not> tb_paused b, tb_pending b \<noteq> []) of
        (True, True) \<Rightarrow> (True, True) | (True, False) \<Rightarrow> (True, False)
      | (False, True) \<Rightarrow> (False, True) | (False, False) \<Rightarrow> (True, False))\<rparr>"

text \<open>\<open>drain\<close>: whether it returned \<open>Ok\<close>, and the write results that are left.\<close>

fun drain_tun :: "write_result list \<Rightarrow> tun_bridge \<Rightarrow> bool \<times> write_result list \<times> tun_bridge" where
  "drain_tun ws b =
     (case tb_pending b of
        [] \<Rightarrow> (True, ws, refresh_interest b)
      | pkt # rest \<Rightarrow>
          (case ws of
             [] \<Rightarrow> (True, [], refresh_interest_with_pending b)
           | WriteBlocks # ws \<Rightarrow> (True, ws, refresh_interest_with_pending b)
           | WriteInterrupted # ws \<Rightarrow> drain_tun ws b
           | WriteError # ws \<Rightarrow> (False, ws, b\<lparr>tb_errors := Suc (tb_errors b)\<rparr>)
           | Wrote n # ws \<Rightarrow>
               if n = length pkt
               then drain_tun ws (b\<lparr>tb_pending := rest, tb_written := tb_written b @ pkt\<rparr>)
               else (True, ws, refresh_interest_with_pending
                       (b\<lparr>tb_pending := drop n pkt # rest, tb_written := tb_written b @ take n pkt\<rparr>))))"

declare drain_tun.simps [simp del]

definition bump_rx :: "nat \<Rightarrow> 64 word \<times> 64 word \<Rightarrow> 64 word \<times> 64 word" where
  "bump_rx n c = (fst c + 1, snd c + of_nat n)"

definition inject :: "write_result list \<Rightarrow> bytes \<Rightarrow> tun_bridge \<Rightarrow> inject_status \<times> write_result list \<times> tun_bridge" where
  "inject ws ip b =
     (let b = b\<lparr>tb_rx := bump_rx (length ip) (tb_rx b)\<rparr> in
      if MAX_PENDING_TX_PKTS \<le> length (tb_pending b) then (QueueFull, ws, b)
      else
        let wire = wrap_for_wire ip (tb_format b) in
        (case drain_tun ws (b\<lparr>tb_pending := tb_pending b @ [wire], tb_queued := tb_queued b @ [wire]\<rparr>) of
           (_, ws, b) \<Rightarrow> (Accepted, ws, b)))"

definition resume :: "tun_bridge \<Rightarrow> tun_bridge" where
  "resume b = (if \<not> tb_paused b then b else refresh_interest (b\<lparr>tb_paused := False\<rparr>))"

text \<open>The read loop over the results of its reads and of \<open>send_ip\<close>; a packet has at most 2048 bytes.\<close>

fun read_tun :: "tun_read list \<Rightarrow> bool list \<Rightarrow> write_result list \<Rightarrow> tun_bridge \<Rightarrow> tun_bridge" where
  "read_tun [] sends ws b = b"
| "read_tun (r # rs) sends ws b =
     (case r of
        ReadBytes bs \<Rightarrow>
          (let pkt = unwrap_from_wire bs (tb_format b) in
           if bs = [] then b
           else if pkt = [] then read_tun rs sends ws b
           else if drop_bit 4 (hd pkt) = 6 then
             (case build_icmpv6_dest_unreach pkt of
                Some reply \<Rightarrow> (case inject ws reply b of (_, ws, b) \<Rightarrow> read_tun rs sends ws b)
              | None \<Rightarrow> read_tun rs sends ws b)
           else
             let b = b\<lparr>tb_sent := tb_sent b @ [pkt]\<rparr> in
             (case sends of
                True # sends \<Rightarrow> read_tun rs sends ws b
              | _ \<Rightarrow> (refresh_interest (b\<lparr>tb_paused := True\<rparr>))\<lparr>tb_wakes := Suc (tb_wakes b)\<rparr>))
      | ReadBlocks \<Rightarrow> b
      | ReadInterrupted \<Rightarrow> read_tun rs sends ws b
      | ReadError \<Rightarrow> refresh_interest (b\<lparr>tb_paused := True\<rparr>))"

definition tun_readable :: "tun_read list \<Rightarrow> bool list \<Rightarrow> write_result list \<Rightarrow> tun_bridge \<Rightarrow> tun_bridge" where
  "tun_readable rs sends ws b = (if tb_paused b then b else read_tun rs sends ws b)"

definition tun_writable :: "write_result list \<Rightarrow> tun_bridge \<Rightarrow> tun_bridge" where
  "tun_writable ws b = snd (snd (drain_tun ws b))"

text \<open>One event of the reactor: the flags, and the results of the calls that it leads to.\<close>

definition tun_on_event ::
  "bool \<Rightarrow> bool \<Rightarrow> write_result list \<Rightarrow> tun_read list \<Rightarrow> bool list \<Rightarrow> write_result list \<Rightarrow> tun_bridge \<Rightarrow> tun_bridge" where
  "tun_on_event writable readable ws rs sends ws' b =
     (let b = (if writable then tun_writable ws b else b) in
      if readable then tun_readable rs sends ws' b else b)"

section \<open>Runs\<close>

datatype tun_op =
  Inject_op "write_result list" bytes
| TunEvent bool bool "write_result list" "tun_read list" "bool list" "write_result list"
| Resume_op

fun tun_step :: "tun_op \<Rightarrow> tun_bridge \<Rightarrow> tun_bridge" where
  "tun_step (Inject_op ws ip) b = snd (snd (inject ws ip b))"
| "tun_step (TunEvent writable readable ws rs sends ws') b = tun_on_event writable readable ws rs sends ws' b"
| "tun_step Resume_op b = resume b"

definition tun_run :: "tun_format \<Rightarrow> tun_op list \<Rightarrow> tun_bridge" where
  "tun_run fmt ops = fold tun_step ops (attach_with_format fmt)"

text \<open>The bytes are where they belong, the queue is bounded, and as long as no write has failed the
  reactor is asked for writability exactly while something is pending, for readability unless paused.\<close>

definition tun_inv :: "tun_bridge \<Rightarrow> bool" where
  "tun_inv b \<longleftrightarrow> tb_written b @ concat (tb_pending b) = concat (tb_queued b)
     \<and> length (tb_pending b) \<le> MAX_PENDING_TX_PKTS
     \<and> (tb_errors b = 0 \<longrightarrow> tb_interest b = (\<not> tb_paused b \<or> tb_pending b = [], tb_pending b \<noteq> []))"

lemma refresh_sel [simp]:
  "tb_pending (refresh_interest b) = tb_pending b" "tb_paused (refresh_interest b) = tb_paused b"
  "tb_queued (refresh_interest b) = tb_queued b" "tb_written (refresh_interest b) = tb_written b"
  "tb_errors (refresh_interest b) = tb_errors b" "tb_sent (refresh_interest b) = tb_sent b"
  "tb_interest (refresh_interest b) = (\<not> tb_paused b \<or> tb_pending b = [], tb_pending b \<noteq> [])"
  by (auto simp: refresh_interest_def split: bool.split)

lemma drain_empty: "tb_pending b = [] \<Longrightarrow> drain_tun ws b = (True, ws, refresh_interest b)"
  by (simp add: drain_tun.simps)

lemma drain_head:
  assumes "tb_pending b = pkt # rest"
  shows "drain_tun [] b = (True, [], refresh_interest_with_pending b)"
    "drain_tun (WriteBlocks # ws) b = (True, ws, refresh_interest_with_pending b)"
    "drain_tun (WriteInterrupted # ws) b = drain_tun ws b"
    "drain_tun (WriteError # ws) b = (False, ws, b\<lparr>tb_errors := Suc (tb_errors b)\<rparr>)"
    "drain_tun (Wrote n # ws) b =
       (if n = length pkt then drain_tun ws (b\<lparr>tb_pending := rest, tb_written := tb_written b @ pkt\<rparr>)
        else (True, ws, refresh_interest_with_pending
               (b\<lparr>tb_pending := drop n pkt # rest, tb_written := tb_written b @ take n pkt\<rparr>)))"
  using assms by (simp_all add: drain_tun.simps [of _ b])

lemma drain_keeps:
  assumes "tb_written b @ concat (tb_pending b) = concat (tb_queued b)" "length (tb_pending b) \<le> MAX_PENDING_TX_PKTS"
    "drain_tun ws b = (ok, ws', b')"
  shows "tun_inv b' \<and> tb_paused b' = tb_paused b"
  using assms
proof (induction ws arbitrary: b)
  case Nil
  then show ?case
    by (cases "tb_pending b") (auto simp: drain_empty drain_head tun_inv_def refresh_interest_with_pending_def)
next
  case (Cons w ws)
  show ?case
  proof (cases "tb_pending b")
    case Nil
    then show ?thesis using Cons(2-4) by (auto simp: drain_empty tun_inv_def)
  next
    case (Cons pkt rest)
    note h = drain_head [OF Cons]
    have cut: "take n pkt @ drop n pkt @ concat rest = pkt @ concat rest" for n by (simp flip: append_assoc)
    show ?thesis
      using Cons.prems Cons Cons.IH [of b] Cons.IH [of "b\<lparr>tb_pending := rest, tb_written := tb_written b @ pkt\<rparr>"]
      by (cases w) (auto simp: h cut tun_inv_def refresh_interest_with_pending_def split: if_splits)
  qed
qed

lemma inject_inv:
  assumes "tun_inv b" "inject ws ip b = (st, ws', b')"
  shows "tun_inv b' \<and> tb_paused b' = tb_paused b"
proof (cases "MAX_PENDING_TX_PKTS \<le> length (tb_pending b)")
  case True
  then show ?thesis using assms by (auto simp: inject_def tun_inv_def)
next
  case False
  let ?w = "wrap_for_wire ip (tb_format b)"
  let ?c = "b\<lparr>tb_rx := bump_rx (length ip) (tb_rx b), tb_pending := tb_pending b @ [?w], tb_queued := tb_queued b @ [?w]\<rparr>"
  obtain ok vs c' where e: "drain_tun ws ?c = (ok, vs, c')" by (cases "drain_tun ws ?c")
  then have d: "drain_tun ws ?c = (ok, ws', b')" using assms(2) False by (simp add: inject_def Let_def)
  have "tun_inv b' \<and> tb_paused b' = tb_paused ?c"
    using drain_keeps [OF _ _ d] assms(1) False by (simp add: tun_inv_def flip: append_assoc)
  then show ?thesis by simp
qed

lemma pause_inv: "tun_inv b \<Longrightarrow> tun_inv (refresh_interest (b\<lparr>tb_paused := p\<rparr>))"
  by (simp add: tun_inv_def)

lemma log_inv [simp]: "tun_inv (b\<lparr>tb_sent := x\<rparr>) = tun_inv b" "tun_inv (b\<lparr>tb_wakes := n\<rparr>) = tun_inv b"
  by (simp_all add: tun_inv_def)

lemma read_inv: "tun_inv b \<Longrightarrow> tun_inv (read_tun rs sends ws b)"
proof (induction rs sends ws b rule: read_tun.induct)
  case (2 r rs sends ws b)
  show ?case
  proof (cases r)
    case (ReadBytes bs)
    show ?thesis
      using 2 ReadBytes inject_inv
      by (auto simp: Let_def pause_inv split: option.splits prod.splits list.splits bool.splits)
  qed (use 2 in \<open>simp_all add: pause_inv\<close>)
qed simp

lemma tun_step_inv: "tun_inv b \<Longrightarrow> tun_inv (tun_step op b)"
proof (cases op)
  case (Inject_op ws ip)
  assume "tun_inv b"
  then show ?thesis using Inject_op inject_inv [of b ws ip] by (cases "inject ws ip b") auto
next
  case (TunEvent wr rd ws rs sends ws')
  assume inv: "tun_inv b"
  have "tun_inv (tun_writable ws b)"
    using inv drain_keeps [of b ws] by (cases "drain_tun ws b") (auto simp: tun_writable_def tun_inv_def)
  then show ?thesis using inv TunEvent by (simp add: tun_on_event_def tun_readable_def read_inv Let_def)
qed (simp add: resume_def pause_inv)

interpretation tun: op_system "\<lambda>b. \<exists>fmt. b = attach_with_format fmt" tun_step tun_inv
  by unfold_locales (auto simp: tun_step_inv, simp add: tun_inv_def attach_with_format_def)

text \<open>C19. Whatever the device answers and in whatever order packets, events and resumes come: the
  bytes the device has taken followed by the pending ones are exactly the queued packets in order, so
  partial writes lose and repeat nothing; at most 4096 packets are pending; and until a write fails
  the reactor is asked for writability exactly while packets are pending, so none is left behind. The
  device framing is undone by the read side.\<close>

theorem tun_bridge_delivers:
  "let b = tun_run fmt ops in
     tb_written b @ concat (tb_pending b) = concat (tb_queued b) \<and> length (tb_pending b) \<le> 4096 \<and>
     (tb_errors b = 0 \<longrightarrow> tb_interest b = (\<not> tb_paused b \<or> tb_pending b = [], tb_pending b \<noteq> [])) \<and>
     (ip \<noteq> [] \<longrightarrow> unwrap_from_wire (wrap_for_wire ip fmt) fmt = ip)"
proof -
  have "tun_inv (tun_run fmt ops)" unfolding tun_run_def by (rule tun.after [OF tun.op_init]) blast
  moreover have "ip \<noteq> [] \<longrightarrow> unwrap_from_wire (wrap_for_wire ip fmt) fmt = ip"
    by (simp add: unwrap_from_wire_def wrap_for_wire_def UTUN_HEADER_LEN_def split: tun_format.split)
  ultimately show ?thesis by (simp add: Let_def tun_inv_def MAX_PENDING_TX_PKTS_def)
qed

theorem tun_bridge_delivers_witness:
  "let b = tun_run UtunAfHeader [Inject_op [Wrote 3] [0x45, 1], Inject_op [] [0x45, 2], TunEvent True False [Wrote 3, WriteInterrupted, Wrote 6] [] [] []] in
     tb_written b = [0, 0, 0, 2, 0x45, 1, 0, 0, 0, 2, 0x45, 2] \<and> tb_pending b = [] \<and> tb_interest b = (True, False) \<and>
     unwrap_from_wire (wrap_for_wire [0x45, 1] UtunAfHeader) UtunAfHeader = [0x45, 1]"
proof -
  let ?ops = "[Inject_op [Wrote 3] [0x45, 1], Inject_op [] [0x45, 2], TunEvent True False [Wrote 3, WriteInterrupted, Wrote 6] [] [] []]"
  have e: "tb_errors (tun_run UtunAfHeader ?ops) = 0" "tb_pending (tun_run UtunAfHeader ?ops) = []"
    "tb_paused (tun_run UtunAfHeader ?ops) = False"
    "concat (tb_queued (tun_run UtunAfHeader ?ops)) = [0, 0, 0, 2, 0x45, 1, 0, 0, 0, 2, 0x45, 2]"
    by code_simp+
  show ?thesis using tun_bridge_delivers [of UtunAfHeader ?ops "[0x45, 1]"] e by (simp add: Let_def)
qed

text \<open>A write error leaves the packet at the head of the queue: a packet that the device refuses (a
  Linux TUN answers \<open>EINVAL\<close> to one that is neither IPv4 nor IPv6) blocks every later one, until the
  queue is full and all inbound packets are dropped.\<close>

lemma refused_packet_blocks:
  assumes "tb_pending b = bad # rest"
  shows "tb_pending (snd (snd (inject (WriteError # ws) ip b))) =
      (if length (tb_pending b) < 4096 then bad # rest @ [wrap_for_wire ip (tb_format b)] else bad # rest)"
    and "tb_pending (tun_writable (WriteError # ws) b) = bad # rest"
    and "tb_written (snd (snd (inject (WriteError # ws) ip b))) = tb_written b"
  using assms
  by (simp_all add: inject_def tun_writable_def drain_head Let_def MAX_PENDING_TX_PKTS_def)

end
