(* ===== verification/Reactor.thy ===== *)
theory Reactor
  imports Prelude Transition "HOL-Library.AList"
begin

text \<open>
  The reactor thread of \<open>dispatcher.rs\<close>: handlers by token, deferred removal, the queue of posted
  tasks, the poll loop. A handler or task is code of other modules, here the list of the reactor's
  operations it calls, which comes with the event or from \<open>body\<close>. \<open>rc_kernel\<close> is the set of tokens
  that mio watches: a poll returns events of those sources only, and the waker's after a wake-up.
  \<open>rc_log\<close> records what happened, in order.
\<close>

section \<open>Model\<close>

type_synonym token = "64 word"

datatype reactor_cmd = Register nat | Deregister token | Post nat | SetTick bool

datatype reactor_entry = Registered token nat | Deregistered token | Dispatched token nat | Posted nat | Ran nat | Ticked

record reactor =
  rc_handlers :: "(token \<times> nat) list"
  rc_pending_remove :: "token list"
  rc_queue :: "nat list"
  rc_next_token :: token
  rc_kernel :: "token list"
  rc_woken :: bool
  rc_running :: bool
  rc_started :: bool
  rc_tick :: bool
  rc_log :: "reactor_entry list"

definition reactor_new :: reactor where
  "reactor_new = \<lparr>rc_handlers = [], rc_pending_remove = [], rc_queue = [], rc_next_token = 1, rc_kernel = [],
     rc_woken = False, rc_running = False, rc_started = False, rc_tick = False, rc_log = []\<rparr>"

definition WAKER_TOKEN :: token where "WAKER_TOKEN = - 1"

definition log_entry :: "reactor_entry \<Rightarrow> reactor \<Rightarrow> reactor" where
  "log_entry e s = s\<lparr>rc_log := rc_log s @ [e]\<rparr>"

definition alloc_token :: "reactor \<Rightarrow> token \<times> reactor" where
  "alloc_token s =
     (let t = rc_next_token s; s = s\<lparr>rc_next_token := t + 1\<rparr> in
      if t = WAKER_TOKEN then (rc_next_token s, s\<lparr>rc_next_token := rc_next_token s + 1\<rparr>) else (t, s))"

text \<open>A registration that mio refuses still installs the handler; \<open>ok\<close> is what mio answers.\<close>

definition register_source :: "bool \<Rightarrow> nat \<Rightarrow> reactor \<Rightarrow> token \<times> reactor" where
  "register_source ok h s =
     (case alloc_token s of (t, s) \<Rightarrow>
      let s = (if ok then s\<lparr>rc_kernel := t # rc_kernel s\<rparr> else s) in
      (t, log_entry (Registered t h) (s\<lparr>rc_handlers := AList.update t h (rc_handlers s)\<rparr>)))"

definition deregister_source :: "token \<Rightarrow> reactor \<Rightarrow> reactor" where
  "deregister_source t s =
     log_entry (Deregistered t) (s\<lparr>rc_kernel := filter (\<lambda>u. u \<noteq> t) (rc_kernel s),
       rc_pending_remove := rc_pending_remove s @ [t]\<rparr>)"

definition drain_pending_removes :: "reactor \<Rightarrow> reactor" where
  "drain_pending_removes s =
     s\<lparr>rc_handlers := fold AList.delete (rc_pending_remove s) (rc_handlers s), rc_pending_remove := []\<rparr>"

definition post :: "nat \<Rightarrow> reactor \<Rightarrow> reactor" where
  "post k s =
     (if \<not> rc_running s then s
      else log_entry (Posted k) (s\<lparr>rc_queue := rc_queue s @ [k], rc_woken := True\<rparr>))"

definition set_tick :: "bool \<Rightarrow> reactor \<Rightarrow> reactor" where
  "set_tick f s = s\<lparr>rc_tick := f\<rparr>"

fun apply_cmd :: "reactor_cmd \<Rightarrow> reactor \<Rightarrow> reactor" where
  "apply_cmd (Register h) s = snd (register_source True h s)"
| "apply_cmd (Deregister t) s = deregister_source t s"
| "apply_cmd (Post k) s = post k s"
| "apply_cmd (SetTick f) s = set_tick f s"

definition run_task :: "(nat \<Rightarrow> reactor_cmd list) \<Rightarrow> nat \<Rightarrow> reactor \<Rightarrow> reactor" where
  "run_task body k s = fold apply_cmd (body k) (log_entry (Ran k) s)"

definition drain_queue :: "(nat \<Rightarrow> reactor_cmd list) \<Rightarrow> reactor \<Rightarrow> reactor" where
  "drain_queue body s = fold (run_task body) (rc_queue s) (s\<lparr>rc_queue := []\<rparr>)"

text \<open>One event of a batch: its token, and what its handler does if there is one.\<close>

definition reactor_event :: "(nat \<Rightarrow> reactor_cmd list) \<Rightarrow> token \<times> reactor_cmd list \<Rightarrow> reactor \<Rightarrow> reactor" where
  "reactor_event body ev s =
     (if fst ev = WAKER_TOKEN then drain_pending_removes (drain_queue body s)
      else
        let s = (case map_of (rc_handlers s) (fst ev) of
                   Some h \<Rightarrow> fold apply_cmd (snd ev) (log_entry (Dispatched (fst ev) h) s)
                 | None \<Rightarrow> s)
        in drain_pending_removes s)"

text \<open>One turn of the loop: a poll that returns a batch, the events, the tick with what it does.\<close>

definition poll_turn ::
  "(nat \<Rightarrow> reactor_cmd list) \<Rightarrow> (token \<times> reactor_cmd list) list \<Rightarrow> reactor_cmd list \<Rightarrow> reactor \<Rightarrow> reactor" where
  "poll_turn body batch tick_cmds s =
     (if \<not> rc_running s then s
      else
        let s = (if WAKER_TOKEN \<in> fst ` set batch then s\<lparr>rc_woken := False\<rparr> else s);
            s = fold (reactor_event body) batch s
        in if rc_tick s then fold apply_cmd tick_cmds (log_entry Ticked s) else s)"

text \<open>\<open>poll_ok\<close> is whether \<open>Poll::new\<close> succeeds.\<close>

definition reactor_init :: "bool \<Rightarrow> reactor \<Rightarrow> reactor" where
  "reactor_init poll_ok s =
     (if rc_started s then s
      else if \<not> poll_ok then s
      else s\<lparr>rc_started := True, rc_running := True\<rparr>)"

section \<open>Runs\<close>

text \<open>Posts come from any thread; mio returns events of watched sources, and the waker's after a
  wake-up.\<close>

definition batch_ok :: "(token \<times> reactor_cmd list) list \<Rightarrow> reactor \<Rightarrow> bool" where
  "batch_ok batch s \<longleftrightarrow> list_all (\<lambda>ev. if fst ev = WAKER_TOKEN then rc_woken s else fst ev \<in> set (rc_kernel s)) batch"

datatype reactor_op =
  Init bool
| PostFrom nat
| TickFrom bool
| Poll "(token \<times> reactor_cmd list) list" "reactor_cmd list"

fun reactor_step :: "(nat \<Rightarrow> reactor_cmd list) \<Rightarrow> reactor_op \<Rightarrow> reactor \<Rightarrow> reactor" where
  "reactor_step body (Init ok) s = reactor_init ok s"
| "reactor_step body (PostFrom k) s = post k s"
| "reactor_step body (TickFrom f) s = set_tick f s"
| "reactor_step body (Poll batch cmds) s = (if batch_ok batch s then poll_turn body batch cmds s else s)"

definition reactor_run :: "(nat \<Rightarrow> reactor_cmd list) \<Rightarrow> reactor_op list \<Rightarrow> reactor" where
  "reactor_run body ops = fold (reactor_step body) ops reactor_new"

section \<open>Who owns a token\<close>

text \<open>The abstract view: a token belongs to the handler that was registered under it last, unless it
  was deregistered since.\<close>

fun owner :: "reactor_entry list \<Rightarrow> (token \<rightharpoonup> nat) \<Rightarrow> (token \<rightharpoonup> nat)" where
  "owner [] m = m"
| "owner (Registered t h # l) m = owner l (m(t \<mapsto> h))"
| "owner (Deregistered t # l) m = owner l (m(t := None))"
| "owner (_ # l) m = owner l m"

fun sound_log :: "reactor_entry list \<Rightarrow> (token \<rightharpoonup> nat) \<Rightarrow> bool" where
  "sound_log [] m = True"
| "sound_log (Registered t h # l) m = sound_log l (m(t \<mapsto> h))"
| "sound_log (Deregistered t # l) m = sound_log l (m(t := None))"
| "sound_log (Dispatched t h # l) m = (m t = Some h \<and> sound_log l m)"
| "sound_log (_ # l) m = sound_log l m"

definition posted :: "reactor_entry list \<Rightarrow> nat list" where
  "posted l = concat (map (\<lambda>e. case e of Posted k \<Rightarrow> [k] | _ \<Rightarrow> []) l)"

definition ran :: "reactor_entry list \<Rightarrow> nat list" where
  "ran l = concat (map (\<lambda>e. case e of Ran k \<Rightarrow> [k] | _ \<Rightarrow> []) l)"

lemma owner_append [simp]: "owner (l @ l') m = owner l' (owner l m)"
proof (induction l arbitrary: m)
  case (Cons e l)
  then show ?case by (cases e) (simp_all del: fun_upd_apply)
qed simp

lemma sound_append [simp]: "sound_log (l @ l') m = (sound_log l m \<and> sound_log l' (owner l m))"
proof (induction l arbitrary: m)
  case (Cons e l)
  then show ?case by (cases e) (simp_all del: fun_upd_apply)
qed simp

lemma posted_append [simp]: "posted (l @ l') = posted l @ posted l'"
  by (simp add: posted_def)

lemma ran_append [simp]: "ran (l @ l') = ran l @ ran l'"
  by (simp add: ran_def)

lemma singles [simp]:
  "posted [Posted k] = [k]" "posted [Ran k] = []" "posted [Registered t h] = []" "posted [Deregistered t] = []"
  "posted [Dispatched t h] = []" "posted [Ticked] = []" "posted [] = []"
  "ran [Posted k] = []" "ran [Ran k] = [k]" "ran [Registered t h] = []" "ran [Deregistered t] = []"
  "ran [Dispatched t h] = []" "ran [Ticked] = []" "ran [] = []"
  by (simp_all add: posted_def ran_def)

text \<open>The handler table agrees with the owners up to the removals that are pending; \<open>todo\<close> are the
  tasks of a drain in progress.\<close>

definition table_ok :: "reactor \<Rightarrow> bool" where
  "table_ok s \<longleftrightarrow> sound_log (rc_log s) Map.empty
     \<and> (\<forall>t h. map_of (rc_handlers s) t = Some h \<longrightarrow>
          owner (rc_log s) Map.empty t = Some h \<or> owner (rc_log s) Map.empty t = None \<and> t \<in> set (rc_pending_remove s))
     \<and> (\<forall>t\<in>set (rc_kernel s). owner (rc_log s) Map.empty t \<noteq> None)"

definition queue_ok :: "nat list \<Rightarrow> reactor \<Rightarrow> bool" where
  "queue_ok todo s \<longleftrightarrow> posted (rc_log s) = ran (rc_log s) @ todo @ rc_queue s"

definition wake_ok :: "bool \<Rightarrow> reactor \<Rightarrow> bool" where
  "wake_ok coming s \<longleftrightarrow> (rc_queue s \<noteq> [] \<longrightarrow> rc_woken s \<or> coming)"

lemma note_ok:
  assumes "table_ok s" "owner [e] (owner (rc_log s) Map.empty) = owner (rc_log s) Map.empty"
    "sound_log [e] (owner (rc_log s) Map.empty)"
  shows "table_ok (log_entry e s)"
  using assms by (simp add: table_ok_def log_entry_def)

lemma table_ok_upd [simp]:
  "table_ok (s\<lparr>rc_queue := q\<rparr>) = table_ok s" "table_ok (s\<lparr>rc_woken := w\<rparr>) = table_ok s"
  "table_ok (s\<lparr>rc_next_token := n\<rparr>) = table_ok s" "table_ok (s\<lparr>rc_tick := f\<rparr>) = table_ok s"
  "table_ok (s\<lparr>rc_running := r\<rparr>) = table_ok s" "table_ok (s\<lparr>rc_started := r\<rparr>) = table_ok s"
  by (simp_all add: table_ok_def)

lemma register_ok: "table_ok s \<Longrightarrow> table_ok (snd (register_source ok h s))"
  by (auto simp: register_source_def alloc_token_def Let_def log_entry_def table_ok_def update_conv' split: if_splits)

lemma deregister_ok: "table_ok s \<Longrightarrow> table_ok (deregister_source t s)"
  unfolding table_ok_def deregister_source_def log_entry_def by (fastforce split: option.splits if_splits)

lemma post_ok: "table_ok s \<Longrightarrow> table_ok (post k s)"
  by (simp add: post_def note_ok)

lemma cmd_ok: "table_ok s \<Longrightarrow> table_ok (apply_cmd c s)"
  by (cases c) (simp_all add: register_ok deregister_ok post_ok set_tick_def)

lemma cmds_ok: "table_ok s \<Longrightarrow> table_ok (fold apply_cmd cs s)"
  by (induction cs arbitrary: s) (simp_all add: cmd_ok)

lemma delete_all: "map_of (fold AList.delete ts al) t = (if t \<in> set ts then None else map_of al t)"
  by (induction ts arbitrary: al) (simp_all add: delete_conv')

lemma drain_removes_ok: "table_ok s \<Longrightarrow> table_ok (drain_pending_removes s)"
  unfolding table_ok_def drain_pending_removes_def by (auto simp: delete_all split: option.splits)

lemma removes_sel [simp]: "rc_pending_remove (drain_pending_removes s) = []"
  by (simp add: drain_pending_removes_def)

lemma run_task_ok: "table_ok s \<Longrightarrow> table_ok (run_task body k s)"
  by (simp add: run_task_def cmds_ok note_ok)

lemma drain_queue_ok: "table_ok s \<Longrightarrow> table_ok (drain_queue body s)"
proof -
  have "table_ok s \<Longrightarrow> table_ok (fold (run_task body) ks s)" for ks s
    by (induction ks arbitrary: s) (simp_all add: run_task_ok)
  then show "table_ok s \<Longrightarrow> table_ok (drain_queue body s)" by (simp add: drain_queue_def)
qed

lemma event_ok:
  assumes "table_ok s" "rc_pending_remove s = [] \<or> fst ev = WAKER_TOKEN \<or> fst ev \<in> set (rc_kernel s)"
  shows "table_ok (reactor_event body ev s) \<and> rc_pending_remove (reactor_event body ev s) = []"
proof -
  have "table_ok (log_entry (Dispatched (fst ev) h) s)"
    if "fst ev \<noteq> WAKER_TOKEN" "map_of (rc_handlers s) (fst ev) = Some h" for h
    using assms that by (intro note_ok) (fastforce simp: table_ok_def)+
  then show ?thesis
    using assms(1)
    by (auto simp: reactor_event_def Let_def drain_removes_ok drain_queue_ok cmds_ok split: option.split)
qed

lemma batch_keeps:
  assumes "table_ok s" "rc_pending_remove s = [] \<or> list_all (\<lambda>ev. fst ev = WAKER_TOKEN \<or> fst ev \<in> set (rc_kernel s)) batch"
  shows "table_ok (fold (reactor_event body) batch s)"
proof (cases batch)
  case (Cons ev evs)
  have "table_ok s \<Longrightarrow> rc_pending_remove s = [] \<Longrightarrow> table_ok (fold (reactor_event body) evs s)" for s
    by (induction evs arbitrary: s) (simp_all add: event_ok)
  then show ?thesis using Cons assms event_ok [of s ev body] by auto
qed (simp add: assms)

section \<open>Posted tasks\<close>

lemma queue_ok_upd [simp]:
  "queue_ok todo (s\<lparr>rc_handlers := x\<rparr>) = queue_ok todo s" "queue_ok todo (s\<lparr>rc_pending_remove := y\<rparr>) = queue_ok todo s"
  "queue_ok todo (s\<lparr>rc_kernel := z\<rparr>) = queue_ok todo s" "queue_ok todo (s\<lparr>rc_woken := w\<rparr>) = queue_ok todo s"
  "queue_ok todo (s\<lparr>rc_tick := w\<rparr>) = queue_ok todo s" "queue_ok todo (s\<lparr>rc_next_token := n\<rparr>) = queue_ok todo s"
  "queue_ok todo (s\<lparr>rc_running := w\<rparr>) = queue_ok todo s" "queue_ok todo (s\<lparr>rc_started := w\<rparr>) = queue_ok todo s"
  by (simp_all add: queue_ok_def)

lemma cmd_queue:
  "queue_ok todo s \<Longrightarrow> queue_ok todo (apply_cmd c s)" "wake_ok coming s \<Longrightarrow> wake_ok coming (apply_cmd c s)"
  by (cases c; auto simp: queue_ok_def wake_ok_def register_source_def alloc_token_def deregister_source_def post_def
      set_tick_def log_entry_def Let_def split: if_splits)+

lemma cmds_queue:
  "queue_ok todo s \<Longrightarrow> queue_ok todo (fold apply_cmd cs s)" "wake_ok coming s \<Longrightarrow> wake_ok coming (fold apply_cmd cs s)"
  by (induction cs arbitrary: s) (simp_all add: cmd_queue)

lemma run_tasks:
  "queue_ok ks s \<Longrightarrow> queue_ok [] (fold (run_task body) ks s)" "wake_ok coming s \<Longrightarrow> wake_ok coming (fold (run_task body) ks s)"
proof (induction ks arbitrary: s)
  case (Cons k ks)
  { case 1
    then have "queue_ok ks (log_entry (Ran k) s)" by (simp add: queue_ok_def log_entry_def)
    then show ?case using Cons(1) by (simp add: run_task_def cmds_queue) }
  { case 2
    then have "wake_ok coming (log_entry (Ran k) s)" by (simp add: wake_ok_def log_entry_def)
    then show ?case using Cons(2) by (simp add: run_task_def cmds_queue) }
qed simp_all

lemma drain_queue_keeps: "queue_ok [] s \<Longrightarrow> queue_ok [] (drain_queue body s)" "wake_ok False (drain_queue body s)"
  unfolding drain_queue_def by (rule run_tasks, simp add: queue_ok_def wake_ok_def)+

lemma event_queue:
  "queue_ok [] s \<Longrightarrow> queue_ok [] (reactor_event body ev s)"
  "wake_ok (WAKER_TOKEN \<in> fst ` set (ev # evs)) s \<Longrightarrow> wake_ok (WAKER_TOKEN \<in> fst ` set evs) (reactor_event body ev s)"
proof -
  have d: "wake_ok c (drain_pending_removes s) = wake_ok c s" for c s by (simp add: drain_pending_removes_def wake_ok_def)
  have l: "queue_ok [] s \<Longrightarrow> queue_ok [] (log_entry (Dispatched t h) s)"
    "wake_ok c s \<Longrightarrow> wake_ok c (log_entry (Dispatched t h) s)" for c t h s
    by (simp_all add: queue_ok_def wake_ok_def log_entry_def)
  have w: "wake_ok False s \<Longrightarrow> wake_ok c s" for c s by (auto simp: wake_ok_def)
  show "queue_ok [] s \<Longrightarrow> queue_ok [] (reactor_event body ev s)"
    using drain_queue_keeps(1) cmds_queue(1) l(1)
    by (auto simp: reactor_event_def Let_def drain_pending_removes_def split: option.split)
  show "wake_ok (WAKER_TOKEN \<in> fst ` set evs) (reactor_event body ev s)"
    if "wake_ok (WAKER_TOKEN \<in> fst ` set (ev # evs)) s"
  proof (cases "fst ev = WAKER_TOKEN")
    case True
    then show ?thesis using w [OF drain_queue_keeps(2)] by (simp add: reactor_event_def d)
  next
    case False
    then have "wake_ok (WAKER_TOKEN \<in> fst ` set evs) s" using that by (simp add: image_iff)
    then show ?thesis using False cmds_queue(2) l(2) by (simp add: reactor_event_def Let_def d split: option.split)
  qed
qed

lemma batch_queue:
  "queue_ok [] s \<Longrightarrow> queue_ok [] (fold (reactor_event body) batch s)"
  "wake_ok (WAKER_TOKEN \<in> fst ` set batch) s \<Longrightarrow> wake_ok False (fold (reactor_event body) batch s)"
  by (induction batch arbitrary: s) (simp_all add: event_queue del: image_insert list.set(2))

definition reactor_inv :: "reactor \<Rightarrow> bool" where
  "reactor_inv s \<longleftrightarrow> table_ok s \<and> queue_ok [] s \<and> wake_ok False s"

lemma poll_inv:
  assumes "reactor_inv s" "batch_ok batch s"
  shows "reactor_inv (poll_turn body batch cmds s)"
proof -
  define u where "u = (if WAKER_TOKEN \<in> fst ` set batch then s\<lparr>rc_woken := False\<rparr> else s)"
  have u: "table_ok u" "queue_ok [] u" "wake_ok (WAKER_TOKEN \<in> fst ` set batch) u" "rc_kernel u = rc_kernel s"
    using assms(1) by (auto simp: u_def reactor_inv_def wake_ok_def)
  have "list_all (\<lambda>ev. fst ev = WAKER_TOKEN \<or> fst ev \<in> set (rc_kernel u)) batch"
    using assms(2) by (auto simp: batch_ok_def list_all_iff u(4) split: if_splits)
  then have v: "reactor_inv (fold (reactor_event body) batch u)"
    unfolding reactor_inv_def using u batch_keeps batch_queue by blast
  then have "reactor_inv (log_entry Ticked (fold (reactor_event body) batch u))"
    by (simp add: reactor_inv_def note_ok) (simp add: queue_ok_def wake_ok_def log_entry_def)
  then show ?thesis
    using v assms(1) by (simp add: poll_turn_def Let_def reactor_inv_def cmds_ok cmds_queue flip: u_def)
qed

lemma reactor_step_inv: "reactor_inv s \<Longrightarrow> reactor_inv (reactor_step body op s)"
proof (cases op)
  case (PostFrom k)
  assume "reactor_inv s"
  then show ?thesis using PostFrom cmd_ok [of s "Post k"] cmd_queue [of _ s "Post k"] by (simp add: reactor_inv_def)
next
  case (Poll batch cmds)
  assume "reactor_inv s"
  then show ?thesis using Poll by (simp add: poll_inv)
qed (simp_all add: reactor_init_def set_tick_def reactor_inv_def wake_ok_def)

interpretation reactor: op_system "\<lambda>s. s = reactor_new" "reactor_step body" reactor_inv for body
  by unfold_locales (auto simp: reactor_step_inv, simp add: reactor_inv_def reactor_new_def table_ok_def queue_ok_def wake_ok_def)

text \<open>C20. Whatever handlers, tasks and the tick do, and in whatever order sources become ready: an
  event is handed only to the handler that was registered under its token last and has not been
  deregistered since, not even earlier in the same batch; the posted tasks run exactly once, in the
  order of the posts; and while one waits, a wake-up of the poll is outstanding.\<close>

theorem reactor_dispatch_sound:
  "let s = reactor_run body ops in
     (\<forall>pre t h post. rc_log s = pre @ Dispatched t h # post \<longrightarrow> owner pre Map.empty t = Some h) \<and>
     posted (rc_log s) = ran (rc_log s) @ rc_queue s \<and> (rc_queue s \<noteq> [] \<longrightarrow> rc_woken s)"
proof -
  have "reactor_inv (reactor_run body ops)" unfolding reactor_run_def by (intro reactor.after reactor.op_init refl)
  then show ?thesis by (auto simp: Let_def reactor_inv_def table_ok_def queue_ok_def wake_ok_def)
qed

text \<open>A task registers two sources; both become ready in one batch, and the handler of the first
  deregisters the second.\<close>

definition two_sources :: reactor where
  "two_sources = reactor_run (\<lambda>k. if k = 0 then [Register 10, Register 20, Post 1] else [])
     [Init True, PostFrom 0, Poll [(WAKER_TOKEN, [])] [], Poll [(1, [Deregister 2]), (2, [])] []]"

theorem reactor_dispatch_sound_witness:
  "rc_log two_sources = [Posted 0, Ran 0, Registered 1 10, Registered 2 20, Posted 1] @ Dispatched 1 10 # [Deregistered 2] \<and>
   owner [Posted 0, Ran 0, Registered 1 10, Registered 2 20, Posted 1] Map.empty 1 = Some 10 \<and>
   posted (rc_log two_sources) = ran (rc_log two_sources) @ rc_queue two_sources \<and> rc_queue two_sources = [1] \<and> rc_woken two_sources"
proof -
  have l: "rc_log two_sources = [Posted 0, Ran 0, Registered 1 10, Registered 2 20, Posted 1] @ Dispatched 1 10 # [Deregistered 2]"
    "rc_queue two_sources = [1]"
    by code_simp+
  note t = reactor_dispatch_sound [of "\<lambda>k. if k = 0 then [Register 10, Register 20, Post 1] else []"
      "[Init True, PostFrom 0, Poll [(WAKER_TOKEN, [])] [], Poll [(1, [Deregister 2]), (2, [])] []]",
      folded two_sources_def, unfolded Let_def]
  have "rc_woken two_sources" using t l(2) by simp
  then show ?thesis using l t [THEN conjunct1, rule_format, OF l(1)] t [THEN conjunct2, THEN conjunct1] by blast
qed

end
