(* ===== verification/Lk_Queues.thy ===== *)
theory Lk_Queues
  imports Carrier Transition "HOL-Library.Sublist" "HOL-Library.Multiset"
begin

text \<open>
  The packet paths of \<open>LkTunnel\<close> (\<open>lib.rs\<close>): the bounded send queue with its drain wake-ups, the
  dispatch of received payloads by their type byte, and the bounded inbound queue with the drain
  tasks posted to the reactor. The sender task is split where another thread can come in between;
  what it does with the packets is the theory of the carrier. Tunnel and sender are alive here.
  \<open>q_accepted\<close>, \<open>q_popped\<close>, \<open>q_received\<close> and \<open>q_delivered\<close> record the frames taken by
  \<open>send_raw_frame\<close>, those the sender took, the packets handed to \<open>on_ip\<close> and those handed on by
  \<open>inject_inbound_ip\<close> with where they went.
\<close>

section \<open>Model\<close>

definition FRAME_TYPE_IP :: u8 where "FRAME_TYPE_IP = 0x49"
definition FRAME_TYPE_QUIC :: u8 where "FRAME_TYPE_QUIC = 0x51"
definition SEND_QUEUE_CAP :: nat where "SEND_QUEUE_CAP = 64"
definition INBOUND_QUEUE_CAP :: nat where "INBOUND_QUEUE_CAP = 8192"
definition QUIC_RX_QUEUE_CAP :: nat where "QUIC_RX_QUEUE_CAP = 1024"

datatype send_error = NotConnected_send | Invalid_send | Backpressure

datatype sender_phase = SenderIdle | SenderBatching | SenderFlushing

datatype ip_route = ToOverride | ToNat | ToTun | ToNobody

record lk_queues =
  q_connected :: bool
  q_tx :: "bytes list"
  q_sender :: sender_phase
  q_waiters :: "nat list"
  q_wlock :: "nat option"
  q_fired :: "nat list"
  q_tx_count :: "64 word \<times> 64 word"
  q_rx_count :: "64 word \<times> 64 word"
  q_inbound :: "bytes list"
  q_drops :: nat
  q_drains :: nat
  q_in_hand :: "bytes option option"
  q_route :: ip_route
  q_quic :: "bytes list option"
  q_accepted :: "bytes list"
  q_popped :: "bytes list"
  q_received :: "bytes list"
  q_delivered :: "(ip_route \<times> bytes) list"

definition queues_new :: lk_queues where
  "queues_new = \<lparr>q_connected = False, q_tx = [], q_sender = SenderIdle, q_waiters = [], q_wlock = None, q_fired = [],
     q_tx_count = (0, 0), q_rx_count = (0, 0), q_inbound = [], q_drops = 0, q_drains = 0, q_in_hand = None,
     q_route = ToNobody, q_quic = None, q_accepted = [], q_popped = [], q_received = [], q_delivered = []\<rparr>"

definition count_packet :: "nat \<Rightarrow> 64 word \<times> 64 word \<Rightarrow> 64 word \<times> 64 word" where
  "count_packet n c = (fst c + 1, snd c + of_nat n)"

definition send_raw_frame :: "bytes \<Rightarrow> nat \<Rightarrow> lk_queues \<Rightarrow> (send_error + unit) \<times> lk_queues" where
  "send_raw_frame buf tx_payload_len q =
     (if buf = [] \<or> 65536 < length buf then (Inl Invalid_send, q)
      else if \<not> q_connected q then (Inl NotConnected_send, q)
      else if SEND_QUEUE_CAP \<le> length (q_tx q) then (Inl Backpressure, q)
      else (Inr (), q\<lparr>q_tx := q_tx q @ [buf], q_tx_count := count_packet tx_payload_len (q_tx_count q),
              q_accepted := q_accepted q @ [buf]\<rparr>))"

definition send_ip :: "bytes \<Rightarrow> lk_queues \<Rightarrow> (send_error + unit) \<times> lk_queues" where
  "send_ip ip q =
     (if ip = [] \<or> 65535 < length ip then (Inl Invalid_send, q)
      else if \<not> q_connected q then (Inl NotConnected_send, q)
      else send_raw_frame (FRAME_TYPE_IP # ip) (length ip) q)"

text \<open>\<open>on_send_drained\<close>: with the lock on the waiters held, look at the capacity; then either fire at
  once or park, and release the lock.\<close>

definition drained_check :: "nat \<Rightarrow> lk_queues \<Rightarrow> lk_queues" where
  "drained_check k q =
     (if q_wlock q \<noteq> None then q
      else if length (q_tx q) < SEND_QUEUE_CAP then q\<lparr>q_fired := q_fired q @ [k]\<rparr>
      else q\<lparr>q_wlock := Some k\<rparr>)"

definition drained_park :: "lk_queues \<Rightarrow> lk_queues" where
  "drained_park q =
     (case q_wlock q of None \<Rightarrow> q | Some k \<Rightarrow> q\<lparr>q_waiters := q_waiters q @ [k], q_wlock := None\<rparr>)"

text \<open>The sender task: \<open>recv\<close>, \<open>try_recv\<close> with and without a packet, the flush, the wake-ups.\<close>

definition sender_pop :: "lk_queues \<Rightarrow> lk_queues" where
  "sender_pop q =
     (case q_tx q of
        [] \<Rightarrow> if q_sender q = SenderBatching then q\<lparr>q_sender := SenderFlushing\<rparr> else q
      | p # ps \<Rightarrow> if q_sender q = SenderFlushing then q
                  else q\<lparr>q_tx := ps, q_popped := q_popped q @ [p], q_sender := SenderBatching\<rparr>)"

definition sender_wake :: "lk_queues \<Rightarrow> lk_queues" where
  "sender_wake q =
     (if q_sender q = SenderFlushing \<and> q_wlock q = None
      then q\<lparr>q_fired := q_fired q @ q_waiters q, q_waiters := [], q_sender := SenderIdle\<rparr> else q)"

text \<open>Reception.\<close>

definition on_ip :: "bytes \<Rightarrow> lk_queues \<Rightarrow> lk_queues" where
  "on_ip ip q =
     (if ip = [] then q
      else
        let was_empty = (q_inbound q = []);
            full = (INBOUND_QUEUE_CAP \<le> length (q_inbound q));
            q = (if full then q\<lparr>q_inbound := tl (q_inbound q), q_drops := Suc (q_drops q)\<rparr> else q);
            q = q\<lparr>q_inbound := q_inbound q @ [ip], q_received := q_received q @ [ip]\<rparr>
        in if was_empty then q\<lparr>q_drains := Suc (q_drains q)\<rparr> else q)"

definition on_quic :: "bytes \<Rightarrow> lk_queues \<Rightarrow> lk_queues" where
  "on_quic bs q =
     (let q = q\<lparr>q_rx_count := count_packet (length bs) (q_rx_count q)\<rparr> in
      case q_quic q of
        Some ch \<Rightarrow> if length ch < QUIC_RX_QUEUE_CAP then q\<lparr>q_quic := Some (ch @ [bs])\<rparr> else q
      | None \<Rightarrow> q)"

definition dispatch_payload :: "bytes \<Rightarrow> lk_queues \<Rightarrow> lk_queues" where
  "dispatch_payload payload q =
     (case payload of
        [] \<Rightarrow> q
      | b # rest \<Rightarrow> if b = FRAME_TYPE_IP then on_ip rest q else if b = FRAME_TYPE_QUIC then on_quic rest q else q)"

definition inject_inbound_ip :: "bytes \<Rightarrow> lk_queues \<Rightarrow> lk_queues" where
  "inject_inbound_ip ip q =
     q\<lparr>q_delivered := q_delivered q @ [(q_route q, ip)],
       q_rx_count := (if q_route q \<in> {ToOverride, ToNat, ToTun} then count_packet (length ip) (q_rx_count q) else q_rx_count q)\<rparr>"

text \<open>A posted drain on the reactor's thread: started, with a packet popped, the packet injected, at
  the end of the queue.\<close>

definition drain_start :: "lk_queues \<Rightarrow> lk_queues" where
  "drain_start q = (if q_in_hand q = None \<and> 0 < q_drains q then q\<lparr>q_in_hand := Some None, q_drains := q_drains q - 1\<rparr> else q)"

definition drain_step :: "lk_queues \<Rightarrow> lk_queues" where
  "drain_step q =
     (case q_in_hand q of
        None \<Rightarrow> q
      | Some None \<Rightarrow>
          (case q_inbound q of
             [] \<Rightarrow> q\<lparr>q_in_hand := None\<rparr>
           | p # ps \<Rightarrow> q\<lparr>q_inbound := ps, q_in_hand := Some (Some p)\<rparr>)
      | Some (Some p) \<Rightarrow> (inject_inbound_ip p q)\<lparr>q_in_hand := Some None\<rparr>)"

section \<open>Runs\<close>

datatype lkq_op =
  SetConnected bool | SetRoute ip_route | SetQuic bool | QuicTake
| SendIp bytes | SendRaw bytes nat | DrainedCheck nat | DrainedPark | SenderPop | SenderWake
| Payload bytes | DrainStart | DrainStep

fun lkq_step :: "lkq_op \<Rightarrow> lk_queues \<Rightarrow> lk_queues" where
  "lkq_step (SetConnected c) q = q\<lparr>q_connected := c\<rparr>"
| "lkq_step (SetRoute r) q = q\<lparr>q_route := r\<rparr>"
| "lkq_step (SetQuic up) q = q\<lparr>q_quic := (if up then Some [] else None)\<rparr>"
| "lkq_step QuicTake q = q\<lparr>q_quic := map_option tl (q_quic q)\<rparr>"
| "lkq_step (SendIp ip) q = snd (send_ip ip q)"
| "lkq_step (SendRaw buf n) q = snd (send_raw_frame buf n q)"
| "lkq_step (DrainedCheck k) q = drained_check k q"
| "lkq_step DrainedPark q = drained_park q"
| "lkq_step SenderPop q = sender_pop q"
| "lkq_step SenderWake q = sender_wake q"
| "lkq_step (Payload p) q = dispatch_payload p q"
| "lkq_step DrainStart q = drain_start q"
| "lkq_step DrainStep q = drain_step q"

definition lkq_run :: "lkq_op list \<Rightarrow> lk_queues" where
  "lkq_run ops = fold lkq_step ops queues_new"

section \<open>Invariant\<close>

definition in_hand :: "lk_queues \<Rightarrow> bytes list" where
  "in_hand q = (case q_in_hand q of Some (Some p) \<Rightarrow> [p] | _ \<Rightarrow> [])"

definition send_inv :: "lk_queues \<Rightarrow> bool" where
  "send_inv q \<longleftrightarrow> q_accepted q = q_popped q @ q_tx q \<and> length (q_tx q) \<le> SEND_QUEUE_CAP
     \<and> (q_waiters q \<noteq> [] \<or> q_wlock q \<noteq> None \<longrightarrow> q_tx q \<noteq> [] \<or> q_sender q \<noteq> SenderIdle)"

definition inbound_inv :: "lk_queues \<Rightarrow> bool" where
  "inbound_inv q \<longleftrightarrow> length (q_inbound q) \<le> INBOUND_QUEUE_CAP
     \<and> (q_inbound q \<noteq> [] \<longrightarrow> 0 < q_drains q \<or> q_in_hand q \<noteq> None)
     \<and> subseq (map snd (q_delivered q) @ in_hand q @ q_inbound q) (q_received q)
     \<and> length (q_delivered q) + length (in_hand q) + length (q_inbound q) + q_drops q = length (q_received q)"

lemma send_step: "send_inv q \<Longrightarrow> send_inv (lkq_step op q)"
proof (cases op)
  case (SendIp ip)
  assume "send_inv q"
  then show ?thesis using SendIp by (auto simp: send_ip_def send_raw_frame_def send_inv_def)
next
  case (SendRaw buf n)
  assume "send_inv q"
  then show ?thesis using SendRaw by (auto simp: send_raw_frame_def send_inv_def)
next
  case (DrainedCheck k)
  assume "send_inv q"
  then show ?thesis using DrainedCheck by (auto simp: drained_check_def send_inv_def SEND_QUEUE_CAP_def)
next
  case SenderPop
  assume "send_inv q"
  then show ?thesis using SenderPop by (auto simp: sender_pop_def send_inv_def split: list.splits)
qed (auto simp: send_inv_def drained_park_def sender_wake_def dispatch_payload_def on_ip_def on_quic_def
    drain_start_def drain_step_def inject_inbound_ip_def Let_def split: option.split list.split)

lemma inbound_upd [simp]:
  "inbound_inv (q\<lparr>q_connected := x0\<rparr>) = inbound_inv q"
  "inbound_inv (q\<lparr>q_tx := x1\<rparr>) = inbound_inv q"
  "inbound_inv (q\<lparr>q_sender := x2\<rparr>) = inbound_inv q"
  "inbound_inv (q\<lparr>q_waiters := x3\<rparr>) = inbound_inv q"
  "inbound_inv (q\<lparr>q_wlock := x4\<rparr>) = inbound_inv q"
  "inbound_inv (q\<lparr>q_fired := x5\<rparr>) = inbound_inv q"
  "inbound_inv (q\<lparr>q_tx_count := x6\<rparr>) = inbound_inv q"
  "inbound_inv (q\<lparr>q_rx_count := x7\<rparr>) = inbound_inv q"
  "inbound_inv (q\<lparr>q_route := x8\<rparr>) = inbound_inv q"
  "inbound_inv (q\<lparr>q_quic := x9\<rparr>) = inbound_inv q"
  "inbound_inv (q\<lparr>q_accepted := x10\<rparr>) = inbound_inv q"
  "inbound_inv (q\<lparr>q_popped := x11\<rparr>) = inbound_inv q"
  by (simp_all add: inbound_inv_def in_hand_def)

lemma on_ip_inv:
  assumes "inbound_inv q"
  shows "inbound_inv (on_ip ip q)"
proof (cases "INBOUND_QUEUE_CAP \<le> length (q_inbound q)")
  case True
  then obtain p ps where ps: "q_inbound q = p # ps" by (cases "q_inbound q") (auto simp: INBOUND_QUEUE_CAP_def)
  have "subseq (map snd (q_delivered q) @ in_hand q @ ps) (map snd (q_delivered q) @ in_hand q @ p # ps)"
    by (intro list_emb_append_mono) (auto intro: list_emb_Cons)
  then have "subseq (map snd (q_delivered q) @ in_hand q @ ps) (q_received q)"
    using assms ps subseq_order.trans by (auto simp: inbound_inv_def)
  then have "subseq ((map snd (q_delivered q) @ in_hand q @ ps) @ [ip]) (q_received q @ [ip])"
    by (intro list_emb_append_mono) auto
  then show ?thesis
    using assms True ps by (auto simp: on_ip_def inbound_inv_def in_hand_def Let_def)
next
  case False
  have "subseq ((map snd (q_delivered q) @ in_hand q @ q_inbound q) @ [ip]) (q_received q @ [ip])"
    using assms by (intro list_emb_append_mono) (auto simp: inbound_inv_def)
  then show ?thesis
    using assms False by (auto simp: on_ip_def inbound_inv_def in_hand_def Let_def)
qed

lemma drain_inv:
  assumes "inbound_inv q"
  shows "inbound_inv (drain_start q)" "inbound_inv (drain_step q)"
  using assms
  by (auto simp: drain_start_def drain_step_def inbound_inv_def in_hand_def inject_inbound_ip_def split: option.split list.split)

lemma inbound_step: "inbound_inv q \<Longrightarrow> inbound_inv (lkq_step op q)"
  by (cases op)
    (simp_all add: drain_inv send_ip_def send_raw_frame_def drained_check_def drained_park_def sender_pop_def sender_wake_def
      dispatch_payload_def on_quic_def on_ip_inv Let_def split: option.split list.split)

interpretation lkq: op_system "\<lambda>q. q = queues_new" lkq_step "\<lambda>q. send_inv q \<and> inbound_inv q"
  by unfold_locales
    (auto simp: send_step inbound_step, simp_all add: send_inv_def inbound_inv_def queues_new_def in_hand_def)

lemma lkq_always: "send_inv (lkq_run ops) \<and> inbound_inv (lkq_run ops)"
  unfolding lkq_run_def by (intro lkq.after lkq.op_init refl)

section \<open>Properties\<close>

text \<open>C13. The send queue of a tunnel is bounded and first-in first-out: the frames that
  \<open>send_raw_frame\<close> accepted are those the sender has taken followed by those still queued, at most 64.
  No wake-up is lost: while a caller that met backpressure is parked, or about to be, a packet is
  queued or the sender is inside a round that ends with the wake-ups.\<close>

theorem no_lost_wakeup:
  "let q = lkq_run ops in
     q_accepted q = q_popped q @ q_tx q \<and> length (q_tx q) \<le> 64 \<and>
     (q_waiters q \<noteq> [] \<or> q_wlock q \<noteq> None \<longrightarrow> q_tx q \<noteq> [] \<or> q_sender q \<noteq> SenderIdle)"
  using lkq_always [of ops] by (simp add: Let_def send_inv_def SEND_QUEUE_CAP_def)

definition full_queue :: "lkq_op list" where
  "full_queue = SetConnected True # replicate 64 (SendIp [69]) @ [DrainedCheck 7, DrainedPark]"

lemma fill_queue:
  "q_connected q \<Longrightarrow> length (q_tx q) + n \<le> SEND_QUEUE_CAP \<Longrightarrow>
   (let r = fold lkq_step (replicate n (SendIp [69])) q in
      length (q_tx r) = length (q_tx q) + n \<and> q_connected r \<and> q_waiters r = q_waiters q \<and> q_wlock r = q_wlock q)"
  by (induction n arbitrary: q) (simp_all add: send_ip_def send_raw_frame_def Let_def)

theorem no_lost_wakeup_witness:
  "q_waiters (lkq_run full_queue) = [7] \<and> \<not> (q_tx (lkq_run full_queue) = [] \<and> q_sender (lkq_run full_queue) = SenderIdle)
   \<and> q_accepted (lkq_run full_queue) = q_popped (lkq_run full_queue) @ q_tx (lkq_run full_queue)"
proof -
  define r where "r = fold lkq_step (replicate 64 (SendIp [69])) (queues_new\<lparr>q_connected := True\<rparr>)"
  have "length (q_tx r) = 64 \<and> q_waiters r = [] \<and> q_wlock r = None"
    using fill_queue [of "queues_new\<lparr>q_connected := True\<rparr>" 64] by (simp add: r_def Let_def queues_new_def SEND_QUEUE_CAP_def)
  moreover have "lkq_run full_queue = drained_park (drained_check 7 r)" by (simp add: lkq_run_def full_queue_def r_def)
  ultimately have "q_waiters (lkq_run full_queue) = [7]" by (simp add: drained_park_def drained_check_def SEND_QUEUE_CAP_def)
  then show ?thesis using no_lost_wakeup [of full_queue] by (simp add: Let_def)
qed

text \<open>C21. Inbound packets are bounded and never stranded: at most 8192 wait, and while one waits a drain
  is posted or running. What is delivered is in the order of arrival, nothing is delivered twice, and
  every packet that arrived is delivered, in the drain's hand, waiting, or counted as dropped; with no
  drop the delivered, held and waiting packets are exactly the received ones.\<close>

theorem inbound_accounted:
  "let q = lkq_run ops; seen = map snd (q_delivered q) @ in_hand q @ q_inbound q in
     length (q_inbound q) \<le> 8192 \<and> (q_inbound q \<noteq> [] \<longrightarrow> 0 < q_drains q \<or> q_in_hand q \<noteq> None) \<and>
     subseq seen (q_received q) \<and> length seen + q_drops q = length (q_received q) \<and>
     (q_drops q = 0 \<longrightarrow> seen = q_received q)"
proof -
  define q where "q = lkq_run ops"
  define seen where "seen = map snd (q_delivered q) @ in_hand q @ q_inbound q"
  have inv: "inbound_inv q" unfolding q_def using lkq_always by blast
  then have "subseq seen (q_received q)" "length seen + q_drops q = length (q_received q)"
    by (simp_all add: inbound_inv_def seen_def)
  moreover from this have "q_drops q = 0 \<Longrightarrow> seen = q_received q" by (auto intro: subseq_same_length)
  ultimately show ?thesis
    using inv unfolding Let_def q_def [symmetric] seen_def [symmetric] by (simp add: inbound_inv_def INBOUND_QUEUE_CAP_def)
qed

definition two_packets :: "lkq_op list" where
  "two_packets = [SetRoute ToTun, Payload [0x49, 69, 1], DrainStart, DrainStep, Payload [0x49, 69, 2], DrainStep]"

theorem inbound_accounted_witness:
  "q_inbound (lkq_run two_packets) = [[69, 2]] \<and>
   \<not> (q_drains (lkq_run two_packets) = 0 \<and> q_in_hand (lkq_run two_packets) = None) \<and>
   map snd (q_delivered (lkq_run two_packets)) @ in_hand (lkq_run two_packets) @ q_inbound (lkq_run two_packets) =
     q_received (lkq_run two_packets)"
proof -
  have e: "q_inbound (lkq_run two_packets) = [[69, 2]]" "q_drops (lkq_run two_packets) = 0" by code_simp+
  show ?thesis using inbound_accounted [of two_packets] e by (simp add: Let_def)
qed

text \<open>Drains do pile up: each packet that arrives while the drain has the last one in its hand posts
  another, although one is running.\<close>

lemma drains_pile_up:
  "q_drains (lkq_run (two_packets @ [DrainStep, Payload [0x49, 69, 3]])) = 2 \<and>
   q_in_hand (lkq_run (two_packets @ [DrainStep, Payload [0x49, 69, 3]])) \<noteq> None"
  by code_simp

section \<open>End to end\<close>

lemma on_ip_fits:
  assumes "ip \<noteq> []" "length (q_inbound q) < INBOUND_QUEUE_CAP"
  shows "q_inbound (on_ip ip q) = q_inbound q @ [ip]" "q_drops (on_ip ip q) = q_drops q"
  using assms by (simp_all add: on_ip_def Let_def)

lemma dispatch_all:
  "list_all (\<lambda>ip. ip \<noteq> []) ips \<Longrightarrow> length (q_inbound q) + length ips \<le> INBOUND_QUEUE_CAP \<Longrightarrow>
     q_inbound (fold dispatch_payload (map ((#) FRAME_TYPE_IP) ips) q) = q_inbound q @ ips \<and>
     q_drops (fold dispatch_payload (map ((#) FRAME_TYPE_IP) ips) q) = q_drops q"
  by (induction ips arbitrary: q) (simp_all add: dispatch_payload_def on_ip_fits)

text \<open>What a set of arriving frames holds: the network may drop frames and reorder them, so the packets
  that come out are, whole, a selection of the packets of the burst.\<close>

lemma mset_concat_mono: "mset xs \<subseteq># mset ys \<Longrightarrow> mset (concat (map f xs)) \<subseteq># mset (concat (map f ys))"
proof -
  assume "mset xs \<subseteq># mset ys"
  then obtain R where "mset ys = mset xs + R" by (auto simp: mset_subset_eq_exists_conv)
  moreover have "mset (concat (map f zs)) = (\<Sum>z\<in>#mset zs. mset (f z))" for zs :: "'a list"
    by (induction zs) auto
  ultimately show ?thesis by simp
qed

lemma mset_concat_eq: "mset xs = mset ys \<Longrightarrow> mset (concat (map f xs)) = mset (concat (map f ys))"
  using mset_concat_mono [of xs ys f] mset_concat_mono [of ys xs f] by (auto intro: subset_mset.antisym)

lemma subseq_concat_map: "subseq xs ys \<Longrightarrow> subseq (concat (map f xs)) (concat (map f ys))"
  by (induction rule: list_emb.induct) (auto intro: list_emb_append_mono)

lemma map_tl_typed: "set bs \<subseteq> range ((#) t) \<Longrightarrow> bs = map ((#) t) (map tl bs)"
  by (induction bs) auto

text \<open>The packets of the arriving frames, given those of the frames sent.\<close>

lemma arriving_packets:
  assumes sent: "concat (map P fs) = map ((#) t) ips" and some: "mset got \<subseteq># mset fs"
  obtains ps where "concat (map P got) = map ((#) t) ps" "mset ps \<subseteq># mset ips"
    "mset got = mset fs \<Longrightarrow> mset ps = mset ips" "subseq got fs \<Longrightarrow> subseq ps ips"
proof
  let ?ps = "map tl (concat (map P got))"
  have ips: "map tl (concat (map P fs)) = ips" by (simp add: sent comp_def)
  have "mset (concat (map P got)) \<subseteq># mset (map ((#) t) ips)"
    using mset_concat_mono [OF some] by (metis sent)
  then have "set (concat (map P got)) \<subseteq> set (map ((#) t) ips)" by (metis set_mset_mono set_mset_mset)
  then have "set (concat (map P got)) \<subseteq> range ((#) t)" by auto
  then show "concat (map P got) = map ((#) t) ?ps" by (rule map_tl_typed)
  show "mset ?ps \<subseteq># mset ips"
    using image_mset_subseteq_mono [OF mset_concat_mono [OF some, of P], of tl] ips by (metis mset_map)
  show "mset got = mset fs \<Longrightarrow> mset ?ps = mset ips"
    using mset_concat_eq [of got fs P] ips by (metis mset_map)
  show "subseq got fs \<Longrightarrow> subseq ?ps ips"
    using subseq_map [OF subseq_concat_map [of got fs P], of tl] ips by simp
qed

text \<open>C14. From \<open>send_ip\<close> on one side to the inbound queue on the other. Take a burst of non-empty IP
  packets of at most 65534 bytes that the sender got onto the carrier, and let any part of its frames
  reach the peer, each at most once and in any order. As long as the peer's queue has room for the
  burst, unpacking and dispatch append to it whole packets of the burst only, none more often than it was
  sent: all of them if every frame arrives, in the order they were sent as far as the frames arrive in
  order, and exactly the burst if the frames arrive complete and in order.\<close>

theorem ip_packets_end_to_end:
  assumes "list_all (\<lambda>ip. ip \<noteq> [] \<and> length ip \<le> 65534) (ip # ips)" "0 < n" "batch st = []"
    and "send_burst cap n (FRAME_TYPE_IP # ip) (map ((#) FRAME_TYPE_IP) ips) as st = Some (as', st')"
  shows "\<exists>fs. frames st' = frames st @ fs \<and>
    (\<forall>got q. mset got \<subseteq># mset fs \<and> length (q_inbound q) + length (ip # ips) \<le> 8192 \<longrightarrow>
       (\<exists>ps. q_inbound (fold dispatch_payload (concat (map (\<lambda>f. unpack (snd f)) got)) q) = q_inbound q @ ps \<and>
          mset ps \<subseteq># mset (ip # ips) \<and> (mset got = mset fs \<longrightarrow> mset ps = mset (ip # ips)) \<and>
          (subseq got fs \<longrightarrow> subseq ps (ip # ips)) \<and> (got = fs \<longrightarrow> ps = ip # ips)))"
proof -
  have "list_all packable (map ((#) FRAME_TYPE_IP) (ip # ips))"
    using assms(1) by (auto simp: packable_def list_all_iff)
  then obtain fs where fs: "frames st' = frames st @ fs"
    "concat (map (\<lambda>f. unpack (snd f)) fs) = map ((#) FRAME_TYPE_IP) (ip # ips)"
    using burst_frames [OF assms(2,3) _ assms(4)] by auto
  have "\<exists>ps. q_inbound (fold dispatch_payload (concat (map (\<lambda>f. unpack (snd f)) got)) q) = q_inbound q @ ps \<and>
          mset ps \<subseteq># mset (ip # ips) \<and> (mset got = mset fs \<longrightarrow> mset ps = mset (ip # ips)) \<and>
          (subseq got fs \<longrightarrow> subseq ps (ip # ips)) \<and> (got = fs \<longrightarrow> ps = ip # ips)"
    if got: "mset got \<subseteq># mset fs" and room: "length (q_inbound q) + length (ip # ips) \<le> 8192" for got q
  proof -
    obtain ps where ps: "concat (map (\<lambda>f. unpack (snd f)) got) = map ((#) FRAME_TYPE_IP) ps" "mset ps \<subseteq># mset (ip # ips)"
      "mset got = mset fs \<Longrightarrow> mset ps = mset (ip # ips)" "subseq got fs \<Longrightarrow> subseq ps (ip # ips)"
      using arriving_packets [OF fs(2) got] by metis
    have "list_all (\<lambda>ip. ip \<noteq> []) ps" using set_mset_mono [OF ps(2)] assms(1) by (auto simp: list_all_iff)
    moreover have "length ps \<le> length (ip # ips)" using size_mset_mono [OF ps(2)] by simp
    ultimately have "q_inbound (fold dispatch_payload (map ((#) FRAME_TYPE_IP) ps) q) = q_inbound q @ ps"
      using dispatch_all [of ps q] room by (simp add: INBOUND_QUEUE_CAP_def)
    moreover have "ps = ip # ips" if "got = fs"
      using ps(3,4) that size_mset [of ps] size_mset [of "ip # ips"] by (metis subseq_order.refl subseq_same_length)
    ultimately show ?thesis using ps by metis
  qed
  then show ?thesis using fs(1) by blast
qed

theorem ip_packets_end_to_end_witness:
  "\<exists>as' st'. send_burst MAX_FRAME_BYTES 1 [0x49, 69, 1] [[0x49, 69, 2, 3]] [False, True] idle_sender = Some (as', st')
   \<and> q_inbound (fold dispatch_payload (concat (map (\<lambda>f. unpack (snd f)) (frames st'))) queues_new) = [[69, 1], [69, 2, 3]]"
proof -
  have "\<exists>as' st'. send_burst MAX_FRAME_BYTES 1 [0x49, 69, 1] [[0x49, 69, 2, 3]] [False, True] idle_sender = Some (as', st')"
    by (simp add: send_burst_def push_def push_packed_def flush_with_backpressure_def idle_sender_def
        MAX_FRAME_BYTES_def be16_bytes_def Let_def)
  then obtain as' st' where s: "send_burst MAX_FRAME_BYTES 1 [0x49, 69, 1] [[0x49, 69, 2, 3]] [False, True] idle_sender = Some (as', st')"
    by blast
  from ip_packets_end_to_end [of "[69, 1]" "[[69, 2, 3]]" 1 idle_sender MAX_FRAME_BYTES "[False, True]" as' st'] s
  obtain fs where fs: "frames st' = frames idle_sender @ fs"
    "\<And>got q. mset got \<subseteq># mset fs \<Longrightarrow> length (q_inbound q) + length [[69, 1], [69 :: u8, 2, 3]] \<le> 8192 \<Longrightarrow>
       \<exists>ps. q_inbound (fold dispatch_payload (concat (map (\<lambda>f. unpack (snd f)) got)) q) = q_inbound q @ ps \<and>
         (got = fs \<longrightarrow> ps = [[69, 1], [69, 2, 3]])"
    by (simp add: FRAME_TYPE_IP_def idle_sender_def) meson
  have "q_inbound (fold dispatch_payload (concat (map (\<lambda>f. unpack (snd f)) fs)) queues_new) = [[69, 1], [69, 2, 3]]"
    using fs(2) [of fs queues_new] by (auto simp: queues_new_def)
  then show ?thesis using s fs(1) by (auto simp: idle_sender_def)
qed

end
