(* ===== verification/Lk_Engine.thy ===== *)
theory Lk_Engine
  imports Lk_Queues
begin

text \<open>
  What the tunnel sees of its transports. From \<open>rtc.rs\<close>: the roster of remote participants with the
  events it gives rise to, the signal loop, the terminal states of the peer connections, and the bounded
  queue of a carrier track. From \<open>quic_tunnel.rs\<close>: the socket that carries QUIC datagrams through the
  tunnel. The session negotiation and the packets inside QUIC belong to their libraries.
\<close>

section \<open>Participants\<close>

datatype participant_state = Joining | Joined | Active | Gone

record participant =
  pt_identity :: string
  pt_state :: participant_state

datatype engine_msg = PeerIn string | PeerOut string | Down

record engine =
  en_peers :: "string set"
  en_events :: "engine_msg list"
  en_running :: bool

definition send_event :: "engine_msg \<Rightarrow> engine \<Rightarrow> engine" where
  "send_event m e = e\<lparr>en_events := en_events e @ [m]\<rparr>"

definition insert_peer :: "string \<Rightarrow> engine \<Rightarrow> engine" where
  "insert_peer i e =
     (if i \<in> en_peers e then e else send_event (PeerIn i) (e\<lparr>en_peers := insert i (en_peers e)\<rparr>))"

definition remove_peer :: "string \<Rightarrow> engine \<Rightarrow> engine" where
  "remove_peer i e =
     (if i \<in> en_peers e then send_event (PeerOut i) (e\<lparr>en_peers := en_peers e - {i}\<rparr>) else e)"

definition seed_one :: "string \<Rightarrow> participant \<Rightarrow> engine \<Rightarrow> engine" where
  "seed_one me p e =
     (if pt_identity p = me then e else if pt_state p = Active then insert_peer (pt_identity p) e else e)"

definition seed_peers :: "string \<Rightarrow> participant list \<Rightarrow> engine \<Rightarrow> engine" where
  "seed_peers me roster e = fold (seed_one me) roster e"

definition update_one :: "string \<Rightarrow> participant \<Rightarrow> engine \<Rightarrow> engine" where
  "update_one me p e =
     (if pt_identity p = me then e
      else if pt_state p = Gone then remove_peer (pt_identity p) e else insert_peer (pt_identity p) e)"

definition apply_participant_update :: "string \<Rightarrow> participant list \<Rightarrow> engine \<Rightarrow> engine" where
  "apply_participant_update me ps e = fold (update_one me) ps e"

definition peer_present :: "engine \<Rightarrow> bool" where
  "peer_present e \<longleftrightarrow> en_peers e \<noteq> {}"

section \<open>The signal loop\<close>

datatype signal_event = SignalClosed | StreamEnded | ParticipantUpdate "participant list" | ServerLeave | Negotiation

definition signal_loop :: "string \<Rightarrow> signal_event \<Rightarrow> engine \<Rightarrow> engine" where
  "signal_loop me ev e =
     (if \<not> en_running e then e
      else case ev of
        ParticipantUpdate ps \<Rightarrow> apply_participant_update me ps e
      | Negotiation \<Rightarrow> e
      | _ \<Rightarrow> (send_event Down e)\<lparr>en_running := False\<rparr>)"

datatype pc_state = PcConnecting | PcConnected | PcDisconnected | PcFailed | PcClosed

definition wire_pc :: "pc_state \<Rightarrow> engine \<Rightarrow> engine" where
  "wire_pc s e = (if s = PcFailed \<or> s = PcClosed then send_event Down e else e)"

definition track_ended :: "engine \<Rightarrow> engine" where
  "track_ended e = send_event Down e"

definition engine_connect :: "string \<Rightarrow> participant list \<Rightarrow> engine" where
  "engine_connect me roster = seed_peers me roster \<lparr>en_peers = {}, en_events = [], en_running = True\<rparr>"

datatype engine_op = Signal signal_event | PcState pc_state | TrackEnded

fun engine_step :: "string \<Rightarrow> engine_op \<Rightarrow> engine \<Rightarrow> engine" where
  "engine_step me (Signal ev) e = signal_loop me ev e"
| "engine_step me (PcState s) e = wire_pc s e"
| "engine_step me TrackEnded e = track_ended e"

text \<open>The roster that a reader of the events has in mind, and events that make sense to it.\<close>

fun replay :: "engine_msg list \<Rightarrow> string set \<Rightarrow> string set" where
  "replay [] s = s"
| "replay (PeerIn i # ms) s = replay ms (insert i s)"
| "replay (PeerOut i # ms) s = replay ms (s - {i})"
| "replay (Down # ms) s = replay ms s"

fun sensible :: "engine_msg list \<Rightarrow> string set \<Rightarrow> bool" where
  "sensible [] s = True"
| "sensible (PeerIn i # ms) s = (i \<notin> s \<and> sensible ms (insert i s))"
| "sensible (PeerOut i # ms) s = (i \<in> s \<and> sensible ms (s - {i}))"
| "sensible (Down # ms) s = sensible ms s"

definition roster_inv :: "string \<Rightarrow> engine \<Rightarrow> bool" where
  "roster_inv me e \<longleftrightarrow> en_peers e = replay (en_events e) {} \<and> sensible (en_events e) {} \<and> me \<notin> en_peers e
     \<and> PeerIn me \<notin> set (en_events e) \<and> PeerOut me \<notin> set (en_events e) \<and> (\<not> en_running e \<longrightarrow> Down \<in> set (en_events e))"

lemma replay_snoc [simp]: "replay (ms @ [m]) s = replay [m] (replay ms s)"
  by (induction ms s rule: replay.induct) (cases m; simp)+

lemma sensible_snoc [simp]: "sensible (ms @ [m]) s \<longleftrightarrow> sensible ms s \<and> sensible [m] (replay ms s)"
  by (induction ms s rule: sensible.induct) (cases m; auto)+

lemma roster_peer:
  assumes "roster_inv me e" "i \<noteq> me"
  shows "roster_inv me (insert_peer i e)" "roster_inv me (remove_peer i e)"
  using assms by (auto simp: roster_inv_def insert_peer_def remove_peer_def send_event_def)

lemma roster_updates:
  "roster_inv me e \<Longrightarrow> roster_inv me (seed_peers me ps e)" "roster_inv me e \<Longrightarrow> roster_inv me (apply_participant_update me ps e)"
  unfolding seed_peers_def apply_participant_update_def
  by (induction ps arbitrary: e) (simp_all add: seed_one_def update_one_def roster_peer)

lemma roster_down: "roster_inv me e \<Longrightarrow> roster_inv me (send_event Down e)"
  by (auto simp: roster_inv_def send_event_def)

lemma engine_step_inv: "roster_inv me e \<Longrightarrow> roster_inv me (engine_step me op e)"
proof (cases op)
  case (Signal ev)
  assume "roster_inv me e"
  then show ?thesis
    using Signal roster_updates(2) roster_down by (cases ev) (auto simp: signal_loop_def roster_inv_def send_event_def)
qed (simp_all add: wire_pc_def track_ended_def roster_down)

interpretation engine: op_system "\<lambda>e. \<exists>roster. e = engine_connect me roster" "engine_step me" "roster_inv me" for me
proof unfold_locales
  fix e :: engine
  have "roster_inv me \<lparr>en_peers = {}, en_events = [], en_running = True\<rparr>" by (simp add: roster_inv_def)
  moreover assume "\<exists>roster. e = engine_connect me roster"
  ultimately show "roster_inv me e" using roster_updates(1) by (auto simp: engine_connect_def)
qed (simp add: engine_step_inv)

section \<open>The queue of a track\<close>

definition SEND_QUEUE_DEPTH :: nat where "SEND_QUEUE_DEPTH = 256"

text \<open>The counter follows the queue in steps of their own: \<open>rt_late\<close> sends and \<open>rt_early\<close> receives have
  not been counted yet.\<close>

record rtp_sender =
  rt_queue :: "bytes list"
  rt_depth :: "64 word"
  rt_late :: nat
  rt_early :: nat
  rt_sent :: "bytes list"
  rt_written :: "bytes list"

definition rtp_send :: "bytes \<Rightarrow> rtp_sender \<Rightarrow> bool \<times> rtp_sender" where
  "rtp_send data s =
     (if length (rt_queue s) < SEND_QUEUE_DEPTH
      then (True, s\<lparr>rt_queue := rt_queue s @ [data], rt_late := Suc (rt_late s), rt_sent := rt_sent s @ [data]\<rparr>)
      else (False, s))"

definition rtp_count :: "rtp_sender \<Rightarrow> rtp_sender" where
  "rtp_count s = (if 0 < rt_late s then s\<lparr>rt_depth := rt_depth s + 1, rt_late := rt_late s - 1\<rparr> else s)"

definition writer_recv :: "rtp_sender \<Rightarrow> rtp_sender" where
  "writer_recv s =
     (case rt_queue s of
        [] \<Rightarrow> s
      | b # q \<Rightarrow> s\<lparr>rt_queue := q, rt_early := Suc (rt_early s), rt_written := rt_written s @ [b]\<rparr>)"

definition writer_count :: "rtp_sender \<Rightarrow> rtp_sender" where
  "writer_count s = (if 0 < rt_early s then s\<lparr>rt_depth := rt_depth s - 1, rt_early := rt_early s - 1\<rparr> else s)"

datatype rtp_op = RtpSend bytes | RtpCount | WriterRecv | WriterCount

fun rtp_step :: "rtp_op \<Rightarrow> rtp_sender \<Rightarrow> rtp_sender" where
  "rtp_step (RtpSend d) s = snd (rtp_send d s)"
| "rtp_step RtpCount s = rtp_count s"
| "rtp_step WriterRecv s = writer_recv s"
| "rtp_step WriterCount s = writer_count s"

definition rtp_new :: rtp_sender where
  "rtp_new = \<lparr>rt_queue = [], rt_depth = 0, rt_late = 0, rt_early = 0, rt_sent = [], rt_written = []\<rparr>"

definition rtp_inv :: "rtp_sender \<Rightarrow> bool" where
  "rtp_inv s \<longleftrightarrow> rt_sent s = rt_written s @ rt_queue s \<and> length (rt_queue s) \<le> SEND_QUEUE_DEPTH
     \<and> rt_depth s + of_nat (rt_late s) = of_nat (length (rt_queue s)) + of_nat (rt_early s)"

interpretation rtp: op_system "\<lambda>s. s = rtp_new" rtp_step rtp_inv
proof unfold_locales
  fix s op
  assume "rtp_inv s"
  then show "rtp_inv (rtp_step op s)"
    by (cases op) (auto simp: rtp_inv_def rtp_send_def rtp_count_def writer_recv_def writer_count_def algebra_simps
        of_nat_diff Suc_le_eq split: list.split)
qed (simp add: rtp_inv_def rtp_new_def)

text \<open>Once every send and receive is counted, the counter is the length of the queue.\<close>

lemma rtp_depth_settles:
  assumes "rt_late (fold rtp_step ops rtp_new) = 0" "rt_early (fold rtp_step ops rtp_new) = 0"
  shows "unat (rt_depth (fold rtp_step ops rtp_new)) = length (rt_queue (fold rtp_step ops rtp_new))"
  using rtp.after [OF rtp.op_init [OF refl], of ops] assms by (simp add: rtp_inv_def SEND_QUEUE_DEPTH_def unat_of_nat)

section \<open>The QUIC socket\<close>

datatype udp_error = UdpNotConnected | UdpWouldBlock | UdpInvalid

definition try_send :: "bool \<Rightarrow> bytes \<Rightarrow> lk_queues \<Rightarrow> (udp_error + unit) \<times> lk_queues" where
  "try_send closed contents q =
     (if closed then (Inl UdpNotConnected, q)
      else case send_raw_frame (FRAME_TYPE_QUIC # contents) (length contents) q of
        (Inr (), q) \<Rightarrow> (Inr (), q)
      | (Inl Backpressure, q) \<Rightarrow> (Inl UdpWouldBlock, q)
      | (Inl NotConnected_send, q) \<Rightarrow> (Inl UdpNotConnected, q)
      | (Inl Invalid_send, q) \<Rightarrow> (Inl UdpInvalid, q))"

text \<open>The loop over the caller's buffers, of which it knows the sizes; a datagram that is too long for the
  next buffer is dropped.\<close>

fun recv_slots :: "nat list \<Rightarrow> bytes list \<Rightarrow> bytes list \<times> bytes list" where
  "recv_slots [] rx = ([], rx)"
| "recv_slots (c # cs) [] = ([], [])"
| "recv_slots (c # cs) (b # rx) =
     (if c < length b then recv_slots (c # cs) rx
      else case recv_slots cs rx of (got, rest) \<Rightarrow> (b # got, rest))"

datatype poll_result = PollPending | PollError | PollReady "bytes list"

definition poll_recv :: "bool \<Rightarrow> nat list \<Rightarrow> nat \<Rightarrow> bool \<Rightarrow> bytes list \<Rightarrow> poll_result \<times> bytes list" where
  "poll_recv closed bufs n_meta sender_alive rx =
     (if closed then (PollError, rx)
      else if bufs = [] \<or> n_meta = 0 then (PollReady [], rx)
      else case recv_slots (take n_meta bufs) rx of (got, rest) \<Rightarrow>
        if got = [] then (if sender_alive then PollPending else PollError, rest) else (PollReady got, rest))"

text \<open>\<open>poll_writable\<close> with the lock on the waiters free: ready when the callback fired at once.\<close>

definition poll_writable :: "nat \<Rightarrow> lk_queues \<Rightarrow> bool \<times> lk_queues" where
  "poll_writable k q = (let q' = drained_check k q in (length (q_fired q) < length (q_fired q'), drained_park q'))"

lemma quic_dispatch:
  "q_quic q = Some ch \<Longrightarrow> length ch + length ds \<le> QUIC_RX_QUEUE_CAP \<Longrightarrow>
     q_quic (fold dispatch_payload (map ((#) FRAME_TYPE_QUIC) ds) q) = Some (ch @ ds)"
proof (induction ds arbitrary: q ch)
  case (Cons d ds)
  have "q_quic (dispatch_payload (FRAME_TYPE_QUIC # d) q) = Some (ch @ [d])"
    using Cons(2,3) by (simp add: dispatch_payload_def on_quic_def FRAME_TYPE_QUIC_def FRAME_TYPE_IP_def Let_def)
  then show ?case using Cons(1) [of _ "ch @ [d]"] Cons(3) by simp
qed simp

lemma recv_all:
  "length ds \<le> length caps \<Longrightarrow> list_all (\<lambda>c. list_all (\<lambda>d. length d \<le> c) ds) caps \<Longrightarrow> recv_slots caps ds = (ds, [])"
proof (induction caps ds rule: recv_slots.induct)
  case (3 c cs b rx)
  then have "list_all (\<lambda>c. list_all (\<lambda>d. length d \<le> c) rx) cs" by (auto simp: list_all_iff)
  then show ?case using 3 by auto
qed simp_all

section \<open>Properties\<close>

text \<open>The events of the engine tell its roster. Whatever updates, signal events and connection states
  come, someone who replays the joins and leaves has exactly the roster that \<open>peer_present\<close> consults:
  nobody joins twice or leaves without having joined, the local participant is never reported, and a
  signal loop that has ended has reported the disconnect.\<close>

theorem roster_matches_events:
  "let e = fold (engine_step me) ops (engine_connect me roster) in
     en_peers e = replay (en_events e) {} \<and> sensible (en_events e) {} \<and> (peer_present e \<longleftrightarrow> replay (en_events e) {} \<noteq> {})
     \<and> PeerIn me \<notin> set (en_events e) \<and> PeerOut me \<notin> set (en_events e) \<and> (\<not> en_running e \<longrightarrow> Down \<in> set (en_events e))"
proof -
  have "roster_inv me (fold (engine_step me) ops (engine_connect me roster))" by (rule engine.after [OF engine.op_init]) blast
  then show ?thesis by (simp add: Let_def roster_inv_def peer_present_def)
qed

theorem roster_matches_events_witness:
  "let e = fold (engine_step ''me'') [Signal (ParticipantUpdate [\<lparr>pt_identity = ''bob'', pt_state = Gone\<rparr>]), Signal ServerLeave]
         (engine_connect ''me'' [\<lparr>pt_identity = ''bob'', pt_state = Active\<rparr>, \<lparr>pt_identity = ''me'', pt_state = Active\<rparr>]) in
     en_events e = [PeerIn ''bob'', PeerOut ''bob'', Down] \<and> en_peers e = {} \<and> Down \<in> set (en_events e)"
proof -
  let ?ops = "[Signal (ParticipantUpdate [\<lparr>pt_identity = ''bob'', pt_state = Gone\<rparr>]), Signal ServerLeave]"
  let ?roster = "[\<lparr>pt_identity = ''bob'', pt_state = Active\<rparr>, \<lparr>pt_identity = ''me'', pt_state = Active\<rparr>]"
  have e: "en_events (fold (engine_step ''me'') ?ops (engine_connect ''me'' ?roster)) = [PeerIn ''bob'', PeerOut ''bob'', Down]"
    "\<not> en_running (fold (engine_step ''me'') ?ops (engine_connect ''me'' ?roster))"
    by (simp_all add: engine_connect_def seed_peers_def seed_one_def insert_peer_def remove_peer_def send_event_def
        signal_loop_def apply_participant_update_def update_one_def)
  then show ?thesis using roster_matches_events [of "''me''" ?ops ?roster] by (simp add: Let_def)
qed

text \<open>QUIC datagrams cross the tunnel. Datagrams that one side's socket has put into the send queue and the
  sender onto the carrier are handed to the other side's QUIC endpoint by one poll of its socket, whole,
  in order and without anything else, when the receive queue has room and the endpoint offers enough
  buffers of sufficient size.\<close>

theorem quic_datagrams_end_to_end:
  assumes "list_all (\<lambda>d. length d \<le> 65534) (d # ds)" "0 < n" "batch st = []"
    and "send_burst cap n (FRAME_TYPE_QUIC # d) (map ((#) FRAME_TYPE_QUIC) ds) as st = Some (as', st')"
    and "q_quic q = Some []" "length (d # ds) \<le> 1024"
    and "length (d # ds) \<le> length bufs" "list_all (\<lambda>c. list_all (\<lambda>x. length x \<le> c) (d # ds)) bufs"
  shows "\<exists>fs. frames st' = frames st @ fs \<and>
    map_option (poll_recv False bufs (length bufs) True) (q_quic (fold dispatch_payload (concat (map (\<lambda>f. unpack (snd f)) fs)) q))
      = Some (PollReady (d # ds), [])"
proof -
  have "list_all packable (map ((#) FRAME_TYPE_QUIC) (d # ds))" using assms(1) by (auto simp: packable_def list_all_iff)
  then obtain fs where fs: "frames st' = frames st @ fs"
    "concat (map (\<lambda>f. unpack (snd f)) fs) = map ((#) FRAME_TYPE_QUIC) (d # ds)"
    using burst_frames [OF assms(2,3) _ assms(4)] by auto
  have "q_quic (fold dispatch_payload (concat (map (\<lambda>f. unpack (snd f)) fs)) q) = Some (d # ds)"
    unfolding fs(2) using quic_dispatch [OF assms(5), of "d # ds"] assms(6) by (simp add: QUIC_RX_QUEUE_CAP_def)
  moreover have "poll_recv False bufs (length bufs) True (d # ds) = (PollReady (d # ds), [])"
    using recv_all [OF assms(7,8)] assms(7) by (cases bufs) (simp_all add: poll_recv_def)
  ultimately show ?thesis using fs(1) by auto
qed

theorem quic_datagrams_end_to_end_witness:
  "\<exists>as' st'. send_burst MAX_FRAME_BYTES 1 [0x51, 7] [[0x51, 8, 9]] [False, True] idle_sender = Some (as', st')
   \<and> map_option (poll_recv False [1200, 1200] 2 True)
       (q_quic (fold dispatch_payload (concat (map (\<lambda>f. unpack (snd f)) (frames st'))) (queues_new\<lparr>q_quic := Some []\<rparr>)))
     = Some (PollReady [[7], [8, 9]], [])"
proof -
  let ?q = "queues_new\<lparr>q_quic := Some []\<rparr>"
  have "\<exists>as' st'. send_burst MAX_FRAME_BYTES 1 [0x51, 7] [[0x51, 8, 9]] [False, True] idle_sender = Some (as', st')"
    by (simp add: send_burst_def push_def push_packed_def flush_with_backpressure_def idle_sender_def
        MAX_FRAME_BYTES_def be16_bytes_def Let_def)
  then obtain as' st' where s: "send_burst MAX_FRAME_BYTES 1 [0x51, 7] [[0x51, 8, 9]] [False, True] idle_sender = Some (as', st')"
    by blast
  have "\<exists>fs. frames st' = frames idle_sender @ fs \<and>
      map_option (poll_recv False [1200, 1200] (length [1200, 1200 :: nat]) True)
        (q_quic (fold dispatch_payload (concat (map (\<lambda>f. unpack (snd f)) fs)) ?q)) = Some (PollReady ([7] # [[8, 9]]), [])"
    by (rule quic_datagrams_end_to_end [of "[7]" "[[8, 9]]" 1 idle_sender MAX_FRAME_BYTES "[False, True]" as'])
      (use s in \<open>simp_all add: FRAME_TYPE_QUIC_def idle_sender_def\<close>)
  then show ?thesis using s by (auto simp: idle_sender_def numeral_2_eq_2)
qed

end
