(* ===== verification/Lk_Lifecycle.thy ===== *)
theory Lk_Lifecycle
  imports Client_Manager
begin

text \<open>
  The life of an \<open>LkTunnel\<close> (\<open>lib.rs\<close>): the connect task with its peer wait and main loop, the
  teardown that any thread can start and that the last handle's drop starts, the choice of where
  inbound packets go, and the slots of the QUIC and SOCKS5 helpers with the keeper of
  \<open>quic_tunnel.rs\<close>. The steps are the stretches between the points where another thread or task can
  come in. An abort of a task takes effect at its next await.

  The state is a \<open>watch\<close> channel: \<open>send\<close> stores the value only while a receiver exists, and the
  receiver made with the channel is dropped by the constructor.
\<close>

section \<open>State\<close>

datatype tunnel_role = ClientRole | ServerRole

datatype tunnel_state = StConnecting | StConnected | StFailed | StDisconnected

text \<open>The connect task: dialling, in the peer wait, between the actions of coming up, in the main
  loop, between the actions of going down, ended.\<close>

datatype connect_phase = Dialing | PeerWait | Up1 | Up2 | Up3 | MainLoop | Down1 | Down2 | TaskEnd

text \<open>A call of \<open>teardown\<close>: not started, past the guard with what it read, about to emit, to clear the
  flag, to clean up, returned.\<close>

datatype teardown_phase = TdNone | TdGuard bool | TdEmit | TdFlag | TdClean | TdReturned

text \<open>The caller of \<open>ensure_quic_client\<close> that holds the connect lock, and a keeper: idle, at the top of
  the dial loop, in a handshake that has claimed the receive slot; a keeper also reads the current client
  and waits for its connection's end. A second caller waits for the lock, then finds what the first left:
  a client, or a tunnel that is not connected, and returns in both cases.\<close>

datatype dialer = NotDialing | DialTop | Handshake | KeeperTop | KeeperWatch

record lk_tunnel =
  lf_role :: tunnel_role
  lf_alive :: bool
  lf_watchers :: nat
  lf_state :: tunnel_state
  lf_connected :: bool
  lf_events :: "event_kind list"
  lf_task :: connect_phase
  lf_aborted :: bool
  lf_silent :: bool
  lf_sender :: bool
  lf_engine :: bool
  lf_closes :: nat
  lf_nat :: bool
  lf_tun :: bool
  lf_quic_rx :: bool
  lf_quic_client :: bool
  lf_quic_server :: bool
  lf_socks :: "16 word option"
  lf_waiters :: nat
  lf_posted :: "(bool \<times> bool) list"
  lf_ensure :: dialer
  lf_keepers :: "dialer list"
  lf_td :: "nat \<Rightarrow> teardown_phase"

definition connect_with_role :: "tunnel_role \<Rightarrow> lk_tunnel" where
  "connect_with_role role = \<lparr>lf_role = role, lf_alive = True, lf_watchers = 0, lf_state = StConnecting,
     lf_connected = False, lf_events = [], lf_task = Dialing, lf_aborted = False, lf_silent = False, lf_sender = False,
     lf_engine = False, lf_closes = 0, lf_nat = False, lf_tun = False, lf_quic_rx = False, lf_quic_client = False,
     lf_quic_server = False, lf_socks = None, lf_waiters = 0, lf_posted = [], lf_ensure = NotDialing,
     lf_keepers = [], lf_td = (\<lambda>_. TdNone)\<rparr>"

definition subscribe_state :: "lk_tunnel \<Rightarrow> lk_tunnel" where
  "subscribe_state t = t\<lparr>lf_watchers := Suc (lf_watchers t)\<rparr>"

definition state_send :: "tunnel_state \<Rightarrow> lk_tunnel \<Rightarrow> lk_tunnel" where
  "state_send v t = (if 0 < lf_watchers t then t\<lparr>lf_state := v\<rparr> else t)"

definition emit_kind :: "event_kind \<Rightarrow> lk_tunnel \<Rightarrow> lk_tunnel" where
  "emit_kind e t = t\<lparr>lf_events := lf_events t @ [e]\<rparr>"

definition to_phase :: "connect_phase \<Rightarrow> lk_tunnel \<Rightarrow> lk_tunnel" where
  "to_phase p t = t\<lparr>lf_task := p\<rparr>"

section \<open>The connect task\<close>

definition engine_result :: "bool \<Rightarrow> lk_tunnel \<Rightarrow> lk_tunnel" where
  "engine_result ok t =
     (if lf_task t \<noteq> Dialing \<or> lf_aborted t then t
      else if \<not> ok then
        to_phase TaskEnd (emit_kind Disconnected (emit_kind Error
          (if lf_alive t then state_send StFailed t else t)))
      else if \<not> lf_alive t then to_phase TaskEnd (t\<lparr>lf_closes := Suc (lf_closes t)\<rparr>)
      else to_phase PeerWait (t\<lparr>lf_engine := True, lf_sender := True\<rparr>))"

datatype engine_event = EPeerJoined | EPeerLeft | EDisconnected | EStreamEnd | ETimeout | EProbe bool

definition peer_wait :: "engine_event \<Rightarrow> lk_tunnel \<Rightarrow> lk_tunnel" where
  "peer_wait ev t =
     (if lf_task t \<noteq> PeerWait \<or> lf_aborted t then t
      else case ev of
        EPeerJoined \<Rightarrow> to_phase Up1 (emit_kind PeerJoined t)
      | EPeerLeft \<Rightarrow> emit_kind PeerLeft t
      | EDisconnected \<Rightarrow>
          to_phase TaskEnd (emit_kind Disconnected (if lf_alive t then state_send StFailed t else t))
      | EProbe _ \<Rightarrow> t
      | _ \<Rightarrow>
          to_phase TaskEnd (emit_kind Error ((if lf_alive t then state_send StFailed t else t)
            \<lparr>lf_closes := Suc (lf_closes t)\<rparr>)))"

definition come_up :: "lk_tunnel \<Rightarrow> lk_tunnel" where
  "come_up t =
     (case lf_task t of
        Up1 \<Rightarrow> to_phase Up2 (t\<lparr>lf_connected := True\<rparr>)
      | Up2 \<Rightarrow> to_phase Up3 (if lf_alive t then state_send StConnected t else t)
      | Up3 \<Rightarrow> to_phase MainLoop ((emit_kind Connected t)
            \<lparr>lf_ensure := (if lf_alive t \<and> lf_role t = ClientRole \<and> lf_ensure t = NotDialing \<and> \<not> lf_quic_client t
                            then DialTop else lf_ensure t)\<rparr>)
      | _ \<Rightarrow> t)"

definition main_loop :: "engine_event \<Rightarrow> lk_tunnel \<Rightarrow> lk_tunnel" where
  "main_loop ev t =
     (if lf_task t \<noteq> MainLoop \<or> lf_aborted t then t
      else case ev of
        EStreamEnd \<Rightarrow> to_phase Down1 (t\<lparr>lf_silent := True\<rparr>)
      | EPeerJoined \<Rightarrow> emit_kind PeerJoined t
      | EPeerLeft \<Rightarrow> emit_kind PeerLeft t
      | EDisconnected \<Rightarrow> to_phase Down1 (emit_kind Disconnected t)
      | EProbe present \<Rightarrow>
          if present then t else to_phase Down1 (emit_kind Disconnected (t\<lparr>lf_closes := Suc (lf_closes t)\<rparr>))
      | ETimeout \<Rightarrow> t)"

definition go_down :: "lk_tunnel \<Rightarrow> lk_tunnel" where
  "go_down t =
     (case lf_task t of
        Down1 \<Rightarrow> to_phase Down2 (t\<lparr>lf_connected := False\<rparr>)
      | Down2 \<Rightarrow> to_phase TaskEnd (if lf_alive t then state_send StDisconnected t else t)
      | _ \<Rightarrow> t)"

text \<open>An aborted task is dropped at an await.\<close>

definition reap_task :: "lk_tunnel \<Rightarrow> lk_tunnel" where
  "reap_task t = (if lf_aborted t \<and> lf_task t \<in> {Dialing, PeerWait, MainLoop} then to_phase TaskEnd t else t)"

section \<open>Teardown\<close>

definition set_td :: "nat \<Rightarrow> teardown_phase \<Rightarrow> lk_tunnel \<Rightarrow> lk_tunnel" where
  "set_td k p t = t\<lparr>lf_td := (lf_td t)(k := p)\<rparr>"

definition teardown_clean :: "lk_tunnel \<Rightarrow> lk_tunnel" where
  "teardown_clean t =
     t\<lparr>lf_aborted := True, lf_sender := False, lf_socks := None, lf_quic_server := False, lf_quic_client := False,
       lf_quic_rx := False, lf_nat := False, lf_tun := False, lf_waiters := 0, lf_engine := False,
       lf_posted := (if lf_nat t \<or> lf_tun t then lf_posted t @ [(lf_nat t, lf_tun t)] else lf_posted t),
       lf_closes := (if lf_engine t then Suc (lf_closes t) else lf_closes t)\<rparr>"

definition teardown_step :: "nat \<Rightarrow> lk_tunnel \<Rightarrow> lk_tunnel" where
  "teardown_step k t =
     (case lf_td t k of
        TdGuard already \<Rightarrow> set_td k (if already then TdReturned else TdEmit) (state_send StDisconnected t)
      | TdEmit \<Rightarrow> set_td k TdFlag (emit_kind Disconnected t)
      | TdFlag \<Rightarrow> set_td k TdClean (t\<lparr>lf_connected := False\<rparr>)
      | TdClean \<Rightarrow> set_td k TdReturned (teardown_clean t)
      | _ \<Rightarrow> t)"

definition teardown_begin :: "nat \<Rightarrow> lk_tunnel \<Rightarrow> lk_tunnel" where
  "teardown_begin k t = set_td k (TdGuard (lf_state t \<in> {StDisconnected, StFailed})) t"

text \<open>One call with nothing in between.\<close>

definition teardown :: "nat \<Rightarrow> lk_tunnel \<Rightarrow> lk_tunnel" where
  "teardown k t = (teardown_step k ^^ 4) (teardown_begin k t)"

definition disconnect :: "nat \<Rightarrow> lk_tunnel \<Rightarrow> lk_tunnel" where
  "disconnect k t = (if lf_alive t \<and> lf_td t k = TdNone then teardown_begin k t else t)"

text \<open>The last handle goes away: no call of another thread, no caller of \<open>ensure_quic_client\<close> and no
  keeper in a handshake is in progress, each of them holds a handle.\<close>

definition drop_tunnel :: "nat \<Rightarrow> lk_tunnel \<Rightarrow> lk_tunnel" where
  "drop_tunnel k t =
     (if lf_alive t \<and> lf_td t k = TdNone \<and> (\<forall>j. lf_td t j \<in> {TdNone, TdReturned})
        \<and> lf_ensure t = NotDialing \<and> Handshake \<notin> set (lf_keepers t)
      then teardown_begin k (t\<lparr>lf_alive := False\<rparr>) else t)"

section \<open>Packet consumers\<close>

definition enable_quic_server :: "bool \<Rightarrow> lk_tunnel \<Rightarrow> bool \<times> lk_tunnel" where
  "enable_quic_server config_ok t = (if lf_quic_rx t then (False, t) else (config_ok, t\<lparr>lf_quic_rx := True\<rparr>))"

definition ensure_quic_acceptor :: "bool \<Rightarrow> lk_tunnel \<Rightarrow> lk_tunnel" where
  "ensure_quic_acceptor config_ok t =
     (if lf_role t \<noteq> ServerRole \<or> lf_quic_server t then t
      else case enable_quic_server config_ok t of
             (ok, t) \<Rightarrow> if ok then t\<lparr>lf_quic_server := True\<rparr> else t)"

datatype mode_error = WrongRole | NotUp | InClientMode | InServerMode | BadFd | TunAttached

definition start_server :: "bool \<Rightarrow> lk_tunnel \<Rightarrow> (mode_error + unit) \<times> lk_tunnel" where
  "start_server config_ok t =
     (if lf_role t \<noteq> ServerRole then (Inl WrongRole, t)
      else if \<not> lf_connected t then (Inl NotUp, t)
      else if lf_tun t then (Inl InClientMode, t)
      else if lf_nat t then (Inl InServerMode, t)
      else (Inr (), ensure_quic_acceptor config_ok (t\<lparr>lf_nat := True\<rparr>)))"

text \<open>The pre-checks on the calling thread, and the task on the reactor's.\<close>

definition attach_tun_check :: "int \<Rightarrow> lk_tunnel \<Rightarrow> mode_error option" where
  "attach_tun_check fd t =
     (if \<not> lf_connected t then Some NotUp else if fd < 0 then Some BadFd
      else if lf_nat t then Some InServerMode else if lf_tun t then Some TunAttached else None)"

definition attach_tun_task :: "bool \<Rightarrow> lk_tunnel \<Rightarrow> (mode_error + unit) \<times> lk_tunnel" where
  "attach_tun_task config_ok t =
     (if lf_nat t then (Inl InServerMode, t) else if lf_tun t then (Inl TunAttached, t)
      else (Inr (), ensure_quic_acceptor config_ok (t\<lparr>lf_tun := True\<rparr>)))"

definition attach_tun_with_format :: "int \<Rightarrow> bool \<Rightarrow> lk_tunnel \<Rightarrow> (mode_error + unit) \<times> lk_tunnel" where
  "attach_tun_with_format fd config_ok t =
     (case attach_tun_check fd t of Some e \<Rightarrow> (Inl e, t) | None \<Rightarrow> attach_tun_task config_ok t)"

definition detach_tun :: "lk_tunnel \<Rightarrow> lk_tunnel" where
  "detach_tun t = (if \<not> lf_tun t then t else t\<lparr>lf_tun := False\<rparr>)"

section \<open>SOCKS5 and QUIC\<close>

datatype socks_result = Bound "16 word" | AlreadyEnabled | BindLater

definition enable_socks5_check :: "16 word \<Rightarrow> lk_tunnel \<Rightarrow> socks_result" where
  "enable_socks5_check port t =
     (case lf_socks t of
        Some p \<Rightarrow> if port = 0 \<or> p = port then Bound p else AlreadyEnabled
      | None \<Rightarrow> BindLater)"

definition enable_socks5_install :: "16 word \<Rightarrow> lk_tunnel \<Rightarrow> socks_result \<times> lk_tunnel" where
  "enable_socks5_install bound t =
     (case lf_socks t of
        Some p \<Rightarrow> (Bound p, t)
      | None \<Rightarrow> (Bound bound, t\<lparr>lf_socks := Some bound,
            lf_ensure := (if lf_ensure t = NotDialing \<and> \<not> lf_quic_client t then DialTop else lf_ensure t)\<rparr>))"

definition disable_socks5_server :: "lk_tunnel \<Rightarrow> lk_tunnel" where
  "disable_socks5_server t = t\<lparr>lf_socks := None\<rparr>"

text \<open>\<open>connect_quic_to_peer\<close>: the claim of the slot, and the end of the handshake.\<close>

definition quic_claim :: "lk_tunnel \<Rightarrow> bool \<times> lk_tunnel" where
  "quic_claim t = (if lf_quic_rx t then (False, t) else (True, t\<lparr>lf_quic_rx := True\<rparr>))"

definition ensure_step :: "bool \<Rightarrow> lk_tunnel \<Rightarrow> lk_tunnel" where
  "ensure_step ok t =
     (case lf_ensure t of
        DialTop \<Rightarrow>
          if \<not> lf_connected t then t\<lparr>lf_ensure := NotDialing\<rparr>
          else (case quic_claim t of (claimed, t) \<Rightarrow> if claimed then t\<lparr>lf_ensure := Handshake\<rparr> else t)
      | Handshake \<Rightarrow>
          if ok then t\<lparr>lf_quic_client := True, lf_ensure := NotDialing, lf_keepers := lf_keepers t @ [KeeperTop]\<rparr>
          else t\<lparr>lf_quic_rx := False, lf_ensure := DialTop\<rparr>
      | _ \<Rightarrow> t)"

text \<open>\<open>keeper_task\<close>: read the client, wait for the connection's end, then the reconnect loop.\<close>

definition set_keeper :: "nat \<Rightarrow> dialer \<Rightarrow> lk_tunnel \<Rightarrow> lk_tunnel" where
  "set_keeper i p t = t\<lparr>lf_keepers := (lf_keepers t)[i := p]\<rparr>"

definition keeper_step :: "nat \<Rightarrow> bool \<Rightarrow> lk_tunnel \<Rightarrow> lk_tunnel" where
  "keeper_step i ok t =
     (if length (lf_keepers t) \<le> i then t else case lf_keepers t ! i of
        KeeperTop \<Rightarrow> set_keeper i (if lf_alive t \<and> lf_quic_client t then KeeperWatch else NotDialing) t
      | KeeperWatch \<Rightarrow>
          if \<not> lf_alive t \<or> \<not> lf_connected t then set_keeper i NotDialing t
          else set_keeper i DialTop (t\<lparr>lf_quic_client := False, lf_quic_rx := False\<rparr>)
      | DialTop \<Rightarrow>
          if \<not> lf_alive t \<or> \<not> lf_connected t then set_keeper i NotDialing t
          else (case quic_claim t of
                  (claimed, t) \<Rightarrow> if claimed then set_keeper i Handshake t else t\<lparr>lf_quic_rx := False\<rparr>)
      | Handshake \<Rightarrow>
          if \<not> ok then set_keeper i DialTop (t\<lparr>lf_quic_rx := False\<rparr>)
          else if lf_alive t then set_keeper i KeeperTop (t\<lparr>lf_quic_client := True\<rparr>)
          else set_keeper i NotDialing t
      | NotDialing \<Rightarrow> t)"

section \<open>Runs\<close>

datatype tunnel_op =
  Watch | Unwatch | EngineResult bool | PeerWaitEvent engine_event | ComeUp | MainEvent engine_event | GoDown | ReapTask
| DisconnectCall nat | DropTunnel nat | TeardownStep nat
| StartServer bool | AttachTask bool | DetachTun
| Socks5Install "16 word" | Socks5Disable | EnsureStep bool | KeeperStep nat bool | ParkWaiter

fun tunnel_step :: "tunnel_op \<Rightarrow> lk_tunnel \<Rightarrow> lk_tunnel" where
  "tunnel_step Watch t = subscribe_state t"
| "tunnel_step Unwatch t = t\<lparr>lf_watchers := lf_watchers t - 1\<rparr>"
| "tunnel_step (EngineResult ok) t = engine_result ok t"
| "tunnel_step (PeerWaitEvent ev) t = peer_wait ev t"
| "tunnel_step ComeUp t = come_up t"
| "tunnel_step (MainEvent ev) t = main_loop ev t"
| "tunnel_step GoDown t = go_down t"
| "tunnel_step ReapTask t = reap_task t"
| "tunnel_step (DisconnectCall k) t = disconnect k t"
| "tunnel_step (DropTunnel k) t = drop_tunnel k t"
| "tunnel_step (TeardownStep k) t = teardown_step k t"
| "tunnel_step (StartServer ok) t = (if lf_alive t then snd (start_server ok t) else t)"
| "tunnel_step (AttachTask ok) t = (if lf_alive t then snd (attach_tun_task ok t) else t)"
| "tunnel_step DetachTun t = (if lf_alive t then detach_tun t else t)"
| "tunnel_step (Socks5Install p) t = (if lf_alive t then snd (enable_socks5_install p t) else t)"
| "tunnel_step Socks5Disable t = disable_socks5_server t"
| "tunnel_step (EnsureStep ok) t = ensure_step ok t"
| "tunnel_step (KeeperStep i ok) t = keeper_step i ok t"
| "tunnel_step ParkWaiter t = t\<lparr>lf_waiters := Suc (lf_waiters t)\<rparr>"

definition tunnel_run :: "tunnel_role \<Rightarrow> tunnel_op list \<Rightarrow> lk_tunnel" where
  "tunnel_run role ops = fold tunnel_step ops (connect_with_role role)"

section \<open>Invariant\<close>

definition reported :: "lk_tunnel \<Rightarrow> bool" where
  "reported t \<longleftrightarrow> Disconnected \<in> set (lf_events t) \<or> Error \<in> set (lf_events t)"

text \<open>The end was reported, or is about to be by a teardown in progress, or the engine's stream ended
  without a word.\<close>

definition ending :: "lk_tunnel \<Rightarrow> bool" where
  "ending t \<longleftrightarrow> reported t \<or> lf_silent t \<or> (\<exists>k. lf_td t k = TdEmit)"

definition consumers_ok :: "lk_tunnel \<Rightarrow> bool" where
  "consumers_ok t \<longleftrightarrow> \<not> (lf_nat t \<and> lf_tun t) \<and> (lf_nat t \<or> lf_quic_server t \<longrightarrow> lf_role t = ServerRole)"

definition ends_ok :: "lk_tunnel \<Rightarrow> bool" where
  "ends_ok t \<longleftrightarrow> (lf_aborted t \<longrightarrow> reported t)
     \<and> (lf_task t = TaskEnd \<longrightarrow> ending t \<or> \<not> lf_alive t)
     \<and> (\<not> lf_alive t \<longrightarrow> ending t \<or> (\<exists>k. lf_td t k = TdGuard False))
     \<and> (lf_state t \<in> {StFailed, StDisconnected} \<longrightarrow> ending t)
     \<and> (\<forall>k. lf_td t k = TdGuard True \<longrightarrow> ending t)
     \<and> (\<forall>k. lf_td t k \<in> {TdFlag, TdClean} \<longrightarrow> reported t)
     \<and> (lf_task t \<in> {Down1, Down2} \<longrightarrow> ending t)"

text \<open>Before the first \<open>Connected\<close> of the stream there is a \<open>PeerJoined\<close>.\<close>

definition peer_first :: "event_kind list \<Rightarrow> bool" where
  "peer_first es \<longleftrightarrow> (Connected \<in> set es \<longrightarrow> PeerJoined \<in> set (takeWhile (\<lambda>e. e \<noteq> Connected) es))"

lemma peer_first_append [simp]:
  "peer_first (es @ ds) \<longleftrightarrow>
     (if Connected \<in> set es then peer_first es else PeerJoined \<in> set es \<or> peer_first ds)"
proof (cases "Connected \<in> set es")
  case False
  then have "takeWhile (\<lambda>e. e \<noteq> Connected) (es @ ds) = es @ takeWhile (\<lambda>e. e \<noteq> Connected) ds"
    by (intro takeWhile_append2) auto
  then show ?thesis using False by (auto simp: peer_first_def)
next
  case True
  then have "takeWhile (\<lambda>e. e \<noteq> Connected) (es @ ds) = takeWhile (\<lambda>e. e \<noteq> Connected) es"
    by (intro takeWhile_append1) auto
  then show ?thesis using True by (simp add: peer_first_def)
qed

lemma peer_first_simps [simp]:
  "peer_first []" "peer_first (e # es) \<longleftrightarrow> e \<noteq> Connected \<and> (e = PeerJoined \<or> peer_first es)"
  by (auto simp: peer_first_def)

lemma peer_firstD: "peer_first (pre @ Connected # post) \<Longrightarrow> PeerJoined \<in> set pre"
  by (auto simp: peer_first_def [of pre] split: if_splits dest: set_takeWhileD)

definition events_ok :: "lk_tunnel \<Rightarrow> bool" where
  "events_ok t \<longleftrightarrow> count_list (lf_events t) Connected \<le> 1
     \<and> (lf_task t \<in> {Dialing, PeerWait, Up1, Up2, Up3} \<longrightarrow> Connected \<notin> set (lf_events t))
     \<and> (lf_task t \<in> {Up1, Up2, Up3} \<longrightarrow> PeerJoined \<in> set (lf_events t)) \<and> peer_first (lf_events t)"

lemmas tunnel_defs = subscribe_state_def state_send_def emit_kind_def to_phase_def set_td_def engine_result_def peer_wait_def
  come_up_def main_loop_def go_down_def reap_task_def disconnect_def drop_tunnel_def teardown_begin_def teardown_step_def
  teardown_clean_def start_server_def attach_tun_task_def detach_tun_def ensure_quic_acceptor_def enable_quic_server_def
  enable_socks5_install_def disable_socks5_server_def ensure_step_def keeper_step_def set_keeper_def quic_claim_def

lemma consumers_upd [simp]:
  "consumers_ok (t\<lparr>lf_alive := x0\<rparr>) = consumers_ok t"
  "consumers_ok (t\<lparr>lf_watchers := x1\<rparr>) = consumers_ok t"
  "consumers_ok (t\<lparr>lf_state := x2\<rparr>) = consumers_ok t"
  "consumers_ok (t\<lparr>lf_connected := x3\<rparr>) = consumers_ok t"
  "consumers_ok (t\<lparr>lf_events := x4\<rparr>) = consumers_ok t"
  "consumers_ok (t\<lparr>lf_task := x5\<rparr>) = consumers_ok t"
  "consumers_ok (t\<lparr>lf_aborted := x6\<rparr>) = consumers_ok t"
  "consumers_ok (t\<lparr>lf_silent := x7\<rparr>) = consumers_ok t"
  "consumers_ok (t\<lparr>lf_sender := x8\<rparr>) = consumers_ok t"
  "consumers_ok (t\<lparr>lf_engine := x9\<rparr>) = consumers_ok t"
  "consumers_ok (t\<lparr>lf_closes := x10\<rparr>) = consumers_ok t"
  "consumers_ok (t\<lparr>lf_quic_rx := x11\<rparr>) = consumers_ok t"
  "consumers_ok (t\<lparr>lf_quic_client := x12\<rparr>) = consumers_ok t"
  "consumers_ok (t\<lparr>lf_socks := x13\<rparr>) = consumers_ok t"
  "consumers_ok (t\<lparr>lf_waiters := x14\<rparr>) = consumers_ok t"
  "consumers_ok (t\<lparr>lf_posted := x15\<rparr>) = consumers_ok t"
  "consumers_ok (t\<lparr>lf_ensure := x16\<rparr>) = consumers_ok t"
  "consumers_ok (t\<lparr>lf_keepers := x17\<rparr>) = consumers_ok t"
  "consumers_ok (t\<lparr>lf_td := x18\<rparr>) = consumers_ok t"
  by (simp_all add: consumers_ok_def)

lemma ends_upd [simp]:
  "ends_ok (t\<lparr>lf_role := x0\<rparr>) = ends_ok t" "ends_ok (t\<lparr>lf_watchers := x1\<rparr>) = ends_ok t"
  "ends_ok (t\<lparr>lf_connected := x2\<rparr>) = ends_ok t" "ends_ok (t\<lparr>lf_sender := x3\<rparr>) = ends_ok t"
  "ends_ok (t\<lparr>lf_engine := x4\<rparr>) = ends_ok t" "ends_ok (t\<lparr>lf_closes := x5\<rparr>) = ends_ok t"
  "ends_ok (t\<lparr>lf_nat := x6\<rparr>) = ends_ok t" "ends_ok (t\<lparr>lf_tun := x7\<rparr>) = ends_ok t"
  "ends_ok (t\<lparr>lf_quic_rx := x8\<rparr>) = ends_ok t"
  "ends_ok (t\<lparr>lf_quic_client := x9\<rparr>) = ends_ok t"
  "ends_ok (t\<lparr>lf_quic_server := x10\<rparr>) = ends_ok t"
  "ends_ok (t\<lparr>lf_socks := x11\<rparr>) = ends_ok t" "ends_ok (t\<lparr>lf_waiters := x12\<rparr>) = ends_ok t"
  "ends_ok (t\<lparr>lf_posted := x13\<rparr>) = ends_ok t" "ends_ok (t\<lparr>lf_ensure := x14\<rparr>) = ends_ok t"
  "ends_ok (t\<lparr>lf_keepers := x15\<rparr>) = ends_ok t"
  by (simp_all add: ends_ok_def ending_def reported_def)

lemma events_upd [simp]:
  "events_ok (t\<lparr>lf_role := x0\<rparr>) = events_ok t"
  "events_ok (t\<lparr>lf_alive := x1\<rparr>) = events_ok t"
  "events_ok (t\<lparr>lf_watchers := x2\<rparr>) = events_ok t"
  "events_ok (t\<lparr>lf_state := x3\<rparr>) = events_ok t"
  "events_ok (t\<lparr>lf_connected := x4\<rparr>) = events_ok t"
  "events_ok (t\<lparr>lf_aborted := x5\<rparr>) = events_ok t"
  "events_ok (t\<lparr>lf_silent := x6\<rparr>) = events_ok t"
  "events_ok (t\<lparr>lf_sender := x7\<rparr>) = events_ok t"
  "events_ok (t\<lparr>lf_engine := x8\<rparr>) = events_ok t"
  "events_ok (t\<lparr>lf_closes := x9\<rparr>) = events_ok t"
  "events_ok (t\<lparr>lf_nat := x10\<rparr>) = events_ok t"
  "events_ok (t\<lparr>lf_tun := x11\<rparr>) = events_ok t"
  "events_ok (t\<lparr>lf_quic_rx := x12\<rparr>) = events_ok t"
  "events_ok (t\<lparr>lf_quic_client := x13\<rparr>) = events_ok t"
  "events_ok (t\<lparr>lf_quic_server := x14\<rparr>) = events_ok t"
  "events_ok (t\<lparr>lf_socks := x15\<rparr>) = events_ok t"
  "events_ok (t\<lparr>lf_waiters := x16\<rparr>) = events_ok t"
  "events_ok (t\<lparr>lf_posted := x17\<rparr>) = events_ok t"
  "events_ok (t\<lparr>lf_ensure := x18\<rparr>) = events_ok t"
  "events_ok (t\<lparr>lf_keepers := x19\<rparr>) = events_ok t"
  "events_ok (t\<lparr>lf_td := x20\<rparr>) = events_ok t"
  by (simp_all add: events_ok_def)

lemma state_send_frame [simp]:
  "consumers_ok (state_send v t) = consumers_ok t" "events_ok (state_send v t) = events_ok t"
  "lf_events (state_send v t) = lf_events t" "lf_task (state_send v t) = lf_task t" "lf_td (state_send v t) = lf_td t"
  "lf_aborted (state_send v t) = lf_aborted t" "lf_silent (state_send v t) = lf_silent t" "lf_alive (state_send v t) = lf_alive t"
  by (simp_all add: state_send_def)

lemma consumers_step: "consumers_ok t \<Longrightarrow> consumers_ok (tunnel_step op t)"
proof (cases op)
  case (StartServer ok)
  assume "consumers_ok t"
  then show ?thesis
    using StartServer
    by (auto simp: start_server_def ensure_quic_acceptor_def enable_quic_server_def consumers_ok_def)
next
  case (AttachTask ok)
  assume "consumers_ok t"
  then show ?thesis
    using AttachTask
    by (auto simp: attach_tun_task_def ensure_quic_acceptor_def enable_quic_server_def consumers_ok_def)
next
  case (TeardownStep k)
  assume "consumers_ok t"
  then show ?thesis
    using TeardownStep
    by (cases "lf_td t k") (auto simp: teardown_step_def teardown_clean_def set_td_def emit_kind_def, auto simp: consumers_ok_def)
next
  case DetachTun
  assume "consumers_ok t"
  then show ?thesis using DetachTun by (auto simp: detach_tun_def consumers_ok_def)
qed (auto simp: tunnel_defs state_send_frame Let_def split: connect_phase.split engine_event.split option.split dialer.split)

lemma helpers_frame:
  "ends_ok (ensure_quic_acceptor ok t) = ends_ok t" "events_ok (ensure_quic_acceptor ok t) = events_ok t"
  "ends_ok (snd (start_server ok t)) = ends_ok t" "events_ok (snd (start_server ok t)) = events_ok t"
  "ends_ok (snd (attach_tun_task ok t)) = ends_ok t" "events_ok (snd (attach_tun_task ok t)) = events_ok t"
  "ends_ok (snd (enable_socks5_install p t)) = ends_ok t" "events_ok (snd (enable_socks5_install p t)) = events_ok t"
  "ends_ok (ensure_step ok t) = ends_ok t" "events_ok (ensure_step ok t) = events_ok t"
  "ends_ok (keeper_step i ok t) = ends_ok t" "events_ok (keeper_step i ok t) = events_ok t"
  by (simp_all add: ensure_quic_acceptor_def enable_quic_server_def start_server_def attach_tun_task_def
      enable_socks5_install_def ensure_step_def keeper_step_def set_keeper_def quic_claim_def split: option.split dialer.split)

lemma events_step: "events_ok t \<Longrightarrow> events_ok (tunnel_step op t)"
proof (cases op)
  case (EngineResult ok)
  assume "events_ok t"
  then show ?thesis using EngineResult by (auto simp: engine_result_def emit_kind_def to_phase_def events_ok_def)
next
  case (PeerWaitEvent ev)
  assume "events_ok t"
  then show ?thesis
    using PeerWaitEvent by (cases ev) (auto simp: peer_wait_def emit_kind_def to_phase_def events_ok_def)
next
  case ComeUp
  assume "events_ok t"
  then show ?thesis
    using ComeUp by (cases "lf_task t") (auto simp: come_up_def emit_kind_def to_phase_def events_ok_def count_list_0_iff)
next
  case (MainEvent ev)
  assume "events_ok t"
  then show ?thesis using MainEvent by (cases ev) (auto simp: main_loop_def emit_kind_def to_phase_def events_ok_def)
next
  case GoDown
  assume "events_ok t"
  then show ?thesis using GoDown by (cases "lf_task t") (auto simp: go_down_def to_phase_def events_ok_def)
next
  case ReapTask
  assume "events_ok t"
  then show ?thesis using ReapTask by (auto simp: reap_task_def to_phase_def events_ok_def)
next
  case (TeardownStep k)
  assume "events_ok t"
  then show ?thesis
    using TeardownStep
    by (cases "lf_td t k") (simp_all add: teardown_step_def set_td_def teardown_clean_def, auto simp: emit_kind_def events_ok_def)
qed (simp_all add: helpers_frame subscribe_state_def disconnect_def drop_tunnel_def teardown_begin_def set_td_def
    detach_tun_def disable_socks5_server_def)

lemma reported_alive [simp]: "reported (t\<lparr>lf_alive := b\<rparr>) = reported t"
  by (simp add: reported_def)

lemma set_td_sel [simp]:
  "reported (set_td k p t) = reported t" "lf_silent (set_td k p t) = lf_silent t" "lf_aborted (set_td k p t) = lf_aborted t"
  "lf_task (set_td k p t) = lf_task t" "lf_alive (set_td k p t) = lf_alive t" "lf_state (set_td k p t) = lf_state t"
  "lf_td (set_td k p t) j = (if j = k then p else lf_td t j)"
  by (simp_all add: set_td_def reported_def)

lemma ending_td:
  assumes "lf_td t k \<noteq> TdEmit \<or> p = TdEmit \<or> reported t"
  shows "ending t \<Longrightarrow> ending (set_td k p t)"
  using assms by (auto simp: ending_def)

text \<open>A teardown thread that moves on keeps the invariant when what its new phase says holds.\<close>

lemma ends_td:
  assumes "ends_ok t" "lf_td t k \<noteq> TdEmit \<or> reported t" "lf_td t k \<noteq> TdGuard False \<or> lf_alive t \<or> p = TdEmit \<or> ending t"
    "p = TdGuard True \<longrightarrow> ending t" "p \<in> {TdFlag, TdClean} \<longrightarrow> reported t"
  shows "ends_ok (set_td k p t)"
proof -
  have e: "ending t \<Longrightarrow> ending (set_td k p t)" using assms(2) by (intro ending_td) auto
  have g: "ending (set_td k p t) \<or> (\<exists>j. lf_td (set_td k p t) j = TdGuard False)"
    if "lf_td t j = TdGuard False" "\<not> lf_alive t" for j
  proof (cases "j = k")
    case True
    then have "p = TdEmit \<or> ending t" using assms(3) that by auto
    then show ?thesis using e ending_def [of "set_td k p t"] set_td_sel(7) [of k p t k] by metis
  next
    case False
    then have "lf_td (set_td k p t) j = TdGuard False" using that by simp
    then show ?thesis by blast
  qed
  note t = assms(1) [unfolded ends_ok_def]
  show ?thesis
    unfolding ends_ok_def
  proof (intro conjI)
    show "\<not> lf_alive (set_td k p t) \<longrightarrow> ending (set_td k p t) \<or> (\<exists>j. lf_td (set_td k p t) j = TdGuard False)"
    proof (intro impI)
      assume "\<not> lf_alive (set_td k p t)"
      then have "\<not> lf_alive t" by simp
      then show "ending (set_td k p t) \<or> (\<exists>j. lf_td (set_td k p t) j = TdGuard False)" using t e g by meson
    qed
  next
    show "\<forall>j. lf_td (set_td k p t) j = TdGuard True \<longrightarrow> ending (set_td k p t)"
    proof (intro allI impI)
      fix j
      assume "lf_td (set_td k p t) j = TdGuard True"
      then have "ending t" using t assms(4) by (cases "j = k") auto
      then show "ending (set_td k p t)" by (rule e)
    qed
  next
    show "\<forall>j. lf_td (set_td k p t) j \<in> {TdFlag, TdClean} \<longrightarrow> reported (set_td k p t)"
    proof (intro allI impI)
      fix j
      assume "lf_td (set_td k p t) j \<in> {TdFlag, TdClean}"
      then show "reported (set_td k p t)" using t assms(5) by (cases "j = k") auto
    qed
  qed (use t e in simp_all, blast?)
qed

lemma send_ends: "ends_ok t \<Longrightarrow> ending t \<Longrightarrow> ends_ok (state_send v t)"
  by (simp add: state_send_def ends_ok_def ending_def reported_def)

lemma set_td_send: "set_td k p (state_send v t) = state_send v (set_td k p t)"
  by (simp add: set_td_def state_send_def)

lemma begin_ends:
  assumes "ends_ok t" "lf_td t k = TdNone"
  shows "ends_ok (teardown_begin k t)"
  unfolding teardown_begin_def using assms by (intro ends_td) (auto simp: ends_ok_def)

lemma drop_ends:
  assumes "ends_ok t" "lf_td t k = TdNone" "\<forall>j. lf_td t j \<in> {TdNone, TdReturned}"
  shows "ends_ok (teardown_begin k (t\<lparr>lf_alive := False\<rparr>))"
proof -
  let ?t = "teardown_begin k (t\<lparr>lf_alive := False\<rparr>)"
  have n: "lf_td t j \<noteq> TdEmit" "lf_td t j \<noteq> TdGuard b" "lf_td t j \<notin> {TdFlag, TdClean}" for j b
    using assms(3) [rule_format, of j] by auto
  have st: "ending ?t \<longleftrightarrow> reported t \<or> lf_silent t" "ending t \<longleftrightarrow> reported t \<or> lf_silent t"
    using n by (simp_all add: ending_def teardown_begin_def)
  have td: "lf_td ?t j = (if j = k then TdGuard (lf_state t \<in> {StDisconnected, StFailed}) else lf_td t j)" for j
    by (simp add: teardown_begin_def)
  have same: "lf_aborted ?t = lf_aborted t" "lf_task ?t = lf_task t" "lf_state ?t = lf_state t" "\<not> lf_alive ?t" "reported ?t = reported t"
    by (simp_all add: teardown_begin_def)
  have "lf_state t \<notin> {StDisconnected, StFailed} \<Longrightarrow> \<exists>j. lf_td ?t j = TdGuard False" using td [of k] by auto
  then show ?thesis
    using assms(1) n unfolding ends_ok_def same st td by (auto split: if_splits)
qed

lemma ends_step: "ends_ok t \<Longrightarrow> ends_ok (tunnel_step op t)"
proof (cases op)
  case (EngineResult ok)
  assume "ends_ok t"
  then show ?thesis
    using EngineResult
    by (auto simp: engine_result_def emit_kind_def to_phase_def state_send_def ends_ok_def ending_def reported_def)
next
  case (PeerWaitEvent ev)
  assume "ends_ok t"
  then show ?thesis
    using PeerWaitEvent
    by (cases ev) (auto simp: peer_wait_def emit_kind_def to_phase_def state_send_def ends_ok_def ending_def reported_def)
next
  case ComeUp
  assume "ends_ok t"
  then show ?thesis
    using ComeUp
    by (cases "lf_task t") (auto simp: come_up_def emit_kind_def to_phase_def state_send_def ends_ok_def ending_def reported_def)
next
  case (MainEvent ev)
  assume "ends_ok t"
  then show ?thesis
    using MainEvent by (cases ev) (auto simp: main_loop_def emit_kind_def to_phase_def ends_ok_def ending_def reported_def)
next
  case GoDown
  assume "ends_ok t"
  then show ?thesis
    using GoDown by (cases "lf_task t") (auto simp: go_down_def to_phase_def state_send_def ends_ok_def ending_def reported_def)
next
  case ReapTask
  assume "ends_ok t"
  then show ?thesis using ReapTask by (auto simp: reap_task_def to_phase_def ends_ok_def ending_def reported_def)
next
  case (DisconnectCall k)
  assume "ends_ok t"
  then show ?thesis using DisconnectCall begin_ends by (simp add: disconnect_def)
next
  case (DropTunnel k)
  assume "ends_ok t"
  then show ?thesis using DropTunnel drop_ends by (simp add: drop_tunnel_def)
next
  case (TeardownStep k)
  assume t: "ends_ok t"
  show ?thesis
  proof (cases "lf_td t k")
    case (TdGuard already)
    let ?p = "if already then TdReturned else TdEmit"
    have e: "already \<Longrightarrow> ending t" using t TdGuard by (auto simp: ends_ok_def)
    have "ends_ok (set_td k ?p t)" using t TdGuard e by (intro ends_td) auto
    moreover have "ending (set_td k ?p t)"
      using e TdGuard ending_td [of t k ?p] by (cases already) (auto simp: ending_def)
    ultimately show ?thesis
      using TdGuard TeardownStep by (simp add: teardown_step_def set_td_send send_ends)
  next
    case TdEmit
    have "reported (emit_kind Disconnected t)" by (simp add: emit_kind_def reported_def)
    moreover have "ends_ok (emit_kind Disconnected t)"
      using t by (simp add: emit_kind_def ends_ok_def ending_def reported_def)
    ultimately have "ends_ok (set_td k TdFlag (emit_kind Disconnected t))"
      by (intro ends_td) (simp_all add: ending_def)
    then show ?thesis using TdEmit TeardownStep by (simp add: teardown_step_def)
  next
    case TdFlag
    then have "reported t" using t by (auto simp: ends_ok_def)
    then have "ends_ok (set_td k TdClean (t\<lparr>lf_connected := False\<rparr>))"
      using t TdFlag by (intro ends_td) (simp_all add: reported_def)
    then show ?thesis using TdFlag TeardownStep by (simp add: teardown_step_def)
  next
    case TdClean
    then have "reported t" using t by (auto simp: ends_ok_def)
    then have "ends_ok (teardown_clean t)" using t by (simp add: teardown_clean_def ends_ok_def ending_def reported_def)
    then have "ends_ok (set_td k TdReturned (teardown_clean t))"
      using TdClean by (intro ends_td) (simp_all add: teardown_clean_def)
    then show ?thesis using TdClean TeardownStep by (simp add: teardown_step_def)
  qed (use t TeardownStep in \<open>simp_all add: teardown_step_def\<close>)
qed (simp_all add: helpers_frame subscribe_state_def detach_tun_def disable_socks5_server_def)

interpretation tunnel: op_system "\<lambda>t. \<exists>role. t = connect_with_role role" tunnel_step
  "\<lambda>t. consumers_ok t \<and> events_ok t \<and> ends_ok t"
proof unfold_locales
  fix t :: lk_tunnel
  assume "\<exists>role. t = connect_with_role role"
  then show "consumers_ok t \<and> events_ok t \<and> ends_ok t"
    by (auto simp: connect_with_role_def consumers_ok_def events_ok_def ends_ok_def)
qed (simp add: consumers_step events_step ends_step)

lemma tunnel_run_ok: "consumers_ok (tunnel_run role ops) \<and> events_ok (tunnel_run role ops) \<and> ends_ok (tunnel_run role ops)"
  unfolding tunnel_run_def by (rule tunnel.after) (rule tunnel.op_init, blast)

section \<open>Properties\<close>

text \<open>Inbound packets have one consumer. Whatever the order of the calls, the events and the teardown
  steps, a tunnel never holds the NAT of server mode and a TUN bridge at the same time, and only a tunnel
  of the server role runs the NAT or the QUIC acceptor.
\<close>

theorem one_ip_consumer:
  "\<not> (lf_nat (tunnel_run role ops) \<and> lf_tun (tunnel_run role ops))
   \<and> (lf_nat (tunnel_run role ops) \<or> lf_quic_server (tunnel_run role ops) \<longrightarrow> lf_role (tunnel_run role ops) = ServerRole)"
  using tunnel_run_ok [of role ops] by (simp add: consumers_ok_def)

definition server_up :: "tunnel_op list" where
  "server_up = [Watch, EngineResult True, PeerWaitEvent EPeerJoined, ComeUp, ComeUp, ComeUp, StartServer True, AttachTask True]"

lemmas run_eval = tunnel_run_def connect_with_role_def tunnel_defs Let_def server_up_def

theorem one_ip_consumer_witness:
  "lf_nat (tunnel_run ServerRole server_up) \<and> lf_quic_server (tunnel_run ServerRole server_up)
   \<and> \<not> lf_tun (tunnel_run ServerRole server_up) \<and> lf_role (tunnel_run ServerRole server_up) = ServerRole"
proof -
  have "lf_nat (tunnel_run ServerRole server_up)" "lf_quic_server (tunnel_run ServerRole server_up)"
    by (simp_all add: run_eval)
  then show ?thesis using one_ip_consumer [of ServerRole server_up] by blast
qed

text \<open>C15. The end of a tunnel is reported. Once the connect task has ended and no teardown is in progress, the
  event stream holds a \<open>Disconnected\<close> or an \<open>Error\<close>, in every interleaving of the task with disconnects and
  the drop of the last handle, unless the main loop's event stream was closed by the engine without a
  disconnect event (\<open>lf_silent\<close>). In every run, ended or not, \<open>Connected\<close> is reported at most once, and a
  \<open>PeerJoined\<close> comes before it.
\<close>

theorem tunnel_reports_end:
  "(lf_task (tunnel_run role ops) = TaskEnd
    \<and> (\<forall>k. lf_td (tunnel_run role ops) k = TdNone \<or> lf_td (tunnel_run role ops) k = TdReturned)
    \<and> \<not> lf_silent (tunnel_run role ops)
    \<longrightarrow> Disconnected \<in> set (lf_events (tunnel_run role ops)) \<or> Error \<in> set (lf_events (tunnel_run role ops)))
   \<and> count_list (lf_events (tunnel_run role ops)) Connected \<le> 1
   \<and> (\<forall>pre post. lf_events (tunnel_run role ops) = pre @ Connected # post \<longrightarrow> PeerJoined \<in> set pre)"
proof -
  let ?t = "tunnel_run role ops"
  have ok: "events_ok ?t" "ends_ok ?t" using tunnel_run_ok by blast+
  have "reported ?t"
    if "lf_task ?t = TaskEnd" "\<forall>k. lf_td ?t k = TdNone \<or> lf_td ?t k = TdReturned" "\<not> lf_silent ?t"
  proof -
    have td: "lf_td ?t k \<noteq> TdEmit" "lf_td ?t k \<noteq> TdGuard b" for k b
      using that(2) [rule_format, of k] by auto
    have "ending ?t" using ok(2) that(1) td unfolding ends_ok_def by blast
    then show ?thesis using that(3) td by (simp add: ending_def)
  qed
  then show ?thesis using ok(1) peer_firstD unfolding events_ok_def reported_def by metis
qed

definition hang_up :: "tunnel_op list" where
  "hang_up = [Watch, EngineResult True, PeerWaitEvent EPeerJoined, ComeUp, ComeUp, ComeUp,
     DisconnectCall 0, TeardownStep 0, TeardownStep 0, TeardownStep 0, TeardownStep 0, ReapTask]"

theorem tunnel_reports_end_witness:
  "lf_task (tunnel_run ClientRole hang_up) = TaskEnd
   \<and> (Disconnected \<in> set (lf_events (tunnel_run ClientRole hang_up)) \<or> Error \<in> set (lf_events (tunnel_run ClientRole hang_up)))
   \<and> lf_events (tunnel_run ClientRole hang_up) = [PeerJoined] @ Connected # [Disconnected]
   \<and> count_list (lf_events (tunnel_run ClientRole hang_up)) Connected \<le> 1 \<and> PeerJoined \<in> set [PeerJoined]"
proof -
  have e: "lf_task (tunnel_run ClientRole hang_up) = TaskEnd" "\<not> lf_silent (tunnel_run ClientRole hang_up)"
    "lf_events (tunnel_run ClientRole hang_up) = [PeerJoined] @ Connected # [Disconnected]"
    by (simp_all add: run_eval hang_up_def)
  have "\<forall>k. lf_td (tunnel_run ClientRole hang_up) k = TdNone \<or> lf_td (tunnel_run ClientRole hang_up) k = TdReturned"
    by (simp add: run_eval hang_up_def)
  then show ?thesis using tunnel_reports_end [of ClientRole hang_up] e by blast
qed

text \<open>The engine closing its stream without a disconnect event ends the task unreported, until a handle
  disconnects or is dropped.\<close>

lemma silent_end_unreported:
  "let t = tunnel_run ServerRole (server_up @ [MainEvent EStreamEnd, GoDown, GoDown])
   in lf_task t = TaskEnd \<and> lf_silent t \<and> lf_events t = [PeerJoined, Connected]"
  by (simp add: run_eval)

text \<open>What one call of \<open>teardown\<close> does. The first one aborts the connect task, empties every slot, wakes
  every drain waiter, closes the engine once, hands the NAT and the TUN bridge to the reactor's thread and
  reports exactly one \<open>Disconnected\<close>; a call that finds the state terminal changes only the state.
\<close>

theorem teardown_releases:
  assumes "lf_state t \<notin> {StDisconnected, StFailed}"
  shows "lf_events (teardown k t) = lf_events t @ [Disconnected] \<and> lf_aborted (teardown k t)
    \<and> \<not> lf_connected (teardown k t) \<and> \<not> lf_sender (teardown k t) \<and> \<not> lf_engine (teardown k t)
    \<and> \<not> lf_nat (teardown k t) \<and> \<not> lf_tun (teardown k t) \<and> \<not> lf_quic_rx (teardown k t)
    \<and> \<not> lf_quic_client (teardown k t) \<and> \<not> lf_quic_server (teardown k t) \<and> lf_socks (teardown k t) = None
    \<and> lf_waiters (teardown k t) = 0 \<and> lf_closes (teardown k t) = lf_closes t + (if lf_engine t then 1 else 0)
    \<and> lf_posted (teardown k t) = lf_posted t @ (if lf_nat t \<or> lf_tun t then [(lf_nat t, lf_tun t)] else [])
    \<and> (0 < lf_watchers t \<longrightarrow> teardown j (teardown k t) = set_td j TdReturned (teardown k t))"
proof -
  have "teardown k t = set_td k TdReturned (teardown_clean ((emit_kind Disconnected (state_send StDisconnected t))\<lparr>lf_connected := False\<rparr>))"
    using assms by (simp add: teardown_def numeral_eq_Suc teardown_begin_def teardown_step_def set_td_def state_send_def
        emit_kind_def teardown_clean_def)
  moreover have "teardown j u = set_td j TdReturned u" if "lf_state u = StDisconnected" for u
    using that by (simp add: teardown_def numeral_eq_Suc teardown_begin_def teardown_step_def set_td_def state_send_def)
  ultimately show ?thesis by (simp add: set_td_def teardown_clean_def emit_kind_def state_send_def)
qed

theorem teardown_releases_witness:
  "lf_events (teardown 0 (tunnel_run ServerRole server_up)) = [PeerJoined, Connected, Disconnected]
   \<and> lf_posted (teardown 0 (tunnel_run ServerRole server_up)) = [(True, False)]
   \<and> teardown 1 (teardown 0 (tunnel_run ServerRole server_up))
      = set_td 1 TdReturned (teardown 0 (tunnel_run ServerRole server_up))"
proof -
  let ?t = "tunnel_run ServerRole server_up"
  have "lf_state ?t \<notin> {StDisconnected, StFailed}" "lf_events ?t = [PeerJoined, Connected]" "lf_posted ?t = []"
    "lf_nat ?t" "\<not> lf_tun ?t" "0 < lf_watchers ?t"
    by (simp_all add: run_eval)
  with teardown_releases [of ?t 0 1] show ?thesis by simp
qed

section \<open>Gaps\<close>

text \<open>Without a receiver of \<open>state()\<close> the guard's value is not stored, and two disconnects report the end
  twice.\<close>

lemma teardown_not_idempotent:
  "lf_events (teardown 1 (teardown 0 (connect_with_role ClientRole))) = [Disconnected, Disconnected]"
  by (simp add: teardown_def numeral_eq_Suc run_eval)

text \<open>After the peer hung up, the drop finds the state terminal and does not clean up: the NAT is not
  handed to the reactor's thread.\<close>

lemma drop_after_hangup_skips_cleanup:
  "let t = tunnel_run ServerRole (server_up @ [MainEvent EDisconnected, GoDown, GoDown, DropTunnel 0, TeardownStep 0])
   in \<not> lf_alive t \<and> lf_td t 0 = TdReturned \<and> lf_nat t \<and> lf_engine t \<and> lf_posted t = []"
  by (simp add: run_eval)

text \<open>A teardown while the task is about to raise the flag leaves the flag raised for good.\<close>

lemma connected_after_teardown:
  "let t = tunnel_run ClientRole ([Watch, EngineResult True, PeerWaitEvent EPeerJoined, DisconnectCall 0, TeardownStep 0,
      TeardownStep 0, TeardownStep 0, TeardownStep 0, ComeUp, ComeUp, ComeUp, ReapTask])
   in lf_task t = TaskEnd \<and> lf_td t 0 = TdReturned \<and> lf_connected t"
  by (simp add: run_eval)

text \<open>A dialer whose slot the keeper holds retries while the tunnel is connected, and the keeper's error path
  frees a slot it does not own.\<close>

lemma dialer_waits_for_keeper:
  assumes "lf_ensure t = DialTop" "lf_connected t" "lf_quic_rx t"
  shows "ensure_step ok t = t"
  using assms by (simp add: ensure_step_def quic_claim_def)

lemma keeper_frees_foreign_slot:
  assumes "lf_keepers t = [DialTop]" "lf_ensure t = Handshake" "lf_alive t" "lf_connected t" "lf_quic_rx t"
  shows "\<not> lf_quic_rx (keeper_step 0 ok t) \<and> lf_ensure (keeper_step 0 ok t) = Handshake"
  using assms by (simp add: keeper_step_def quic_claim_def)

end
