(* ===== verification/Bale_Auth.thy ===== *)
theory Bale_Auth
  imports Contacts
begin

text \<open>
  Sign-in (\<open>auth.rs\<close>): the three requests of the phone flow, the decoders of their replies, the
  classification of a reply as signed in or as in need of a name, and the exchange of the JWT for the
  \<open>access_token\<close> cookie. The HTTP client is the parameter \<open>http\<close> of the contact requests; the exchange
  at \<open>/set-cookie/\<close> is the parameter \<open>jar\<close>, for a JWT the cookies that the jar holds for the host
  afterwards, or \<open>None\<close> when the request fails. The random device hash is an argument.
\<close>

section \<open>Replies\<close>

record start_result =
  sr_hash :: bytes
  sr_registered :: bool

datatype auth_outcome = Authenticated bytes | NeedsSignupName bytes

datatype auth_error =
  AuthGrpc call_error | AuthProto proto_error | AuthMalformed | NoAccessTokenCookie | AuthHttp

definition start_body :: "u32 \<Rightarrow> u32 \<Rightarrow> start_result \<Rightarrow> (start_result, proto_error + start_result) act" where
  "start_body f w s =
     (if f = 1 then Str (strict (\<lambda>v. Go (s\<lparr>sr_hash := v\<rparr>)))
      else if f = 2 then Varint (strict (\<lambda>v. Go (s\<lparr>sr_registered := (v \<noteq> 0)\<rparr>)))
      else skip_strict w s)"

definition decode_start_phone_auth :: "bytes \<Rightarrow> proto_error + start_result" where
  "decode_start_phone_auth buf =
     field_loop (\<lambda>e s. Inl e) start_body Inr \<lparr>sr_hash = [], sr_registered = False\<rparr> (pr_new buf)"

definition decode_wrapped_string :: "bytes \<Rightarrow> proto_error + bytes" where
  "decode_wrapped_string buf =
     field_loop (\<lambda>e s. Inl e)
       (\<lambda>f w s. if f = 1 then Str (strict Go) else skip_strict w s) Inr [] (pr_new buf)"

definition jwt_body :: "u32 \<Rightarrow> u32 \<Rightarrow> bytes option \<Rightarrow> (bytes option, proto_error + bytes option) act" where
  "jwt_body f w jwt =
     (if f = 2 then Bytes (strict (\<lambda>_. Go jwt))
      else if f = 4 then Bytes (strict (\<lambda>b. strict (\<lambda>s. Go (Some s)) (decode_wrapped_string b)))
      else skip_strict w jwt)"

definition non_empty :: "bytes option \<Rightarrow> bytes option" where
  "non_empty jwt = (case jwt of Some s \<Rightarrow> if s = [] then None else Some s | None \<Rightarrow> None)"

definition decode_auth_response_jwt :: "bytes \<Rightarrow> proto_error + bytes option" where
  "decode_auth_response_jwt buf = field_loop (\<lambda>e s. Inl e) jwt_body (Inr \<circ> non_empty) None (pr_new buf)"

section \<open>Cookies\<close>

text \<open>\<open>str::split\<close> at a byte.\<close>

fun split_at_byte :: "u8 \<Rightarrow> bytes \<Rightarrow> bytes list" where
  "split_at_byte b [] = [[]]"
| "split_at_byte b (c # r) =
     (if c = b then [] # split_at_byte b r
      else case split_at_byte b r of l # ls \<Rightarrow> (c # l) # ls | [] \<Rightarrow> [[c]])"

definition access_token_key :: bytes where "access_token_key = str ''access_token=''"

fun first_token :: "bytes list \<Rightarrow> bytes option" where
  "first_token [] = None"
| "first_token (part # parts) =
     (case strip_prefix access_token_key (str_trim part) of Some v \<Rightarrow> Some v | None \<Rightarrow> first_token parts)"

definition extract_access_token_from_cookie_header :: "bytes \<Rightarrow> bytes option" where
  "extract_access_token_from_cookie_header header = first_token (split_at_byte 59 header)"

text \<open>\<open>HeaderValue::to_str\<close> succeeds on visible ASCII and tabs.\<close>

definition header_to_str :: "bytes \<Rightarrow> bytes option" where
  "header_to_str h = (if list_all (\<lambda>c. 32 \<le> c \<and> c < 127 \<or> c = 9) h then Some h else None)"

section \<open>Requests\<close>

definition AUTH_HOST :: string where "AUTH_HOST = ''next-ws.bale.ai''"
definition AUTH_APP_ID :: "32 word" where "AUTH_APP_ID = 4"
definition AUTH_API_KEY :: bytes where
  "AUTH_API_KEY = str ''C28D46DC4C3A7A26564BFCC48B929086A95C93C98E789A19847BEE8627DE4E7D''"
definition SENDCODE_SMS :: "32 word" where "SENDCODE_SMS = 3"
definition DEFAULT_LANGUAGE :: bytes where "DEFAULT_LANGUAGE = str ''fa''"
definition CLIENT_LABEL :: bytes where "CLIENT_LABEL = str ''Bale Android''"

definition auth_call :: "http_client \<Rightarrow> string \<Rightarrow> bytes \<Rightarrow> call_error + bytes" where
  "auth_call http mth pay = grpc_call http AUTH_HOST ''bale.auth.v1.Auth'' mth pay None"

definition start_payload :: "bytes \<Rightarrow> bytes \<Rightarrow> bytes" where
  "start_payload phone device_hash =
     (let ds = filter digit phone;
          n = (if ds = [] \<or> \<not> digits_value ds < 2 ^ 63 then 0 else word_of_int (digits_value ds))
      in pw_int32 9 SENDCODE_SMS (pw_string 7 DEFAULT_LANGUAGE (pw_string 5 CLIENT_LABEL
           (pw_bytes 4 device_hash (pw_string 3 AUTH_API_KEY (pw_int32 2 AUTH_APP_ID (pw_int64 1 n pw_new)))))))"

definition start_phone_auth :: "http_client \<Rightarrow> bytes \<Rightarrow> bytes \<Rightarrow> auth_error + start_result" where
  "start_phone_auth http device_hash phone =
     (case auth_call http ''StartPhoneAuth'' (start_payload phone device_hash) of
        Inl e \<Rightarrow> Inl (AuthGrpc e)
      | Inr resp \<Rightarrow> map_sum AuthProto id (decode_start_phone_auth resp))"

definition finalize_authenticated :: "(bytes \<Rightarrow> bytes option option) \<Rightarrow> bytes \<Rightarrow> auth_error + auth_outcome" where
  "finalize_authenticated jar jwt =
     (case jar jwt of
        None \<Rightarrow> Inl AuthHttp
      | Some cookies \<Rightarrow>
          (case Option.bind cookies (\<lambda>h. Option.bind (header_to_str h) extract_access_token_from_cookie_header) of
             Some t \<Rightarrow> Inr (Authenticated t)
           | None \<Rightarrow> Inl NoAccessTokenCookie))"

definition unoccupied :: "call_error \<Rightarrow> bool" where
  "unoccupied e =
     (case e of
        BadResponse (GrpcStatus c (Some m)) \<Rightarrow> contains (str ''PHONE_NUMBER_UNOCCUPIED'') m
      | _ \<Rightarrow> False)"

definition submit_otp ::
  "http_client \<Rightarrow> (bytes \<Rightarrow> bytes option option) \<Rightarrow> bytes \<Rightarrow> bytes \<Rightarrow> auth_error + auth_outcome" where
  "submit_otp http jar transaction_hash sms_code =
     (case auth_call http ''ValidateCode''
         (pw_bytes 3 (pw_bool 1 True pw_new) (pw_string 2 sms_code (pw_string 1 transaction_hash pw_new))) of
        Inl e \<Rightarrow> if unoccupied e then Inr (NeedsSignupName transaction_hash) else Inl (AuthGrpc e)
      | Inr buf \<Rightarrow>
          (case decode_auth_response_jwt buf of
             Inl e \<Rightarrow> Inl (AuthProto e)
           | Inr (Some j) \<Rightarrow> finalize_authenticated jar j
           | Inr None \<Rightarrow> Inr (NeedsSignupName transaction_hash)))"

definition submit_signup_name ::
  "http_client \<Rightarrow> (bytes \<Rightarrow> bytes option option) \<Rightarrow> bytes \<Rightarrow> bytes \<Rightarrow> auth_error + auth_outcome" where
  "submit_signup_name http jar transaction_hash name =
     (case auth_call http ''SignUp'' (pw_string 2 name (pw_string 1 transaction_hash pw_new)) of
        Inl e \<Rightarrow> Inl (AuthGrpc e)
      | Inr buf \<Rightarrow>
          (case decode_auth_response_jwt buf of
             Inl e \<Rightarrow> Inl (AuthProto e)
           | Inr (Some j) \<Rightarrow> finalize_authenticated jar j
           | Inr None \<Rightarrow> Inl AuthMalformed))"

section \<open>Reading what was written\<close>

text \<open>A reply as the service writes it: the user blob in field 2, the wrapped JWT in field 4, and fields
  of other numbers.\<close>

datatype reply_part = UserBlob bytes | Jwt bytes | OtherVar u32 u64 | OtherLen u32 bytes

fun part_field :: "reply_part \<Rightarrow> u32 \<times> pval" where
  "part_field (UserBlob b) = (2, PLen b)"
| "part_field (Jwt j) = (4, PLen (write_fields [(1, PLen j)]))"
| "part_field (OtherVar f v) = (f, PVar v)"
| "part_field (OtherLen f b) = (f, PLen b)"

fun part_ok :: "reply_part \<Rightarrow> bool" where
  "part_ok (UserBlob b) = True"
| "part_ok (Jwt j) = utf8_ok j"
| "part_ok (OtherVar f v) = (f \<noteq> 2 \<and> f \<noteq> 4)"
| "part_ok (OtherLen f b) = (f \<noteq> 2 \<and> f \<noteq> 4)"

fun last_jwt :: "bytes option \<Rightarrow> reply_part list \<Rightarrow> bytes option" where
  "last_jwt jwt [] = jwt"
| "last_jwt jwt (Jwt j # ps) = last_jwt (Some j) ps"
| "last_jwt jwt (_ # ps) = last_jwt jwt ps"

lemma wrapped_read:
  "utf8_ok j \<Longrightarrow> length (write_fields [(1, PLen j)]) < 2 ^ 64 \<Longrightarrow> decode_wrapped_string (write_fields [(1, PLen j)]) = Inr j"
  unfolding decode_wrapped_string_def by (rule field_loop_written) simp_all

lemma feed_reply:
  "list_all part_ok ps \<Longrightarrow> (\<And>j. Jwt j \<in> set ps \<Longrightarrow> length (write_fields [(1, PLen j)]) < 2 ^ 64) \<Longrightarrow>
     feed jwt_body (Inr \<circ> non_empty) jwt (map part_field ps) = Some (Inr (non_empty (last_jwt jwt ps)))"
proof (induction jwt ps rule: last_jwt.induct)
  case (2 jwt j ps)
  then show ?case by (simp add: jwt_body_def wrapped_read)
qed (simp_all add: jwt_body_def skip_strict_def)

lemma reply_read:
  assumes "list_all part_ok ps" "length (write_fields (map part_field ps)) < 2 ^ 64"
  shows "decode_auth_response_jwt (write_fields (map part_field ps)) = Inr (non_empty (last_jwt None ps))"
  unfolding decode_auth_response_jwt_def
proof (rule field_loop_written [OF assms(2)], rule feed_reply [OF assms(1)])
  fix j
  assume "Jwt j \<in> set ps"
  then have "(4, PLen (write_fields [(1, PLen j)])) \<in> set (map part_field ps)" by force
  then show "length (write_fields [(1, PLen j)]) < 2 ^ 64" using field_within assms(2) by fastforce
qed

section \<open>Cookie headers\<close>

text \<open>What the jar gives for its cookies: the pairs joined by semicolon and blank.\<close>

definition visible :: "u8 \<Rightarrow> bool" where
  "visible c \<longleftrightarrow> 33 \<le> c \<and> c < 127 \<and> c \<noteq> 59"

definition cookie_ok :: "bytes \<times> bytes \<Rightarrow> bool" where
  "cookie_ok c \<longleftrightarrow> list_all visible (fst c) \<and> list_all visible (snd c) \<and> 61 \<notin> set (fst c)"

definition cookie_pair :: "bytes \<times> bytes \<Rightarrow> bytes" where
  "cookie_pair c = fst c @ 61 # snd c"

fun cookie_header :: "(bytes \<times> bytes) list \<Rightarrow> bytes" where
  "cookie_header [] = []"
| "cookie_header [c] = cookie_pair c"
| "cookie_header (c # cs) = cookie_pair c @ 59 # 32 # cookie_header cs"

lemma pair_visible: "cookie_ok c \<Longrightarrow> list_all visible (cookie_pair c) \<and> cookie_pair c \<noteq> []"
  by (auto simp: cookie_ok_def cookie_pair_def visible_def)

lemma split_part: "list_all visible p \<Longrightarrow> split_at_byte 59 (p @ 59 # r) = p # split_at_byte 59 r"
  by (induction p) (auto simp: visible_def)

lemma split_one: "list_all visible p \<Longrightarrow> split_at_byte 59 p = [p]"
  by (induction p) (auto simp: visible_def)

lemma trim_visible:
  assumes "visible c" "\<forall>p \<in> set ps. p \<noteq> [] \<and> \<not> visible (hd p)"
  shows "trim_with ps (c # s) = c # s"
proof -
  have "leading ps (c # s) = None"
    using assms by (force simp: leading_def find_None_iff neq_Nil_conv)
  then show ?thesis by (subst trim_with.simps) simp
qed

lemma white_not_visible:
  "\<forall>p \<in> set white_space. p \<noteq> [] \<and> \<not> visible (hd p)"
  "\<forall>p \<in> set (map rev white_space). p \<noteq> [] \<and> \<not> visible (hd p)"
  by (simp_all add: white_space_def visible_def)

lemma str_trim_visible:
  assumes "list_all visible s" "s \<noteq> []"
  shows "str_trim s = s" "str_trim (32 # s) = s"
proof -
  obtain c t where s: "s = c # t" using assms(2) by (cases s) auto
  obtain d q where q: "rev s = d # q" using assms(2) by (cases "rev s") auto
  have "visible d" using assms(1) q by (metis in_set_conv_decomp list.set_intros(1) list_all_iff set_rev)
  then have tl: "trim_with (map rev white_space) (rev s) = rev s" using trim_visible [OF _ white_not_visible(2)] q by simp
  have front: "trim_with white_space s = s" using trim_visible [OF _ white_not_visible(1), of c t] assms(1) s by simp
  have "leading white_space (32 # s) = Some [32]" by (simp add: leading_def white_space_def)
  then have "trim_with white_space (32 # s) = trim_with white_space s" by (subst trim_with.simps) simp
  then show "str_trim s = s" "str_trim (32 # s) = s" using tl front by (simp_all add: str_trim_def)
qed

definition token_name :: bytes where "token_name = str ''access_token''"

lemma strip_token:
  assumes "cookie_ok c"
  shows "strip_prefix access_token_key (cookie_pair c) = (if fst c = token_name then Some (snd c) else None)"
proof -
  have k: "access_token_key = token_name @ [61]" "61 \<notin> set token_name"
    by (simp_all add: access_token_key_def token_name_def str_def)
  have iff: "take (length token_name + 1) (n @ 61 # v) = token_name @ [61] \<longleftrightarrow> n = token_name" if "61 \<notin> set n" for n v :: bytes
  proof
    assume a: "take (length token_name + 1) (n @ 61 # v) = token_name @ [61]"
    then have "n @ 61 # v = token_name @ 61 # drop (length token_name + 1) (n @ 61 # v)"
      by (metis append_Cons append_Nil append_assoc append_take_drop_id)
    moreover have "takeWhile (\<lambda>c. c \<noteq> 61) (m @ 61 # w) = m" if "61 \<notin> set m" for m w :: bytes
      using that by (induction m) auto
    ultimately show "n = token_name" using that k(2) by metis
  qed simp
  have "take (length access_token_key) (cookie_pair c) = access_token_key \<longleftrightarrow> fst c = token_name"
    using iff [of "fst c" "snd c"] assms unfolding k(1) cookie_pair_def cookie_ok_def by simp
  then show ?thesis by (cases c) (auto simp: strip_prefix_def cookie_pair_def k(1))
qed

lemma first_token_header:
  "list_all cookie_ok cs \<Longrightarrow> cs \<noteq> [] \<Longrightarrow>
     first_token (split_at_byte 59 (cookie_header cs)) = map_of cs token_name \<and>
     first_token (split_at_byte 59 (32 # cookie_header cs)) = map_of cs token_name"
proof (induction cs rule: cookie_header.induct)
  case (2 c)
  then show ?case
    using pair_visible [of c] strip_token [of c] split_one [of "cookie_pair c"] str_trim_visible [of "cookie_pair c"]
    by (cases c) auto
next
  case (3 c d cs)
  have p: "list_all visible (cookie_pair c)" "cookie_pair c \<noteq> []" using 3(2) pair_visible by auto
  show ?case
    using 3 p strip_token [of c] split_part [OF p(1)] str_trim_visible [OF p]
    by (cases c) auto
qed simp

lemma header_printable:
  "list_all cookie_ok cs \<Longrightarrow> header_to_str (cookie_header cs) = Some (cookie_header cs)"
proof -
  have v: "list_all (\<lambda>c. 32 \<le> c \<and> c < 127 \<or> c = 9) (cookie_pair c)" if "cookie_ok c" for c
    using pair_visible [OF that] by (auto simp: list_all_iff visible_def word_le_nat_alt)
  assume "list_all cookie_ok cs"
  then have "list_all (\<lambda>c. 32 \<le> c \<and> c < 127 \<or> c = 9) (cookie_header cs)"
    by (induction cs rule: cookie_header.induct) (auto simp: v)
  then show ?thesis by (simp add: header_to_str_def)
qed

section \<open>Properties\<close>

text \<open>A jar that holds the cookies \<open>cs jwt\<close> after the exchange of \<open>jwt\<close>.\<close>

definition jar_with :: "(bytes \<Rightarrow> (bytes \<times> bytes) list) \<Rightarrow> bytes \<Rightarrow> bytes option option" where
  "jar_with cs jwt = Some (if cs jwt = [] then None else Some (cookie_header (cs jwt)))"

definition token_or_error :: "(bytes \<times> bytes) list \<Rightarrow> auth_error + auth_outcome" where
  "token_or_error cs =
     (case map_of cs (str ''access_token'') of Some t \<Rightarrow> Inr (Authenticated t) | None \<Rightarrow> Inl NoAccessTokenCookie)"

text \<open>C18. Signing in with a code. Whatever the order of the fields of the reply and whatever fields it has
  besides, a reply with a JWT leads to the exchange of that JWT (the last one, if there are several) and gives exactly
  the value of the \<open>access_token\<close> cookie among all cookies that this exchange left, or an error when there is
  none; a reply without a
  JWT, or with an empty one, asks for a name and keeps the transaction. A sign-up differs in the last
  case only: it is an error.\<close>

theorem sign_in_yields_token:
  assumes "\<And>mth pay. auth_call http mth pay = Inr (write_fields (map part_field ps))"
    and "list_all part_ok ps" "length (write_fields (map part_field ps)) < 2 ^ 64" "\<And>jwt. list_all cookie_ok (cs jwt)"
  shows "submit_otp http (jar_with cs) tx sms =
           (case non_empty (last_jwt None ps) of None \<Rightarrow> Inr (NeedsSignupName tx) | Some jwt \<Rightarrow> token_or_error (cs jwt))
         \<and> submit_signup_name http (jar_with cs) tx name =
           (case non_empty (last_jwt None ps) of None \<Rightarrow> Inl AuthMalformed | Some jwt \<Rightarrow> token_or_error (cs jwt))"
proof -
  have "finalize_authenticated (jar_with cs) j = token_or_error (cs j)" for j
    using first_token_header [OF assms(4)] header_printable [OF assms(4)]
    by (simp add: finalize_authenticated_def jar_with_def token_or_error_def extract_access_token_from_cookie_header_def
        token_name_def split: option.split)
  then show ?thesis
    using reply_read [OF assms(2,3)] assms(1) by (simp add: submit_otp_def submit_signup_name_def split: option.split)
qed

lemma one_frame:
  assumes "length p < 2 ^ 32"
  shows "decode_response (encode_frame p) = Inr p"
proof -
  have d: "drop 0 (encode_frame p) = [0] @ be32_bytes (of_nat (length p)) @ p @ []" by (simp add: encode_frame_def)
  have len: "length (encode_frame p) = 5 + length p" by (simp add: encode_frame_def)
  then show ?thesis
    unfolding decode_response_def using assms
    by (subst decode_frame_at [OF d assms]) (simp_all add: decode_end)
qed

definition sample_reply :: bytes where
  "sample_reply = write_fields (map part_field [OtherVar 9 1, Jwt [65, 66], UserBlob [1, 2]])"

definition sample_http :: http_client where
  "sample_http u ck b = Some (200, [], encode_frame sample_reply)"

lemma sample_call:
  "auth_call sample_http mth pay = Inr (write_fields (map part_field [OtherVar 9 1, Jwt [65, 66], UserBlob [1, 2]]))"
  "length (write_fields (map part_field [OtherVar 9 1, Jwt [65, 66], UserBlob [1, 2]])) < 2 ^ 64"
proof -
  have l: "length sample_reply = 12" by code_simp
  then have "decode_response (encode_frame sample_reply) = Inr sample_reply" by (intro one_frame) simp
  then have "auth_call sample_http mth pay = Inr sample_reply" by (simp add: auth_call_def grpc_call_def sample_http_def)
  then show "auth_call sample_http mth pay = Inr (write_fields (map part_field [OtherVar 9 1, Jwt [65, 66], UserBlob [1, 2]]))"
    "length (write_fields (map part_field [OtherVar 9 1, Jwt [65, 66], UserBlob [1, 2]])) < 2 ^ 64"
    using l by (simp_all only: sample_reply_def) simp
qed

definition sample_jar :: "bytes \<Rightarrow> (bytes \<times> bytes) list" where
  "sample_jar jwt = (if jwt = [65, 66] then [([97], [98]), (str ''access_token'', [116, 61, 107])] else [])"

theorem sign_in_yields_token_witness:
  "submit_otp sample_http (jar_with sample_jar) [7] [8] = Inr (Authenticated [116, 61, 107])"
proof -
  have l: "list_all part_ok [OtherVar 9 1, Jwt [65, 66], UserBlob [1, 2]]"
    "list_all cookie_ok [([97], [98]), (str ''access_token'', [116, 61, 107])]"
    by code_simp+
  then have c: "list_all cookie_ok (sample_jar jwt)" for jwt by (simp add: sample_jar_def)
  have "([97] :: bytes) \<noteq> str ''access_token''" by code_simp
  then show ?thesis
    using sign_in_yields_token [where cs = sample_jar and tx = "[7]" and sms = "[8]", OF sample_call(1) l(1) sample_call(2) c]
    by (simp add: non_empty_def token_or_error_def sample_jar_def)
qed

end
