(* ===== verification/Config_Store.thy ===== *)
theory Config_Store
  imports Server_Daemon Bale_Auth
begin

text \<open>
  The desktop application around the server state: the configuration file and the token store of
  \<open>config.rs\<close>, the HTTP handlers of \<open>ui.rs\<close> that change state, and the construction of the application
  state in \<open>daemon.rs\<close>. The JSON library is a parameter: \<open>js_parse\<close> and \<open>js_print\<close> are \<open>from_str\<close> and
  \<open>to_string_pretty\<close>, \<open>js_blank\<close> says whether a text is white space; texts have any type. The disk holds
  the file and its temporary sibling; every access to it can fail, as the argument of the operation says.
\<close>

section \<open>The configuration file\<close>

record config =
  cf_token :: bytes
  cf_admission :: "peer_id list"
  cf_blacklist :: "peer_id list"
  cf_max_clients :: "32 word"
  cf_mode :: "string option"
  cf_nat_mode :: "string option"
  cf_port :: "16 word"
  cf_peer_id :: "peer_id option"
  cf_socks5_port :: "16 word"

text \<open>The derived \<open>Default\<close>; the values of the \<open>serde\<close> attributes are for keys missing from a file.\<close>

definition config_default :: config where
  "config_default = \<lparr>cf_token = [], cf_admission = [], cf_blacklist = [], cf_max_clients = 0, cf_mode = None,
     cf_nat_mode = None, cf_port = 0, cf_peer_id = None, cf_socks5_port = 0\<rparr>"

record 't json =
  js_parse :: "'t \<Rightarrow> config option"
  js_print :: "config \<Rightarrow> 't option"
  js_blank :: "'t \<Rightarrow> bool"

record 't disk =
  dk_file :: "'t option"
  dk_tmp :: "'t option"

datatype 't fault = NoFault | WriteFails "'t option" | ChmodFails | RenameFails

definition config_load :: "'t json \<Rightarrow> bool \<Rightarrow> 't disk \<Rightarrow> config option" where
  "config_load js read_ok d =
     (case dk_file d of
        None \<Rightarrow> Some config_default
      | Some txt \<Rightarrow>
          if \<not> read_ok then None else if js_blank js txt then Some config_default else js_parse js txt)"

definition config_save :: "'t json \<Rightarrow> 't fault \<Rightarrow> config \<Rightarrow> 't disk \<Rightarrow> bool \<times> 't disk" where
  "config_save js flt c d =
     (case js_print js c of
        None \<Rightarrow> (False, d)
      | Some txt \<Rightarrow>
          (case flt of
             WriteFails left \<Rightarrow> (False, d\<lparr>dk_tmp := left\<rparr>)
           | ChmodFails \<Rightarrow> (False, d\<lparr>dk_tmp := Some txt\<rparr>)
           | RenameFails \<Rightarrow> (False, d\<lparr>dk_tmp := Some txt\<rparr>)
           | NoFault \<Rightarrow> (True, d\<lparr>dk_file := Some txt, dk_tmp := None\<rparr>)))"

definition file_load :: "'t json \<Rightarrow> bool \<Rightarrow> 't disk \<Rightarrow> config" where
  "file_load js read_ok d = (case config_load js read_ok d of Some c \<Rightarrow> c | None \<Rightarrow> config_default)"

definition config_update :: "'t json \<Rightarrow> bool \<times> 't fault \<Rightarrow> (config \<Rightarrow> config) \<Rightarrow> 't disk \<Rightarrow> config option \<times> 't disk" where
  "config_update js io mutate d =
     (let c = mutate (file_load js (fst io) d) in
      case config_save js (snd io) c d of (ok, d) \<Rightarrow> (if ok then Some c else None, d))"

record resolved =
  rs_mode :: "string option"
  rs_nat_mode :: string
  rs_port :: "16 word"
  rs_peer_id :: "peer_id option"
  rs_socks5_port :: "16 word"
  rs_client_tun :: bool
  rs_pinned :: bool

definition merge_cli :: "config \<Rightarrow> string option \<Rightarrow> string option \<Rightarrow> 16 word \<Rightarrow> bool \<Rightarrow> resolved" where
  "merge_cli c cli_mode cli_nat cli_port client_tun =
     \<lparr>rs_mode = (case cli_mode of Some m \<Rightarrow> Some m | None \<Rightarrow> cf_mode c),
      rs_nat_mode = (case cli_nat of Some n \<Rightarrow> n | None \<Rightarrow> (case cf_nat_mode c of Some n \<Rightarrow> n | None \<Rightarrow> ''userspace'')),
      rs_port = cli_port, rs_peer_id = cf_peer_id c, rs_socks5_port = cf_socks5_port c,
      rs_client_tun = client_tun, rs_pinned = (cli_mode \<noteq> None)\<rparr>"

section \<open>Application state\<close>

datatype sig_call = SigConnect | SigDisconnect | SigSignOut

text \<open>\<open>ap_sends\<close> are the publications on \<open>mode_tx\<close> that a handler has decided on and not yet made;
  \<open>ap_version\<close> counts those made, as the version of the \<open>watch\<close> channel does.\<close>

record 't app =
  ap_disk :: "'t disk"
  ap_cache :: "bytes option"
  ap_cfg :: resolved
  ap_server :: server_daemon
  ap_sends :: "string option list"
  ap_version :: nat
  ap_signaling :: "sig_call list"

definition token_of :: "config \<Rightarrow> bytes option" where
  "token_of c = (if cf_token c = [] then None else Some (cf_token c))"

definition run_with_shutdown :: "'t json \<Rightarrow> 't disk \<Rightarrow> resolved \<Rightarrow> 't app" where
  "run_with_shutdown js d cfg =
     (let persisted = file_load js True d in
      \<lparr>ap_disk = d, ap_cache = token_of persisted, ap_cfg = cfg\<lparr>rs_peer_id := None\<rparr>,
       ap_server = with_config (cf_admission persisted) (cf_blacklist persisted) (cf_max_clients persisted),
       ap_sends = [], ap_version = 0, ap_signaling = []\<rparr>)"

definition on_disk :: "'t json \<Rightarrow> bool \<times> 't fault \<Rightarrow> (config \<Rightarrow> config) \<Rightarrow> 't app \<Rightarrow> 't app" where
  "on_disk js io mutate a = a\<lparr>ap_disk := snd (config_update js io mutate (ap_disk a))\<rparr>"

definition signal :: "sig_call \<Rightarrow> 't app \<Rightarrow> 't app" where
  "signal c a = a\<lparr>ap_signaling := ap_signaling a @ [c]\<rparr>"

section \<open>The token store\<close>

text \<open>Tokens are texts of the application, on which \<open>from_utf8_lossy\<close> changes nothing.\<close>

definition token_save :: "'t json \<Rightarrow> bool \<times> 't fault \<Rightarrow> bytes \<Rightarrow> 't app \<Rightarrow> 't app" where
  "token_save js io t a = on_disk js io (\<lambda>c. c\<lparr>cf_token := t\<rparr>) (a\<lparr>ap_cache := Some t\<rparr>)"

definition token_clear :: "'t json \<Rightarrow> bool \<times> 't fault \<Rightarrow> 't app \<Rightarrow> 't app" where
  "token_clear js io a = on_disk js io (\<lambda>c. c\<lparr>cf_token := []\<rparr>) (a\<lparr>ap_cache := None\<rparr>)"

section \<open>Handlers\<close>

record set_config_body =
  sc_mode :: "string option"
  sc_nat_mode :: "string option"
  sc_peer :: "peer_id option"
  sc_socks5 :: "16 word option"

definition set_config_disk :: "set_config_body \<Rightarrow> config \<Rightarrow> config" where
  "set_config_disk b c =
     c\<lparr>cf_mode := (case sc_mode b of Some m \<Rightarrow> Some m | None \<Rightarrow> cf_mode c),
       cf_nat_mode := (case sc_nat_mode b of Some n \<Rightarrow> Some n | None \<Rightarrow> cf_nat_mode c),
       cf_peer_id := (case sc_peer b of Some p \<Rightarrow> Some p | None \<Rightarrow> cf_peer_id c),
       cf_socks5_port := (case sc_socks5 b of Some p \<Rightarrow> p | None \<Rightarrow> cf_socks5_port c)\<rparr>"

definition set_config_mirror :: "set_config_body \<Rightarrow> 't app \<Rightarrow> 't app" where
  "set_config_mirror b a =
     (let cfg = ap_cfg a;
          restart = ((\<exists>m. sc_mode b = Some m \<and> rs_mode cfg \<noteq> Some m) \<or> (\<exists>p. sc_peer b = Some p \<and> rs_peer_id cfg \<noteq> Some p));
          cfg = cfg\<lparr>rs_mode := (case sc_mode b of Some m \<Rightarrow> Some m | None \<Rightarrow> rs_mode cfg),
                    rs_nat_mode := (case sc_nat_mode b of Some n \<Rightarrow> n | None \<Rightarrow> rs_nat_mode cfg),
                    rs_peer_id := (case sc_peer b of Some p \<Rightarrow> Some p | None \<Rightarrow> rs_peer_id cfg),
                    rs_socks5_port := (case sc_socks5 b of Some p \<Rightarrow> p | None \<Rightarrow> rs_socks5_port cfg)\<rparr>
      in a\<lparr>ap_cfg := cfg, ap_sends := (if restart then ap_sends a @ [rs_mode cfg] else ap_sends a)\<rparr>)"

text \<open>An error of the file ends the handler before the live configuration changes.\<close>

definition set_config :: "'t json \<Rightarrow> bool \<times> 't fault \<Rightarrow> set_config_body \<Rightarrow> 't app \<Rightarrow> 't app" where
  "set_config js io b a =
     (case config_update js io (set_config_disk b) (ap_disk a) of
        (None, d) \<Rightarrow> a\<lparr>ap_disk := d\<rparr>
      | (Some _, d) \<Rightarrow> set_config_mirror b (a\<lparr>ap_disk := d\<rparr>))"

definition tunnel_disconnect :: "'t json \<Rightarrow> bool \<times> 't fault \<Rightarrow> 't app \<Rightarrow> 't app" where
  "tunnel_disconnect js io a =
     (case config_update js io (\<lambda>c. c\<lparr>cf_peer_id := None\<rparr>) (ap_disk a) of
        (None, d) \<Rightarrow> a\<lparr>ap_disk := d\<rparr>
      | (Some _, d) \<Rightarrow> a\<lparr>ap_disk := d, ap_cfg := (ap_cfg a)\<lparr>rs_peer_id := None\<rparr>,
                        ap_sends := ap_sends a @ [rs_mode (ap_cfg a)]\<rparr>)"

definition http_connect :: "'t json \<Rightarrow> bool \<times> 't fault \<Rightarrow> bytes option \<Rightarrow> 't app \<Rightarrow> 't app" where
  "http_connect js io pasted a =
     signal SigConnect
       (case pasted of
          None \<Rightarrow> a
        | Some t \<Rightarrow> let t = str_trim t in if t = [] then a else token_save js io t a)"

definition http_disconnect :: "'t app \<Rightarrow> 't app" where
  "http_disconnect a = signal SigDisconnect (a\<lparr>ap_server := clear_all (ap_server a)\<rparr>)"

definition logout :: "'t json \<Rightarrow> bool \<times> 't fault \<Rightarrow> bool \<times> 't fault \<Rightarrow> 't app \<Rightarrow> 't app" where
  "logout js io io' a =
     (let a = token_clear js io (signal SigSignOut a);
          a = (if rs_pinned (ap_cfg a) then a
               else on_disk js io' (\<lambda>c. c\<lparr>cf_mode := None\<rparr>) (a\<lparr>ap_cfg := (ap_cfg a)\<lparr>rs_mode := None\<rparr>\<rparr>))
      in a\<lparr>ap_sends := ap_sends a @ [None]\<rparr>)"

datatype auth_reply = AuthOk | NeedsSignup bytes | AuthFailed

definition persist_outcome :: "'t json \<Rightarrow> bool \<times> 't fault \<Rightarrow> auth_outcome \<Rightarrow> 't app \<Rightarrow> auth_reply \<times> 't app" where
  "persist_outcome js io out a =
     (case out of
        Authenticated t \<Rightarrow> (AuthOk, signal SigConnect (token_save js io t a))
      | NeedsSignupName tx \<Rightarrow> (NeedsSignup tx, a))"

definition auth_verify ::
  "'t json \<Rightarrow> bool \<times> 't fault \<Rightarrow> bool \<Rightarrow> auth_error + auth_outcome \<Rightarrow> 't app \<Rightarrow> auth_reply \<times> 't app" where
  "auth_verify js io registered res a =
     (case res of
        Inl e \<Rightarrow> (AuthFailed, a)
      | Inr (NeedsSignupName tx) \<Rightarrow> if registered then (AuthFailed, a) else persist_outcome js io (NeedsSignupName tx) a
      | Inr out \<Rightarrow> persist_outcome js io out a)"

definition auth_signup ::
  "'t json \<Rightarrow> bool \<times> 't fault \<Rightarrow> auth_error + auth_outcome \<Rightarrow> 't app \<Rightarrow> auth_reply \<times> 't app" where
  "auth_signup js io res a =
     (case res of Inl e \<Rightarrow> (AuthFailed, a) | Inr out \<Rightarrow> persist_outcome js io out a)"

text \<open>The handlers of the lists change the server state, take a snapshot and write it to the file.\<close>

definition on_server :: "(server_daemon \<Rightarrow> server_daemon) \<Rightarrow> 't app \<Rightarrow> 't app" where
  "on_server f a = a\<lparr>ap_server := f (ap_server a)\<rparr>"

definition write_admission :: "'t json \<Rightarrow> bool \<times> 't fault \<Rightarrow> peer_id list \<Rightarrow> 't app \<Rightarrow> 't app" where
  "write_admission js io snapshot a = on_disk js io (\<lambda>c. c\<lparr>cf_admission := snapshot\<rparr>) a"

definition write_blacklist :: "'t json \<Rightarrow> bool \<times> 't fault \<Rightarrow> peer_id list \<Rightarrow> 't app \<Rightarrow> 't app" where
  "write_blacklist js io snapshot a = on_disk js io (\<lambda>c. c\<lparr>cf_blacklist := snapshot\<rparr>) a"

definition persist_admission :: "'t json \<Rightarrow> bool \<times> 't fault \<Rightarrow> 't app \<Rightarrow> 't app" where
  "persist_admission js io a = write_admission js io (sv_admission (ap_server a)) a"

definition persist_blacklist :: "'t json \<Rightarrow> bool \<times> 't fault \<Rightarrow> 't app \<Rightarrow> 't app" where
  "persist_blacklist js io a = write_blacklist js io (sv_blacklist (ap_server a)) a"

definition add_admission :: "'t json \<Rightarrow> bool \<times> 't fault \<Rightarrow> peer_id \<Rightarrow> 't app \<Rightarrow> 't app" where
  "add_admission js io p a = persist_admission js io (on_server (admission_add p) a)"

definition remove_admission :: "'t json \<Rightarrow> bool \<times> 't fault \<Rightarrow> peer_id \<Rightarrow> 't app \<Rightarrow> 't app" where
  "remove_admission js io p a = persist_admission js io (on_server (admission_remove p) a)"

definition add_blacklist :: "'t json \<Rightarrow> bool \<times> 't fault \<Rightarrow> peer_id \<Rightarrow> 't app \<Rightarrow> 't app" where
  "add_blacklist js io p a = persist_blacklist js io (on_server (blacklist_add p) a)"

definition remove_blacklist :: "'t json \<Rightarrow> bool \<times> 't fault \<Rightarrow> peer_id \<Rightarrow> 't app \<Rightarrow> 't app" where
  "remove_blacklist js io p a = persist_blacklist js io (on_server (blacklist_remove p) a)"

definition ui_set_max_clients :: "'t json \<Rightarrow> bool \<times> 't fault \<Rightarrow> 32 word \<Rightarrow> 't app \<Rightarrow> 't app" where
  "ui_set_max_clients js io n a =
     (let a = on_server (set_max_clients n) a in
      on_disk js io (\<lambda>c. c\<lparr>cf_max_clients := sv_max_clients (ap_server a)\<rparr>) a)"

definition accept_pending :: "'t json \<Rightarrow> bool \<times> 't fault \<Rightarrow> peer_id \<Rightarrow> bool \<Rightarrow> 't app \<Rightarrow> 't app" where
  "accept_pending js io p add_to_list a =
     (let a = on_server (pending_resolve p Accept) a in if add_to_list then add_admission js io p a else a)"

definition reject_pending :: "'t json \<Rightarrow> bool \<times> 't fault \<Rightarrow> peer_id \<Rightarrow> 't app \<Rightarrow> 't app" where
  "reject_pending js io p a = add_blacklist js io p (on_server (pending_resolve p Reject) a)"

definition tunnel_client_disconnect :: "peer_id \<Rightarrow> 't app \<Rightarrow> 't app" where
  "tunnel_client_disconnect p a = on_server (remove_client p) a"

section \<open>Runs\<close>

datatype ui_op =
  SetConfig set_config_body | TunnelDisconnect | HttpConnect "bytes option" | HttpDisconnect | Logout
| Verify bool "auth_error + auth_outcome" | Signup "auth_error + auth_outcome"
| AddAdmission peer_id | RemoveAdmission peer_id | AddBlacklist peer_id | RemoveBlacklist peer_id | SetMaxClients "32 word"
| AcceptPending peer_id bool | RejectPending peer_id | KickClient peer_id
| Ask nat peer_id "string option" "64 word" | AskWakes nat bool | SessionEv session_event
| SessionStarts nat nat_outcome "string option" "64 word" | SessionEnds nat

fun ui_step :: "'t json \<Rightarrow> bool \<times> 't fault \<Rightarrow> bool \<times> 't fault \<Rightarrow> ui_op \<Rightarrow> 't app \<Rightarrow> 't app" where
  "ui_step js io io' (SetConfig b) a = set_config js io b a"
| "ui_step js io io' TunnelDisconnect a = tunnel_disconnect js io a"
| "ui_step js io io' (HttpConnect t) a = http_connect js io t a"
| "ui_step js io io' HttpDisconnect a = http_disconnect a"
| "ui_step js io io' Logout a = logout js io io' a"
| "ui_step js io io' (Verify reg res) a = snd (auth_verify js io reg res a)"
| "ui_step js io io' (Signup res) a = snd (auth_signup js io res a)"
| "ui_step js io io' (AddAdmission p) a = add_admission js io p a"
| "ui_step js io io' (RemoveAdmission p) a = remove_admission js io p a"
| "ui_step js io io' (AddBlacklist p) a = add_blacklist js io p a"
| "ui_step js io io' (RemoveBlacklist p) a = remove_blacklist js io p a"
| "ui_step js io io' (SetMaxClients n) a = ui_set_max_clients js io n a"
| "ui_step js io io' (AcceptPending p add) a = accept_pending js io p add a"
| "ui_step js io io' (RejectPending p) a = reject_pending js io p a"
| "ui_step js io io' (KickClient p) a = tunnel_client_disconnect p a"
| "ui_step js io io' (Ask k p name now) a = on_server (admission_decide k p name now) a"
| "ui_step js io io' (AskWakes k timed_out) a = on_server (admission_wake k timed_out) a"
| "ui_step js io io' (SessionEv ev) a = on_server (on_session_event ev) a"
| "ui_step js io io' (SessionStarts n e name now) a = on_server (session_start n e name now) a"
| "ui_step js io io' (SessionEnds n) a = on_server (session_wake n) a"

section \<open>Lists the session code leaves alone\<close>

definition lists_of :: "server_daemon \<Rightarrow> peer_id list \<times> peer_id list \<times> 32 word" where
  "lists_of s = (sv_admission s, sv_blacklist s, sv_max_clients s)"

lemma lists_upd [simp]:
  "lists_of (s\<lparr>sv_pending := x\<rparr>) = lists_of s" "lists_of (s\<lparr>sv_clients := y\<rparr>) = lists_of s"
  "lists_of (s\<lparr>sv_kernel_slots := z\<rparr>) = lists_of s" "lists_of (s\<lparr>sd_deferred := u\<rparr>) = lists_of s"
  "lists_of (s\<lparr>sd_asks := v\<rparr>) = lists_of s" "lists_of (s\<lparr>sd_done := w\<rparr>) = lists_of s"
  "lists_of (s\<lparr>sd_tasks := t\<rparr>) = lists_of s" "lists_of (s\<lparr>sd_next := n\<rparr>) = lists_of s" "lists_of (s\<lparr>sd_disc := d\<rparr>) = lists_of s"
  by (simp_all add: lists_of_def)

lemma lists_slots [simp]:
  "lists_of (release_kernel_slot k s) = lists_of s" "lists_of (snd (alloc_kernel_slot s)) = lists_of s"
  "lists_of (client_closed c s) = lists_of s"
  by (simp_all add: release_kernel_slot_def alloc_kernel_slot_def client_closed_def Let_def split: option.split)

lemma lists_closed [simp]: "lists_of (fold client_closed cs s) = lists_of s"
  by (induction cs arbitrary: s) simp_all

lemma lists_sessions [simp]:
  "lists_of (close_deferred ds s) = lists_of s" "lists_of (pending_resolve p d s) = lists_of s"
  "lists_of (remove_client p s) = lists_of s" "lists_of (clear_all s) = lists_of s"
  "lists_of (pending_park p name k now s) = lists_of s" "lists_of (admission_decide k p name now s) = lists_of s"
  "lists_of (admission_wake k b s) = lists_of s" "lists_of (on_session_event ev s) = lists_of s"
  "lists_of (session_wake n s) = lists_of s"
  by (simp_all add: close_deferred_def pending_resolve_def remove_client_def clear_all_def pending_park_def admission_decide_def
      admission_wake_def set_ask_def session_wake_def set_task_def Let_def split: option.split ask.split deferred.split session_task.split)
    (cases ev; simp add: set_task_def Let_def pending_resolve_def split: option.split)

lemma lists_start [simp]: "lists_of (session_start n e name now s) = lists_of s"
proof -
  have "lists_of (snd (session_nat e s)) = lists_of s"
    by (auto simp: session_nat_def alloc_kernel_slot_def split: option.split prod.split)
  then show ?thesis
    by (auto simp: session_start_def set_task_def install_client_def Let_def split: session_task.split prod.split option.split bool.split)
qed

section \<open>The file follows the state\<close>

definition js_ok :: "'t json \<Rightarrow> bool" where
  "js_ok js \<longleftrightarrow> (\<forall>c. \<exists>txt. js_print js c = Some txt \<and> \<not> js_blank js txt \<and> js_parse js txt = Some c)"

abbreviation good :: "bool \<times> 't fault" where "good \<equiv> (True, NoFault)"

lemma update_good:
  assumes "js_ok js"
  shows "file_load js True (snd (config_update js good f d)) = f (file_load js True d)"
    and "fst (config_update js good f d) = Some (f (file_load js True d))"
proof -
  obtain x where t: "js_print js (f (file_load js True d)) = Some x" "\<not> js_blank js x"
    "js_parse js x = Some (f (file_load js True d))"
    using assms by (auto simp: js_ok_def)
  then show "file_load js True (snd (config_update js good f d)) = f (file_load js True d)"
    "fst (config_update js good f d) = Some (f (file_load js True d))"
    by (simp_all add: config_update_def config_save_def file_load_def config_load_def Let_def)
qed

definition clamp :: "32 word \<Rightarrow> 32 word" where
  "clamp n = max 1 (min n MAX_CLIENTS_LIMIT)"

definition cached :: "bytes option \<Rightarrow> bytes" where
  "cached t = (case t of Some t \<Rightarrow> t | None \<Rightarrow> [])"

definition mirrors :: "config \<Rightarrow> 't app \<Rightarrow> bool" where
  "mirrors c a \<longleftrightarrow>
     lists_of (ap_server a) = (cf_admission c, cf_blacklist c, clamp (cf_max_clients c)) \<and> cached (ap_cache a) = cf_token c"

definition mirrored :: "'t json \<Rightarrow> 't app \<Rightarrow> bool" where
  "mirrored js a \<longleftrightarrow> mirrors (file_load js True (ap_disk a)) a"

lemma clamp_idem [simp]: "clamp (clamp n) = clamp n" "max (min n MAX_CLIENTS_LIMIT) 1 = clamp n"
  by (auto simp: clamp_def MAX_CLIENTS_LIMIT_def max_def min_def)

lemma mirrored_on_disk:
  "js_ok js \<Longrightarrow> mirrored js (on_disk js good f a) = mirrors (f (file_load js True (ap_disk a))) a"
  by (simp add: mirrored_def mirrors_def on_disk_def update_good)

lemma mirrored_upd [simp]:
  "mirrored js (a\<lparr>ap_cfg := x\<rparr>) = mirrored js a" "mirrored js (a\<lparr>ap_sends := y\<rparr>) = mirrored js a"
  "mirrored js (a\<lparr>ap_version := z\<rparr>) = mirrored js a" "mirrored js (signal c a) = mirrored js a"
  by (simp_all add: mirrored_def mirrors_def signal_def)

lemma mirrored_server: "lists_of (f (ap_server a)) = lists_of (ap_server a) \<Longrightarrow> mirrored js (on_server f a) = mirrored js a"
  by (simp add: mirrored_def mirrors_def on_server_def)

lemma list_edits [simp]:
  "sv_blacklist (admission_add p s) = sv_blacklist s" "sv_max_clients (admission_add p s) = sv_max_clients s"
  "sv_blacklist (admission_remove p s) = sv_blacklist s" "sv_max_clients (admission_remove p s) = sv_max_clients s"
  "sv_admission (blacklist_add p s) = sv_admission s" "sv_max_clients (blacklist_add p s) = sv_max_clients s"
  "sv_admission (blacklist_remove p s) = sv_admission s" "sv_max_clients (blacklist_remove p s) = sv_max_clients s"
  by (simp_all add: admission_add_def admission_remove_def blacklist_add_def blacklist_remove_def)

lemma mirrored_token:
  assumes "js_ok js" "mirrored js a"
  shows "mirrored js (token_save js good t a)" "mirrored js (token_clear js good a)"
  using assms(2) unfolding token_save_def token_clear_def mirrored_on_disk [OF assms(1)]
  by (simp_all add: mirrored_def mirrors_def cached_def)

lemma mirrored_persist:
  assumes "js_ok js" "mirrored js a"
  shows "sv_blacklist (f (ap_server a)) = sv_blacklist (ap_server a) \<Longrightarrow> sv_max_clients (f (ap_server a)) = sv_max_clients (ap_server a) \<Longrightarrow>
      mirrored js (persist_admission js good (on_server f a))"
    and "sv_admission (f (ap_server a)) = sv_admission (ap_server a) \<Longrightarrow> sv_max_clients (f (ap_server a)) = sv_max_clients (ap_server a) \<Longrightarrow>
      mirrored js (persist_blacklist js good (on_server f a))"
  using assms(2) unfolding persist_admission_def persist_blacklist_def write_admission_def write_blacklist_def
    mirrored_on_disk [OF assms(1)]
  by (simp_all add: mirrored_def mirrors_def on_server_def lists_of_def)

lemma mirrored_lists:
  assumes "js_ok js" "mirrored js a"
  shows "mirrored js (add_admission js good p a)" "mirrored js (remove_admission js good p a)"
    "mirrored js (add_blacklist js good p a)" "mirrored js (remove_blacklist js good p a)"
    "mirrored js (ui_set_max_clients js good n a)"
proof -
  show "mirrored js (ui_set_max_clients js good n a)"
    using assms(2) unfolding ui_set_max_clients_def Let_def mirrored_on_disk [OF assms(1)]
    by (simp add: mirrored_def mirrors_def on_server_def lists_of_def set_max_clients_def)
qed (simp_all add: add_admission_def remove_admission_def add_blacklist_def remove_blacklist_def mirrored_persist [OF assms])

lemma mirrored_config:
  assumes "js_ok js" "mirrored js a"
  shows "mirrored js (set_config js good b a)" "mirrored js (tunnel_disconnect js good a)"
proof -
  have u: "fst (config_update js good f (ap_disk a)) \<noteq> None" for f using update_good(2) [OF assms(1)] by simp
  have "mirrored js (on_disk js good (set_config_disk b) a)" "mirrored js (on_disk js good (\<lambda>c. c\<lparr>cf_peer_id := None\<rparr>) a)"
    using assms(2) unfolding mirrored_on_disk [OF assms(1)] by (simp_all add: mirrored_def mirrors_def set_config_disk_def)
  then show "mirrored js (set_config js good b a)" "mirrored js (tunnel_disconnect js good a)"
    using u by (auto simp: set_config_def tunnel_disconnect_def set_config_mirror_def on_disk_def Let_def split: prod.split option.split)
qed

lemma mirrored_logout:
  assumes "js_ok js" "mirrored js a"
  shows "mirrored js (logout js good good a)"
proof -
  have t: "mirrored js (token_clear js good (signal SigSignOut a))" using mirrored_token(2) [OF assms(1)] assms(2) by simp
  have "mirrored js (on_disk js good (\<lambda>c. c\<lparr>cf_mode := None\<rparr>) (b\<lparr>ap_cfg := x\<rparr>))" if "mirrored js b" for b x
    using that unfolding mirrored_on_disk [OF assms(1)] by (simp add: mirrored_def mirrors_def)
  then show ?thesis using t by (simp add: logout_def Let_def)
qed

lemma mirrored_step:
  assumes "js_ok js" "mirrored js a"
  shows "mirrored js (ui_step js good good op a)"
proof (cases op)
  case (HttpConnect t)
  then show ?thesis using assms mirrored_token [OF assms] by (cases t) (simp_all add: http_connect_def Let_def)
next
  case HttpDisconnect
  have "mirrored js (on_server clear_all a)" using assms(2) by (simp add: mirrored_server)
  then show ?thesis using HttpDisconnect by (simp add: http_disconnect_def on_server_def)
next
  case (Verify reg res)
  then show ?thesis
    using assms mirrored_token [OF assms] by (auto simp: auth_verify_def persist_outcome_def split: sum.split auth_outcome.split)
next
  case (Signup res)
  then show ?thesis
    using assms mirrored_token [OF assms] by (auto simp: auth_signup_def persist_outcome_def split: sum.split auth_outcome.split)
next
  case (AcceptPending p add)
  have "mirrored js (on_server (pending_resolve p Accept) a)" using assms(2) by (simp add: mirrored_server)
  then show ?thesis using AcceptPending mirrored_lists [OF assms(1)] by (simp add: accept_pending_def Let_def)
next
  case (RejectPending p)
  have "mirrored js (on_server (pending_resolve p Reject) a)" using assms(2) by (simp add: mirrored_server)
  then show ?thesis using RejectPending mirrored_lists [OF assms(1)] by (simp add: reject_pending_def)
qed (use assms in \<open>simp_all add: mirrored_config mirrored_logout mirrored_lists mirrored_server tunnel_client_disconnect_def\<close>)

lemma mirrored_start: "mirrored js (run_with_shutdown js d cfg)"
  by (simp add: mirrored_def mirrors_def run_with_shutdown_def with_config_def lists_of_def clamp_def cached_def token_of_def Let_def)

interpretation ui: op_system "\<lambda>a. \<exists>d cfg. a = run_with_shutdown js d cfg" "ui_step js good good" "\<lambda>a. js_ok js \<longrightarrow> mirrored js a"
  for js :: "'t json"
  by unfold_locales (auto simp: mirrored_start mirrored_step)

section \<open>A file is never torn\<close>

definition loadable :: "'t json \<Rightarrow> 't disk \<Rightarrow> bool" where
  "loadable js d \<longleftrightarrow> config_load js True d \<noteq> None"

lemma update_file: "dk_file (snd (config_update js io f d)) = dk_file d \<or>
    (\<exists>c x. js_print js c = Some x \<and> dk_file (snd (config_update js io f d)) = Some x)"
  by (auto simp: config_update_def config_save_def Let_def split: option.split fault.split)

lemma update_loadable:
  assumes "js_ok js" "loadable js d"
  shows "loadable js (snd (config_update js io f d))"
proof -
  have "js_parse js x = Some c \<and> \<not> js_blank js x" if "js_print js c = Some x" for c x
    using assms(1) that by (auto simp: js_ok_def dest: spec [of _ c])
  then show ?thesis
    using assms(2) update_file [of js io f d] by (auto simp: loadable_def config_load_def)
qed

lemma loadable_on_disk: "js_ok js \<Longrightarrow> loadable js (ap_disk a) \<Longrightarrow> loadable js (ap_disk (on_disk js io f a))"
  by (simp add: on_disk_def update_loadable)

lemma loadable_step:
  assumes "js_ok js" "loadable js (ap_disk a)"
  shows "loadable js (ap_disk (ui_step js io io' op a))"
proof -
  have u: "config_update js io f (ap_disk a) = (r, d) \<Longrightarrow> loadable js d" for f r d
    using update_loadable [OF assms, of io f] by simp
  note l = loadable_on_disk [OF assms(1)]
  show ?thesis
  proof (cases op)
    case (SetConfig b)
    then show ?thesis by (auto simp: set_config_def set_config_mirror_def Let_def u split: prod.split option.split)
  next
    case TunnelDisconnect
    then show ?thesis by (auto simp: tunnel_disconnect_def u split: prod.split option.split)
  next
    case (HttpConnect t)
    then show ?thesis using assms(2) by (auto simp: http_connect_def signal_def token_save_def Let_def intro!: l split: option.split)
  next
    case (Verify reg res)
    then show ?thesis
      using assms(2) by (auto simp: auth_verify_def persist_outcome_def signal_def token_save_def intro!: l split: sum.split auth_outcome.split)
  next
    case (Signup res)
    then show ?thesis
      using assms(2) by (auto simp: auth_signup_def persist_outcome_def signal_def token_save_def intro!: l split: sum.split auth_outcome.split)
  next
    case Logout
    then show ?thesis using assms(2) by (simp add: logout_def Let_def token_clear_def signal_def l)
  qed (use assms(2) in \<open>simp_all add: http_disconnect_def signal_def on_server_def add_admission_def remove_admission_def
      add_blacklist_def remove_blacklist_def persist_admission_def persist_blacklist_def write_admission_def write_blacklist_def
      ui_set_max_clients_def accept_pending_def reject_pending_def tunnel_client_disconnect_def l Let_def\<close>)
qed

interpretation ui_io: op_system "\<lambda>a. \<exists>d cfg. a = run_with_shutdown js d cfg \<and> loadable js d"
  "\<lambda>(io, io', op). ui_step js io io' op" "\<lambda>a. js_ok js \<longrightarrow> loadable js (ap_disk a)"
  for js :: "'t json"
  by unfold_locales (auto simp: loadable_step, simp add: run_with_shutdown_def Let_def)

section \<open>Properties\<close>

text \<open>C17. The configuration file carries the state across restarts. After any sequence of sign-ins, log-outs,
  configuration changes, list edits, decisions and sessions, a daemon started from the file has the
  allow-list, block-list, client limit and token that the running one has, provided the JSON library reads
  back what it wrote and the disk works. And whatever accesses fail on the way, the file is never torn: a
  file that could be read stays readable.\<close>

theorem restart_restores_state:
  assumes "js_ok js"
  shows "(let a = fold (ui_step js good good) ops (run_with_shutdown js d cfg); b = run_with_shutdown js (ap_disk a) cfg' in
      sv_admission (ap_server b) = sv_admission (ap_server a) \<and> sv_blacklist (ap_server b) = sv_blacklist (ap_server a)
      \<and> sv_max_clients (ap_server b) = sv_max_clients (ap_server a) \<and> cached (ap_cache b) = cached (ap_cache a))
    \<and> (loadable js d \<longrightarrow>
        loadable js (ap_disk (fold (\<lambda>(io, io', op). ui_step js io io' op) faulty (run_with_shutdown js d cfg))))"
proof -
  let ?a = "fold (ui_step js good good) ops (run_with_shutdown js d cfg)"
  have "js_ok js \<longrightarrow> mirrored js ?a" by (rule ui.after [OF ui.op_init]) blast
  then have "mirrors (file_load js True (ap_disk ?a)) ?a" using assms by (simp add: mirrored_def)
  moreover have "mirrors (file_load js True (ap_disk ?a)) (run_with_shutdown js (ap_disk ?a) cfg')"
    using mirrored_start [of js "ap_disk ?a" cfg'] by (simp add: mirrored_def run_with_shutdown_def Let_def)
  moreover have "loadable js d \<longrightarrow>
      loadable js (ap_disk (fold (\<lambda>(io, io', op). ui_step js io io' op) faulty (run_with_shutdown js d cfg)))"
    using ui_io.after [OF ui_io.op_init, of "run_with_shutdown js d cfg" js faulty] assms by blast
  ultimately show ?thesis by (simp add: mirrors_def lists_of_def Let_def)
qed

definition plain_json :: "config json" where
  "plain_json = \<lparr>js_parse = Some, js_print = Some, js_blank = (\<lambda>_. False)\<rparr>"

lemma plain_json_ok: "js_ok plain_json"
  by (simp add: js_ok_def plain_json_def)

definition empty_disk :: "'t disk" where
  "empty_disk = \<lparr>dk_file = None, dk_tmp = None\<rparr>"

definition some_cfg :: resolved where
  "some_cfg = merge_cli config_default None None 3001 False"

lemmas app_defs = run_with_shutdown_def plain_json_def empty_disk_def some_cfg_def merge_cli_def config_default_def file_load_def
  config_load_def token_of_def with_config_def add_admission_def persist_admission_def write_admission_def on_disk_def on_server_def
  config_update_def config_save_def admission_add_def admission_remove_def ui_set_max_clients_def set_max_clients_def http_connect_def
  token_save_def signal_def Let_def cached_def

theorem restart_restores_state_witness:
  "let a = fold (ui_step plain_json good good) [AddAdmission ''alice'', AddAdmission ''bob'', RemoveAdmission ''alice'', SetMaxClients 9]
         (run_with_shutdown plain_json empty_disk some_cfg);
       b = run_with_shutdown plain_json (ap_disk a) some_cfg in
     sv_admission (ap_server b) = [''bob''] \<and> sv_max_clients (ap_server b) = 9"
proof -
  let ?ops = "[AddAdmission ''alice'', AddAdmission ''bob'', RemoveAdmission ''alice'', SetMaxClients 9]"
  have "sv_admission (ap_server (fold (ui_step plain_json good good) ?ops (run_with_shutdown plain_json empty_disk some_cfg))) = [''bob'']"
    "sv_max_clients (ap_server (fold (ui_step plain_json good good) ?ops (run_with_shutdown plain_json empty_disk some_cfg))) = 9"
    by (simp_all add: app_defs remove_admission_def MAX_CLIENTS_LIMIT_def)
  then show ?thesis
    using restart_restores_state [OF plain_json_ok, of ?ops empty_disk some_cfg some_cfg "[]"] by (simp add: Let_def)
qed

section \<open>Gaps\<close>

text \<open>A first start without a file allows one client and picks no SOCKS5 port, not the documented 5 and
  1080: the derived default has zeros.\<close>

lemma fresh_install_defaults:
  "sv_max_clients (ap_server (run_with_shutdown plain_json empty_disk some_cfg)) = 1" "rs_socks5_port some_cfg = 0"
  by (simp_all add: app_defs MAX_CLIENTS_LIMIT_def)

text \<open>Two handlers that run concurrently: the older snapshot, written last, takes the newer peer out of the
  file.\<close>

lemma stale_snapshot:
  "let a = on_server (admission_add ''alice'') (run_with_shutdown plain_json empty_disk some_cfg);
       snapshot = sv_admission (ap_server a);
       a = write_admission plain_json good snapshot (add_admission plain_json good ''bob'' a)
   in sv_admission (ap_server a) = [''alice'', ''bob''] \<and> cf_admission (file_load plain_json True (ap_disk a)) = [''alice'']"
  by (simp add: app_defs)

text \<open>An update whose read fails starts from the default and writes it: the token is gone.\<close>

lemma read_error_wipes:
  "let a = http_connect plain_json good (Some [116]) (run_with_shutdown plain_json empty_disk some_cfg);
       a = add_admission plain_json (False, NoFault) ''bob'' a
   in cf_token (file_load plain_json True (ap_disk a)) = []"
proof -
  have "str_trim [116] = [116]" by (rule str_trim_visible) (simp_all add: visible_def)
  then show ?thesis by (simp add: app_defs)
qed

end
