(* ===== verification/Mode_Loop.thy ===== *)
theory Mode_Loop
  imports Config_Store
begin

text \<open>
  The mode loop of the daemon (\<open>run_mode\<close> in \<open>daemon.rs\<close>) beside the HTTP handlers and the incoming calls:
  it waits for a token, brings the channel up, reads the chosen mode, runs it, and starts over when a
  handler publishes a change on \<open>mode_tx\<close>. The loop keeps the last version of the \<open>watch\<close> channel that it
  has seen; \<open>changed()\<close> returns when there is a newer one. An incoming call copies the installed handler
  and then asks it, as \<open>on_incoming_call\<close> does; the handler is the one of server mode's manager or the
  one \<open>teardown_mode\<close> leaves behind. What the signaling and the modes return is an input; the steps are the
  stretches between awaits and, for the handler and the tear-down, between accesses to shared state.
\<close>

section \<open>The loop\<close>

text \<open>The order of \<open>teardown_mode\<close>: the client's tunnel, the server's clients and parked calls, the handler.\<close>

datatype teardown_stage = ClearClient | ClearServer | SetNoop

text \<open>\<open>ServerCheck\<close> is \<open>run_server\<close> before it makes the manager, \<open>ServerUp\<close> between the manager's constructor and
  \<open>set_admission\<close>.\<close>

datatype mode_phase =
  LoopTop | WsConnect | WsPoll | AwaitMode | Entering string | ServerCheck | ServerUp nat | RunningMode string "peer_id option"
| ModeFailed string | Teardown string teardown_stage

text \<open>The handler in the signaling's slot; a manager's handler is known by the manager, whose decider
  is set or not.\<close>

datatype incoming_handler = NoHandler | NoopHandler | InternalHandler nat

record 't desktop =
  dt_app :: "'t app"
  dt_loop :: mode_phase
  dt_seen :: nat
  dt_client :: "(nat \<times> 16 word) option"
  dt_handler :: incoming_handler
  dt_managers :: nat
  dt_admission :: "nat \<Rightarrow> bool"
  dt_held :: "nat \<Rightarrow> incoming_handler option"

definition known_mode :: "string \<Rightarrow> bool" where
  "known_mode m \<longleftrightarrow> m = ''client'' \<or> m = ''server''"

definition desktop_start :: "'t json \<Rightarrow> 't disk \<Rightarrow> resolved \<Rightarrow> 't desktop" where
  "desktop_start js d cfg = \<lparr>dt_app = run_with_shutdown js d cfg, dt_loop = LoopTop, dt_seen = 0, dt_client = None,
     dt_handler = NoHandler, dt_managers = 0, dt_admission = (\<lambda>_. False), dt_held = (\<lambda>_. None)\<rparr>"

definition teardown_mode :: "'t desktop \<Rightarrow> 't desktop" where
  "teardown_mode t =
     (case dt_loop t of
        Teardown m ClearClient \<Rightarrow> t\<lparr>dt_client := None, dt_loop := Teardown m ClearServer\<rparr>
      | Teardown m ClearServer \<Rightarrow> t\<lparr>dt_app := on_server clear_all (dt_app t), dt_loop := Teardown m SetNoop\<rparr>
      | Teardown m SetNoop \<Rightarrow> t\<lparr>dt_handler := NoopHandler, dt_loop := LoopTop\<rparr>
      | _ \<Rightarrow> t)"

definition await_auth :: "bool \<Rightarrow> 't desktop \<Rightarrow> 't desktop" where
  "await_auth authenticated t = (if dt_loop t = LoopTop \<and> authenticated then t\<lparr>dt_loop := WsConnect\<rparr> else t)"

definition ws_connect :: "bool \<Rightarrow> 't desktop \<Rightarrow> 't desktop" where
  "ws_connect ok t =
     (if dt_loop t \<noteq> WsConnect then t
      else t\<lparr>dt_app := signal SigConnect (dt_app t), dt_loop := (if ok then WsPoll else LoopTop)\<rparr>)"

definition pick_mode :: "'t desktop \<Rightarrow> 't desktop" where
  "pick_mode t =
     (if dt_loop t \<noteq> WsPoll then t
      else case rs_mode (ap_cfg (dt_app t)) of
        Some m \<Rightarrow> if known_mode m then t\<lparr>dt_loop := Entering m\<rparr> else t\<lparr>dt_loop := AwaitMode\<rparr>
      | None \<Rightarrow> t\<lparr>dt_loop := AwaitMode\<rparr>)"

definition run_one_mode :: "'t desktop \<Rightarrow> 't desktop" where
  "run_one_mode t =
     (case dt_loop t of
        Entering m \<Rightarrow>
          if m = ''client'' then t\<lparr>dt_loop := RunningMode m (rs_peer_id (ap_cfg (dt_app t)))\<rparr>
          else t\<lparr>dt_loop := ServerCheck\<rparr>
      | _ \<Rightarrow> t)"

text \<open>\<open>run_server\<close>: the check of the NAT mode, the manager with its handler, the decider; then it is parked for
  good.\<close>

definition run_server :: "bool \<Rightarrow> 't desktop \<Rightarrow> 't desktop" where
  "run_server nat_ok t =
     (case dt_loop t of
        ServerCheck \<Rightarrow>
          if \<not> nat_ok then t\<lparr>dt_loop := ModeFailed ''server''\<rparr>
          else t\<lparr>dt_handler := InternalHandler (dt_managers t), dt_managers := Suc (dt_managers t), dt_loop := ServerUp (dt_managers t)\<rparr>
      | ServerUp g \<Rightarrow> t\<lparr>dt_admission := (dt_admission t)(g := True), dt_loop := RunningMode ''server'' None\<rparr>
      | _ \<Rightarrow> t)"

definition set_tunnel :: "nat \<Rightarrow> 16 word \<Rightarrow> 't desktop \<Rightarrow> 't desktop" where
  "set_tunnel tunnel port t =
     (case dt_loop t of
        RunningMode m (Some p) \<Rightarrow> if m = ''client'' then t\<lparr>dt_client := Some (tunnel, port)\<rparr> else t
      | _ \<Rightarrow> t)"

text \<open>Client mode returns; without a peer it is parked for good.\<close>

definition mode_ends :: "bool \<Rightarrow> 't desktop \<Rightarrow> 't desktop" where
  "mode_ends ok t =
     (case dt_loop t of
        RunningMode m (Some p) \<Rightarrow>
          if m \<noteq> ''client'' then t
          else if ok then t\<lparr>dt_client := None, dt_loop := Teardown m ClearClient\<rparr>
          else if dt_client t = None then t\<lparr>dt_loop := ModeFailed m\<rparr> else t
      | _ \<Rightarrow> t)"

definition clear_peer :: "'t desktop \<Rightarrow> 't desktop" where
  "clear_peer t =
     (case dt_loop t of
        ModeFailed m \<Rightarrow>
          (if m = ''client'' then t\<lparr>dt_app := (dt_app t)\<lparr>ap_cfg := (ap_cfg (dt_app t))\<lparr>rs_peer_id := None\<rparr>\<rparr>\<rparr> else t)
          \<lparr>dt_loop := Teardown m ClearClient\<rparr>
      | _ \<Rightarrow> t)"

text \<open>\<open>changed()\<close> returns: in the wait for a mode, or in the \<open>select!\<close> beside the mode, which is then dropped
  at its await.\<close>

definition mode_changed :: "'t desktop \<Rightarrow> 't desktop" where
  "mode_changed t =
     (if \<not> dt_seen t < ap_version (dt_app t) then t
      else let t' = t\<lparr>dt_seen := ap_version (dt_app t)\<rparr> in
       case dt_loop t of
        AwaitMode \<Rightarrow> t'\<lparr>dt_loop := LoopTop\<rparr>
      | Entering m \<Rightarrow> t'\<lparr>dt_loop := Teardown m ClearClient\<rparr>
      | ServerCheck \<Rightarrow> t'\<lparr>dt_loop := Teardown ''server'' ClearClient\<rparr>
      | RunningMode m p \<Rightarrow> t'\<lparr>dt_loop := Teardown m ClearClient\<rparr>
      | _ \<Rightarrow> t)"

section \<open>Incoming calls\<close>

text \<open>\<open>on_incoming_call\<close> copies the handler out of its slot, then asks it without the lock.\<close>

definition call_arrives :: "nat \<Rightarrow> 't desktop \<Rightarrow> 't desktop" where
  "call_arrives k t = (if dt_held t k = None then t\<lparr>dt_held := (dt_held t)(k \<mapsto> dt_handler t)\<rparr> else t)"

definition decide :: "nat \<Rightarrow> peer_id \<Rightarrow> string option \<Rightarrow> 64 word \<Rightarrow> 't desktop \<Rightarrow> 't desktop" where
  "decide k p name now t =
     (if sd_asks (ap_server (dt_app t)) k \<noteq> NotAsked then t
      else case dt_held t k of
        Some NoopHandler \<Rightarrow> t\<lparr>dt_app := on_server (set_ask k (Answered SilentlyIgnore)) (dt_app t)\<rparr>
      | Some (InternalHandler g) \<Rightarrow>
          t\<lparr>dt_app := on_server (if dt_admission t g then admission_decide k p name now
                                 else set_ask k (Answered SilentlyIgnore)) (dt_app t)\<rparr>
      | _ \<Rightarrow> t)"

text \<open>A handler makes the publication it decided on.\<close>

definition publish :: "'t desktop \<Rightarrow> 't desktop" where
  "publish t =
     (case ap_sends (dt_app t) of
        [] \<Rightarrow> t
      | v # vs \<Rightarrow> t\<lparr>dt_app := (dt_app t)\<lparr>ap_sends := vs, ap_version := Suc (ap_version (dt_app t))\<rparr>\<rparr>)"

datatype 't desktop_op =
  Http "bool \<times> 't fault" "bool \<times> 't fault" ui_op | Publish | AwaitAuth bool | WsConnected bool | PickMode | RunOneMode
| RunServer bool | SetTunnel nat "16 word" | ModeEnds bool | ClearPeer | ModeChanged | TeardownMode
| CallArrives nat | Decide nat peer_id "string option" "64 word" | CallCancelled nat

text \<open>The decider is asked through the handlers only.\<close>

fun asks_directly :: "ui_op \<Rightarrow> bool" where
  "asks_directly (Ask k p name now) = True"
| "asks_directly _ = False"

fun desktop_step :: "'t json \<Rightarrow> 't desktop_op \<Rightarrow> 't desktop \<Rightarrow> 't desktop" where
  "desktop_step js (Http io io' op) t = (if asks_directly op then t else t\<lparr>dt_app := ui_step js io io' op (dt_app t)\<rparr>)"
| "desktop_step js Publish t = publish t"
| "desktop_step js (AwaitAuth b) t = await_auth b t"
| "desktop_step js (WsConnected ok) t = ws_connect ok t"
| "desktop_step js PickMode t = pick_mode t"
| "desktop_step js RunOneMode t = run_one_mode t"
| "desktop_step js (RunServer ok) t = run_server ok t"
| "desktop_step js (SetTunnel n port) t = set_tunnel n port t"
| "desktop_step js (ModeEnds ok) t = mode_ends ok t"
| "desktop_step js ClearPeer t = clear_peer t"
| "desktop_step js ModeChanged t = mode_changed t"
| "desktop_step js TeardownMode t = teardown_mode t"
| "desktop_step js (CallArrives k) t = call_arrives k t"
| "desktop_step js (Decide k p name now) t = decide k p name now t"
| "desktop_step js (CallCancelled k) t = t\<lparr>dt_app := on_server (admission_drop k) (dt_app t)\<rparr>"

definition desktop_run :: "'t json \<Rightarrow> 't disk \<Rightarrow> resolved \<Rightarrow> 't desktop_op list \<Rightarrow> 't desktop" where
  "desktop_run js d cfg ops = fold (desktop_step js) ops (desktop_start js d cfg)"

section \<open>Invariant\<close>

definition choice :: "'t app \<Rightarrow> string option \<times> peer_id option" where
  "choice a = (rs_mode (ap_cfg a), rs_peer_id (ap_cfg a))"

text \<open>What the loop runs is what the configuration says.\<close>

definition follows :: "string option \<times> peer_id option \<Rightarrow> mode_phase \<Rightarrow> bool" where
  "follows c p =
     (case p of
        AwaitMode \<Rightarrow> (case fst c of Some m \<Rightarrow> \<not> known_mode m | None \<Rightarrow> True)
      | Entering m \<Rightarrow> fst c = Some m
      | ServerCheck \<Rightarrow> fst c = Some ''server'' | ServerUp g \<Rightarrow> fst c = Some ''server''
      | RunningMode m q \<Rightarrow> fst c = Some m \<and> (m = ''client'' \<longrightarrow> snd c = q)
      | _ \<Rightarrow> True)"

definition lag :: "'t desktop \<Rightarrow> bool" where
  "lag t \<longleftrightarrow> dt_seen t < ap_version (dt_app t) \<or> ap_sends (dt_app t) \<noteq> []"

text \<open>From the constructor of the manager to the end of the tear-down of server mode.\<close>

definition serving :: "mode_phase \<Rightarrow> bool" where
  "serving p \<longleftrightarrow> (\<exists>g. p = ServerUp g) \<or> p = RunningMode ''server'' None \<or> (\<exists>st. p = Teardown ''server'' st)"

definition calling :: "mode_phase \<Rightarrow> bool" where
  "calling p \<longleftrightarrow> (\<exists>q. p = RunningMode ''client'' (Some q)) \<or> p = Teardown ''client'' ClearClient"

definition loop_inv :: "'t desktop \<Rightarrow> bool" where
  "loop_inv t \<longleftrightarrow> (follows (choice (dt_app t)) (dt_loop t) \<or> lag t)
     \<and> (\<forall>g. dt_handler t = InternalHandler g \<longrightarrow> serving (dt_loop t))
     \<and> (dt_client t \<noteq> None \<longrightarrow> calling (dt_loop t))
     \<and> (\<forall>m. dt_loop t = Entering m \<longrightarrow> known_mode m)
     \<and> (\<forall>m p. dt_loop t = RunningMode m p \<longrightarrow> m = ''client'' \<or> m = ''server'' \<and> p = None)
     \<and> dt_seen t \<le> ap_version (dt_app t)"

definition steers :: "'t app \<Rightarrow> (string option \<times> peer_id option) \<times> nat \<times> string option list" where
  "steers a = (choice a, ap_version a, ap_sends a)"

lemma steers_upd [simp]:
  "steers (a\<lparr>ap_disk := x\<rparr>) = steers a" "steers (a\<lparr>ap_cache := y\<rparr>) = steers a" "steers (a\<lparr>ap_server := z\<rparr>) = steers a"
  "steers (signal c a) = steers a" "steers (on_disk js io f a) = steers a" "steers (on_server g a) = steers a"
  by (simp_all add: steers_def choice_def signal_def on_disk_def on_server_def)

text \<open>A handler that changes the choice has a publication to make.\<close>

lemma ui_steers:
  "steers (ui_step js io io' op a) = steers a
   \<or> (ap_version (ui_step js io io' op a) = ap_version a \<and> ap_sends (ui_step js io io' op a) \<noteq> [])"
proof (cases op)
  case (SetConfig b)
  have "steers (set_config_mirror b c) = steers c \<or> (ap_version (set_config_mirror b c) = ap_version c \<and> ap_sends (set_config_mirror b c) \<noteq> [])" for c :: "'a app"
    by (auto simp: set_config_mirror_def steers_def choice_def Let_def split: option.split)
  then show ?thesis
    using SetConfig by (auto simp: set_config_def split: prod.split option.split) (metis app.select_convs(6) app.surjective app.update_convs(1) steers_upd(1))+
next
  case TunnelDisconnect
  then show ?thesis by (auto simp: tunnel_disconnect_def split: prod.split option.split)
next
  case Logout
  then show ?thesis by (simp add: logout_def Let_def token_clear_def on_disk_def signal_def)
qed (simp_all add: http_connect_def http_disconnect_def auth_verify_def auth_signup_def persist_outcome_def token_save_def add_admission_def
    remove_admission_def add_blacklist_def remove_blacklist_def persist_admission_def persist_blacklist_def write_admission_def
    write_blacklist_def ui_set_max_clients_def accept_pending_def reject_pending_def tunnel_client_disconnect_def Let_def
    split: option.split sum.split auth_outcome.split)

lemma lag_app:
  "steers a = steers (dt_app t) \<Longrightarrow> lag (t\<lparr>dt_app := a\<rparr>) = lag t"
  "steers a = steers (dt_app t) \<Longrightarrow> choice a = choice (dt_app t)"
  by (simp_all add: lag_def steers_def)

lemma http_inv: "loop_inv t \<Longrightarrow> loop_inv (t\<lparr>dt_app := ui_step js io io' op (dt_app t)\<rparr>)"
  using ui_steers [of js io io' op "dt_app t"] lag_app [of "ui_step js io io' op (dt_app t)" t]
  by (auto simp: loop_inv_def lag_def steers_def)

lemmas loop_defs = loop_inv_def follows_def lag_def serving_def calling_def choice_def known_mode_def

lemma server_inv: "loop_inv t \<Longrightarrow> loop_inv (t\<lparr>dt_app := on_server f (dt_app t)\<rparr>)"
  using lag_app [of "on_server f (dt_app t)" t] by (simp add: loop_inv_def on_server_def)

lemma mode_ends_client:
  assumes "dt_loop t = RunningMode ''client'' (Some p)"
  shows "mode_ends True t = t\<lparr>dt_client := None, dt_loop := Teardown ''client'' ClearClient\<rparr>"
    and "mode_ends False t = (if dt_client t = None then t\<lparr>dt_loop := ModeFailed ''client''\<rparr> else t)"
  using assms by (simp_all add: mode_ends_def)

lemma mode_ends_other:
  assumes "\<forall>p. dt_loop t \<noteq> RunningMode ''client'' (Some p)"
  shows "mode_ends ok t = t"
proof (cases "dt_loop t")
  case (RunningMode m q)
  then show ?thesis using assms by (cases q) (simp_all add: mode_ends_def)
qed (simp_all add: mode_ends_def)

lemma mode_ends_inv: "loop_inv t \<Longrightarrow> loop_inv (mode_ends ok t)"
proof (cases "\<exists>p. dt_loop t = RunningMode ''client'' (Some p)")
  case True
  assume i: "loop_inv t"
  from True obtain p where p: "dt_loop t = RunningMode ''client'' (Some p)" by blast
  have "loop_inv (t\<lparr>dt_client := None, dt_loop := Teardown ''client'' ClearClient\<rparr>)"
    using i p by (auto simp: loop_inv_def serving_def follows_def)
  moreover have "loop_inv (t\<lparr>dt_loop := ModeFailed ''client''\<rparr>)" if "dt_client t = None"
    using i p that by (auto simp: loop_inv_def serving_def follows_def)
  ultimately show ?thesis using i by (cases ok) (simp_all add: mode_ends_client [OF p])
qed (simp add: mode_ends_other)

lemma teardown_inv: "loop_inv t \<Longrightarrow> loop_inv (teardown_mode t)"
proof (cases "dt_loop t")
  case (Teardown m st)
  assume "loop_inv t"
  then show ?thesis
    using Teardown by (cases st) (auto simp: teardown_mode_def loop_inv_def follows_def serving_def calling_def on_server_def)
qed (simp_all add: teardown_mode_def)

lemma loop_step: "loop_inv t \<Longrightarrow> loop_inv (desktop_step js op t)"
proof (cases op)
  case Publish
  assume "loop_inv t"
  then show ?thesis using Publish by (auto simp: publish_def loop_inv_def lag_def choice_def split: list.split)
next
  case (WsConnected ok)
  assume "loop_inv t"
  then show ?thesis using WsConnected by (auto simp: ws_connect_def loop_defs signal_def)
next
  case PickMode
  assume "loop_inv t"
  then show ?thesis using PickMode by (auto simp: pick_mode_def loop_defs split: option.split)
next
  case RunOneMode
  assume "loop_inv t"
  then show ?thesis using RunOneMode by (cases "dt_loop t") (auto simp: run_one_mode_def loop_defs)
next
  case (RunServer ok)
  assume "loop_inv t"
  then show ?thesis using RunServer by (cases "dt_loop t") (auto simp: run_server_def loop_defs)
next
  case (SetTunnel n port)
  assume i: "loop_inv t"
  have "set_tunnel n port t = t \<or>
      (\<exists>p. dt_loop t = RunningMode ''client'' (Some p)) \<and> set_tunnel n port t = t\<lparr>dt_client := Some (n, port)\<rparr>"
    by (cases "dt_loop t") (simp_all add: set_tunnel_def split: option.split)
  then show ?thesis using SetTunnel i by (auto simp: loop_inv_def calling_def lag_def)
next
  case (ModeEnds ok)
  assume "loop_inv t"
  then show ?thesis using ModeEnds mode_ends_inv by simp
next
  case ClearPeer
  assume "loop_inv t"
  then show ?thesis using ClearPeer by (cases "dt_loop t") (auto simp: clear_peer_def loop_defs)
next
  case ModeChanged
  assume "loop_inv t"
  then show ?thesis using ModeChanged by (cases "dt_loop t") (auto simp: mode_changed_def Let_def loop_defs)
next
  case (AwaitAuth b)
  assume "loop_inv t"
  then show ?thesis using AwaitAuth by (auto simp: await_auth_def loop_defs)
next
  case TeardownMode
  assume "loop_inv t"
  then show ?thesis using TeardownMode teardown_inv by simp
next
  case (CallArrives k)
  assume "loop_inv t"
  then show ?thesis using CallArrives by (simp add: call_arrives_def loop_inv_def lag_def)
next
  case (Decide k p name now)
  assume "loop_inv t"
  then show ?thesis
    using Decide by (auto simp: decide_def server_inv split: option.split incoming_handler.split)
qed (simp_all add: http_inv server_inv)

interpretation desktop: op_system "\<lambda>t. \<exists>d cfg. t = desktop_start js d cfg" "desktop_step js" loop_inv for js :: "'t json"
  by unfold_locales (auto simp: loop_step, simp add: desktop_start_def loop_inv_def follows_def)

section \<open>Calls that met no decider\<close>

lemma asks_slots [simp]:
  "sd_asks (release_kernel_slot n s) = sd_asks s" "sd_asks (snd (alloc_kernel_slot s)) = sd_asks s"
  "sd_asks (client_closed c s) = sd_asks s" "sd_asks (pending_resolve p d s) = sd_asks s" "sd_asks (close_deferred ds s) = sd_asks s"
  "sd_asks (remove_client p s) = sd_asks s" "sd_asks (on_session_event ev s) = sd_asks s"
  by (simp_all add: release_kernel_slot_def alloc_kernel_slot_def client_closed_def pending_resolve_def close_deferred_def
      remove_client_def set_task_def Let_def split: option.split)
    (cases ev; simp add: set_task_def Let_def pending_resolve_def split: option.split)

lemma asks_closed [simp]: "sd_asks (fold client_closed cs s) = sd_asks s"
  by (induction cs arbitrary: s) simp_all

lemma asks_sessions [simp]:
  "sd_asks (snd (session_nat e s)) = sd_asks s" "sd_asks (session_start n e name now s) = sd_asks s"
  "sd_asks (session_wake n s) = sd_asks s" "sd_asks (clear_all s) = sd_asks s"
  "sd_asks (admission_add p s) = sd_asks s" "sd_asks (admission_remove p s) = sd_asks s"
  "sd_asks (blacklist_add p s) = sd_asks s" "sd_asks (blacklist_remove p s) = sd_asks s"
  "sd_asks (set_max_clients m s) = sd_asks s"
proof -
  show *: "sd_asks (snd (session_nat e s)) = sd_asks s"
    by (auto simp: session_nat_def alloc_kernel_slot_def split: option.split prod.split)
  show "sd_asks (session_start n e name now s) = sd_asks s"
    using * by (auto simp: session_start_def set_task_def install_client_def Let_def split: session_task.split prod.split option.split bool.split)
qed (simp_all add: session_wake_def set_task_def clear_all_def admission_add_def admission_remove_def blacklist_add_def
    blacklist_remove_def set_max_clients_def Let_def split: session_task.split)

text \<open>A decision changes only while it is parked.\<close>

lemma wake_asks: "\<forall>p. sd_asks s k \<noteq> AskParked p \<Longrightarrow> sd_asks (admission_wake j to s) k = sd_asks s k"
  by (auto simp: admission_wake_def set_ask_def split: ask.split deferred.split)

lemma server_upd [simp]:
  "ap_server (signal c a) = ap_server a" "ap_server (on_disk js io f a) = ap_server a" "ap_server (on_server g a) = g (ap_server a)"
  by (simp_all add: signal_def on_disk_def on_server_def)

lemma ui_asks:
  assumes "\<not> asks_directly op" "\<forall>p. sd_asks (ap_server a) k \<noteq> AskParked p"
  shows "sd_asks (ap_server (ui_step js io io' op a)) k = sd_asks (ap_server a) k"
proof (cases op)
  case (SetConfig b)
  have "ap_server (set_config_mirror b c) = ap_server c" for c :: "'a app"
    by (simp add: set_config_mirror_def Let_def split: option.split)
  then show ?thesis using SetConfig by (auto simp: set_config_def split: prod.split option.split)
next
  case TunnelDisconnect
  then show ?thesis by (auto simp: tunnel_disconnect_def split: prod.split option.split)
next
  case (AskWakes j timed_out)
  then show ?thesis using assms(2) by (simp add: wake_asks)
qed (use assms in \<open>simp_all add: http_connect_def http_disconnect_def logout_def token_clear_def auth_verify_def auth_signup_def
    persist_outcome_def token_save_def add_admission_def remove_admission_def add_blacklist_def remove_blacklist_def
    persist_admission_def persist_blacklist_def write_admission_def write_blacklist_def ui_set_max_clients_def
    accept_pending_def reject_pending_def tunnel_client_disconnect_def Let_def
    split: option.split sum.split auth_outcome.split\<close>)

definition ignored :: "nat \<Rightarrow> 't desktop \<Rightarrow> bool" where
  "ignored k t \<longleftrightarrow> (\<exists>h. dt_held t k = Some h \<and> (\<forall>g. h \<noteq> InternalHandler g))
     \<and> sd_asks (ap_server (dt_app t)) k \<in> {NotAsked, Answered SilentlyIgnore}"

lemma ignored_app:
  assumes "ignored k t" "dt_held u = dt_held t" "sd_asks (ap_server (dt_app u)) k = sd_asks (ap_server (dt_app t)) k"
  shows "ignored k u"
  using assms by (simp add: ignored_def)

lemma ignored_step: "ignored k t \<Longrightarrow> ignored k (desktop_step js op t)"
proof (cases op)
  case (Http io io' uop)
  assume i: "ignored k t"
  then have "\<forall>p. sd_asks (ap_server (dt_app t)) k \<noteq> AskParked p" by (auto simp: ignored_def)
  then show ?thesis using Http i ui_asks [of uop "dt_app t" k js io io'] by (auto intro: ignored_app)
next
  case (CallArrives j)
  assume "ignored k t"
  then show ?thesis using CallArrives by (auto simp: call_arrives_def ignored_def)
next
  case (Decide j p name now)
  assume "ignored k t"
  then show ?thesis
    using Decide
    by (cases "j = k")
      (auto simp: decide_def ignored_def set_ask_def admission_decide_def pending_park_def close_deferred_def Let_def
         split: option.split incoming_handler.split)
next
  case (CallCancelled j)
  assume "ignored k t"
  then show ?thesis using CallCancelled by (auto simp: ignored_def admission_drop_def set_ask_def split: ask.split)
qed (erule ignored_app;
     simp add: publish_def await_auth_def ws_connect_def pick_mode_def run_one_mode_def run_server_def set_tunnel_def mode_ends_def
       clear_peer_def mode_changed_def teardown_mode_def Let_def
       split: list.split option.split mode_phase.split teardown_stage.split)+

lemma ignored_run: "ignored k t \<Longrightarrow> ignored k (fold (desktop_step js) ops t)"
  by (induction ops arbitrary: t) (simp_all add: ignored_step)

section \<open>Properties\<close>

text \<open>C16. The daemon runs what the user chose. In every interleaving of the mode loop with the HTTP handlers
  and the incoming calls, once the handlers have made their publications and the loop has seen them, the
  mode it runs and, in client mode, the peer it calls are those of the live configuration, and it is asleep
  for want of a mode only when none is chosen. A client tunnel is shown only from client mode to the first
  step of its tear-down. The handler of server mode's manager is installed only from the manager's
  construction to the last step of the tear-down; a call that copies its handler at any other time is
  answered with silence or not at all, whatever happens afterwards. (A call that copied the handler within that
  time is not recalled by the tear-down.)\<close>

theorem mode_loop_follows_choice:
  assumes "t = desktop_run js d cfg ops"
  shows "(ap_sends (dt_app t) = [] \<and> ap_version (dt_app t) \<le> dt_seen t \<longrightarrow>
           (\<forall>m p. dt_loop t = RunningMode m p \<longrightarrow>
              rs_mode (ap_cfg (dt_app t)) = Some m \<and> (m = ''client'' \<longrightarrow> rs_peer_id (ap_cfg (dt_app t)) = p)) \<and>
           (dt_loop t = AwaitMode \<longrightarrow> rs_mode (ap_cfg (dt_app t)) \<noteq> Some ''client'' \<and> rs_mode (ap_cfg (dt_app t)) \<noteq> Some ''server''))
       \<and> (dt_client t \<noteq> None \<longrightarrow> (\<exists>p. dt_loop t = RunningMode ''client'' (Some p)) \<or> dt_loop t = Teardown ''client'' ClearClient)
       \<and> (\<forall>g. dt_handler t = InternalHandler g \<longrightarrow>
            (\<exists>g. dt_loop t = ServerUp g) \<or> dt_loop t = RunningMode ''server'' None \<or> (\<exists>st. dt_loop t = Teardown ''server'' st))
       \<and> (\<forall>k rest. dt_held t k = None \<and> sd_asks (ap_server (dt_app t)) k = NotAsked \<and>
            \<not> ((\<exists>g. dt_loop t = ServerUp g) \<or> dt_loop t = RunningMode ''server'' None \<or> (\<exists>st. dt_loop t = Teardown ''server'' st)) \<longrightarrow>
            sd_asks (ap_server (dt_app (fold (desktop_step js) (CallArrives k # rest) t))) k \<in> {NotAsked, Answered SilentlyIgnore})"
proof -
  have i: "loop_inv t" unfolding assms(1) desktop_run_def by (rule desktop.after [OF desktop.op_init]) blast
  then have f: "follows (choice (dt_app t)) (dt_loop t)" if "ap_sends (dt_app t) = []" "ap_version (dt_app t) \<le> dt_seen t"
    using that by (simp add: loop_inv_def lag_def)
  have h: "serving (dt_loop t)" if "dt_handler t = InternalHandler g" for g
    using i that by (simp add: loop_inv_def)
  have c: "sd_asks (ap_server (dt_app (fold (desktop_step js) (CallArrives k # rest) t))) k \<in> {NotAsked, Answered SilentlyIgnore}"
    if "dt_held t k = None" "sd_asks (ap_server (dt_app t)) k = NotAsked" "\<not> serving (dt_loop t)" for k rest
  proof -
    have "ignored k (call_arrives k t)" using h that by (cases "dt_handler t") (auto simp: ignored_def call_arrives_def)
    then show ?thesis using ignored_run [of k _ js rest] by (simp add: ignored_def)
  qed
  show ?thesis
    using i f h c unfolding serving_def calling_def loop_inv_def
    by (auto simp: follows_def choice_def known_mode_def split: option.splits)
qed

definition ui_choice :: "string option \<Rightarrow> peer_id option \<Rightarrow> ui_op" where
  "ui_choice m p = SetConfig \<lparr>sc_mode = m, sc_nat_mode = None, sc_peer = p, sc_socks5 = None\<rparr>"

definition client_ops :: "config desktop_op list" where
  "client_ops = [AwaitAuth True, WsConnected True, PickMode, Http good good (ui_choice (Some ''client'') (Some ''bob'')), Publish,
     ModeChanged, AwaitAuth True, WsConnected True, PickMode, RunOneMode]"

lemmas desktop_defs = desktop_run_def desktop_start_def await_auth_def ws_connect_def pick_mode_def run_one_mode_def run_server_def
  publish_def mode_changed_def teardown_mode_def call_arrives_def decide_def ui_choice_def set_config_def set_config_disk_def
  set_config_mirror_def known_mode_def app_defs

theorem mode_loop_follows_choice_witness:
  "let t = desktop_run plain_json empty_disk some_cfg client_ops in
     dt_loop t = RunningMode ''client'' (Some ''bob'') \<and> rs_mode (ap_cfg (dt_app t)) = Some ''client''
     \<and> rs_peer_id (ap_cfg (dt_app t)) = Some ''bob''
     \<and> sd_asks (ap_server (dt_app (fold (desktop_step plain_json)
          (CallArrives 3 # [Http good good (AddAdmission ''eve''), Decide 3 ''eve'' None 0]) t))) 3 \<in> {NotAsked, Answered SilentlyIgnore}"
proof -
  let ?t = "desktop_run plain_json empty_disk some_cfg client_ops"
  have e: "dt_loop ?t = RunningMode ''client'' (Some ''bob'')" "ap_sends (dt_app ?t) = []" "ap_version (dt_app ?t) \<le> dt_seen ?t"
    "dt_held ?t 3 = None" "sd_asks (ap_server (dt_app ?t)) 3 = NotAsked"
    by (simp_all add: client_ops_def desktop_defs)
  note T = mode_loop_follows_choice [OF refl, of plain_json empty_disk some_cfg client_ops]
  have "rs_mode (ap_cfg (dt_app ?t)) = Some ''client'' \<and> rs_peer_id (ap_cfg (dt_app ?t)) = Some ''bob''"
    using T e(1-3) by blast
  moreover have "sd_asks (ap_server (dt_app (fold (desktop_step plain_json)
          (CallArrives 3 # [Http good good (AddAdmission ''eve''), Decide 3 ''eve'' None 0]) ?t))) 3 \<in> {NotAsked, Answered SilentlyIgnore}"
    by (rule T [THEN conjunct2, THEN conjunct2, THEN conjunct2, THEN spec, THEN spec, THEN mp]) (simp add: e)
  ultimately show ?thesis using e(1) by (simp add: Let_def)
qed

section \<open>Gaps\<close>

text \<open>A peer chosen while the loop handles a failed call is cleared with the failed one.\<close>

lemma failed_call_clears_new_choice:
  "let t = desktop_run plain_json empty_disk some_cfg
       (client_ops @ [ModeEnds False, Http good good (ui_choice None (Some ''carol'')), ClearPeer, Publish])
   in rs_peer_id (ap_cfg (dt_app t)) = None \<and> cf_peer_id (file_load plain_json True (ap_disk (dt_app t))) = Some ''carol''"
  by (simp add: client_ops_def desktop_defs mode_ends_def clear_peer_def)

text \<open>A call that copied the manager's handler just before the tear-down replaced it is accepted
  when client mode runs.\<close>

definition late_ops :: "config desktop_op list" where
  "late_ops = [Http good good (AddAdmission ''eve''), Http good good (ui_choice (Some ''server'') None), Publish, AwaitAuth True,
     WsConnected True, PickMode, RunOneMode, ModeChanged, TeardownMode, TeardownMode, TeardownMode, AwaitAuth True,
     WsConnected True, PickMode, RunOneMode, RunServer True, RunServer True, CallArrives 3,
     Http good good (ui_choice (Some ''client'') (Some ''bob'')), Publish, ModeChanged, TeardownMode, TeardownMode, TeardownMode,
     AwaitAuth True, WsConnected True, PickMode, RunOneMode, Decide 3 ''eve'' None 0]"

lemma call_accepted_after_teardown:
  "let t = desktop_run plain_json empty_disk some_cfg late_ops
   in dt_loop t = RunningMode ''client'' (Some ''bob'') \<and> sd_asks (ap_server (dt_app t)) 3 = Answered Accept"
  by (simp add: late_ops_def desktop_defs admission_decide_def clear_all_def close_deferred_def client_count_def set_ask_def)

end
