(* ===== verification/Handle_Registry.thy ===== *)
theory Handle_Registry
  imports Flow_Table Transition
begin

text \<open>
  The handle registry of the JNI shims (\<open>jni-shared/src/lib.rs\<close>): objects under 64-bit handles. An insert
  takes its number and then the lock, so inserts interleave; \<open>hr_minted\<close> are the numbers taken whose
  entry is not stored yet. \<open>hr_handed\<close> and \<open>hr_taken\<close> log the handles given out and those taken back.
\<close>

type_synonym handle_id = "64 word"

record 'a registry =
  hr_next :: handle_id
  hr_table :: "(handle_id, 'a) table"
  hr_minted :: "(handle_id \<times> 'a) list"
  hr_handed :: "(handle_id \<times> 'a) list"
  hr_taken :: "(handle_id \<times> 'a) list"

definition registry_new :: "'a registry" where
  "registry_new = \<lparr>hr_next = 1, hr_table = [], hr_minted = [], hr_handed = [], hr_taken = []\<rparr>"

definition insert_mint :: "'a \<Rightarrow> 'a registry \<Rightarrow> 'a registry" where
  "insert_mint v r = r\<lparr>hr_next := hr_next r + 1, hr_minted := hr_minted r @ [(hr_next r, v)], hr_handed := hr_handed r @ [(hr_next r, v)]\<rparr>"

definition insert_store :: "nat \<Rightarrow> 'a registry \<Rightarrow> 'a registry" where
  "insert_store k r =
     (if k < length (hr_minted r) then
        (case hr_minted r ! k of (i, v) \<Rightarrow>
           r\<lparr>hr_table := t_put i v (hr_table r), hr_minted := take k (hr_minted r) @ drop (Suc k) (hr_minted r)\<rparr>)
      else r)"

definition lookup_handle :: "handle_id \<Rightarrow> 'a registry \<Rightarrow> 'a option" where
  "lookup_handle i r = (if i = 0 then None else t_get (hr_table r) i)"

definition remove_handle :: "handle_id \<Rightarrow> 'a registry \<Rightarrow> 'a registry" where
  "remove_handle i r = (if i = 0 then r else r\<lparr>hr_table := t_del i (hr_table r)\<rparr>)"

definition remove_and_take :: "handle_id \<Rightarrow> 'a registry \<Rightarrow> 'a option \<times> 'a registry" where
  "remove_and_take i r =
     (if i = 0 then (None, r)
      else case t_get (hr_table r) i of
        None \<Rightarrow> (None, r)
      | Some v \<Rightarrow> (Some v, r\<lparr>hr_table := t_del i (hr_table r), hr_taken := hr_taken r @ [(i, v)]\<rparr>))"

datatype 'a registry_op = Mint 'a | Store nat | Remove handle_id | Take handle_id

fun registry_step :: "'a registry_op \<Rightarrow> 'a registry \<Rightarrow> 'a registry" where
  "registry_step (Mint v) r = insert_mint v r"
| "registry_step (Store k) r = insert_store k r"
| "registry_step (Remove i) r = remove_handle i r"
| "registry_step (Take i) r = snd (remove_and_take i r)"

section \<open>Invariant\<close>

text \<open>Numbers count up from 1; a number is being stored, in the table, or gone, and the value that goes with
  it is the one it was minted for.\<close>

definition registry_inv :: "nat \<Rightarrow> 'a registry \<Rightarrow> bool" where
  "registry_inv n r \<longleftrightarrow> length (hr_handed r) \<le> n \<and> hr_next r = of_nat (Suc (length (hr_handed r)))
     \<and> map fst (hr_handed r) = map (of_nat \<circ> Suc) [0..<length (hr_handed r)]
     \<and> distinct (map fst (hr_minted r)) \<and> set (hr_minted r) \<subseteq> set (hr_handed r)
     \<and> (\<forall>i v. t_get (hr_table r) i = Some v \<longrightarrow> (i, v) \<in> set (hr_handed r) \<and> i \<notin> fst ` set (hr_minted r))
     \<and> distinct (map fst (hr_taken r)) \<and> set (hr_taken r) \<subseteq> set (hr_handed r)
     \<and> (\<forall>i \<in> fst ` set (hr_taken r). t_get (hr_table r) i = None \<and> i \<notin> fst ` set (hr_minted r))"

lemma counted_distinct: "n < 2 ^ 64 \<Longrightarrow> distinct (map (of_nat \<circ> Suc) [0..<n] :: handle_id list) \<and> 0 \<notin> set (map (of_nat \<circ> Suc) [0..<n] :: handle_id list)"
proof
  assume n: "n < 2 ^ 64"
  have u: "unat (of_nat (Suc k) :: handle_id) = Suc k" if "k < n" for k
    using that n by (subst unat_of_nat) simp
  show "distinct (map (of_nat \<circ> Suc) [0..<n] :: handle_id list)"
    unfolding distinct_map
  proof (intro conjI inj_onI)
    fix a b
    assume "a \<in> set [0..<n]" "b \<in> set [0..<n]" "(of_nat \<circ> Suc) a = ((of_nat \<circ> Suc) b :: handle_id)"
    then show "a = b" using u [of a] u [of b] by simp
  qed simp
  show "0 \<notin> set (map (of_nat \<circ> Suc) [0..<n] :: handle_id list)"
  proof
    assume "0 \<in> set (map (of_nat \<circ> Suc) [0..<n] :: handle_id list)"
    then obtain k where "k < n" "(0 :: handle_id) = of_nat (Suc k)" by auto
    then show False using u [of k] by simp
  qed
qed

lemma fresh_number:
  assumes "registry_inv n r" "Suc n < 2 ^ 64"
  shows "hr_next r \<notin> fst ` set (hr_handed r)"
proof -
  let ?k = "length (hr_handed r)"
  have k: "?k \<le> n" "map fst (hr_handed r) = map (of_nat \<circ> Suc) [0..<?k]" "hr_next r = of_nat (Suc ?k)"
    using assms(1) by (simp_all add: registry_inv_def)
  have "distinct (map (of_nat \<circ> Suc) [0..<Suc ?k] :: handle_id list)" using counted_distinct [of "Suc ?k"] k(1) assms(2) by simp
  then have "of_nat (Suc ?k) \<notin> set (map fst (hr_handed r))" unfolding k(2) by simp
  then show ?thesis using k(3) by (simp del: of_nat_Suc)
qed

lemma inv_taken:
  "registry_inv n r \<Longrightarrow> j \<in> fst ` set (hr_taken r) \<Longrightarrow> t_get (hr_table r) j = None \<and> j \<notin> fst ` set (hr_minted r)"
proof -
  assume "registry_inv n r" and t: "j \<in> fst ` set (hr_taken r)"
  then have "\<forall>i \<in> fst ` set (hr_taken r). t_get (hr_table r) i = None \<and> i \<notin> fst ` set (hr_minted r)"
    unfolding registry_inv_def by (elim conjE)
  then show ?thesis using t by (rule bspec)
qed

lemma inv_entry:
  "registry_inv n r \<Longrightarrow> t_get (hr_table r) j = Some w \<Longrightarrow> (j, w) \<in> set (hr_handed r) \<and> j \<notin> fst ` set (hr_minted r)"
proof -
  assume "registry_inv n r" and t: "t_get (hr_table r) j = Some w"
  then have "\<forall>i v. t_get (hr_table r) i = Some v \<longrightarrow> (i, v) \<in> set (hr_handed r) \<and> i \<notin> fst ` set (hr_minted r)"
    by (simp add: registry_inv_def)
  with t show ?thesis by blast
qed

lemma mint_inv:
  assumes "registry_inv n r" "Suc n < 2 ^ 64"
  shows "registry_inv (Suc n) (insert_mint v r)"
proof -
  note i = assms(1) [unfolded registry_inv_def]
  have f: "hr_next r \<notin> fst ` set (hr_handed r)" by (rule fresh_number [OF assms])
  have "fst ` set (hr_minted r) \<subseteq> fst ` set (hr_handed r)" "fst ` set (hr_taken r) \<subseteq> fst ` set (hr_handed r)" using i by auto
  then have "hr_next r \<notin> fst ` set (hr_minted r)" "hr_next r \<notin> fst ` set (hr_taken r)" using f by blast+
  moreover have "t_get (hr_table r) (hr_next r) = None"
  proof (rule ccontr)
    assume "t_get (hr_table r) (hr_next r) \<noteq> None"
    then obtain w where "(hr_next r, w) \<in> set (hr_handed r)" using i by blast
    then show False using f by (metis fst_conv image_eqI)
  qed
  ultimately have fresh: "hr_next r \<notin> fst ` set (hr_minted r)" "hr_next r \<notin> fst ` set (hr_taken r)"
    "t_get (hr_table r) (hr_next r) = None" by blast+
  show ?thesis
    unfolding registry_inv_def
  proof (intro conjI allI impI ballI)
    fix j w
    assume t: "t_get (hr_table (insert_mint v r)) j = Some w"
    then have "t_get (hr_table r) j = Some w" by (simp add: insert_mint_def)
    moreover from this have "j \<noteq> hr_next r" using fresh(3) by auto
    ultimately show "(j, w) \<in> set (hr_handed (insert_mint v r))" "j \<notin> fst ` set (hr_minted (insert_mint v r))"
      using inv_entry [OF assms(1)] by (auto simp: insert_mint_def)
  next
    fix j
    assume j: "j \<in> fst ` set (hr_taken (insert_mint v r))"
    then have j': "j \<in> fst ` set (hr_taken r)" by (simp add: insert_mint_def)
    then have "j \<noteq> hr_next r" using fresh(2) by blast
    then show "t_get (hr_table (insert_mint v r)) j = None" "j \<notin> fst ` set (hr_minted (insert_mint v r))"
      using inv_taken [OF assms(1) j'] by (auto simp: insert_mint_def)
  qed (use i fresh in \<open>auto simp: insert_mint_def\<close>)
qed

lemma take_drop_nth:
  assumes "k < length xs" "distinct (map fst xs)"
  shows "distinct (map fst (take k xs @ drop (Suc k) xs))" "set (take k xs @ drop (Suc k) xs) \<subseteq> set xs"
    "fst (xs ! k) \<notin> fst ` set (take k xs @ drop (Suc k) xs)"
proof -
  have "xs = take k xs @ xs ! k # drop (Suc k) xs" using assms(1) by (rule id_take_nth_drop)
  then have "distinct (map fst (take k xs @ xs ! k # drop (Suc k) xs))" using assms(2) by metis
  then show "distinct (map fst (take k xs @ drop (Suc k) xs))" "fst (xs ! k) \<notin> fst ` set (take k xs @ drop (Suc k) xs)"
    by auto
  show "set (take k xs @ drop (Suc k) xs) \<subseteq> set xs" using set_take_subset set_drop_subset by fastforce
qed

lemma store_entry:
  assumes "registry_inv n r" "distinct (map fst ms)" "set ms \<subseteq> set (hr_minted r)" "a \<notin> fst ` set ms"
    "a \<notin> fst ` set (hr_taken r)" "(a, v) \<in> set (hr_handed r)"
  shows "registry_inv n (r\<lparr>hr_table := t_put a v (hr_table r), hr_minted := ms\<rparr>)"
proof -
  note i = assms(1) [unfolded registry_inv_def]
  have sub: "fst ` set ms \<subseteq> fst ` set (hr_minted r)" using assms(3) by (rule image_mono)
  show ?thesis
    unfolding registry_inv_def
  proof (intro conjI allI impI ballI)
    fix j w
    assume "t_get (hr_table (r\<lparr>hr_table := t_put a v (hr_table r), hr_minted := ms\<rparr>)) j = Some w"
    then have "j = a \<and> w = v \<or> t_get (hr_table r) j = Some w" by (simp add: tbl.get_put split: if_splits)
    then show "(j, w) \<in> set (hr_handed (r\<lparr>hr_table := t_put a v (hr_table r), hr_minted := ms\<rparr>))"
      "j \<notin> fst ` set (hr_minted (r\<lparr>hr_table := t_put a v (hr_table r), hr_minted := ms\<rparr>))"
      using assms(4,6) inv_entry [OF assms(1), of j w] sub by (simp, blast)+
  next
    fix j
    assume "j \<in> fst ` set (hr_taken (r\<lparr>hr_table := t_put a v (hr_table r), hr_minted := ms\<rparr>))"
    then have t: "j \<in> fst ` set (hr_taken r)" and "j \<noteq> a" using assms(5) by auto
    then show "t_get (hr_table (r\<lparr>hr_table := t_put a v (hr_table r), hr_minted := ms\<rparr>)) j = None"
      "j \<notin> fst ` set (hr_minted (r\<lparr>hr_table := t_put a v (hr_table r), hr_minted := ms\<rparr>))"
      using inv_taken [OF assms(1) t] sub by (simp add: tbl.get_put, simp) blast
  qed (use i assms(2,3) in auto)
qed

lemma store_inv:
  assumes "registry_inv n r"
  shows "registry_inv n (insert_store k r)"
proof (cases "k < length (hr_minted r)")
  case True
  note i = assms [unfolded registry_inv_def]
  obtain a v where a: "hr_minted r ! k = (a, v)" by fastforce
  then have m: "(a, v) \<in> set (hr_minted r)" using True nth_mem by metis
  let ?m = "take k (hr_minted r) @ drop (Suc k) (hr_minted r)"
  have t: "distinct (map fst ?m)" "set ?m \<subseteq> set (hr_minted r)" "a \<notin> fst ` set ?m"
    using take_drop_nth [OF True] i a by (auto simp only: fst_conv)
  have "a \<notin> fst ` set (hr_taken r)" using i m by (metis fst_conv image_eqI)
  moreover have "(a, v) \<in> set (hr_handed r)" using i m by blast
  ultimately have "registry_inv n (r\<lparr>hr_table := t_put a v (hr_table r), hr_minted := ?m\<rparr>)"
    using assms t by (intro store_entry)
  then show ?thesis using True a by (simp add: insert_store_def)
qed (use assms in \<open>simp add: insert_store_def\<close>)

lemma gone_inv:
  assumes "registry_inv n r"
  shows "registry_inv n (remove_handle i r)" "registry_inv n (snd (remove_and_take i r))"
proof -
  note h = assms [unfolded registry_inv_def]
  show "registry_inv n (remove_handle i r)"
    using h unfolding registry_inv_def by (simp add: remove_handle_def tbl.get_del)
  show "registry_inv n (snd (remove_and_take i r))"
  proof (cases "t_get (hr_table r) i")
    case (Some v)
    have "(i, v) \<in> set (hr_handed r)" "i \<notin> fst ` set (hr_minted r)" "i \<notin> fst ` set (hr_taken r)"
      using h Some by force+
    then have "registry_inv n (r\<lparr>hr_table := t_del i (hr_table r), hr_taken := hr_taken r @ [(i, v)]\<rparr>)"
      using h by (simp add: registry_inv_def tbl.get_del)
    then show ?thesis using Some assms by (simp add: remove_and_take_def)
  qed (use assms in \<open>simp add: remove_and_take_def\<close>)
qed

lemma registry_inv_mono: "registry_inv n r \<Longrightarrow> registry_inv (Suc n) r"
  by (simp add: registry_inv_def)

interpretation registry: run_invariant registry_new registry_step "2 ^ 64" registry_inv
proof unfold_locales
  fix n op and r :: "'a registry"
  assume "registry_inv n r" "Suc n < 2 ^ 64"
  then show "registry_inv (Suc n) (registry_step op r)"
    by (cases op) (simp_all add: mint_inv registry_inv_mono store_inv gone_inv)
qed (simp add: registry_inv_def registry_new_def t_get_def)

text \<open>Handles are never 0 and never repeat; a handle finds the object it was given for and no other; and of
  the calls that take a handle back, on whatever threads, at most one gets the object. This holds in every
  interleaving of fewer than \<open>2 ^ 64\<close> operations, in which the counter does not wrap.\<close>

theorem handles_unique:
  assumes "length ops < 2 ^ 64" "r = fold registry_step ops registry_new"
  shows "distinct (map fst (hr_handed r)) \<and> 0 \<notin> fst ` set (hr_handed r)
    \<and> (\<forall>i v w. lookup_handle i r = Some v \<longrightarrow> (i, w) \<in> set (hr_handed r) \<longrightarrow> v = w)
    \<and> distinct (map fst (hr_taken r)) \<and> (\<forall>i. lookup_handle i r \<noteq> None \<longrightarrow> i \<notin> fst ` set (hr_taken r))"
proof -
  have i: "registry_inv (length ops) r" unfolding assms(2) by (rule registry.run [OF assms(1)])
  then have "length (hr_handed r) < 2 ^ 64" using assms(1) by (simp add: registry_inv_def)
  from counted_distinct [OF this] have d: "distinct (map fst (hr_handed r))" "0 \<notin> set (map fst (hr_handed r))"
    using i by (simp_all add: registry_inv_def del: map_map)
  have "v = w" if "lookup_handle j r = Some v" "(j, w) \<in> set (hr_handed r)" for j v w
  proof -
    have "(j, v) \<in> set (hr_handed r)" using that(1) i by (auto simp: lookup_handle_def registry_inv_def split: if_splits)
    then show ?thesis using that(2) d(1) by (metis eq_key_imp_eq_value)
  qed
  moreover have "j \<notin> fst ` set (hr_taken r)" if "lookup_handle j r \<noteq> None" for j
    using that i by (auto simp: registry_inv_def lookup_handle_def split: if_splits)
  moreover have "distinct (map fst (hr_taken r))" using i by (simp add: registry_inv_def)
  ultimately show ?thesis using d by (metis list.set_map)
qed

end
