(* ===== verification/Spec2Isabelle.thy ===== *)
theory Spec2Isabelle
  imports Tcp_Sender Tcp_Control Nat_Sweep Frag_Reassembly Carrier Icmpv6 Tun_Gateway Server_Daemon Socks5 Bale_Signaling Events_Sink
    Tun_Bridge Reactor Lk_Engine Lk_Lifecycle Mode_Loop Handle_Registry
begin

text \<open>
  Verification of BaleVPN, a peer-to-peer VPN that carries IP traffic over the voice calls of a
  messenger. File names below are relative to \<open>src/\<close>; \<open>lktunnel/\<close> stands for
  \<open>lktunnel-rust/lktunnel/src/\<close>, \<open>bale/\<close> for \<open>bale-signaling-rust/bale-signaling/src/\<close>.

  \<^bold>\<open>The program.\<close> A client reads IP packets from a TUN device or accepts SOCKS5 and HTTP connections, a
  server forwards them to the internet. Between them is a tunnel, \<open>LkTunnel\<close>, whose frames travel as
  media of a call. On the way out a packet is queued by \<open>send_ip\<close>, packed into frames by the sender
  task and striped over the tracks; on the way in, frames are unpacked, dispatched by their type byte
  and queued for the reactor thread, which hands them to the TUN bridge, to the userspace NAT, or to the
  kernel-TUN gateway. The NAT terminates every TCP flow of the client with a TCP state machine of its
  own and relays UDP. Calls are placed and answered through the signaling of the messenger: a protobuf
  protocol over gRPC-web and over a WebSocket with an RPC table. Tunnel managers decide when the
  signaling channel is up and keep one tunnel per peer; the daemon's server mode decides whom to admit.

  \<^bold>\<open>Theories.\<close>

  Shared. \<open>Prelude\<close>: word widths, byte buffers, generic lemmas. \<open>Transition\<close>: interleaved systems,
  reachable states, and the locales \<open>invariant_system\<close>, \<open>op_system\<close>, \<open>run_invariant\<close> and
  \<open>framed_invariant\<close>, each interpreted on the components below. \<open>Flow_Table\<close>: the interface
  \<open>keyed_table\<close> of a hash map, interpreted on association lists.

  Packets. \<open>Ip_Addr\<close> (\<open>nat/ip_addr.rs\<close>, \<open>nat/flow_key.rs\<close>), \<open>Checksum\<close> and \<open>Ip_Packet\<close>
  (\<open>nat/ip_packet.rs\<close>): parser, builders, in-place rewrite. \<open>Ip_Packet_Props\<close>, \<open>Builder_Props\<close>: built
  packets are parsed back, their checksums verify, and the incremental rewrite equals a rebuild; the
  transport part is proved once in the locale \<open>segment_layout\<close> and interpreted for TCP and UDP.
  \<open>Dst_Filter\<close> (\<open>nat/filter.rs\<close>): the destination policy against its list of prefixes. \<open>Icmpv6\<close>
  (\<open>ipv6.rs\<close>): the reject is well formed and never answers itself.

  NAT (\<open>lktunnel/nat/\<close>). \<open>Nat_Env\<close>: clock, outbound callback and host sockets as scripts. TCP session
  (\<open>tcp_session.rs\<close>): \<open>Tcp_Types\<close> (state, options), \<open>Tcp_Output\<close> (timers, emission, SACK, RACK, PRR),
  \<open>Tcp_Ack\<close> (ACK processing, timers), \<open>Tcp_Session\<close> (host side, state handlers, entry points);
  \<open>Tcp_Inv\<close> and \<open>Tcp_Reach\<close> (the invariant of every reachable session), \<open>Tcp_Frame\<close> and
  \<open>Tcp_Identity\<close> (what operations leave alone), \<open>Tcp_Stream\<close> (client bytes reach the host in order and
  once), \<open>Tcp_Sender\<close> (segmentation, window limits, giving up), \<open>Tcp_Control\<close> (RST validation, state
  graph). \<open>Udp_Session\<close> (\<open>udp_session.rs\<close>): relay and fragmenting answers. \<open>Nat_Dispatcher\<close>
  (\<open>dispatcher.rs\<close>, \<open>sweep.rs\<close>): flow tables, reassembly, sweep; \<open>Nat_Inv\<close> (invariant of every reachable
  dispatcher), \<open>Frag_Reassembly\<close> (fragments in any order equal the whole datagram), \<open>Nat_Sweep\<close>.

  Tunnel (\<open>lktunnel/\<close>). \<open>Carrier\<close> (\<open>rtp.rs\<close> and the sender task of \<open>lib.rs\<close>): frames and the send
  loop with backpressure. \<open>Lk_Queues\<close> (\<open>lib.rs\<close>): send queue with drain waiters, dispatch of payloads,
  inbound queue with drain tasks; it composes with \<open>Carrier\<close> to the path of a packet from one peer to the
  other, over a network that loses and reorders frames. \<open>Lk_Lifecycle\<close> (\<open>lib.rs\<close>, \<open>quic_tunnel.rs\<close>): connect task, teardown, server mode and TUN
  attachment, QUIC and SOCKS5 slots with the reconnect keeper. \<open>Lk_Engine\<close> (\<open>rtc.rs\<close>, \<open>quic_tunnel.rs\<close>):
  the roster behind the engine's events, the queue of a track, and the QUIC socket, whose datagrams cross
  the tunnel in order (\<open>quic_datagrams_end_to_end\<close>). \<open>Tun_Bridge\<close> (\<open>tun.rs\<close>), \<open>Reactor\<close>
  (\<open>dispatcher.rs\<close>), \<open>Tun_Gateway\<close> (\<open>server/tun_gateway.rs\<close>; its leases are the locale \<open>lease_pool\<close>),
  \<open>Socks5\<close> (\<open>socks5_quic.rs\<close>): request parsing, target envelope, the exit with its filter.

  Managers. \<open>Client_Manager\<close>, \<open>Server_Manager\<close> (\<open>lktunnel/manager.rs\<close>), \<open>Server_Daemon\<close>
  (\<open>bale-vpn-rust/bale-vpn/src/server.rs\<close>, \<open>daemon.rs\<close>), \<open>Events_Sink\<close> (\<open>lk-signaling\<close>).

  Desktop application (\<open>bale-vpn-rust/bale-vpn/src/\<close>). \<open>Config_Store\<close> (\<open>config.rs\<close>, the handlers of \<open>ui.rs\<close>):
  the file follows the state and is never torn. \<open>Mode_Loop\<close> (\<open>run_mode\<close> of \<open>daemon.rs\<close>, and the
  handler that incoming calls meet): the loop runs the mode and peer that were chosen, and a call that arrives
  outside server mode and its tear-down is never accepted. \<open>Handle_Registry\<close> (\<open>bale-vpn-android/rust/jni-shared/src/lib.rs\<close>): handles
  of the JNI shims are unique and taken back once.

  Signaling (\<open>bale/\<close>). \<open>Proto_Wire\<close> (\<open>proto.rs\<close>), \<open>Proto_Fields\<close> (the loop all decoders share),
  \<open>Grpc_Web\<close> (\<open>grpc_web.rs\<close>), \<open>Ws_Frames\<close>, \<open>Ws_Client\<close> (\<open>ws.rs\<close>) with \<open>Ws_Rules\<close> (at most one run
  loop, its slot occupied exactly when the rule asks for it) and \<open>Ws_Rpc\<close> (the RPC table holds the unanswered
  calls, those whose future was dropped included; incoming calls reach the listeners), \<open>Contacts\<close> (\<open>contacts.rs\<close>),
  \<open>Bale_Auth\<close> (\<open>auth.rs\<close>), \<open>Bale_Signaling\<close> (\<open>signaling.rs\<close>, \<open>peer.rs\<close>).

  \<^bold>\<open>How code becomes definitions.\<close> A struct is a record with its fields, an enum a datatype, a method a
  function that takes and returns the record. Integers whose wrap-around matters are words of their
  width; \<open>usize\<close> lengths are natural numbers, and the theorems that mention them hold for all lengths a
  64-bit machine can have. Strings are their bytes. \<open>Result\<close> and \<open>Option\<close> are sums and options, and every
  early return is a branch. Hash maps are association lists, whose order stands for the iteration order.
  Code that runs concurrently is split where the source releases a lock or awaits and what happens in between
  can matter to a theorem; a run is an arbitrary list of such steps, and the invariants hold after every one of
  them. A few sections are one step although the source lets go in between: \<open>bump_session\<close> (the counter, then
  the reconciliation under its lock), \<open>post\<close> (the push, then the wake-up, and never within a poll turn),
  \<open>server_ws_call_ended\<close> (the look at the sessions, then the removal of the pending decision), \<open>clear_all\<close> and
  \<open>drop_boxed\<close>; what another thread can see in between is a state in which the second half is still to come,
  and the properties about them are stated between whole steps. Shared handles are numbers; a
  weak reference is a number with a flag that says whether it upgrades. What comes from outside (socket
  and device answers, the clock, replies of RPCs, engine events, name resolution, the JSON library, the
  cookie jar) is an argument: a list of answers, a script in a record, or a function; what a theorem relies
  on is a hypothesis of it, and its witness instantiates the argument.

  \<^bold>\<open>Bounds and fuel.\<close> Loops are total functions: over the message bytes for decoders (each turn consumes
  at least a tag), over the answer list for device and socket loops (an exhausted list is an answer that
  would block, which ends the loop as in the code), over the buffered bytes for segmentation. The flush
  loop of the sender waits for a track as long as all refuse; it returns \<open>None\<close> when the list of answers
  ends first, and \<open>Carrier\<close> proves that it returns when tracks accept often enough. RPC indexes are unique
  for runs of fewer than \<open>2 ^ 32 - 2\<close> operations, where the 32-bit counter does not wrap, and handles for
  runs of fewer than \<open>2 ^ 64\<close>. The client that
  follows contact pages has as fuel the number of contacts plus one, which is enough for every positive
  page size.

  \<^bold>\<open>What the theorems show.\<close> Invariants of everything reachable: TCP sessions, the dispatcher, managers,
  rule engine and RPC table, peer handles, inbound queue. Safety: no blocked destination is dialled by
  the NAT or the proxy exit, peers of the gateway are isolated, kernel slots are exclusive, one task runs
  per call, no swept dispatcher dangles while drops stay on the reactor's thread, the end of a tunnel is reported
  unless the engine falls silent, the mode loop follows the user's
  choice. Refinement and equivalence: the
  TCP receiver against an abstract byte stream, reassembly against the whole datagram, the incremental
  rewrite against a rebuild, the filter against its prefixes, the reactor against an abstract table of
  registrations, the event fan-out against its log. Round trips: TCP packets, protobuf messages, contact
  lists and pages, packets from peer to peer, the configuration across restarts. Termination and liveness: retransmission gives up, a burst
  completes. Beside them stand lemmas that show where the code does not do what its comments say; each is
  a concrete run (for example \<open>Tun_Bridge.refused_packet_blocks\<close>, \<open>Lk_Queues.drains_pile_up\<close>, the last section of
  \<open>Lk_Lifecycle\<close>, \<open>Config_Store\<close> and \<open>Mode_Loop\<close>, \<open>Nat_Sweep.foreign_drop_dangles\<close>, \<open>Ws_Rules.ws_rule_gaps\<close>, \<open>Server_Daemon.server_recall_gaps\<close>,
  \<open>Bale_Signaling.signaling_gaps\<close>).

  \<^bold>\<open>Not modelled.\<close> The media stack and the negotiation of \<open>rtc.rs\<close> are the \<open>webrtc\<close> and \<open>livekit\<close>
  crates, the endpoint and TLS set-up of \<open>quic_tunnel.rs\<close> \<open>quinn\<close> and \<open>rustls\<close>; of them only what the
  tunnel sees is modelled, as inputs. Creation and configuration of TUN devices are ioctls and shell
  commands. The query handlers and the router of the HTTP interface, the window shell, the JNI entry points
  and the command-line tool move data between the library and the outside and keep no state of their own.
  Log lines, metrics getters and the writer and presence tasks of the WebSocket client are left out; they do
  not influence the state that is modelled.
\<close>

end
